(* ===== verification/Kernel_Prelude.thy ===== *)
theory Kernel_Prelude
  imports Main "HOL-Library.Word"
begin

text \<open>
  Shared vocabulary of the development: the C integer types as words, C strings as byte
  lists, byte buffers with the copy primitive of the kernel's local \<open>memcpy\<close> and
  \<open>memset\<close> helpers, the little-endian codecs of the on-disk structures, and the
  lemma collections the component proofs draw on.
\<close>

unbundle bit_operations_syntax

type_synonym u8 = "8 word"
type_synonym u16 = "16 word"
type_synonym u32 = "32 word"
type_synonym u64 = "64 word"

text \<open>A C buffer is the list of its bytes, a C string the bytes before the first NUL.\<close>

type_synonym bytes = "u8 list"

named_theorems buf_simps "length and access laws of byte buffers"
named_theorems le_simps "little-endian codec laws"

subsection \<open>C strings\<close>

definition c_str :: "bytes \<Rightarrow> bytes" where
  "c_str s = takeWhile (\<lambda>b. b \<noteq> 0) s"

definition ascii :: "string \<Rightarrow> bytes" where
  "ascii s = map (\<lambda>c. of_nat (of_char c)) s"

lemma c_str_idem [simp]: "c_str (c_str s) = c_str s"
  by (simp add: c_str_def takeWhile_idem)

lemma c_str_no_nul: "0 \<notin> set (c_str s)"
  by (auto simp: c_str_def dest: set_takeWhileD)

lemma c_str_id: "0 \<notin> set s \<Longrightarrow> c_str s = s"
  by (auto simp: c_str_def takeWhile_eq_all_conv)

lemma length_c_str: "length (c_str s) \<le> length s"
  by (simp add: c_str_def length_takeWhile_le)

subsection \<open>Buffers\<close>

text \<open>
  \<open>blit off src dst\<close> copies the bytes \<open>src\<close> over \<open>dst\<close> from offset \<open>off\<close> on; the
  length of \<open>dst\<close> does not change, so bytes past its end are dropped (the callers prove
  that there are none where it matters).
\<close>

definition blit :: "nat \<Rightarrow> 'a list \<Rightarrow> 'a list \<Rightarrow> 'a list" where
  "blit off src dst = take off dst @ take (length dst - off) src @ drop (off + length src) dst"

definition seg :: "nat \<Rightarrow> nat \<Rightarrow> 'a list \<Rightarrow> 'a list" where
  "seg off n xs = take n (drop off xs)"

lemma length_blit [simp, buf_simps]: "off \<le> length dst \<Longrightarrow> length (blit off src dst) = length dst"
  by (simp add: blit_def)

lemma length_seg [buf_simps]: "length (seg off n xs) = min n (length xs - off)"
  by (simp add: seg_def)

lemma seg_exact [simp]: "off + n \<le> length xs \<Longrightarrow> length (seg off n xs) = n"
  by (simp add: seg_def)

lemma nth_seg [simp]: "off + n \<le> length xs \<Longrightarrow> i < n \<Longrightarrow> seg off n xs ! i = xs ! (off + i)"
  by (simp add: seg_def)

lemma nth_blit [buf_simps]:
  assumes "off + length src \<le> length dst" and "i < length dst"
  shows "blit off src dst ! i =
    (if off \<le> i \<and> i < off + length src then src ! (i - off) else dst ! i)"
  using assms by (auto simp: blit_def nth_append min_def)

lemma blit_nil [simp]: "off \<le> length dst \<Longrightarrow> blit off [] dst = dst"
  by (simp add: blit_def)

lemma blit_whole [simp]: "length src = length dst \<Longrightarrow> blit 0 src dst = src"
  by (simp add: blit_def)

lemma seg_append: "seg i m xs @ seg (i + m) n xs = seg i (m + n) xs"
  by (simp add: seg_def take_add add.commute)

lemma seg_blit_same:
  assumes "off + length src \<le> length dst"
  shows "seg off (length src) (blit off src dst) = src"
  using assms by (simp add: seg_def blit_def)

lemma seg_blit_other:
  assumes "off + length src \<le> length dst" and "o2 + n \<le> length dst"
    and "o2 + n \<le> off \<or> off + length src \<le> o2"
  shows "seg o2 n (blit off src dst) = seg o2 n dst"
  by (rule nth_equalityI) (use assms in \<open>auto simp: nth_blit\<close>)

subsection \<open>Little-endian codecs\<close>

definition join16 :: "u8 \<Rightarrow> u8 \<Rightarrow> u16" where
  "join16 a b = ucast a OR push_bit 8 (ucast b)"

definition join32 :: "u8 \<Rightarrow> u8 \<Rightarrow> u8 \<Rightarrow> u8 \<Rightarrow> u32" where
  "join32 a b c d =
     ucast a OR push_bit 8 (ucast b) OR push_bit 16 (ucast c) OR push_bit 24 (ucast d)"

definition get_le16 :: "bytes \<Rightarrow> nat \<Rightarrow> u16" where
  "get_le16 b i = join16 (b ! i) (b ! (i + 1))"

definition get_le32 :: "bytes \<Rightarrow> nat \<Rightarrow> u32" where
  "get_le32 b i = join32 (b ! i) (b ! (i + 1)) (b ! (i + 2)) (b ! (i + 3))"

definition le16 :: "u16 \<Rightarrow> bytes" where
  "le16 v = [ucast (v AND 0xFF), ucast (drop_bit 8 v AND 0xFF)]"

definition le32 :: "u32 \<Rightarrow> bytes" where
  "le32 v = [ucast (v AND 0xFF), ucast (drop_bit 8 v AND 0xFF),
             ucast (drop_bit 16 v AND 0xFF), ucast (drop_bit 24 v AND 0xFF)]"

definition le64 :: "u64 \<Rightarrow> bytes" where
  "le64 v = le32 (ucast v) @ le32 (ucast (drop_bit 32 v))"

definition get_le64 :: "bytes \<Rightarrow> nat \<Rightarrow> u64" where
  "get_le64 b i = push_bit 32 (ucast (get_le32 b (i + 4))) OR ucast (get_le32 b i)"

lemma length_le16 [simp]: "length (le16 v) = 2"
  by (simp add: le16_def)

lemma length_le32 [simp]: "length (le32 v) = 4"
  by (simp add: le32_def)

lemma length_le64 [simp]: "length (le64 v) = 8"
  by (simp add: le64_def)

lemma bit_u8_high: "bit (x :: u8) n \<Longrightarrow> n < 8"
  using bit_imp_le_length [of x n] by simp

lemma ff_mask: "(0xFF :: 'a::len word) = mask 8"
  by (simp add: mask_eq_exp_minus_1)

lemma ucast_and_ff [simp]: "(ucast (v AND 0xFF) :: u8) = ucast (v :: 'a::len word)"
  unfolding ff_mask by (rule bit_word_eqI) (auto simp: bit_simps dest: bit_imp_le_length)

lemma join16_split [le_simps]: "join16 (ucast v) (ucast (drop_bit 8 v)) = v"
  unfolding join16_def
proof (rule bit_word_eqI)
  fix n assume n: "n < LENGTH(16)"
  consider "n < 8" | "8 \<le> n" by linarith
  then show "bit (ucast (ucast v :: u8) OR push_bit 8 (ucast (ucast (drop_bit 8 v) :: u8)) :: u16) n
    \<longleftrightarrow> bit v n"
    by cases (use n in \<open>auto simp: bit_simps\<close>)
qed

lemma join32_split [le_simps]:
  "join32 (ucast v) (ucast (drop_bit 8 v)) (ucast (drop_bit 16 v)) (ucast (drop_bit 24 v)) = v"
  unfolding join32_def
proof (rule bit_word_eqI)
  fix n assume n: "n < LENGTH(32)"
  consider "n < 8" | "8 \<le> n \<and> n < 16" | "16 \<le> n \<and> n < 24" | "24 \<le> n" by linarith
  then show "bit (ucast (ucast v :: u8) OR push_bit 8 (ucast (ucast (drop_bit 8 v) :: u8))
      OR push_bit 16 (ucast (ucast (drop_bit 16 v) :: u8))
      OR push_bit 24 (ucast (ucast (drop_bit 24 v) :: u8)) :: u32) n \<longleftrightarrow> bit v n"
    by cases (use n in \<open>auto simp: bit_simps\<close>)
qed

lemma get_le16_le16 [le_simps]: "get_le16 (le16 v) 0 = v"
  by (simp add: get_le16_def le16_def join16_split)

lemma get_le32_le32 [le_simps]: "get_le32 (le32 v) 0 = v"
  by (simp add: get_le32_def le32_def join32_split numeral_2_eq_2 numeral_3_eq_3)

lemma get_le64_le64 [le_simps]: "get_le64 (le64 v) 0 = v"
proof -
  have "get_le32 (le64 v) 0 = ucast v" "get_le32 (le64 v) 4 = ucast (drop_bit 32 v)"
    using get_le32_le32 [of "ucast v"] get_le32_le32 [of "ucast (drop_bit 32 v)"]
    by (simp_all add: le64_def get_le32_def le32_def nth_append numeral_2_eq_2 numeral_3_eq_3)
  moreover have "push_bit 32 (ucast (ucast (drop_bit 32 v) :: u32)) OR ucast (ucast v :: u32) = (v :: u64)"
  proof (rule bit_word_eqI)
    fix n assume n: "n < LENGTH(64)"
    consider "n < 32" | "32 \<le> n" by linarith
    then show "bit (push_bit 32 (ucast (ucast (drop_bit 32 v) :: u32)) OR ucast (ucast v :: u32) :: u64) n \<longleftrightarrow> bit v n"
      by cases (use n in \<open>auto simp: bit_simps\<close>)
  qed
  ultimately show ?thesis by (simp add: get_le64_def)
qed

text \<open>Reading through a buffer depends on the bytes of the field only.\<close>

lemma get_le32_seg: "i + 4 \<le> length b \<Longrightarrow> get_le32 b i = get_le32 (seg i 4 b) 0"
  by (simp add: get_le32_def)

lemma get_le16_seg: "i + 2 \<le> length b \<Longrightarrow> get_le16 b i = get_le16 (seg i 2 b) 0"
  by (simp add: get_le16_def)

lemma get_le32_blit [le_simps]:
  "i + 4 \<le> length b \<Longrightarrow> get_le32 (blit i (le32 v) b) i = v"
  by (subst get_le32_seg) (use seg_blit_same [of i "le32 v" b] in \<open>simp_all add: le_simps\<close>)

lemma get_le32_blit_other [le_simps]:
  assumes "i + 4 \<le> length b" "j + length src \<le> length b" "i + 4 \<le> j \<or> j + length src \<le> i"
  shows "get_le32 (blit j src b) i = get_le32 b i"
proof -
  have "get_le32 (blit j src b) i = get_le32 (seg i 4 (blit j src b)) 0"
    using assms by (intro get_le32_seg) simp
  also have "\<dots> = get_le32 (seg i 4 b) 0"
    using assms by (simp add: seg_blit_other)
  finally show ?thesis using assms(1) by (simp add: get_le32_seg [symmetric])
qed

lemma get_le16_blit: "i + 2 \<le> length b \<Longrightarrow> get_le16 (blit i (le16 v) b) i = v"
  by (subst get_le16_seg) (use seg_blit_same [of i "le16 v" b] in \<open>simp_all add: le_simps\<close>)

lemma get_le16_blit_other:
  assumes "i + 2 \<le> length b" "j + length src \<le> length b" "i + 2 \<le> j \<or> j + length src \<le> i"
  shows "get_le16 (blit j src b) i = get_le16 b i"
proof -
  have "get_le16 (blit j src b) i = get_le16 (seg i 2 (blit j src b)) 0"
    using assms by (intro get_le16_seg) simp
  also have "\<dots> = get_le16 (seg i 2 b) 0"
    using assms by (simp add: seg_blit_other)
  finally show ?thesis using assms(1) by (simp add: get_le16_seg [symmetric])
qed

subsection \<open>Lists updated by index\<close>

lemma update_same_field: "f y = f (xs ! k) \<Longrightarrow> f (xs[k := y] ! i) = f (xs ! i)"
  by (cases "k < length xs"; cases "i = k") (auto simp: list_update_beyond)

subsection \<open>Words and naturals\<close>

lemma unat_of_nat_small: "n < 2 ^ LENGTH('a) \<Longrightarrow> unat (of_nat n :: 'a::len word) = n"
  by (simp add: unat_of_nat take_bit_nat_eq_self)

lemma of_nat_eq_0_iff_small: "n < 2 ^ LENGTH('a) \<Longrightarrow> (of_nat n :: 'a::len word) = 0 \<longleftrightarrow> n = 0"
  using unat_of_nat_small [of n, where 'a = 'a] by (auto simp: unat_eq_0)

lemma of_nat_inj_small:
  "m < 2 ^ LENGTH('a) \<Longrightarrow> n < 2 ^ LENGTH('a) \<Longrightarrow> (of_nat m :: 'a::len word) = of_nat n \<longleftrightarrow> m = n"
  by (metis unat_of_nat_small)

lemma unat_add_small:
  "unat (a :: 'a::len word) + unat b < 2 ^ LENGTH('a) \<Longrightarrow> unat (a + b) = unat a + unat b"
  by (simp add: unat_word_ariths)

lemma unat_sub_small: "b \<le> (a :: 'a::len word) \<Longrightarrow> unat (a - b) = unat a - unat b"
  by (simp add: unat_sub)

lemma unat_ucast_up: "LENGTH('a) \<le> LENGTH('b) \<Longrightarrow> unat (ucast (w :: 'a::len word) :: 'b::len word) = unat w"
proof -
  assume "LENGTH('a) \<le> LENGTH('b)"
  then have "unat w < 2 ^ LENGTH('b)" by (rule less_le_trans [OF unsigned_less power_increasing]) simp
  then show ?thesis by (simp add: unsigned_ucast_eq take_bit_nat_eq_self)
qed

end
