(* ===== verification/Page_Allocator.thy ===== *)
theory Page_Allocator
  imports Kernel_Prelude
begin

text \<open>
  The interface between the physical page allocator and its clients (the kernel heap, the
  scheduler's stacks, the network driver's buffers): an allocation returns the address of
  a managed page nobody owns, or 0 when there is none. The second locale adds that the
  lowest free page is taken, which is what the callers that ask for several pages in a
  row and use them as one region rely on.
\<close>

definition page_addr :: "nat \<Rightarrow> u64" where
  "page_addr n = of_nat (n * 4096)"

text \<open>The callers that take several pages in a row stop at the first failure.\<close>

fun alloc_pages :: "('s \<Rightarrow> u64 \<times> 's) \<Rightarrow> nat \<Rightarrow> 's \<Rightarrow> u64 list option \<times> 's" where
  "alloc_pages al 0 s = (Some [], s)"
| "alloc_pages al (Suc k) s =
     (case al s of (p, s') \<Rightarrow>
        if p = 0 then (None, s')
        else (case alloc_pages al k s' of
                (None, s'') \<Rightarrow> (None, s'')
              | (Some ps, s'') \<Rightarrow> (Some (p # ps), s'')))"

lemma alloc_pages_nonempty: "0 < k \<Longrightarrow> alloc_pages al k s \<noteq> (Some [], s')"
  by (cases k) (auto split: prod.splits option.splits)

locale page_allocator =
  fixes alloc :: "'s \<Rightarrow> u64 \<times> 's"
    and free :: "u64 \<Rightarrow> 's \<Rightarrow> 's"
    and owned :: "'s \<Rightarrow> nat set"
    and pool :: "nat set"
    and invar :: "'s \<Rightarrow> bool"
  assumes pool_bound: "n \<in> pool \<Longrightarrow> 0 < n \<and> n < 2 ^ 32"
    and alloc_ok: "invar s \<Longrightarrow> alloc s = (p, s') \<Longrightarrow> p \<noteq> 0 \<Longrightarrow>
      \<exists>n \<in> pool. n \<notin> owned s \<and> p = page_addr n \<and> owned s' = insert n (owned s) \<and> invar s'"
    and alloc_full: "invar s \<Longrightarrow> alloc s = (0, s') \<Longrightarrow> s' = s \<and> pool \<subseteq> owned s"
    and free_ok: "invar s \<Longrightarrow> n \<in> pool \<Longrightarrow>
      owned (free (page_addr n) s) = owned s - {n} \<and> invar (free (page_addr n) s)"

lemma page_addr_unat: "n < 2 ^ 32 \<Longrightarrow> unat (page_addr n) = n * 4096"
  unfolding page_addr_def by (rule unat_of_nat_small) simp

lemma page_addr_inj:
  "m < 2 ^ 32 \<Longrightarrow> n < 2 ^ 32 \<Longrightarrow> page_addr m = page_addr n \<longleftrightarrow> m = n"
  by (metis mult_cancel2 page_addr_unat zero_neq_numeral)

lemma page_addr_nonzero: "0 < n \<Longrightarrow> n < 2 ^ 32 \<Longrightarrow> page_addr n \<noteq> 0"
  using page_addr_unat [of n] by (metis mult_is_0 not_less0 unat_0 zero_neq_numeral)

context page_allocator
begin

lemma alloc_pages_ok:
  assumes "invar s" and "alloc_pages alloc k s = (Some ps, s')"
  shows "\<exists>ns. ps = map page_addr ns \<and> length ns = k \<and> distinct ns \<and> set ns \<subseteq> pool
    \<and> set ns \<inter> owned s = {} \<and> owned s' = owned s \<union> set ns \<and> invar s'"
  using assms
proof (induction k arbitrary: s ps)
  case 0
  then show ?case by auto
next
  case (Suc k)
  obtain p s1 where a: "alloc s = (p, s1)" by fastforce
  from Suc.prems a obtain qs where p: "p \<noteq> 0" and r: "alloc_pages alloc k s1 = (Some qs, s')"
    and ps: "ps = p # qs"
    by (auto split: if_splits prod.splits option.splits)
  from alloc_ok [OF Suc.prems(1) a p] obtain n where n: "n \<in> pool" "n \<notin> owned s"
    "p = page_addr n" "owned s1 = insert n (owned s)" "invar s1" by blast
  from Suc.IH [OF n(5) r] obtain ns where "qs = map page_addr ns" "length ns = k" "distinct ns"
    "set ns \<subseteq> pool" "set ns \<inter> owned s1 = {}" "owned s' = owned s1 \<union> set ns" "invar s'" by blast
  with n ps show ?case by (intro exI [of _ "n # ns"]) auto
qed

lemma alloc_pages_fail:
  assumes "invar s" and "alloc_pages alloc k s = (None, s')"
  shows "pool \<subseteq> owned s' \<and> owned s \<subseteq> owned s' \<and> invar s'"
  using assms
proof (induction k arbitrary: s)
  case 0
  then show ?case by simp
next
  case (Suc k)
  obtain p s1 where a: "alloc s = (p, s1)" by fastforce
  show ?case
  proof (cases "p = 0")
    case True
    with Suc.prems a alloc_full [of s s1] show ?thesis by auto
  next
    case False
    with alloc_ok [OF Suc.prems(1) a] have "owned s \<subseteq> owned s1" "invar s1" by auto
    moreover from False Suc.prems(2) a have "alloc_pages alloc k s1 = (None, s')"
      by (auto split: prod.splits option.splits)
    ultimately show ?thesis using Suc.IH by blast
  qed
qed

lemma alloc_page_frame:
  assumes "invar s" and "alloc s = (p, s')"
  shows "owned s \<subseteq> owned s' \<and> invar s'"
proof (cases "p = 0")
  case True
  with assms alloc_full [of s s'] show ?thesis by auto
next
  case False
  with alloc_ok [OF assms] show ?thesis by auto
qed

end

text \<open>
  First fit: the page returned is the lowest one not owned. While the owned pages are an
  initial segment of the pool (nothing has been freed), the next pages handed out are
  consecutive.
\<close>

definition owned_below :: "nat set \<Rightarrow> nat set \<Rightarrow> nat \<Rightarrow> bool" where
  "owned_below pool own k \<longleftrightarrow> (\<forall>n \<in> pool. n \<in> own \<longleftrightarrow> n < k)"

locale first_fit_allocator = page_allocator alloc free owned pool invar
  for alloc :: "'s \<Rightarrow> u64 \<times> 's" and free owned pool invar +
  assumes first_fit: "invar s \<Longrightarrow> alloc s = (page_addr n, s') \<Longrightarrow> n \<in> pool \<Longrightarrow>
      m \<in> pool \<Longrightarrow> m < n \<Longrightarrow> m \<in> owned s"
begin

lemma alloc_next:
  assumes s: "invar s" "owned_below pool (owned s) k" and a: "alloc s = (p, s')" "p \<noteq> 0"
    and dense: "\<And>n. n \<in> pool \<Longrightarrow> k \<le> n \<Longrightarrow> k \<in> pool"
  shows "p = page_addr k \<and> k \<in> pool \<and> owned_below pool (owned s') (Suc k) \<and> invar s'"
proof -
  from alloc_ok [OF s(1) a] obtain n where n: "n \<in> pool" "n \<notin> owned s" "p = page_addr n"
    "owned s' = insert n (owned s)" "invar s'" by blast
  have "k \<le> n" using s(2) n(1,2) by (auto simp: owned_below_def)
  moreover have "k \<in> pool" using dense n(1) \<open>k \<le> n\<close> by blast
  moreover have "\<not> k < n"
    using first_fit [of s n s' k] s n a \<open>k \<in> pool\<close> by (auto simp: owned_below_def)
  ultimately have "n = k" by simp
  with n s(2) \<open>k \<in> pool\<close> show ?thesis by (auto simp: owned_below_def less_Suc_eq)
qed

lemma alloc_pages_consecutive:
  assumes "invar s" "owned_below pool (owned s) k" "alloc_pages alloc j s = (Some ps, s')"
    and dense: "\<And>m n. n \<in> pool \<Longrightarrow> m \<le> n \<Longrightarrow> k \<le> m \<Longrightarrow> m \<in> pool"
  shows "ps = map page_addr [k..<k + j] \<and> owned_below pool (owned s') (k + j) \<and> invar s' \<and> {k..<k + j} \<subseteq> pool"
  using assms
proof (induction j arbitrary: s k ps)
  case 0
  then show ?case by simp
next
  case (Suc j)
  obtain p s1 where a: "alloc s = (p, s1)" by fastforce
  from Suc.prems(3) a obtain qs where p: "p \<noteq> 0" and r: "alloc_pages alloc j s1 = (Some qs, s')"
    and ps: "ps = p # qs"
    by (auto split: if_splits prod.splits option.splits)
  have n: "p = page_addr k" "k \<in> pool" "owned_below pool (owned s1) (Suc k)" "invar s1"
    using alloc_next [OF Suc.prems(1,2) a p] Suc.prems(4) by blast+
  have "qs = map page_addr [Suc k..<Suc k + j] \<and> owned_below pool (owned s') (Suc k + j) \<and> invar s'
      \<and> {Suc k..<Suc k + j} \<subseteq> pool"
    using Suc.IH [OF n(4,3) r] Suc.prems(4) Suc_leD by blast
  moreover have "{k..<k + Suc j} = insert k {Suc k..<Suc k + j}" by auto
  moreover have "[k..<k + Suc j] = k # [Suc k..<Suc k + j]"
    by (simp add: upt_conv_Cons del: upt_Suc)
  ultimately show ?case using n ps by (simp del: upt_Suc)
qed

lemma alloc_pages_succeeds:
  assumes "invar s" "owned_below pool (owned s) k" "{k..<k + j} \<subseteq> pool"
  shows "fst (alloc_pages alloc j s) \<noteq> None"
  using assms
proof (induction j arbitrary: s k)
  case 0
  then show ?case by simp
next
  case (Suc j)
  obtain p s1 where a: "alloc s = (p, s1)" by fastforce
  have k: "k \<in> pool" using Suc.prems(3) by auto
  have "p \<noteq> 0"
    using alloc_full [OF Suc.prems(1)] a k Suc.prems(2) by (auto simp: owned_below_def)
  with alloc_next [OF Suc.prems(1,2) a] k have "owned_below pool (owned s1) (Suc k)" "invar s1" by auto
  moreover have "{Suc k..<Suc k + j} \<subseteq> pool" using Suc.prems(3) by auto
  ultimately have "fst (alloc_pages alloc j s1) \<noteq> None" using Suc.IH by blast
  with a \<open>p \<noteq> 0\<close> show ?case by (auto split: prod.splits)
qed

end

end
