(* ===== verification/Pmm.thy ===== *)
theory Pmm
  imports Page_Allocator
begin

text \<open>
  The physical page allocator (\<open>mm/pmm.c\<close>, \<open>mm/pmm.h\<close>): a bitmap with one bit per 4 KB page,
  set for the pages in use. The state is the array \<open>pmm_bitmap\<close>; a page index is a
  \<open>nat\<close>, a pointer a 64-bit word with 0 for NULL. The messages printed to the console
  are left out. The theory ends with the interpretation of the page allocator interface.
\<close>

type_synonym pmm = bytes

definition TOTAL_PAGES :: nat where "TOTAL_PAGES = 65536"
definition PAGE_SIZE :: nat where "PAGE_SIZE = 4096"

record pmm_stats =
  total_pages :: nat
  reserved_pages :: nat
  used_pages :: nat
  free_pages :: nat
  page_size :: nat

definition bitmap_set :: "nat \<Rightarrow> pmm \<Rightarrow> pmm" where
  "bitmap_set i bm = bm[i div 8 := bm ! (i div 8) OR push_bit (i mod 8) 1]"

definition bitmap_clear :: "nat \<Rightarrow> pmm \<Rightarrow> pmm" where
  "bitmap_clear i bm = bm[i div 8 := bm ! (i div 8) AND NOT (push_bit (i mod 8) 1)]"

definition bitmap_test :: "nat \<Rightarrow> pmm \<Rightarrow> bool" where
  "bitmap_test i bm \<longleftrightarrow> bm ! (i div 8) AND push_bit (i mod 8) 1 \<noteq> 0"

text \<open>
  \<open>pmm_init\<close> marks every page used and then frees the pages from 2 MB on.
\<close>

definition pmm_init :: pmm where
  "pmm_init = fold bitmap_clear [512..<TOTAL_PAGES] (replicate (TOTAL_PAGES div 8) 0xFF)"

function pmm_scan :: "nat \<Rightarrow> pmm \<Rightarrow> nat option" where
  "pmm_scan i bm =
     (if i < TOTAL_PAGES
      then (if \<not> bitmap_test i bm then Some i else pmm_scan (Suc i) bm)
      else None)"
  by pat_completeness auto
termination
  by (relation "measure (\<lambda>(i, bm). TOTAL_PAGES - i)") auto

declare pmm_scan.simps [simp del]

definition pmm_alloc_page :: "pmm \<Rightarrow> u64 \<times> pmm" where
  "pmm_alloc_page bm =
     (case pmm_scan 512 bm of
        Some i \<Rightarrow> (of_nat (i * PAGE_SIZE), bitmap_set i bm)
      | None \<Rightarrow> (0, bm))"

definition pmm_free_page :: "u64 \<Rightarrow> pmm \<Rightarrow> pmm" where
  "pmm_free_page ptr bm =
     (let page_idx = unat (ptr div of_nat PAGE_SIZE)
      in if 512 \<le> page_idx \<and> page_idx < TOTAL_PAGES then bitmap_clear page_idx bm else bm)"

definition pmm_get_stats :: "pmm \<Rightarrow> pmm_stats" where
  "pmm_get_stats bm =
     (let used = length (filter (\<lambda>i. bitmap_test i bm) [512..<TOTAL_PAGES])
      in \<lparr>total_pages = TOTAL_PAGES, reserved_pages = 512, used_pages = used,
          free_pages = (TOTAL_PAGES - 512) - used, page_size = PAGE_SIZE\<rparr>)"

subsection \<open>The bitmap as a set of pages\<close>

definition pmm_used :: "pmm \<Rightarrow> nat set" where
  "pmm_used bm = {i. i < TOTAL_PAGES \<and> bitmap_test i bm}"

definition pmm_pool :: "nat set" where
  "pmm_pool = {512..<TOTAL_PAGES}"

definition pmm_inv :: "pmm \<Rightarrow> bool" where
  "pmm_inv bm \<longleftrightarrow> length bm = TOTAL_PAGES div 8"

lemma bitmap_test_bit: "bitmap_test i bm \<longleftrightarrow> bit (bm ! (i div 8)) (i mod 8)"
  unfolding bitmap_test_def bit_iff_and_push_bit_not_eq_0 ..

lemma same_byte: "(i :: nat) div 8 = j div 8 \<Longrightarrow> i mod 8 = j mod 8 \<longleftrightarrow> i = j"
  by (metis div_mod_decomp)

lemma test_set:
  "i div 8 < length bm \<Longrightarrow> bitmap_test j (bitmap_set i bm) \<longleftrightarrow> j = i \<or> bitmap_test j bm"
  by (cases "i div 8 = j div 8")
    (auto simp: bitmap_test_bit bitmap_set_def bit_simps same_byte nth_list_update)

lemma test_clear:
  "i div 8 < length bm \<Longrightarrow> bitmap_test j (bitmap_clear i bm) \<longleftrightarrow> j \<noteq> i \<and> bitmap_test j bm"
  by (cases "i div 8 = j div 8")
    (auto simp: bitmap_test_bit bitmap_clear_def bit_simps same_byte nth_list_update)

lemma length_bitmap [simp]:
  "length (bitmap_set i bm) = length bm" "length (bitmap_clear i bm) = length bm"
  by (simp_all add: bitmap_set_def bitmap_clear_def)

lemma page_byte: "pmm_inv bm \<Longrightarrow> i < TOTAL_PAGES \<Longrightarrow> i div 8 < length bm"
  by (simp add: pmm_inv_def TOTAL_PAGES_def)

lemma used_set: "pmm_inv bm \<Longrightarrow> i < TOTAL_PAGES \<Longrightarrow> pmm_used (bitmap_set i bm) = insert i (pmm_used bm)"
  by (auto simp: pmm_used_def test_set page_byte)

lemma used_clear: "pmm_inv bm \<Longrightarrow> i < TOTAL_PAGES \<Longrightarrow> pmm_used (bitmap_clear i bm) = pmm_used bm - {i}"
  by (auto simp: pmm_used_def test_clear page_byte)

lemma pmm_inv_bitmap [simp]:
  "pmm_inv (bitmap_set i bm) = pmm_inv bm" "pmm_inv (bitmap_clear i bm) = pmm_inv bm"
  by (simp_all add: pmm_inv_def)

lemma scan_Some:
  "pmm_scan i bm = Some n \<Longrightarrow>
    i \<le> n \<and> n < TOTAL_PAGES \<and> \<not> bitmap_test n bm \<and> (\<forall>m. i \<le> m \<and> m < n \<longrightarrow> bitmap_test m bm)"
proof (induction i bm rule: pmm_scan.induct)
  case (1 i bm)
  show ?case
  proof (cases "i < TOTAL_PAGES \<and> bitmap_test i bm")
    case True
    with "1.prems" have "pmm_scan (Suc i) bm = Some n" by (simp add: pmm_scan.simps [of i])
    with "1.IH" True have "Suc i \<le> n \<and> n < TOTAL_PAGES \<and> \<not> bitmap_test n bm
      \<and> (\<forall>m. Suc i \<le> m \<and> m < n \<longrightarrow> bitmap_test m bm)" by simp
    with True show ?thesis by (auto simp: Suc_le_eq) (metis le_neq_implies_less)
  next
    case False
    with "1.prems" have "i = n" "i < TOTAL_PAGES" "\<not> bitmap_test i bm"
      by (auto simp: pmm_scan.simps [of i] split: if_splits)
    then show ?thesis by auto
  qed
qed

lemma scan_None: "pmm_scan i bm = None \<Longrightarrow> i \<le> m \<Longrightarrow> m < TOTAL_PAGES \<Longrightarrow> bitmap_test m bm"
proof (induction i bm rule: pmm_scan.induct)
  case (1 i bm)
  from "1.prems" have t: "i < TOTAL_PAGES" "bitmap_test i bm" "pmm_scan (Suc i) bm = None"
    by (auto simp: pmm_scan.simps [of i] split: if_splits)
  show ?case
  proof (cases "i = m")
    case True
    with t show ?thesis by simp
  next
    case False
    with "1.IH" t "1.prems" show ?thesis by simp
  qed
qed

lemma page_div: "n < TOTAL_PAGES \<Longrightarrow> unat (page_addr n div of_nat PAGE_SIZE) = n"
  by (simp add: unat_div page_addr_unat TOTAL_PAGES_def PAGE_SIZE_def)

lemma alloc_page_cases:
  "pmm_alloc_page bm = (p, bm') \<Longrightarrow>
    (\<exists>n \<in> pmm_pool. pmm_scan 512 bm = Some n \<and> p = page_addr n \<and> bm' = bitmap_set n bm)
    \<or> (pmm_scan 512 bm = None \<and> p = 0 \<and> bm' = bm)"
  by (auto simp: pmm_alloc_page_def pmm_pool_def page_addr_def PAGE_SIZE_def split: option.splits
      dest: scan_Some)

lemma pool_small: "n \<in> pmm_pool \<Longrightarrow> 0 < n \<and> n < 2 ^ 32"
  by (simp add: pmm_pool_def TOTAL_PAGES_def)

lemma pool_total: "n \<in> pmm_pool \<Longrightarrow> n < TOTAL_PAGES"
  by (simp add: pmm_pool_def)

lemma free_pool_page: "n \<in> pmm_pool \<Longrightarrow> pmm_free_page (page_addr n) bm = bitmap_clear n bm"
  using pool_total [of n]
  by (simp add: pmm_free_page_def page_div pmm_pool_def TOTAL_PAGES_def)

interpretation pm: first_fit_allocator pmm_alloc_page pmm_free_page pmm_used pmm_pool pmm_inv
proof (unfold_locales, goal_cases)
  case (1 n)
  then show ?case by (rule pool_small)
next
  case (2 s p s')
  from alloc_page_cases [OF 2(2)] 2(3) obtain n where "n \<in> pmm_pool" "pmm_scan 512 s = Some n"
    "p = page_addr n" "s' = bitmap_set n s" by blast
  with 2(1) scan_Some [of 512 s n] show ?case
    by (intro bexI [of _ n]) (auto simp: used_set pool_total, auto simp: pmm_used_def)
next
  case (3 s s')
  from alloc_page_cases [OF 3(2)] page_addr_nonzero pool_small
  have "pmm_scan 512 s = None" "s' = s" by metis+
  then show ?case by (auto simp: pmm_pool_def pmm_used_def intro: scan_None)
next
  case (4 s n)
  then show ?case by (simp add: free_pool_page used_clear pool_total)
next
  case (5 s n s' m)
  from alloc_page_cases [OF 5(2)] 5(3) obtain k where k: "k \<in> pmm_pool" "pmm_scan 512 s = Some k"
    "page_addr n = page_addr k" using page_addr_nonzero pool_small by metis
  then have "n = k" using 5(3) page_addr_inj pool_small by blast
  with k 5 scan_Some [OF k(2)] show ?case by (auto simp: pmm_used_def pmm_pool_def)
qed

subsection \<open>Initial state and accounting\<close>

lemma fold_clear_inv [simp]: "pmm_inv (fold bitmap_clear is bm) = pmm_inv bm"
  by (induction "is" arbitrary: bm) auto

lemma fold_clear_used:
  "pmm_inv bm \<Longrightarrow> set is \<subseteq> {..<TOTAL_PAGES} \<Longrightarrow> pmm_used (fold bitmap_clear is bm) = pmm_used bm - set is"
  by (induction "is" arbitrary: bm) (auto simp: used_clear)

lemma ones_test: "i < TOTAL_PAGES \<Longrightarrow> bitmap_test i (replicate (TOTAL_PAGES div 8) 0xFF)"
  by (simp add: bitmap_test_bit ff_mask bit_simps TOTAL_PAGES_def)

lemma ones_inv: "pmm_inv (replicate (TOTAL_PAGES div 8) 0xFF)"
  by (simp add: pmm_inv_def)

lemma pmm_init_inv [simp]: "pmm_inv pmm_init"
  unfolding pmm_init_def fold_clear_inv by (rule ones_inv)

lemma pmm_init_used: "pmm_used pmm_init = {..<512}"
proof -
  have ones: "pmm_used (replicate (TOTAL_PAGES div 8) 0xFF) = {..<TOTAL_PAGES}"
    by (auto simp: pmm_used_def ones_test)
  have "set [512..<TOTAL_PAGES] \<subseteq> {..<TOTAL_PAGES}" by auto
  from fold_clear_used [OF ones_inv this] have "pmm_used pmm_init = {..<TOTAL_PAGES} - {512..<TOTAL_PAGES}"
    unfolding pmm_init_def ones set_upt .
  also have "\<dots> = {..<512}" by (auto simp: TOTAL_PAGES_def)
  finally show ?thesis .
qed

lemma pmm_init_prefix: "owned_below pmm_pool (pmm_used pmm_init) 512"
  by (auto simp: owned_below_def pmm_pool_def pmm_init_used)

lemma stats_used: "used_pages (pmm_get_stats bm) = card (pmm_used bm \<inter> pmm_pool)"
proof -
  have "set (filter (\<lambda>i. bitmap_test i bm) [512..<TOTAL_PAGES]) = pmm_used bm \<inter> pmm_pool"
    by (auto simp: pmm_used_def pmm_pool_def)
  then show ?thesis
    by (simp add: pmm_get_stats_def Let_def distinct_card [symmetric])
qed

lemma set_clear_byte: "\<not> bit w k \<Longrightarrow> (w OR push_bit k 1) AND NOT (push_bit k 1) = (w :: u8)"
  by (rule bit_word_eqI) (auto simp: bit_simps simp del: push_bit_of_1)

lemma set_clear_id: "\<not> bitmap_test i bm \<Longrightarrow> i div 8 < length bm \<Longrightarrow> bitmap_clear i (bitmap_set i bm) = bm"
  by (simp add: bitmap_clear_def bitmap_set_def bitmap_test_bit set_clear_byte
      del: push_bit_of_1)

subsection \<open>Properties\<close>

text \<open>C39: \<open>pmm_alloc_page\<close> hands out the lowest free page at or above 2 MB and marks exactly
  that page used; it returns NULL, changing nothing, only when every managed page is in use.\<close>

theorem pmm_alloc_lowest_free:
  assumes "pmm_inv bm"
  shows "case pmm_alloc_page bm of (p, bm') \<Rightarrow>
    if p = 0 then bm' = bm \<and> pmm_pool \<subseteq> pmm_used bm
    else \<exists>n. n \<in> pmm_pool - pmm_used bm \<and> (\<forall>m \<in> pmm_pool - pmm_used bm. n \<le> m)
           \<and> p = page_addr n \<and> 0x200000 \<le> p \<and> pmm_used bm' = insert n (pmm_used bm)"
proof -
  obtain p bm' where a: "pmm_alloc_page bm = (p, bm')" by fastforce
  show ?thesis
  proof (cases "p = 0")
    case True
    with pm.alloc_full [OF assms] a show ?thesis by auto
  next
    case False
    from pm.alloc_ok [OF assms a False] obtain n where n: "n \<in> pmm_pool" "n \<notin> pmm_used bm"
      "p = page_addr n" "pmm_used bm' = insert n (pmm_used bm)" by blast
    have "0x200000 \<le> p" using n page_addr_unat [of n] pool_small [OF n(1)]
      by (simp add: word_le_nat_alt pmm_pool_def)
    moreover have "n \<le> m" if "m \<in> pmm_pool - pmm_used bm" for m
      using pm.first_fit [OF assms, of n bm' m] a n that by (metis DiffD1 DiffD2 leI)
    ultimately show ?thesis using a False n by auto
  qed
qed

theorem pmm_alloc_lowest_free_witness:
  "\<exists>n. n \<in> pmm_pool \<and> fst (pmm_alloc_page pmm_init) = page_addr n
    \<and> pmm_used (snd (pmm_alloc_page pmm_init)) = insert n (pmm_used pmm_init)"
proof -
  have k: "512 \<in> pmm_pool - pmm_used pmm_init" by (simp add: pmm_pool_def TOTAL_PAGES_def pmm_init_used)
  with pmm_alloc_lowest_free [OF pmm_init_inv] show ?thesis by (auto simp: split: prod.splits if_splits)
qed

text \<open>giving a page straight back restores the bitmap bit for bit, and freeing an address
  below 2 MB or past 256 MB changes nothing.\<close>

theorem pmm_free_undoes_alloc:
  assumes "pmm_inv bm" and "unat q div 4096 < 512 \<or> 65536 \<le> unat q div 4096"
  shows "(fst (pmm_alloc_page bm) \<noteq> 0 \<longrightarrow>
      pmm_free_page (fst (pmm_alloc_page bm)) (snd (pmm_alloc_page bm)) = bm)
    \<and> pmm_free_page q bm = bm"
proof -
  obtain p bm' where a: "pmm_alloc_page bm = (p, bm')" by fastforce
  have "pmm_free_page p bm' = bm" if p: "p \<noteq> 0"
  proof -
    from alloc_page_cases [OF a] p obtain n where n: "n \<in> pmm_pool" "pmm_scan 512 bm = Some n"
      "p = page_addr n" "bm' = bitmap_set n bm" by blast
    with scan_Some [OF n(2)] show ?thesis
      using set_clear_id page_byte [OF assms(1)] by (simp add: free_pool_page)
  qed
  moreover have "pmm_free_page q bm = bm"
    using assms(2) by (auto simp: pmm_free_page_def unat_div PAGE_SIZE_def TOTAL_PAGES_def)
  ultimately show ?thesis using a by simp
qed

lemma first_alloc: "fst (pmm_alloc_page pmm_init) = page_addr 512"
proof -
  obtain p bm where a: "pmm_alloc_page pmm_init = (p, bm)" by fastforce
  have k: "512 \<in> pmm_pool" by (simp add: pmm_pool_def TOTAL_PAGES_def)
  with pm.alloc_full [OF pmm_init_inv] a have "p \<noteq> 0" by (auto simp: pmm_init_used)
  with pm.alloc_next [OF pmm_init_inv pmm_init_prefix a] k a show ?thesis by simp
qed

theorem pmm_free_undoes_alloc_witness:
  "fst (pmm_alloc_page pmm_init) = page_addr 512
    \<and> pmm_free_page (page_addr 512) (snd (pmm_alloc_page pmm_init)) = pmm_init
    \<and> pmm_free_page 0x1000 pmm_init = pmm_init"
  using pmm_free_undoes_alloc [OF pmm_init_inv, where q = "0x1000"] first_alloc page_addr_nonzero [where n = 512]
  by simp

text \<open>the statistics always account for all 65024 managed pages, start at zero pages in
  use, and go up by exactly one with each successful allocation.\<close>

theorem pmm_stats_account:
  assumes "pmm_inv bm"
  shows "used_pages (pmm_get_stats bm) + free_pages (pmm_get_stats bm) = 65024
    \<and> used_pages (pmm_get_stats pmm_init) = 0
    \<and> (fst (pmm_alloc_page bm) \<noteq> 0 \<longrightarrow>
      used_pages (pmm_get_stats (snd (pmm_alloc_page bm))) = Suc (used_pages (pmm_get_stats bm)))"
proof (intro conjI impI)
  have fin: "finite pmm_pool" "card pmm_pool = 65024" by (simp_all add: pmm_pool_def TOTAL_PAGES_def)
  have "card (pmm_used bm \<inter> pmm_pool) \<le> 65024"
    using card_mono [OF fin(1), of "pmm_used bm \<inter> pmm_pool"] fin(2) by simp
  moreover have "free_pages (pmm_get_stats bm) = (TOTAL_PAGES - 512) - used_pages (pmm_get_stats bm)"
    by (simp add: pmm_get_stats_def Let_def)
  ultimately show "used_pages (pmm_get_stats bm) + free_pages (pmm_get_stats bm) = 65024"
    by (simp add: stats_used TOTAL_PAGES_def)
  have "pmm_used pmm_init \<inter> pmm_pool = {}" by (auto simp: pmm_init_used pmm_pool_def)
  then show "used_pages (pmm_get_stats pmm_init) = 0" by (simp add: stats_used)
  assume nz: "fst (pmm_alloc_page bm) \<noteq> 0"
  obtain n where n: "n \<in> pmm_pool" "n \<notin> pmm_used bm"
    "pmm_used (snd (pmm_alloc_page bm)) = insert n (pmm_used bm)"
    using pm.alloc_ok [OF assms prod.collapse [symmetric] nz] by blast
  then have "pmm_used (snd (pmm_alloc_page bm)) \<inter> pmm_pool = insert n (pmm_used bm \<inter> pmm_pool)"
    by blast
  moreover have "card (insert n (pmm_used bm \<inter> pmm_pool)) = Suc (card (pmm_used bm \<inter> pmm_pool))"
    using n(2) fin(1) by simp
  ultimately show "used_pages (pmm_get_stats (snd (pmm_alloc_page bm))) = Suc (used_pages (pmm_get_stats bm))"
    by (simp only: stats_used)
qed

theorem pmm_stats_account_witness:
  "used_pages (pmm_get_stats pmm_init) + free_pages (pmm_get_stats pmm_init) = 65024"
  by (rule pmm_stats_account [OF pmm_init_inv, THEN conjunct1])

end
