(* ===== verification/Heap.thy ===== *)
theory Heap
  imports Pmm
begin

text \<open>
  The kernel heap (\<open>mm/heap.c\<close>): a bump allocator that takes pages from the page
  allocator one at a time. The two static variables are the record \<open>heap\<close>. Beside
  \<open>malloc\<close> the model has a run of events in which other clients take pages from the same
  allocator, so that the separation theorem covers them too.
\<close>

record heap =
  heap_cursor :: u64
  heap_remaining :: u64

definition heap_init :: heap where
  "heap_init = \<lparr>heap_cursor = 0, heap_remaining = 0\<rparr>"

definition round8 :: "u64 \<Rightarrow> u64" where
  "round8 sz = (if sz mod 8 \<noteq> 0 then sz + (8 - sz mod 8) else sz)"

definition malloc :: "u64 \<Rightarrow> heap \<Rightarrow> pmm \<Rightarrow> u64 \<times> heap \<times> pmm" where
  "malloc sz h p =
     (if sz = 0 then (0, h, p)
      else let sz = round8 sz in
        if heap_cursor h = 0 \<or> heap_remaining h < sz then
          (case pmm_alloc_page p of (pg, p') \<Rightarrow>
             if pg = 0 then (0, h\<lparr>heap_cursor := 0\<rparr>, p')
             else (pg, \<lparr>heap_cursor = pg + sz, heap_remaining = 4096 - sz\<rparr>, p'))
        else (heap_cursor h,
              \<lparr>heap_cursor = heap_cursor h + sz, heap_remaining = heap_remaining h - sz\<rparr>, p))"

definition kfree :: "u64 \<Rightarrow> heap \<Rightarrow> heap" where
  "kfree ptr h = h"

subsection \<open>Runs that interleave the heap with other page clients\<close>

datatype mem_event = Malloc u64 | TakePage

text \<open>A block is its address and its length in bytes.\<close>

fun mem_run :: "mem_event list \<Rightarrow> heap \<Rightarrow> pmm \<Rightarrow> (u64 \<times> u64) list \<times> heap \<times> pmm" where
  "mem_run [] h p = ([], h, p)"
| "mem_run (Malloc sz # es) h p =
     (case malloc sz h p of (a, h', p') \<Rightarrow>
        (case mem_run es h' p' of (bs, h'', p'') \<Rightarrow>
           (if a = 0 then bs else (a, round8 sz) # bs, h'', p'')))"
| "mem_run (TakePage # es) h p =
     (case pmm_alloc_page p of (a, p') \<Rightarrow>
        (case mem_run es h p' of (bs, h'', p'') \<Rightarrow>
           (if a = 0 then bs else (a, 4096) # bs, h'', p'')))"

definition apart :: "u64 \<times> u64 \<Rightarrow> u64 \<times> u64 \<Rightarrow> bool" where
  "apart b c \<longleftrightarrow> unat (fst b) + unat (snd b) \<le> unat (fst c)
              \<or> unat (fst c) + unat (snd c) \<le> unat (fst b)"

fun all_apart :: "(u64 \<times> u64) list \<Rightarrow> bool" where
  "all_apart [] = True"
| "all_apart (b # bs) = (list_all (apart b) bs \<and> all_apart bs)"

definition in_page :: "nat \<Rightarrow> u64 \<times> u64 \<Rightarrow> bool" where
  "in_page n b \<longleftrightarrow> n * 4096 \<le> unat (fst b) \<and> unat (fst b) + unat (snd b) \<le> Suc n * 4096"

definition heap_ok :: "heap \<Rightarrow> pmm \<Rightarrow> bool" where
  "heap_ok h p \<longleftrightarrow> pmm_inv p \<and> (heap_cursor h = 0 \<or>
     (\<exists>n \<in> pmm_used p \<inter> pmm_pool. n * 4096 \<le> unat (heap_cursor h) \<and> 8 dvd unat (heap_cursor h)
        \<and> unat (heap_cursor h) + unat (heap_remaining h) = Suc n * 4096))"

lemma up8_nat: "k mod 8 \<noteq> 0 \<Longrightarrow> k + (8 - k mod 8) = (k + 7) div 8 * (8 :: nat)"
proof -
  assume nz: "k mod 8 \<noteq> 0"
  obtain q r where e: "k = 8 * q + r" "r < 8"
    using mult_div_mod_eq [of 8 k] mod_less_divisor [of 8 k] by (metis zero_less_numeral)
  with nz have r: "0 < r" "k mod 8 = r" by (auto intro: Nat.gr0I)
  have "k + 7 = 8 * (q + 1) + (r - 1)" using e r by simp
  then have "(k + 7) div 8 = q + 1" using e(2) by simp
  with e r show ?thesis by simp
qed

lemma round8_nat: "unat sz \<le> 4096 \<Longrightarrow> unat (round8 sz) = (unat sz + 7) div 8 * 8"
proof -
  assume s: "unat sz \<le> 4096"
  have m: "unat (sz mod 8) = unat sz mod 8" by (simp add: unat_mod)
  show ?thesis
  proof (cases "unat sz mod 8 = 0")
    case True
    with m have "sz mod 8 = 0" by (simp add: unat_eq_0)
    moreover have "(unat sz + 7) div 8 * 8 = unat sz" using True by presburger
    ultimately show ?thesis by (simp add: round8_def)
  next
    case False
    with m have ne: "sz mod 8 \<noteq> 0" by (metis unat_0)
    have le: "sz mod 8 \<le> 8" using m by (simp add: word_le_nat_alt)
    have d: "unat (8 - sz mod 8) = 8 - unat sz mod 8"
      using unat_sub_small [OF le] m by simp
    have "unat (sz + (8 - sz mod 8)) = unat sz + (8 - unat sz mod 8)"
      using s d by (subst unat_add_small) auto
    with ne show ?thesis by (simp only: round8_def up8_nat [OF False] if_True not_False_eq_True)
  qed
qed

lemma round8_bound: "unat sz \<le> 4096 \<Longrightarrow> unat (round8 sz) \<le> 4096"
  using round8_nat [of sz] by presburger

lemma round8_pos: "unat sz \<le> 4096 \<Longrightarrow> sz \<noteq> 0 \<Longrightarrow> 0 < unat (round8 sz)"
proof -
  assume s: "unat sz \<le> 4096" "sz \<noteq> 0"
  have "unat sz \<noteq> 0" using s(2) by (simp add: unat_eq_0)
  with round8_nat [OF s(1)] show ?thesis by simp
qed

lemma round8_dvd: "unat sz \<le> 4096 \<Longrightarrow> 8 dvd unat (round8 sz)"
  using round8_nat [of sz] by simp

lemma pool_page_end: "n \<in> pmm_pool \<Longrightarrow> Suc n * 4096 \<le> 2 ^ 28"
  by (auto simp: pmm_pool_def TOTAL_PAGES_def)

lemma page_addr_pool: "n \<in> pmm_pool \<Longrightarrow> unat (page_addr n) = n * 4096"
  using page_addr_unat [of n] pool_small [of n] by blast

text \<open>What one successful \<open>malloc\<close> of at most a page returns, and where.\<close>

lemma malloc_fresh:
  assumes "pmm_inv p" "unat sz \<le> 4096" "sz \<noteq> 0"
    and "heap_cursor h = 0 \<or> heap_remaining h < round8 sz"
    and "malloc sz h p = (a, h', p')" "a \<noteq> 0"
  shows "\<exists>n \<in> pmm_pool. n \<notin> pmm_used p \<and> pmm_used p' = insert n (pmm_used p) \<and> pmm_inv p'
    \<and> unat a = n * 4096 \<and> unat (heap_cursor h') = n * 4096 + unat (round8 sz)
    \<and> unat (heap_remaining h') = 4096 - unat (round8 sz)"
proof -
  obtain pg q where al: "pmm_alloc_page p = (pg, q)" by fastforce
  with assms have pg: "pg \<noteq> 0" "a = pg" "p' = q"
    "h' = \<lparr>heap_cursor = pg + round8 sz, heap_remaining = 4096 - round8 sz\<rparr>"
    by (auto simp: malloc_def Let_def split: if_splits)
  from pm.alloc_ok [OF assms(1) al pg(1)] obtain n where n: "n \<in> pmm_pool" "n \<notin> pmm_used p"
    "pg = page_addr n" "pmm_used q = insert n (pmm_used p)" "pmm_inv q" by blast
  note b = round8_bound [OF assms(2)]
  have "unat (page_addr n + round8 sz) = n * 4096 + unat (round8 sz)"
    using b pool_page_end [OF n(1)] page_addr_pool [OF n(1)] by (subst unat_add_small) auto
  moreover have "unat (4096 - round8 sz) = 4096 - unat (round8 sz)"
    using b by (subst unat_sub_small) (auto simp: word_le_nat_alt)
  ultimately show ?thesis using n pg page_addr_pool [OF n(1)] by auto
qed

lemma malloc_bump:
  assumes "heap_ok h p" "sz \<noteq> 0" "unat sz \<le> 4096"
    and "\<not> (heap_cursor h = 0 \<or> heap_remaining h < round8 sz)"
    and "malloc sz h p = (a, h', p')"
  shows "a = heap_cursor h \<and> p' = p
    \<and> unat (heap_cursor h') = unat (heap_cursor h) + unat (round8 sz)
    \<and> unat (heap_remaining h') = unat (heap_remaining h) - unat (round8 sz)
    \<and> unat (round8 sz) \<le> unat (heap_remaining h)"
proof -
  from assms have eq: "a = heap_cursor h" "p' = p"
    "h' = \<lparr>heap_cursor = heap_cursor h + round8 sz, heap_remaining = heap_remaining h - round8 sz\<rparr>"
    by (auto simp: malloc_def Let_def split: if_splits)
  from assms obtain n where n: "n \<in> pmm_pool" "n * 4096 \<le> unat (heap_cursor h)"
    "unat (heap_cursor h) + unat (heap_remaining h) = Suc n * 4096" by (auto simp: heap_ok_def)
  have le: "unat (round8 sz) \<le> unat (heap_remaining h)"
    using assms(4) by (simp add: word_less_nat_alt)
  have "unat (heap_cursor h + round8 sz) = unat (heap_cursor h) + unat (round8 sz)"
    using le n(3) pool_page_end [OF n(1)] by (subst unat_add_small) auto
  then show ?thesis using eq le by (simp add: unat_sub_small word_le_nat_alt)
qed

text \<open>A block already handed out keeps clear of the free rest of the current page.\<close>

definition clear_of :: "heap \<Rightarrow> pmm \<Rightarrow> u64 \<times> u64 \<Rightarrow> bool" where
  "clear_of h p b \<longleftrightarrow> (\<exists>n \<in> pmm_used p \<inter> pmm_pool. in_page n b)
     \<and> (heap_cursor h = 0 \<or> apart b (heap_cursor h, heap_remaining h))"

lemma in_page_apart: "in_page m b \<Longrightarrow> in_page n c \<Longrightarrow> m \<noteq> n \<Longrightarrow> apart b c"
  unfolding in_page_def apart_def by (cases "m < n") (auto simp: not_less)

lemma malloc_block:
  assumes ok: "heap_ok h p" and sz: "unat sz \<le> 4096"
    and m: "malloc sz h p = (a, h', p')" "a \<noteq> 0"
  shows "heap_ok h' p' \<and> clear_of h' p' (a, round8 sz) \<and> 8 dvd unat a
    \<and> (\<forall>b. clear_of h p b \<longrightarrow> clear_of h' p' b \<and> apart b (a, round8 sz))"
proof -
  have nz: "sz \<noteq> 0" using m by (auto simp: malloc_def)
  note r = round8_bound [OF sz] round8_pos [OF sz nz] round8_dvd [OF sz]
  show ?thesis
  proof (cases "heap_cursor h = 0 \<or> heap_remaining h < round8 sz")
    case True
    from ok have inv: "pmm_inv p" by (simp add: heap_ok_def)
    from malloc_fresh [OF inv sz nz True m] obtain n where n: "n \<in> pmm_pool" "n \<notin> pmm_used p"
      "pmm_used p' = insert n (pmm_used p)" "pmm_inv p'" "unat a = n * 4096"
      "unat (heap_cursor h') = n * 4096 + unat (round8 sz)"
      "unat (heap_remaining h') = 4096 - unat (round8 sz)" by blast
    have blk: "in_page n (a, round8 sz)" "in_page n (heap_cursor h', heap_remaining h')"
      using n(5-7) r by (auto simp: in_page_def)
    have "heap_ok h' p'" using n r by (auto simp: heap_ok_def)
    moreover have "clear_of h' p' (a, round8 sz)"
      using n blk by (auto simp: clear_of_def apart_def)
    moreover have "clear_of h' p' b \<and> apart b (a, round8 sz)" if "clear_of h p b" for b
    proof -
      from that obtain k where k: "k \<in> pmm_used p \<inter> pmm_pool" "in_page k b" by (auto simp: clear_of_def)
      with n(2) have "k \<noteq> n" by auto
      with k blk n(3) show ?thesis by (auto simp: clear_of_def intro: in_page_apart)
    qed
    moreover have "8 dvd unat a" using n(5) by simp
    ultimately show ?thesis by blast
  next
    case False
    from malloc_bump [OF ok nz sz False m(1)] have e: "a = heap_cursor h" "p' = p"
      "unat (heap_cursor h') = unat (heap_cursor h) + unat (round8 sz)"
      "unat (heap_remaining h') = unat (heap_remaining h) - unat (round8 sz)"
      "unat (round8 sz) \<le> unat (heap_remaining h)" by auto
    from ok False obtain n where n: "n \<in> pmm_used p \<inter> pmm_pool" "n * 4096 \<le> unat (heap_cursor h)"
      "8 dvd unat (heap_cursor h)" "unat (heap_cursor h) + unat (heap_remaining h) = Suc n * 4096"
      by (auto simp: heap_ok_def)
    have "heap_ok h' p'" using n e r ok by (auto simp: heap_ok_def intro!: bexI [of _ n])
    moreover have "clear_of h' p' (a, round8 sz)"
      using n e by (auto simp: clear_of_def apart_def in_page_def intro!: bexI [of _ n])
    moreover have "clear_of h' p' b \<and> apart b (a, round8 sz)" if "clear_of h p b" for b
      using that False e by (auto simp: clear_of_def apart_def)
    ultimately show ?thesis using n(3) e(1) by blast
  qed
qed

lemma malloc_null:
  assumes "heap_ok h p" and "malloc sz h p = (0, h', p')"
  shows "heap_ok h' p' \<and> (\<forall>b. clear_of h p b \<longrightarrow> clear_of h' p' b)"
proof -
  from assms have inv: "pmm_inv p" by (simp add: heap_ok_def)
  obtain pg q where al: "pmm_alloc_page p = (pg, q)" by fastforce
  have "(h' = h \<and> p' = p) \<or> (heap_cursor h' = 0 \<and> p' = q \<and> pg = 0)"
    using assms al by (auto simp: malloc_def Let_def split: if_splits)
  with pm.alloc_full [OF inv, of q] al assms(1) show ?thesis
    by (auto simp: heap_ok_def clear_of_def)
qed

lemma take_page_block:
  assumes ok: "heap_ok h p" and a: "pmm_alloc_page p = (a, p')"
  shows "heap_ok h p' \<and> (\<forall>b. clear_of h p b \<longrightarrow> clear_of h p' b)
    \<and> (a \<noteq> 0 \<longrightarrow> clear_of h p' (a, 4096) \<and> 8 dvd unat a \<and> (\<forall>b. clear_of h p b \<longrightarrow> apart b (a, 4096)))"
proof -
  from ok have inv: "pmm_inv p" by (simp add: heap_ok_def)
  show ?thesis
  proof (cases "a = 0")
    case True
    with pm.alloc_full [OF inv] a ok show ?thesis by auto
  next
    case False
    from pm.alloc_ok [OF inv a False] obtain n where n: "n \<in> pmm_pool" "n \<notin> pmm_used p"
      "a = page_addr n" "pmm_used p' = insert n (pmm_used p)" "pmm_inv p'" by blast
    have pg: "in_page n (a, 4096)" using n page_addr_pool [OF n(1)] by (simp add: in_page_def)
    have cur: "apart (a, 4096) (heap_cursor h, heap_remaining h)" if "heap_cursor h \<noteq> 0"
    proof -
      from ok that obtain k where "k \<in> pmm_used p" "in_page k (heap_cursor h, heap_remaining h)"
        by (auto simp: heap_ok_def in_page_def)
      with n(2) pg show ?thesis by (metis in_page_apart)
    qed
    have "apart b (a, 4096)" if "clear_of h p b" for b
    proof -
      from that obtain k where k: "k \<in> pmm_used p" "in_page k b" by (auto simp: clear_of_def)
      with n(2) have "k \<noteq> n" by auto
      with k pg show ?thesis by (blast intro: in_page_apart)
    qed
    moreover have "8 dvd unat a" using n page_addr_pool [OF n(1)] by simp
    ultimately show ?thesis using ok n pg cur by (auto simp: heap_ok_def clear_of_def)
  qed
qed

definition small_event :: "mem_event \<Rightarrow> bool" where
  "small_event e = (case e of Malloc sz \<Rightarrow> unat sz \<le> 4096 | TakePage \<Rightarrow> True)"

lemma mem_run_apart:
  assumes "heap_ok h p" "list_all small_event es" "mem_run es h p = (bs, h', p')"
  shows "all_apart bs \<and> heap_ok h' p' \<and> list_all (clear_of h' p') bs
    \<and> list_all (\<lambda>b. 8 dvd unat (fst b)) bs
    \<and> (\<forall>b. clear_of h p b \<longrightarrow> clear_of h' p' b \<and> list_all (apart b) bs)"
  using assms
proof (induction es arbitrary: h p bs)
  case Nil
  then show ?case by auto
next
  case (Cons e es)
  show ?case
  proof (cases e)
    case (Malloc sz)
    obtain a h1 p1 where m: "malloc sz h p = (a, h1, p1)" by (metis prod_cases3)
    obtain cs h2 p2 where r: "mem_run es h1 p1 = (cs, h2, p2)" by (metis prod_cases3)
    have eq: "h2 = h'" "p2 = p'" "bs = (if a = 0 then cs else (a, round8 sz) # cs)"
      using Cons.prems(3) Malloc m r by auto
    have sm: "unat sz \<le> 4096" "list_all small_event es"
      using Cons.prems(2) Malloc by (simp_all add: small_event_def [of "Malloc sz"])
    show ?thesis
    proof (cases "a = 0")
      case True
      with malloc_null [OF Cons.prems(1)] m have "heap_ok h1 p1"
        "\<forall>b. clear_of h p b \<longrightarrow> clear_of h1 p1 b" by auto
      with Cons.IH [OF _ sm(2) r [unfolded eq(1,2)]] True eq show ?thesis by auto
    next
      case False
      note b = malloc_block [OF Cons.prems(1) sm(1) m False]
      with Cons.IH [OF _ sm(2) r [unfolded eq(1,2)]] False eq show ?thesis by (auto simp: list_all_iff)
    qed
  next
    case TakePage
    obtain a p1 where m: "pmm_alloc_page p = (a, p1)" by fastforce
    obtain cs h2 p2 where r: "mem_run es h p1 = (cs, h2, p2)" by (metis prod_cases3)
    have eq: "h2 = h'" "p2 = p'" "bs = (if a = 0 then cs else (a, 4096) # cs)"
      using Cons.prems(3) TakePage m r by auto
    have sm: "list_all small_event es" using Cons.prems(2) by simp
    note b = take_page_block [OF Cons.prems(1) m]
    with Cons.IH [OF _ sm r [unfolded eq(1,2)]] eq show ?thesis by (auto simp: list_all_iff)
  qed
qed

subsection \<open>Properties\<close>

lemma heap_init_ok: "pmm_inv p \<Longrightarrow> heap_ok heap_init p"
  by (simp add: heap_ok_def heap_init_def)

text \<open>C40: whatever the order in which the heap serves requests of at most a page and other
  kernel code takes pages for itself, no two of the blocks handed out overlap, each lies
  inside one page taken from the allocator, and each is 8-byte aligned.\<close>

theorem heap_blocks_separate:
  assumes "pmm_inv p" and "list_all small_event es"
  shows "case mem_run es heap_init p of (bs, h', p') \<Rightarrow> all_apart bs
    \<and> list_all (\<lambda>b. 8 dvd unat (fst b) \<and> (\<exists>n \<in> pmm_used p' \<inter> pmm_pool. in_page n b)) bs"
proof -
  obtain bs h' p' where r: "mem_run es heap_init p = (bs, h', p')" by (metis prod_cases3)
  with mem_run_apart [OF heap_init_ok assms(2) r] assms(1) show ?thesis
    by (auto simp: list_all_iff clear_of_def)
qed

theorem heap_blocks_separate_witness:
  "case mem_run [Malloc 24, TakePage, Malloc 4000, Malloc 100] heap_init pmm_init of (bs, h', p') \<Rightarrow>
     all_apart bs
     \<and> list_all (\<lambda>b. 8 dvd unat (fst b) \<and> (\<exists>n \<in> pmm_used p' \<inter> pmm_pool. in_page n b)) bs"
  by (rule heap_blocks_separate [OF pmm_init_inv]) (simp add: small_event_def)

text \<open>a request of 1 to 4096 bytes fails only when the current page has no room left and
  the page allocator has no page left; a request of 0 bytes always gives NULL.\<close>

theorem malloc_fails_only_when_full:
  assumes "heap_ok h p" and "unat sz \<le> 4096"
  shows "fst (malloc sz h p) = 0 \<longleftrightarrow>
    sz = 0 \<or> ((heap_cursor h = 0 \<or> heap_remaining h < round8 sz) \<and> pmm_pool \<subseteq> pmm_used p)"
proof -
  from assms have inv: "pmm_inv p" by (simp add: heap_ok_def)
  obtain pg q where al: "pmm_alloc_page p = (pg, q)" by fastforce
  have "pg = 0 \<longleftrightarrow> pmm_pool \<subseteq> pmm_used p"
    using pm.alloc_full [OF inv] pm.alloc_ok [OF inv al] al by blast
  with al show ?thesis by (auto simp: malloc_def Let_def)
qed

theorem malloc_fails_only_when_full_witness:
  "fst (malloc 100 heap_init pmm_init) \<noteq> 0"
proof -
  have "(512 :: nat) \<in> pmm_pool - pmm_used pmm_init"
    by (simp add: pmm_pool_def pmm_init_used TOTAL_PAGES_def)
  with malloc_fails_only_when_full [OF heap_init_ok [OF pmm_init_inv], of 100] show ?thesis by auto
qed

text \<open>a request of more than one page is granted although only one page is taken: the
  byte count left wraps around below zero, and the next small request is served from past
  the end of the page, in memory the allocator still counts as free.\<close>

theorem malloc_oversize_overruns:
  assumes "pmm_inv p" "owned_below pmm_pool (pmm_used p) k" "512 \<le> k" "heap_cursor h = 0"
    and "4104 \<le> unat sz" "sz mod 8 = 0" "k + unat sz div 4096 < TOTAL_PAGES"
  shows "case malloc sz h p of (a, h1, p1) \<Rightarrow> case malloc 8 h1 p1 of (b, h2, p2) \<Rightarrow>
    a = page_addr k \<and> heap_remaining h1 = 4096 - sz \<and> b = a + sz
      \<and> unat b div 4096 \<in> pmm_pool - pmm_used p2"
proof -
  have kp: "k \<in> pmm_pool" using assms(3,7) by (simp add: pmm_pool_def)
  obtain pg q where al: "pmm_alloc_page p = (pg, q)" by fastforce
  have free: "\<not> pmm_pool \<subseteq> pmm_used p" using assms(2) kp by (auto simp: owned_below_def)
  have pg0: "pg \<noteq> 0" using pm.alloc_full [OF assms(1), of q] al free by auto
  have dense: "\<And>n. n \<in> pmm_pool \<Longrightarrow> k \<le> n \<Longrightarrow> k \<in> pmm_pool" using kp by simp
  from pm.alloc_next [OF assms(1,2) al pg0 dense] have pg: "pg = page_addr k"
    and q: "owned_below pmm_pool (pmm_used q) (Suc k)" by auto
  have sz: "sz \<noteq> 0" "round8 sz = sz" using assms(5,6) by (auto simp: round8_def)
  have m1: "malloc sz h p = (pg, \<lparr>heap_cursor = pg + sz, heap_remaining = 4096 - sz\<rparr>, q)"
    using assms(4) sz al pg0 by (simp add: malloc_def)
  have u: "unat (page_addr k + sz) = k * 4096 + unat sz"
    using assms(7) page_addr_pool [OF kp] by (subst unat_add_small) (auto simp: TOTAL_PAGES_def)
  have cur: "page_addr k + sz \<noteq> 0" using u assms(5) by (metis add_is_0 not_numeral_le_zero unat_0)
  have big: "\<not> (4096 - sz < round8 8)"
  proof -
    have "unat (4096 - sz) = 2 ^ 64 - (unat sz - 4096)"
      using assms(5,7) unsigned_less [of sz] by (simp add: unat_sub_if' TOTAL_PAGES_def word_le_nat_alt)
    moreover have "unat sz - 4096 < 2 ^ 28" using assms(7) by (simp add: TOTAL_PAGES_def)
    ultimately show ?thesis by (simp add: word_less_nat_alt round8_def)
  qed
  have m2: "fst (malloc 8 \<lparr>heap_cursor = page_addr k + sz, heap_remaining = 4096 - sz\<rparr> q) = page_addr k + sz"
    "snd (snd (malloc 8 \<lparr>heap_cursor = page_addr k + sz, heap_remaining = 4096 - sz\<rparr> q)) = q"
    using cur big by (simp_all add: malloc_def Let_def)
  have "unat (page_addr k + sz) div 4096 = k + unat sz div 4096" using u by simp
  moreover have "1 \<le> unat sz div 4096" using assms(5) by simp
  ultimately have "unat (page_addr k + sz) div 4096 \<in> pmm_pool - pmm_used q"
    using q assms(3,7) by (auto simp: owned_below_def pmm_pool_def)
  with m1 m2 pg show ?thesis by (auto simp: split: prod.splits)
qed

theorem malloc_oversize_overruns_witness:
  "case malloc 8192 heap_init pmm_init of (a, h1, p1) \<Rightarrow> case malloc 8 h1 p1 of (b, h2, p2) \<Rightarrow>
    a = page_addr 512 \<and> heap_remaining h1 = 4096 - 8192 \<and> b = a + 8192
      \<and> unat b div 4096 \<in> pmm_pool - pmm_used p2"
  by (rule malloc_oversize_overruns [OF pmm_init_inv pmm_init_prefix])
    (simp_all add: heap_init_def TOTAL_PAGES_def)

end
