(* ===== verification/Memory.thy ===== *)
theory Memory
  imports Kernel_Prelude
begin

text \<open>
  The memory of the machine as a map from addresses to bytes, with the stores of a run of bytes
  and the 8-byte accesses of a stack.
\<close>

type_synonym memory = "u64 \<Rightarrow> u8"

definition mem_write :: "u64 \<Rightarrow> bytes \<Rightarrow> memory \<Rightarrow> memory" where
  "mem_write a bs m = (\<lambda>x. if unat (x - a) < length bs then bs ! unat (x - a) else m x)"

definition mem_read :: "u64 \<Rightarrow> nat \<Rightarrow> memory \<Rightarrow> bytes" where
  "mem_read a n m = map (\<lambda>i. m (a + of_nat i)) [0..<n]"

definition load64 :: "memory \<Rightarrow> u64 \<Rightarrow> u64" where
  "load64 m a = get_le64 (mem_read a 8 m) 0"

definition store64 :: "u64 \<Rightarrow> u64 \<Rightarrow> memory \<Rightarrow> memory" where
  "store64 a v m = mem_write a (le64 v) m"

text \<open>
  The page tables of \<open>kernel_entry.asm\<close> map the first 256 MiB to themselves; an access beyond
  faults, and the page fault handler halts. \<open>mapped a n\<close>: the \<open>n\<close> bytes from \<open>a\<close> on are mapped.
\<close>

definition mapped :: "u64 \<Rightarrow> nat \<Rightarrow> bool" where
  "mapped a n \<longleftrightarrow> n = 0 \<or> unat a + n \<le> 128 * 0x200000"

lemma unat_diff_cases: "unat (x - a) = (if a \<le> x then unat x - unat a else 2 ^ 64 + unat x - unat a)" for x a :: u64
  using unsigned_less [of x, where 'a = nat] unsigned_less [of a, where 'a = nat]
  by (auto simp: unat_sub_if' word_le_nat_alt)

lemma length_mem_read [simp]: "length (mem_read a n m) = n"
  by (simp add: mem_read_def)

lemma mem_read_write_same:
  assumes "length bs \<le> 2 ^ 64"
  shows "mem_read a (length bs) (mem_write a bs m) = bs"
  using assms
  by (intro nth_equalityI) (simp_all add: mem_read_def mem_write_def unat_of_nat take_bit_nat_eq_self)

lemma mem_write_other: "length bs \<le> unat (x - a) \<Longrightarrow> mem_write a bs m x = m x"
  by (simp add: mem_write_def)

lemma mem_read_write_other:
  assumes "\<And>i. i < n \<Longrightarrow> length bs \<le> unat (b + of_nat i - a)"
  shows "mem_read b n (mem_write a bs m) = mem_read b n m"
  using assms by (simp add: mem_read_def mem_write_def leD)

lemma load64_store64 [simp]: "load64 (store64 a v m) a = v"
  using mem_read_write_same [of "le64 v" a m] by (simp add: load64_def store64_def le_simps)

lemma store64_other: "8 \<le> unat (x - a) \<Longrightarrow> store64 a v m x = m x"
  by (simp add: store64_def mem_write_other)

end
