(* ===== verification/Scheduler.thy ===== *)
theory Scheduler
  imports Pmm Memory
begin

text \<open>
  The task scheduler (\<open>sched/scheduler.c\<close>, \<open>sched/scheduler.h\<close>), with the register and stack
  effect of \<open>context_switch\<close> and \<open>scheduler_start_first_task\<close>
  (\<open>sched/context_switch.asm\<close>, \<open>sched/task_bootstrap.asm\<close>). The record \<open>sched\<close> holds the
  static variables of the scheduler, the TSS field it writes (\<open>tss_set_kernel_stack\<close>), the
  callee-saved registers of the CPU, the memory that holds the stacks, the interrupt flag
  and the page allocator the stacks come from. Console messages are left out.
\<close>

definition MAX_TASKS :: nat where "MAX_TASKS = 8"
definition TASK_STACK_SIZE :: u64 where "TASK_STACK_SIZE = 16 * 1024"

datatype task_state = TASK_UNUSED | TASK_READY | TASK_RUNNING | TASK_BLOCKED | TASK_DEAD

record task_context =
  r15 :: u64
  r14 :: u64
  r13 :: u64
  r12 :: u64
  rbx :: u64
  rbp :: u64
  rsp :: u64
  rip :: u64

record task =
  ctx :: task_context
  t_state :: task_state
  t_id :: u32
  stack_top :: u64
  user_stack_bottom :: u64
  user_stack_top :: u64
  user_entry :: u64
  is_user :: u8
  tick_count :: u64
  t_name :: bytes

record sched =
  tasks :: "task list"
  current_task_id :: int
  next_task_id :: int
  tss_rsp0 :: u64
  cpu :: task_context
  kmem :: memory
  int_flag :: bool
  phys :: pmm

definition set_task :: "nat \<Rightarrow> task \<Rightarrow> sched \<Rightarrow> sched" where
  "set_task i t s = s\<lparr>tasks := (tasks s)[i := t]\<rparr>"

definition set_state :: "nat \<Rightarrow> task_state \<Rightarrow> sched \<Rightarrow> sched" where
  "set_state i st s = set_task i ((tasks s ! i)\<lparr>t_state := st\<rparr>) s"

definition tss_set_kernel_stack :: "u64 \<Rightarrow> sched \<Rightarrow> sched" where
  "tss_set_kernel_stack v s = s\<lparr>tss_rsp0 := v\<rparr>"

text \<open>
  \<open>context_switch\<close> stores the callee-saved registers and the return address found at the
  top of the stack in the old context, loads the registers of the new one, writes its
  \<open>rip\<close> to the slot its \<open>rsp\<close> points at, and returns through that slot.
\<close>

definition save_context :: "task_context \<Rightarrow> memory \<Rightarrow> task_context" where
  "save_context c m = c\<lparr>rip := load64 m (rsp c)\<rparr>"

definition load_context :: "task_context \<Rightarrow> task_context" where
  "load_context c = c\<lparr>rsp := rsp c + 8\<rparr>"

definition context_switch :: "nat \<Rightarrow> nat \<Rightarrow> sched \<Rightarrow> sched" where
  "context_switch old new s =
     (let s1 = set_task old ((tasks s ! old)\<lparr>ctx := save_context (cpu s) (kmem s)\<rparr>) s;
          c = ctx (tasks s1 ! new)
      in s1\<lparr>cpu := load_context c, kmem := store64 (rsp c) (rip c) (kmem s1)\<rparr>)"

definition scheduler_start_first_task :: "nat \<Rightarrow> sched \<Rightarrow> sched" where
  "scheduler_start_first_task i s = s\<lparr>cpu := ctx (tasks s ! i), int_flag := True\<rparr>"

definition scheduler_current_id :: "sched \<Rightarrow> int" where
  "scheduler_current_id s = current_task_id s"

definition scheduler_current_task :: "sched \<Rightarrow> task option" where
  "scheduler_current_task s =
     (if current_task_id s < 0 \<or> int MAX_TASKS \<le> current_task_id s then None
      else Some (tasks s ! nat (current_task_id s)))"

text \<open>
  The ring-3 bootstrap: \<open>None\<close> is the endless \<open>hlt\<close> loop; otherwise the CPU leaves for
  user mode through \<open>iretq\<close>, which sets the interrupt flag.
\<close>

definition user_task_bootstrap :: "sched \<Rightarrow> sched option" where
  "user_task_bootstrap s =
     (case scheduler_current_task s of
        None \<Rightarrow> None
      | Some t \<Rightarrow>
          if is_user t = 0 then None
          else Some ((tss_set_kernel_stack (stack_top t) s)
                 \<lparr>cpu := (cpu s)\<lparr>rip := user_entry t, rsp := user_stack_top t\<rparr>, int_flag := True\<rparr>))"

definition find_next_ready_task :: "sched \<Rightarrow> nat option" where
  "find_next_ready_task s =
     (let start = nat ((current_task_id s + 1) mod int MAX_TASKS)
      in find (\<lambda>idx. t_state (tasks s ! idx) = TASK_READY)
           (map (\<lambda>i. (start + i) mod MAX_TASKS) [0..<MAX_TASKS]))"

definition reset_task :: "task \<Rightarrow> task" where
  "reset_task t = t\<lparr>t_state := TASK_UNUSED, t_id := 0, stack_top := 0, user_stack_bottom := 0,
     user_stack_top := 0, user_entry := 0, is_user := 0, tick_count := 0\<rparr>"

definition scheduler_init :: "sched \<Rightarrow> sched" where
  "scheduler_init s =
     s\<lparr>tasks := map reset_task (tasks s), current_task_id := -1, next_task_id := 0\<rparr>"

definition find_free_slot :: "sched \<Rightarrow> nat option" where
  "find_free_slot s =
     find (\<lambda>i. t_state (tasks s ! i) = TASK_UNUSED \<or> t_state (tasks s ! i) = TASK_DEAD) [0..<MAX_TASKS]"

text \<open>The name is copied up to its NUL or 31 characters.\<close>

definition copy_task_name :: "bytes \<Rightarrow> bytes" where
  "copy_task_name name = take 31 (c_str name)"

text \<open>The counter of the ids is a 32-bit \<open>int\<close>, taken to wrap around.\<close>

definition next_id :: "int \<Rightarrow> int" where
  "next_id n = sint (of_int (n + 1) :: u32)"

text \<open>The context of a task that has not run: entry point in \<open>rip\<close>, one slot below the top.\<close>

definition fresh_context :: "u64 \<Rightarrow> u64 \<Rightarrow> task_context" where
  "fresh_context entry sp =
     \<lparr>r15 = 0, r14 = 0, r13 = 0, r12 = 0, rbx = 0, rbp = sp, rsp = sp, rip = entry\<rparr>"

definition scheduler_create_task :: "bytes \<Rightarrow> u64 \<Rightarrow> sched \<Rightarrow> int \<times> sched" where
  "scheduler_create_task name entry s =
     (case find_free_slot s of
        None \<Rightarrow> (-1, s)
      | Some slot \<Rightarrow>
          let t = (tasks s ! slot)\<lparr>t_id := of_int (next_task_id s), t_state := TASK_UNUSED,
                     tick_count := 0, t_name := copy_task_name name\<rparr>;
              s1 = (set_task slot t s)\<lparr>next_task_id := next_id (next_task_id s)\<rparr>
          in (case alloc_pages pmm_alloc_page 4 (phys s1) of
                (Some (stack_bottom # _), p) \<Rightarrow>
                  let top = stack_bottom + TASK_STACK_SIZE;
                      sp = top - 8;
                      t' = t\<lparr>stack_top := top, user_stack_bottom := 0, user_stack_top := 0,
                             user_entry := 0, is_user := 0, ctx := fresh_context entry sp,
                             t_state := TASK_READY\<rparr>
                  in (sint (t_id t'), (set_task slot t' s1)\<lparr>kmem := store64 sp entry (kmem s1), phys := p\<rparr>)
              | (_, p) \<Rightarrow> (-1, s1\<lparr>phys := p\<rparr>)))"

text \<open>
  \<open>bootstrap\<close> is the link-time address of \<open>user_task_bootstrap\<close>, where a user task starts
  in ring 0.
\<close>

definition scheduler_create_user_task :: "u64 \<Rightarrow> bytes \<Rightarrow> u64 \<Rightarrow> sched \<Rightarrow> int \<times> sched" where
  "scheduler_create_user_task bootstrap name entry s =
     (case find_free_slot s of
        None \<Rightarrow> (-1, s)
      | Some slot \<Rightarrow>
          let t = (tasks s ! slot)\<lparr>t_id := of_int (next_task_id s), t_state := TASK_UNUSED,
                     tick_count := 0, is_user := 1, user_entry := entry,
                     t_name := copy_task_name name\<rparr>;
              s1 = (set_task slot t s)\<lparr>next_task_id := next_id (next_task_id s)\<rparr>
          in (case alloc_pages pmm_alloc_page 4 (phys s1) of
                (Some (kernel_stack_bottom # _), p) \<Rightarrow>
                  let t1 = t\<lparr>stack_top := kernel_stack_bottom + TASK_STACK_SIZE\<rparr>;
                      s2 = (set_task slot t1 s1)\<lparr>phys := p\<rparr>
                  in (case pmm_alloc_page p of (user_stack, p') \<Rightarrow>
                        if user_stack = 0 then (-1, s2\<lparr>phys := p'\<rparr>)
                        else let sp = stack_top t1 - 8;
                                 t' = t1\<lparr>user_stack_bottom := user_stack,
                                         user_stack_top := user_stack + 4096,
                                         ctx := fresh_context bootstrap sp, t_state := TASK_READY\<rparr>
                             in (sint (t_id t'),
                                 (set_task slot t' s2)\<lparr>kmem := store64 sp bootstrap (kmem s2), phys := p'\<rparr>))
              | (_, p) \<Rightarrow> (-1, s1\<lparr>phys := p\<rparr>)))"

text \<open>
  A tick counts against the current task, then moves on to the next ready task. The
  boolean result says whether the CPU was switched to another stack: the statements after
  the call then run only when the switched-out task is resumed.
\<close>

definition count_tick :: "sched \<Rightarrow> sched" where
  "count_tick s =
     (if 0 \<le> current_task_id s
      then let i = nat (current_task_id s); t = tasks s ! i
           in set_task i (t\<lparr>tick_count := tick_count t + 1\<rparr>) s
      else s)"

definition scheduler_tick :: "sched \<Rightarrow> bool \<times> sched" where
  "scheduler_tick s0 =
     (let s = count_tick s0 in
      case find_next_ready_task s of
        None \<Rightarrow> (False, s)
      | Some next \<Rightarrow>
          if int next = current_task_id s then (False, s)
          else
            let old_id = current_task_id s;
                s1 = s\<lparr>current_task_id := int next\<rparr>;
                s2 = (if 0 \<le> old_id then set_state (nat old_id) TASK_READY s1 else s1);
                s3 = set_state next TASK_RUNNING s2;
                s4 = tss_set_kernel_stack (stack_top (tasks s3 ! next)) s3
            in if 0 \<le> old_id then (True, context_switch (nat old_id) next s4) else (False, s4))"

definition scheduler_yield :: "sched \<Rightarrow> sched" where
  "scheduler_yield s =
     (case scheduler_tick (s\<lparr>int_flag := False\<rparr>) of
        (switched, s') \<Rightarrow> if switched then s' else s'\<lparr>int_flag := True\<rparr>)"

definition scheduler_start :: "sched \<Rightarrow> sched" where
  "scheduler_start s0 =
     (let s = s0\<lparr>int_flag := False, current_task_id := -1\<rparr> in
      case find (\<lambda>i. t_state (tasks s ! i) = TASK_READY) [0..<MAX_TASKS] of
        None \<Rightarrow> s\<lparr>int_flag := True\<rparr>
      | Some next \<Rightarrow>
          let s1 = s\<lparr>tasks := map (\<lambda>t. if t_state t = TASK_RUNNING then t\<lparr>t_state := TASK_READY\<rparr> else t)
                       (tasks s), current_task_id := int next\<rparr>;
              s2 = set_state next TASK_RUNNING s1
          in scheduler_start_first_task next (tss_set_kernel_stack (stack_top (tasks s2 ! next)) s2))"

definition task_state_name :: "task_state \<Rightarrow> string" where
  "task_state_name st = (case st of TASK_READY \<Rightarrow> ''READY'' | TASK_RUNNING \<Rightarrow> ''RUNNING''
     | TASK_BLOCKED \<Rightarrow> ''BLOCKED'' | TASK_DEAD \<Rightarrow> ''DEAD'' | TASK_UNUSED \<Rightarrow> ''UNKNOWN'')"

text \<open>The lines of \<open>scheduler_dump\<close>: id, name, state and tick count of each slot in use.\<close>

definition scheduler_dump :: "sched \<Rightarrow> (int \<times> bytes \<times> string \<times> int) list" where
  "scheduler_dump s =
     map (\<lambda>t. (sint (t_id t), t_name t, task_state_name (t_state t), sint (ucast (tick_count t) :: u32)))
       (filter (\<lambda>t. t_state t \<noteq> TASK_UNUSED) (take MAX_TASKS (tasks s)))"

end
