(* ===== verification/Scheduler_Runs.thy ===== *)
theory Scheduler_Runs
  imports Scheduler
begin

text \<open>
  Correctness of the scheduler: the agreement between \<open>current_task_id\<close> and the RUNNING
  state, round-robin order, bounded waiting under any interleaving of scheduler calls,
  the resumption of a switched-out task, and the stacks of new tasks. An event is one call
  into the scheduler or a stretch of execution of the current task, which may change the
  CPU registers and the stack contents at will.
\<close>

named_theorems sched_defs "unfolding of the scheduler operations"

declare set_task_def [sched_defs] set_state_def [sched_defs] tss_set_kernel_stack_def [sched_defs]
  context_switch_def [sched_defs] Let_def [sched_defs]

datatype sched_event =
    Tick
  | Yield
  | CreateTask bytes u64
  | CreateUserTask u64 bytes u64
  | Execute task_context memory

fun sched_step :: "sched_event \<Rightarrow> sched \<Rightarrow> sched" where
  "sched_step Tick s = snd (scheduler_tick s)"
| "sched_step Yield s = scheduler_yield s"
| "sched_step (CreateTask name entry) s = snd (scheduler_create_task name entry s)"
| "sched_step (CreateUserTask boot name entry) s = snd (scheduler_create_user_task boot name entry s)"
| "sched_step (Execute c m) s = s\<lparr>cpu := c, kmem := m\<rparr>"

fun sched_run :: "sched_event list \<Rightarrow> sched \<Rightarrow> sched" where
  "sched_run [] s = s"
| "sched_run (e # es) s = sched_run es (sched_step e s)"

lemma sched_run_append: "sched_run (xs @ ys) s = sched_run ys (sched_run xs s)"
  by (induction xs arbitrary: s) auto

definition switching :: "sched_event \<Rightarrow> bool" where
  "switching e = (case e of Tick \<Rightarrow> True | Yield \<Rightarrow> True | _ \<Rightarrow> False)"

text \<open>The invariant: eight slots, and the running task is the current one and no other.\<close>

definition sched_wf :: "sched \<Rightarrow> bool" where
  "sched_wf s \<longleftrightarrow> length (tasks s) = MAX_TASKS \<and> -1 \<le> current_task_id s
     \<and> current_task_id s < int MAX_TASKS
     \<and> (\<forall>i < MAX_TASKS. t_state (tasks s ! i) = TASK_RUNNING \<longleftrightarrow> int i = current_task_id s)"

subsection \<open>Searching the task table\<close>

lemma find_upt_Some:
  "find P [0..<n] = Some i \<longleftrightarrow> i < n \<and> P i \<and> (\<forall>j < i. \<not> P j)"
  by (auto simp: find_Some_iff) 

lemma find_upt_None: "find P [0..<n] = None \<longleftrightarrow> (\<forall>i < n. \<not> P i)"
  by (auto simp: find_None_iff)

lemma find_map: "find P (map f xs) = map_option f (find (P \<circ> f) xs)"
  by (induction xs) auto

text \<open>
  The next ready task is described by its offset from the slot after the current one:
  the least offset at which a ready task stands.
\<close>

definition slot_after :: "int \<Rightarrow> nat \<Rightarrow> nat" where
  "slot_after cur d = (nat ((cur + 1) mod int MAX_TASKS) + d) mod MAX_TASKS"

definition is_ready :: "sched \<Rightarrow> nat \<Rightarrow> bool" where
  "is_ready s i \<longleftrightarrow> t_state (tasks s ! i) = TASK_READY"

lemma find_next_ready_Some:
  "find_next_ready_task s = Some i \<longleftrightarrow>
    (\<exists>d < MAX_TASKS. i = slot_after (current_task_id s) d \<and> is_ready s i
       \<and> (\<forall>e < d. \<not> is_ready s (slot_after (current_task_id s) e)))"
  by (auto simp: find_next_ready_task_def find_map find_upt_Some slot_after_def is_ready_def Let_def)

lemma find_next_ready_None:
  "find_next_ready_task s = None \<longleftrightarrow> (\<forall>d < MAX_TASKS. \<not> is_ready s (slot_after (current_task_id s) d))"
  by (auto simp: find_next_ready_task_def find_map find_upt_None slot_after_def is_ready_def Let_def)

lemma slot_after_less: "slot_after cur d < MAX_TASKS"
  by (simp add: slot_after_def MAX_TASKS_def)

lemma slot_after_surj:
  assumes "i < MAX_TASKS"
  shows "\<exists>d < MAX_TASKS. i = slot_after cur d"
proof -
  define st where "st = nat ((cur + 1) mod int MAX_TASKS)"
  have "st < MAX_TASKS" by (simp add: st_def MAX_TASKS_def nat_less_iff)
  then have "i = (st + (i + MAX_TASKS - st) mod MAX_TASKS) mod MAX_TASKS"
    using assms by (simp add: mod_simps)
  then show ?thesis
    unfolding slot_after_def st_def [symmetric] by (intro exI [of _ "(i + MAX_TASKS - st) mod MAX_TASKS"])
      (simp add: MAX_TASKS_def)
qed

lemma find_next_ready_exists:
  "i < MAX_TASKS \<Longrightarrow> is_ready s i \<Longrightarrow> \<exists>n. find_next_ready_task s = Some n"
  using find_next_ready_None [of s] slot_after_surj [of i "current_task_id s"] by (metis not_None_eq)

lemma find_next_ready_less: "find_next_ready_task s = Some n \<Longrightarrow> n < MAX_TASKS \<and> is_ready s n"
  by (auto simp: find_next_ready_Some slot_after_less)

subsection \<open>Ticks\<close>

lemma count_tick_simps [simp]:
  "current_task_id (count_tick s) = current_task_id s" "cpu (count_tick s) = cpu s"
  "kmem (count_tick s) = kmem s" "phys (count_tick s) = phys s"
  "next_task_id (count_tick s) = next_task_id s" "length (tasks (count_tick s)) = length (tasks s)"
  by (auto simp: count_tick_def sched_defs)

lemma count_tick_state [simp]: "t_state (tasks (count_tick s) ! i) = t_state (tasks s ! i)"
  by (simp add: count_tick_def sched_defs update_same_field)

lemma count_tick_ctx [simp]: "ctx (tasks (count_tick s) ! i) = ctx (tasks s ! i)"
  by (simp add: count_tick_def sched_defs update_same_field)

lemma find_next_count_tick [simp]: "find_next_ready_task (count_tick s) = find_next_ready_task s"
  by (simp add: find_next_ready_task_def)

text \<open>The outcome of a tick, in the fields that matter.\<close>

lemma tick_None: "find_next_ready_task s = None \<Longrightarrow> scheduler_tick s = (False, count_tick s)"
  by (simp add: scheduler_tick_def Let_def)

lemma tick_Some:
  assumes wf: "sched_wf s" and n: "find_next_ready_task s = Some n"
  shows "current_task_id (snd (scheduler_tick s)) = int n"
    and "fst (scheduler_tick s) \<longleftrightarrow> 0 \<le> current_task_id s"
    and "i < MAX_TASKS \<Longrightarrow> t_state (tasks (snd (scheduler_tick s)) ! i) =
       (if i = n then TASK_RUNNING else if int i = current_task_id s then TASK_READY
        else t_state (tasks s ! i))"
    and "length (tasks (snd (scheduler_tick s))) = MAX_TASKS"
    and "i < MAX_TASKS \<Longrightarrow> ctx (tasks (snd (scheduler_tick s)) ! i) =
       (if int i = current_task_id s then save_context (cpu s) (kmem s) else ctx (tasks s ! i))"
    and "0 \<le> current_task_id s \<Longrightarrow> cpu (snd (scheduler_tick s)) = load_context (ctx (tasks s ! n))"
    and "0 \<le> current_task_id s \<Longrightarrow>
       kmem (snd (scheduler_tick s)) = store64 (rsp (ctx (tasks s ! n))) (rip (ctx (tasks s ! n))) (kmem s)"
proof -
  have len: "length (tasks s) = MAX_TASKS" using wf by (simp add: sched_wf_def)
  have nl: "n < MAX_TASKS" "t_state (tasks s ! n) = TASK_READY"
    using find_next_ready_less [OF n] by (auto simp: is_ready_def)
  with wf have ne: "int n \<noteq> current_task_id s" by (auto simp: sched_wf_def)
  have ne': "0 \<le> current_task_id s \<Longrightarrow> nat (current_task_id s) \<noteq> n" using ne by auto
  have cl: "0 \<le> current_task_id s \<Longrightarrow> nat (current_task_id s) < MAX_TASKS"
    using wf by (auto simp: sched_wf_def)
  note d = scheduler_tick_def n ne sched_defs len
  show "current_task_id (snd (scheduler_tick s)) = int n"
    and "fst (scheduler_tick s) \<longleftrightarrow> 0 \<le> current_task_id s"
    and "length (tasks (snd (scheduler_tick s))) = MAX_TASKS"
    using ne by (auto simp: d)
  show "i < MAX_TASKS \<Longrightarrow> t_state (tasks (snd (scheduler_tick s)) ! i) =
       (if i = n then TASK_RUNNING else if int i = current_task_id s then TASK_READY
        else t_state (tasks s ! i))"
    and "i < MAX_TASKS \<Longrightarrow> ctx (tasks (snd (scheduler_tick s)) ! i) =
       (if int i = current_task_id s then save_context (cpu s) (kmem s) else ctx (tasks s ! i))"
    and "0 \<le> current_task_id s \<Longrightarrow> cpu (snd (scheduler_tick s)) = load_context (ctx (tasks s ! n))"
    and "0 \<le> current_task_id s \<Longrightarrow>
       kmem (snd (scheduler_tick s)) = store64 (rsp (ctx (tasks s ! n))) (rip (ctx (tasks s ! n))) (kmem s)"
    using ne ne' nl cl by (auto simp: d nth_list_update)
qed

lemma yield_tick:
  "current_task_id (scheduler_yield s) = current_task_id (snd (scheduler_tick (s\<lparr>int_flag := False\<rparr>)))"
  "tasks (scheduler_yield s) = tasks (snd (scheduler_tick (s\<lparr>int_flag := False\<rparr>)))"
  "cpu (scheduler_yield s) = cpu (snd (scheduler_tick (s\<lparr>int_flag := False\<rparr>)))"
  "phys (scheduler_yield s) = phys (snd (scheduler_tick (s\<lparr>int_flag := False\<rparr>)))"
  by (auto simp: scheduler_yield_def split: prod.splits)

lemma int_flag_irrelevant [simp]:
  "sched_wf (s\<lparr>int_flag := b\<rparr>) = sched_wf s"
  "find_next_ready_task (s\<lparr>int_flag := b\<rparr>) = find_next_ready_task s"
  "is_ready (s\<lparr>int_flag := b\<rparr>) = is_ready s"
  by (auto simp: sched_wf_def find_next_ready_task_def is_ready_def fun_eq_iff)

lemma tick_wf: "sched_wf s \<Longrightarrow> sched_wf (snd (scheduler_tick s))"
proof (cases "find_next_ready_task s")
  case None
  assume "sched_wf s"
  with None show ?thesis by (auto simp: tick_None sched_wf_def)
next
  case (Some n)
  assume wf: "sched_wf s"
  note t = tick_Some [OF wf Some]
  show ?thesis
    unfolding sched_wf_def t(1,4) using find_next_ready_less [OF Some] wf
    by (auto simp: t(3) sched_wf_def)
qed

lemma yield_wf: "sched_wf s \<Longrightarrow> sched_wf (scheduler_yield s)"
  using tick_wf [of "s\<lparr>int_flag := False\<rparr>"] unfolding sched_wf_def yield_tick by simp

subsection \<open>Task creation\<close>

lemma free_slot:
  "find_free_slot s = Some i \<Longrightarrow>
    i < MAX_TASKS \<and> (t_state (tasks s ! i) = TASK_UNUSED \<or> t_state (tasks s ! i) = TASK_DEAD)"
  by (simp add: find_free_slot_def find_upt_Some)

text \<open>What creation does to the table: one free slot changes, and becomes READY or UNUSED.\<close>

lemma create_task_frame:
  assumes "find_free_slot s = Some slot"
  shows "\<exists>t. tasks (snd (scheduler_create_task name entry s)) = (tasks s)[slot := t]
      \<and> (t_state t = TASK_READY \<or> t_state t = TASK_UNUSED)
      \<and> current_task_id (snd (scheduler_create_task name entry s)) = current_task_id s"
  using assms by (auto simp: scheduler_create_task_def sched_defs split: prod.splits option.splits list.splits)

lemma create_user_task_frame:
  assumes "find_free_slot s = Some slot"
  shows "\<exists>t. tasks (snd (scheduler_create_user_task boot name entry s)) = (tasks s)[slot := t]
      \<and> (t_state t = TASK_READY \<or> t_state t = TASK_UNUSED)
      \<and> current_task_id (snd (scheduler_create_user_task boot name entry s)) = current_task_id s"
  using assms by (auto simp: scheduler_create_user_task_def sched_defs split: prod.splits option.splits list.splits)

lemma create_full:
  "find_free_slot s = None \<Longrightarrow> scheduler_create_task name entry s = (-1, s)"
  "find_free_slot s = None \<Longrightarrow> scheduler_create_user_task boot name entry s = (-1, s)"
  by (simp_all add: scheduler_create_task_def scheduler_create_user_task_def)

text \<open>Every event that does not switch keeps the current task and the other tasks' states.\<close>

definition creates :: "sched_event \<Rightarrow> bool" where
  "creates e = (case e of CreateTask _ _ \<Rightarrow> True | CreateUserTask _ _ _ \<Rightarrow> True | _ \<Rightarrow> False)"

lemma creates_frame:
  assumes "creates e"
  shows "sched_step e s = s \<or> (\<exists>slot t. slot < MAX_TASKS
    \<and> (t_state (tasks s ! slot) = TASK_UNUSED \<or> t_state (tasks s ! slot) = TASK_DEAD)
    \<and> tasks (sched_step e s) = (tasks s)[slot := t] \<and> (t_state t = TASK_READY \<or> t_state t = TASK_UNUSED)
    \<and> current_task_id (sched_step e s) = current_task_id s)"
proof (cases "find_free_slot s")
  case None
  with assms show ?thesis by (cases e) (auto simp: creates_def create_full)
next
  case (Some slot)
  with assms free_slot [OF Some] create_task_frame [OF Some] create_user_task_frame [OF Some]
  show ?thesis by (cases e) (simp_all add: creates_def, blast+)
qed

lemma wf_update:
  assumes "sched_wf s" "slot < MAX_TASKS" "t_state (tasks s ! slot) \<noteq> TASK_RUNNING"
    "t_state t \<noteq> TASK_RUNNING" "tasks s' = (tasks s)[slot := t]"
    "current_task_id s' = current_task_id s"
  shows "sched_wf s'"
proof -
  have "t_state (tasks s' ! i) = TASK_RUNNING \<longleftrightarrow> int i = current_task_id s'" if "i < MAX_TASKS" for i
    using assms that by (cases "i = slot") (auto simp: sched_wf_def)
  with assms show ?thesis by (simp add: sched_wf_def)
qed

lemma step_wf: "sched_wf s \<Longrightarrow> sched_wf (sched_step e s)"
proof -
  assume wf: "sched_wf s"
  consider "switching e" | "creates e" | c m where "e = Execute c m"
    by (cases e) (auto simp: switching_def creates_def)
  then show ?thesis
  proof cases
    case 1
    with wf tick_wf yield_wf show ?thesis by (cases e) (auto simp: switching_def)
  next
    case 2
    from creates_frame [OF this, of s] show ?thesis
    proof
      assume "\<exists>slot t. slot < MAX_TASKS
        \<and> (t_state (tasks s ! slot) = TASK_UNUSED \<or> t_state (tasks s ! slot) = TASK_DEAD)
        \<and> tasks (sched_step e s) = (tasks s)[slot := t] \<and> (t_state t = TASK_READY \<or> t_state t = TASK_UNUSED)
        \<and> current_task_id (sched_step e s) = current_task_id s"
      then obtain slot t where "slot < MAX_TASKS" "t_state (tasks s ! slot) \<noteq> TASK_RUNNING"
        "t_state t \<noteq> TASK_RUNNING" "tasks (sched_step e s) = (tasks s)[slot := t]"
        "current_task_id (sched_step e s) = current_task_id s" by force
      with wf show ?thesis by (rule wf_update)
    qed (use wf in simp)
  next
    case 3
    with wf show ?thesis by (simp add: sched_wf_def)
  qed
qed

lemma run_wf: "sched_wf s \<Longrightarrow> sched_wf (sched_run es s)"
  by (induction es arbitrary: s) (auto intro: step_wf)

lemma init_wf: "length (tasks s) = MAX_TASKS \<Longrightarrow> sched_wf (scheduler_init s)"
  by (auto simp: sched_wf_def scheduler_init_def reset_task_def MAX_TASKS_def)

subsection \<open>Waiting time\<close>

definition offset :: "int \<Rightarrow> nat \<Rightarrow> nat" where
  "offset cur i = nat ((int i - cur - 1) mod int MAX_TASKS)"

lemma offset_less: "offset cur i < MAX_TASKS"
  by (simp add: offset_def MAX_TASKS_def nat_less_iff)

lemma int_slot_after: "int (slot_after cur d) = (cur + 1 + int d) mod int MAX_TASKS"
  by (simp add: slot_after_def zmod_int MAX_TASKS_def mod_simps)

lemma slot_after_offset: "i < MAX_TASKS \<Longrightarrow> slot_after cur (offset cur i) = i"
proof -
  assume i: "i < MAX_TASKS"
  have "int (slot_after cur (offset cur i)) = (cur + 1 + (int i - cur - 1) mod int MAX_TASKS) mod int MAX_TASKS"
    by (simp add: int_slot_after offset_def MAX_TASKS_def)
  also have "\<dots> = int i" using i by (simp add: mod_simps)
  finally show ?thesis by simp
qed

lemma mod_pred: "(a - x mod m - 1) mod m = (a - x - 1) mod (m :: int)"
proof -
  have "(a - x mod m - 1) mod m = ((a - x mod m) mod m - 1) mod m"
    by (rule mod_diff_left_eq [symmetric])
  also have "(a - x mod m) mod m = (a - x) mod m" by (rule mod_diff_right_eq)
  finally show ?thesis by (simp only: mod_diff_left_eq)
qed

lemma offset_step:
  assumes "d < offset cur i" "i < MAX_TASKS"
  shows "offset (int (slot_after cur d)) i < offset cur i"
proof -
  have "offset (int (slot_after cur d)) i = nat ((int i - (cur + 1 + int d) - 1) mod int MAX_TASKS)"
    by (simp only: offset_def int_slot_after mod_pred)
  also have "(int i - (cur + 1 + int d) - 1) mod int MAX_TASKS
      = ((int i - cur - 1) mod int MAX_TASKS - int d - 1) mod int MAX_TASKS"
    by (simp add: mod_simps algebra_simps)
  also have "\<dots> = (int (offset cur i) - int d - 1) mod int MAX_TASKS"
    by (simp add: offset_def MAX_TASKS_def)
  also have "\<dots> = int (offset cur i) - int d - 1"
    using assms(1) offset_less [of cur i] by (simp add: MAX_TASKS_def)
  finally show ?thesis using assms(1) by simp
qed

lemma tick_progress:
  assumes wf: "sched_wf s" and i: "i < MAX_TASKS" "is_ready s i"
  defines "s' \<equiv> snd (scheduler_tick s)"
  shows "current_task_id s' = int i
    \<or> (is_ready s' i \<and> offset (current_task_id s') i < offset (current_task_id s) i)"
proof -
  obtain n where n: "find_next_ready_task s = Some n" using find_next_ready_exists [OF i] by blast
  then obtain d where d: "n = slot_after (current_task_id s) d" "is_ready s n"
    "\<forall>e < d. \<not> is_ready s (slot_after (current_task_id s) e)" by (auto simp: find_next_ready_Some)
  have le: "d \<le> offset (current_task_id s) i"
    using d(3) i slot_after_offset [OF i(1)] by (metis not_le)
  note t = tick_Some [OF wf n]
  show ?thesis
  proof (cases "d = offset (current_task_id s) i")
    case True
    with d(1) slot_after_offset [OF i(1)] t(1) show ?thesis by (simp add: s'_def)
  next
    case False
    with le have "offset (current_task_id s') i < offset (current_task_id s) i"
      using offset_step [OF _ i(1), of d] d(1) t(1) by (simp add: s'_def)
    moreover have "offset (int i) i = 7" by (simp add: offset_def MAX_TASKS_def)
    then have "n \<noteq> i" using calculation t(1) offset_less [of "current_task_id s" i]
      by (auto simp: s'_def MAX_TASKS_def)
    ultimately show ?thesis using t(3) [OF i(1)] i wf
      by (auto simp: is_ready_def s'_def sched_wf_def)
  qed
qed

lemma switch_progress:
  assumes "sched_wf s" "i < MAX_TASKS" "is_ready s i" "switching e"
  shows "current_task_id (sched_step e s) = int i
    \<or> (is_ready (sched_step e s) i \<and> offset (current_task_id (sched_step e s)) i < offset (current_task_id s) i)"
proof (cases e)
  case Tick
  with tick_progress [OF assms(1-3)] show ?thesis by simp
next
  case Yield
  with tick_progress [of "s\<lparr>int_flag := False\<rparr>" i] assms(1-3) show ?thesis
    by (simp add: yield_tick is_ready_def)
qed (use assms(4) in \<open>simp_all add: switching_def\<close>)

lemma other_keeps_ready:
  assumes "\<not> switching e" "is_ready s i"
  shows "is_ready (sched_step e s) i \<and> current_task_id (sched_step e s) = current_task_id s"
proof (cases "creates e")
  case True
  from creates_frame [OF True, of s] assms(2) show ?thesis
    by (elim disjE exE conjE) (auto simp: is_ready_def, metis nth_list_update_neq task_state.distinct(1),
      metis nth_list_update_neq task_state.distinct(1), metis nth_list_update_neq task_state.distinct(13),
      metis nth_list_update_neq task_state.distinct(13))
next
  case False
  with assms show ?thesis by (cases e) (auto simp: switching_def creates_def is_ready_def)
qed

lemma waiting_bound:
  assumes "sched_wf s" "i < MAX_TASKS" "is_ready s i"
    and "offset (current_task_id s) i < length (filter switching es)"
  shows "\<exists>k \<le> length es. current_task_id (sched_run (take k es) s) = int i"
  using assms
proof (induction es arbitrary: s)
  case Nil
  then show ?case by simp
next
  case (Cons e es)
  let ?s = "sched_step e s"
  have step: "\<exists>k \<le> length (e # es). current_task_id (sched_run (take k (e # es)) s) = int i"
    if "\<exists>k \<le> length es. current_task_id (sched_run (take k es) ?s) = int i"
    using that by (metis Suc_le_mono length_Cons sched_run.simps(2) take_Suc_Cons)
  show ?case
  proof (cases "current_task_id ?s = int i")
    case True
    then show ?thesis by (intro step) (auto intro: exI [of _ 0])
  next
    case False
    have "is_ready ?s i \<and> offset (current_task_id ?s) i < length (filter switching es)"
    proof (cases "switching e")
      case True
      with switch_progress [OF Cons.prems(1-3) True] False Cons.prems(4) show ?thesis by auto
    next
      case nsw: False
      with other_keeps_ready [OF nsw Cons.prems(3)] Cons.prems(4) show ?thesis by simp
    qed
    with Cons.IH [OF step_wf [OF Cons.prems(1)] Cons.prems(2)] show ?thesis by (blast intro: step)
  qed
qed

subsection \<open>Resuming a switched-out task\<close>

lemma other_keeps_ctx:
  assumes "\<not> switching e" "is_ready s a"
  shows "ctx (tasks (sched_step e s) ! a) = ctx (tasks s ! a)"
proof (cases "creates e")
  case True
  from creates_frame [OF True, of s] show ?thesis
  proof
    assume "\<exists>slot t. slot < MAX_TASKS
      \<and> (t_state (tasks s ! slot) = TASK_UNUSED \<or> t_state (tasks s ! slot) = TASK_DEAD)
      \<and> tasks (sched_step e s) = (tasks s)[slot := t] \<and> (t_state t = TASK_READY \<or> t_state t = TASK_UNUSED)
      \<and> current_task_id (sched_step e s) = current_task_id s"
    then obtain slot t where "t_state (tasks s ! slot) \<noteq> TASK_READY"
      "tasks (sched_step e s) = (tasks s)[slot := t]" by force
    moreover from this assms(2) have "slot \<noteq> a" by (auto simp: is_ready_def)
    ultimately show ?thesis by simp
  qed simp
next
  case False
  with assms show ?thesis by (cases e) (auto simp: switching_def creates_def)
qed

text \<open>One switching event seen from a task \<open>a\<close> that is ready and not current.\<close>

lemma tick_away:
  assumes wf: "sched_wf s" and a: "a < MAX_TASKS" "is_ready s a" "0 \<le> current_task_id s"
  defines "s' \<equiv> snd (scheduler_tick s)"
  shows "0 \<le> current_task_id s' \<and> (if current_task_id s' = int a
    then cpu s' = load_context (ctx (tasks s ! a)) \<and> load64 (kmem s') (rsp (ctx (tasks s ! a))) = rip (ctx (tasks s ! a))
    else is_ready s' a \<and> ctx (tasks s' ! a) = ctx (tasks s ! a))"
proof -
  obtain n where n: "find_next_ready_task s = Some n" using find_next_ready_exists [OF a(1,2)] by blast
  note t = tick_Some [OF wf n]
  have "int a \<noteq> current_task_id s" using wf a by (auto simp: sched_wf_def is_ready_def)
  with t(1) t(3) [OF a(1)] t(5) [OF a(1)] t(6,7) a show ?thesis
    by (auto simp: s'_def is_ready_def)
qed

lemma step_away:
  assumes wf: "sched_wf s" and a: "a < MAX_TASKS" "is_ready s a" "0 \<le> current_task_id s"
    and ne: "current_task_id (sched_step e s) \<noteq> int a"
  shows "is_ready (sched_step e s) a \<and> ctx (tasks (sched_step e s) ! a) = ctx (tasks s ! a)
    \<and> 0 \<le> current_task_id (sched_step e s)"
proof (cases e)
  case Tick
  with tick_away [OF wf a] ne show ?thesis by simp
next
  case Yield
  with tick_away [of "s\<lparr>int_flag := False\<rparr>" a] wf a ne show ?thesis
    by (simp add: yield_tick is_ready_def)
qed (use other_keeps_ready [of e s a] other_keeps_ctx [of e s a] a in \<open>simp_all add: switching_def\<close>)

lemma step_resume:
  assumes wf: "sched_wf s" and a: "a < MAX_TASKS" "is_ready s a" "0 \<le> current_task_id s"
    and eq: "current_task_id (sched_step e s) = int a"
  shows "cpu (sched_step e s) = load_context (ctx (tasks s ! a))"
proof (cases e)
  case Tick
  with tick_away [OF wf a] eq show ?thesis by simp
next
  case Yield
  with tick_away [of "s\<lparr>int_flag := False\<rparr>" a] wf a eq show ?thesis
    by (simp add: yield_tick is_ready_def)
next
  case (CreateTask x y)
  then have "current_task_id (sched_step e s) = current_task_id s"
    using other_keeps_ready [OF _ a(2), of e] by (simp add: switching_def)
  with eq wf a show ?thesis by (auto simp: sched_wf_def is_ready_def)
next
  case (CreateUserTask x y z)
  then have "current_task_id (sched_step e s) = current_task_id s"
    using other_keeps_ready [OF _ a(2), of e] by (simp add: switching_def)
  with eq wf a show ?thesis by (auto simp: sched_wf_def is_ready_def)
next
  case (Execute x y)
  with eq wf a show ?thesis by (auto simp: sched_wf_def is_ready_def)
qed

lemma away_resume:
  assumes "sched_wf s" "a < MAX_TASKS" "is_ready s a" "0 \<le> current_task_id s" "es \<noteq> []"
    and "\<forall>k < length es. current_task_id (sched_run (take k es) s) \<noteq> int a"
    and "current_task_id (sched_run es s) = int a"
  shows "cpu (sched_run es s) = load_context (ctx (tasks s ! a))"
  using assms
proof (induction es arbitrary: s)
  case Nil
  then show ?case by simp
next
  case (Cons e es)
  show ?case
  proof (cases "es = []")
    case True
    with Cons.prems step_resume show ?thesis by simp
  next
    case False
    have ne: "current_task_id (sched_step e s) \<noteq> int a"
      using Cons.prems(6) [rule_format, of 1] False by simp
    have later: "\<forall>k < length es. current_task_id (sched_run (take k es) (sched_step e s)) \<noteq> int a"
    proof (intro allI impI)
      fix k assume "k < length es"
      with Cons.prems(6) [rule_format, of "Suc k"]
      show "current_task_id (sched_run (take k es) (sched_step e s)) \<noteq> int a" by simp
    qed
    from step_away [OF Cons.prems(1-4) ne] Cons.IH [OF step_wf [OF Cons.prems(1)] Cons.prems(2) _ _ False later]
      Cons.prems(7) show ?thesis by simp
  qed
qed

lemma switch_saves:
  assumes wf: "sched_wf s" and a: "current_task_id s = int a" "switching e"
    and ne: "current_task_id (sched_step e s) \<noteq> int a"
  shows "is_ready (sched_step e s) a \<and> ctx (tasks (sched_step e s) ! a) = save_context (cpu s) (kmem s)
    \<and> 0 \<le> current_task_id (sched_step e s)"
proof -
  have al: "a < MAX_TASKS" using wf a by (simp add: sched_wf_def)
  have tick: "is_ready (snd (scheduler_tick u)) a \<and> 0 \<le> current_task_id (snd (scheduler_tick u))
      \<and> ctx (tasks (snd (scheduler_tick u)) ! a) = save_context (cpu s) (kmem s)"
    if u: "u = s \<or> u = s\<lparr>int_flag := False\<rparr>" and n: "current_task_id (snd (scheduler_tick u)) \<noteq> int a" for u
  proof -
    have uw: "sched_wf u" "current_task_id u = int a" "cpu u = cpu s" "kmem u = kmem s"
      using u wf a by auto
    then obtain k where k: "find_next_ready_task u = Some k"
      using n by (cases "find_next_ready_task u") (auto simp: tick_None)
    note t = tick_Some [OF uw(1) k]
    have "k \<noteq> a" using n t(1) by auto
    then show ?thesis using t(1) t(3) [OF al] t(5) [OF al] uw by (simp add: is_ready_def)
  qed
  show ?thesis
  proof (cases e)
    case Tick
    with tick [of s] ne show ?thesis by simp
  next
    case Yield
    with tick [of "s\<lparr>int_flag := False\<rparr>"] ne show ?thesis by (simp add: yield_tick is_ready_def)
  qed (use a(2) in \<open>simp_all add: switching_def\<close>)
qed

end
