(* ===== verification/Scheduler_Props.thy ===== *)
theory Scheduler_Props
  imports Scheduler_Runs
begin

text \<open>
  What the scheduler guarantees to the rest of the kernel: exclusive stacks, one running
  task, round-robin order with bounded waiting, faithful resumption; and what it does not:
  a task is never marked dead, and a start after an early tick runs nothing.
\<close>

subsection \<open>Reachable states\<close>

text \<open>
  The states of the kernel after \<open>pmm_init\<close>, any number of page allocations (the network
  driver takes its buffers first) and \<open>scheduler_init\<close> on a table of eight slots, under any sequence of events, and of starts of the scheduler that find a ready
  task (a start that finds none is the subject of two properties below).
\<close>

inductive sched_reach :: "sched \<Rightarrow> bool" where
  boot: "length (tasks s0) = MAX_TASKS \<Longrightarrow> pmm_inv (phys s0) \<Longrightarrow> 512 \<le> k \<Longrightarrow> k \<le> TOTAL_PAGES
    \<Longrightarrow> owned_below pmm_pool (pmm_used (phys s0)) k \<Longrightarrow> sched_reach (scheduler_init s0)"
| event: "sched_reach s \<Longrightarrow> sched_reach (sched_step e s)"
| start: "sched_reach s \<Longrightarrow> is_ready s i \<Longrightarrow> i < MAX_TASKS \<Longrightarrow> sched_reach (scheduler_start s)"

inductive_cases sched_reach_cases: "sched_reach s"

lemma start_Some:
  assumes len: "length (tasks s) = MAX_TASKS" and n: "n < MAX_TASKS" "is_ready s n" "\<forall>j < n. \<not> is_ready s j"
  shows "current_task_id (scheduler_start s) = int n"
    and "length (tasks (scheduler_start s)) = MAX_TASKS"
    and "i < MAX_TASKS \<Longrightarrow> t_state (tasks (scheduler_start s) ! i) = (if i = n then TASK_RUNNING
       else if t_state (tasks s ! i) = TASK_RUNNING then TASK_READY else t_state (tasks s ! i))"
    and "i < MAX_TASKS \<Longrightarrow> stack_top (tasks (scheduler_start s) ! i) = stack_top (tasks s ! i)"
    and "phys (scheduler_start s) = phys s"
    and "cpu (scheduler_start s) = ctx (tasks s ! n)"
    and "int_flag (scheduler_start s)"
    and "tss_rsp0 (scheduler_start s) = stack_top (tasks s ! n)"
proof -
  have f: "find (\<lambda>i. t_state (tasks s ! i) = TASK_READY) [0..<MAX_TASKS] = Some n"
    using n by (simp add: find_upt_Some is_ready_def)
  note d = scheduler_start_def f sched_defs scheduler_start_first_task_def len n
  show "current_task_id (scheduler_start s) = int n"
    and "length (tasks (scheduler_start s)) = MAX_TASKS"
    and "i < MAX_TASKS \<Longrightarrow> t_state (tasks (scheduler_start s) ! i) = (if i = n then TASK_RUNNING
       else if t_state (tasks s ! i) = TASK_RUNNING then TASK_READY else t_state (tasks s ! i))"
    and "i < MAX_TASKS \<Longrightarrow> stack_top (tasks (scheduler_start s) ! i) = stack_top (tasks s ! i)"
    and "phys (scheduler_start s) = phys s"
    and "cpu (scheduler_start s) = ctx (tasks s ! n)"
    and "int_flag (scheduler_start s)"
    and "tss_rsp0 (scheduler_start s) = stack_top (tasks s ! n)"
    by (auto simp: d nth_list_update)
qed

lemma start_same:
  assumes "length (tasks s) = MAX_TASKS" "i < MAX_TASKS"
  shows "kmem (scheduler_start s) = kmem s" "next_task_id (scheduler_start s) = next_task_id s"
    "t_name (tasks (scheduler_start s) ! i) = t_name (tasks s ! i)"
    "is_user (tasks (scheduler_start s) ! i) = is_user (tasks s ! i)"
  using assms by (auto simp: scheduler_start_def sched_defs scheduler_start_first_task_def update_same_field split: option.split)

lemma least_ready: "is_ready s i \<Longrightarrow> i < MAX_TASKS \<Longrightarrow> \<exists>n < MAX_TASKS. is_ready s n \<and> (\<forall>j < n. \<not> is_ready s j)"
  using find_upt_None [of "is_ready s" MAX_TASKS] find_upt_Some [of "is_ready s" MAX_TASKS]
  by (metis not_None_eq)

lemma start_wf:
  assumes "sched_wf s" "is_ready s i" "i < MAX_TASKS"
  shows "sched_wf (scheduler_start s)"
proof -
  obtain n where n: "n < MAX_TASKS" "is_ready s n" "\<forall>j < n. \<not> is_ready s j"
    using least_ready [OF assms(2,3)] by blast
  have len: "length (tasks s) = MAX_TASKS" using assms(1) by (simp add: sched_wf_def)
  note st = start_Some [OF len n]
  show ?thesis unfolding sched_wf_def st(1,2) using n(1) st(3) by auto
qed

lemma reach_wf: "sched_reach s \<Longrightarrow> sched_wf s"
  by (induction rule: sched_reach.induct) (auto intro: init_wf step_wf start_wf)

lemma reach_run: "sched_reach s \<Longrightarrow> sched_reach (sched_run es s)"
  by (induction es arbitrary: s) (auto intro: event)

definition zero_context :: task_context where
  "zero_context = fresh_context 0 0"

definition zero_task :: task where
  "zero_task = \<lparr>ctx = zero_context, t_state = TASK_UNUSED, t_id = 0, stack_top = 0, user_stack_bottom = 0,
     user_stack_top = 0, user_entry = 0, is_user = 0, tick_count = 0, t_name = []\<rparr>"

definition boot_state :: sched where
  "boot_state = scheduler_init \<lparr>tasks = replicate MAX_TASKS zero_task, current_task_id = -1,
     next_task_id = 0, tss_rsp0 = 0, cpu = zero_context, kmem = (\<lambda>_. 0), int_flag = False,
     phys = pmm_init\<rparr>"

lemma boot_reach: "sched_reach boot_state"
  unfolding boot_state_def
  by (rule boot [of _ 512]) (simp_all add: pmm_init_inv pmm_init_prefix TOTAL_PAGES_def)

subsection \<open>States a task can be in\<close>

definition live_states :: "sched \<Rightarrow> bool" where
  "live_states s \<longleftrightarrow> (\<forall>i < MAX_TASKS. t_state (tasks s ! i) \<in> {TASK_UNUSED, TASK_READY, TASK_RUNNING})"

lemma tick_live: "sched_wf s \<Longrightarrow> live_states s \<Longrightarrow> live_states (snd (scheduler_tick s))"
proof (cases "find_next_ready_task s")
  case None
  assume "live_states s"
  with None show ?thesis by (simp add: tick_None live_states_def)
next
  case (Some n)
  assume "sched_wf s" "live_states s"
  with tick_Some(3) [OF \<open>sched_wf s\<close> Some] show ?thesis by (auto simp: live_states_def)
qed

lemma step_live:
  assumes "sched_wf s" "live_states s"
  shows "live_states (sched_step e s)"
proof -
  consider "switching e" | "creates e" | c m where "e = Execute c m"
    by (cases e) (auto simp: switching_def creates_def)
  then show ?thesis
  proof cases
    case 1
    show ?thesis
    proof (cases e)
      case Yield
      have "live_states (snd (scheduler_tick (s\<lparr>int_flag := False\<rparr>)))"
        using assms by (intro tick_live) (simp_all add: live_states_def)
      with Yield show ?thesis by (simp add: live_states_def yield_tick)
    qed (use 1 tick_live [OF assms] in \<open>simp_all add: switching_def\<close>)
  next
    case 2
    from creates_frame [OF this, of s] show ?thesis
    proof
      assume "\<exists>slot t. slot < MAX_TASKS
        \<and> (t_state (tasks s ! slot) = TASK_UNUSED \<or> t_state (tasks s ! slot) = TASK_DEAD)
        \<and> tasks (sched_step e s) = (tasks s)[slot := t] \<and> (t_state t = TASK_READY \<or> t_state t = TASK_UNUSED)
        \<and> current_task_id (sched_step e s) = current_task_id s"
      then obtain slot t where st: "tasks (sched_step e s) = (tasks s)[slot := t]"
        "t_state t \<in> {TASK_UNUSED, TASK_READY}" "slot < MAX_TASKS" by force
      have "t_state ((tasks s)[slot := t] ! i) \<in> {TASK_UNUSED, TASK_READY, TASK_RUNNING}"
        if "i < MAX_TASKS" for i
        using that st assms by (cases "i = slot") (auto simp: live_states_def sched_wf_def)
      with st(1) show ?thesis by (simp add: live_states_def)
    qed (use assms in simp)
  qed (use assms(2) in \<open>simp add: live_states_def\<close>)
qed

lemma reach_live: "sched_reach s \<Longrightarrow> live_states s"
proof (induction rule: sched_reach.induct)
  case (boot s0 k)
  then show ?case by (simp add: live_states_def scheduler_init_def reset_task_def)
next
  case (event s e)
  then show ?case by (blast intro: step_live reach_wf)
next
  case (start s i)
  from reach_wf [OF start.hyps(1)] have len: "length (tasks s) = MAX_TASKS" by (simp add: sched_wf_def)
  obtain n where n: "n < MAX_TASKS" "is_ready s n" "\<forall>j < n. \<not> is_ready s j"
    using least_ready [OF start.hyps(2,3)] by blast
  from start.IH start_Some(3) [OF len n] show ?case by (auto simp: live_states_def)
qed

subsection \<open>Stacks\<close>

text \<open>
  Below page \<open>k\<close> everything is taken; the stack of a task in use ends at the start of a page
  \<open>m \<le> k\<close>, and the stacks of two tasks end at least four pages apart.
\<close>

definition stack_end :: "sched \<Rightarrow> nat \<Rightarrow> nat \<Rightarrow> bool" where
  "stack_end s i m \<longleftrightarrow> stack_top (tasks s ! i) = page_addr m \<and> 516 \<le> m \<and> m \<le> TOTAL_PAGES"

definition in_use :: "sched \<Rightarrow> nat \<Rightarrow> bool" where
  "in_use s i \<longleftrightarrow> i < MAX_TASKS \<and> t_state (tasks s ! i) \<noteq> TASK_UNUSED"

definition stacks_ok :: "nat \<Rightarrow> sched \<Rightarrow> bool" where
  "stacks_ok k s \<longleftrightarrow> 512 \<le> k \<and> k \<le> TOTAL_PAGES \<and> pmm_inv (phys s)
     \<and> owned_below pmm_pool (pmm_used (phys s)) k
     \<and> (\<exists>f. (\<forall>i. in_use s i \<longrightarrow> stack_end s i (f i) \<and> f i \<le> k)
          \<and> (\<forall>i j. in_use s i \<longrightarrow> in_use s j \<longrightarrow> i \<noteq> j \<longrightarrow> f i + 4 \<le> f j \<or> f j + 4 \<le> f i))"

lemma stack_end_addr: "stack_end s i m \<Longrightarrow> unat (stack_top (tasks s ! i)) = m * 4096"
  using page_addr_unat [of m] by (simp add: stack_end_def TOTAL_PAGES_def)

lemma page_addr_add: "page_addr k + TASK_STACK_SIZE = page_addr (k + 4)"
  by (simp add: page_addr_def TASK_STACK_SIZE_def algebra_simps)

lemma pool_dense: "512 \<le> k \<Longrightarrow> n \<in> pmm_pool \<Longrightarrow> m \<le> n \<Longrightarrow> k \<le> m \<Longrightarrow> m \<in> pmm_pool"
  by (simp add: pmm_pool_def)

text \<open>Four pages in a row, from an allocator nothing was given back to.\<close>

lemma four_pages:
  assumes "pmm_inv p" "owned_below pmm_pool (pmm_used p) k" "512 \<le> k"
    and "alloc_pages pmm_alloc_page 4 p = (Some (b # bs), p')"
  shows "b = page_addr k \<and> owned_below pmm_pool (pmm_used p') (k + 4) \<and> pmm_inv p' \<and> k + 4 \<le> TOTAL_PAGES"
proof -
  from pm.alloc_pages_consecutive [OF assms(1,2,4) pool_dense [OF assms(3)]]
  have c: "b # bs = map page_addr [k..<k + 4]" "owned_below pmm_pool (pmm_used p') (k + 4)" "pmm_inv p'"
    "{k..<k + 4} \<subseteq> pmm_pool" by auto
  from c(1) have "b = page_addr k" by (simp add: upt_conv_Cons)
  moreover have "k + 3 \<in> pmm_pool" using c(4) by auto
  ultimately show ?thesis using c by (simp add: pmm_pool_def)
qed

lemma alloc_fail_below:
  assumes "pmm_pool \<subseteq> pmm_used p"
  shows "owned_below pmm_pool (pmm_used p) TOTAL_PAGES"
  using assms by (auto simp: owned_below_def pmm_pool_def)

lemma alloc_one_below:
  assumes "pmm_inv p" "owned_below pmm_pool (pmm_used p) k" "512 \<le> k" "k \<le> TOTAL_PAGES"
    "pmm_alloc_page p = (u, p')"
  shows "\<exists>k'. k \<le> k' \<and> k' \<le> TOTAL_PAGES \<and> owned_below pmm_pool (pmm_used p') k' \<and> pmm_inv p'"
proof (cases "u = 0")
  case True
  with pm.alloc_full [OF assms(1)] assms(5) have "p' = p" "pmm_pool \<subseteq> pmm_used p" by auto
  with assms alloc_fail_below show ?thesis by blast
next
  case False
  have dense: "\<And>n. n \<in> pmm_pool \<Longrightarrow> k \<le> n \<Longrightarrow> k \<in> pmm_pool" using pool_dense [OF assms(3)] by blast
  have "k \<in> pmm_pool" "owned_below pmm_pool (pmm_used p') (Suc k)" "pmm_inv p'"
    using pm.alloc_next [OF assms(1,2,5) False dense] by auto
  then show ?thesis by (intro exI [of _ "Suc k"]) (auto simp: pmm_pool_def)
qed

lemma four_pages_fail:
  assumes "pmm_inv p" "alloc_pages pmm_alloc_page 4 p = (None, p')"
  shows "owned_below pmm_pool (pmm_used p') TOTAL_PAGES \<and> pmm_inv p'"
  using pm.alloc_pages_fail [OF assms] alloc_fail_below by blast

text \<open>Installing a fresh stack above everything taken so far keeps the stacks apart.\<close>

lemma stacks_ok_install:
  assumes ok: "stacks_ok k s" and slot: "slot < MAX_TASKS" "length (tasks s) = MAX_TASKS"
    and t: "stack_top t = page_addr (k + 4)" "k + 4 \<le> k'" "k' \<le> TOTAL_PAGES"
    and s': "tasks s' = (tasks s)[slot := t]" "pmm_inv (phys s')" "owned_below pmm_pool (pmm_used (phys s')) k'"
    and unused: "t_state (tasks s ! slot) = TASK_UNUSED"
  shows "stacks_ok k' s'"
proof -
  from ok obtain f where f: "\<forall>i. in_use s i \<longrightarrow> stack_end s i (f i) \<and> f i \<le> k"
    "\<forall>i j. in_use s i \<longrightarrow> in_use s j \<longrightarrow> i \<noteq> j \<longrightarrow> f i + 4 \<le> f j \<or> f j + 4 \<le> f i"
    by (auto simp: stacks_ok_def)
  have old: "in_use s' i \<longleftrightarrow> in_use s i" "stack_end s' i m \<longleftrightarrow> stack_end s i m" if "i \<noteq> slot" for i m
    using that s'(1) by (auto simp: in_use_def stack_end_def)
  have new: "stack_end s' slot (k + 4)"
    using t slot s'(1) ok by (auto simp: stack_end_def stacks_ok_def)
  let ?g = "f(slot := k + 4)"
  have a: "\<forall>i. in_use s' i \<longrightarrow> stack_end s' i (?g i) \<and> ?g i \<le> k'"
    using f(1) old new t(2) by (auto intro: le_trans)
  have b: "\<forall>i j. in_use s' i \<longrightarrow> in_use s' j \<longrightarrow> i \<noteq> j \<longrightarrow> ?g i + 4 \<le> ?g j \<or> ?g j + 4 \<le> ?g i"
    using f old by (simp, metis add_le_mono1)
  show ?thesis unfolding stacks_ok_def
    using ok t s' a b by (intro conjI exI [of _ ?g]) (auto simp: stacks_ok_def)
qed

lemma stacks_ok_same:
  assumes ok: "stacks_ok k s" and "k \<le> k'" "k' \<le> TOTAL_PAGES" "pmm_inv (phys s')"
    "owned_below pmm_pool (pmm_used (phys s')) k'"
    and same: "\<And>i. in_use s' i \<Longrightarrow> in_use s i \<and> stack_top (tasks s' ! i) = stack_top (tasks s ! i)"
  shows "stacks_ok k' s'"
proof -
  from ok obtain f where f: "\<forall>i. in_use s i \<longrightarrow> stack_end s i (f i) \<and> f i \<le> k"
    "\<forall>i j. in_use s i \<longrightarrow> in_use s j \<longrightarrow> i \<noteq> j \<longrightarrow> f i + 4 \<le> f j \<or> f j + 4 \<le> f i"
    by (auto simp: stacks_ok_def)
  with same assms(2) have "\<forall>i. in_use s' i \<longrightarrow> stack_end s' i (f i) \<and> f i \<le> k'"
    by (fastforce simp: stack_end_def)
  with f same assms show ?thesis unfolding stacks_ok_def
    by (intro conjI exI [of _ f]) (auto simp: stacks_ok_def)
qed

text \<open>Both ways of creating a task keep the stacks apart.\<close>

lemma create_task_stacks:
  assumes ok: "stacks_ok k s" and wf: "sched_wf s" and live: "live_states s"
  shows "\<exists>k'. stacks_ok k' (snd (scheduler_create_task name entry s))"
proof (cases "find_free_slot s")
  case None
  with ok show ?thesis by (auto simp: create_full)
next
  case (Some slot)
  note sl = free_slot [OF Some]
  with live have un: "t_state (tasks s ! slot) = TASK_UNUSED" by (auto simp: live_states_def)
  have len: "length (tasks s) = MAX_TASKS" using wf by (simp add: sched_wf_def)
  have inv: "pmm_inv (phys s)" "owned_below pmm_pool (pmm_used (phys s)) k" "512 \<le> k"
    using ok by (auto simp: stacks_ok_def)
  obtain r p where al: "alloc_pages pmm_alloc_page 4 (phys s) = (r, p)" by fastforce
  show ?thesis
  proof (cases r)
    case None
    note f = four_pages_fail [OF inv(1) al [unfolded None]]
    let ?s' = "snd (scheduler_create_task name entry s)"
    have s': "phys ?s' = p" "\<exists>t. tasks ?s' = (tasks s)[slot := t] \<and> t_state t = TASK_UNUSED"
      using \<open>find_free_slot s = Some slot\<close> al None by (auto simp: scheduler_create_task_def sched_defs)
    have "in_use ?s' i \<Longrightarrow> in_use s i \<and> stack_top (tasks ?s' ! i) = stack_top (tasks s ! i)" for i
      using s'(2) sl len by (cases "i = slot") (auto simp: in_use_def)
    with f s' ok show ?thesis
      by (intro exI [of _ TOTAL_PAGES] stacks_ok_same [OF ok]) (auto simp: stacks_ok_def)
  next
    case (Some bs)
    then obtain b cs where bs: "r = Some (b # cs)"
      using al alloc_pages_nonempty [of 4 pmm_alloc_page "phys s" p] by (cases bs) simp_all
    note f = four_pages [OF inv al [unfolded bs]]
    let ?s' = "snd (scheduler_create_task name entry s)"
    have s': "phys ?s' = p"
      "\<exists>t. tasks ?s' = (tasks s)[slot := t] \<and> stack_top t = page_addr (k + 4)"
      using \<open>find_free_slot s = Some slot\<close> al bs f page_addr_add [of k]
      by (auto simp: scheduler_create_task_def sched_defs)
    then obtain t where "tasks ?s' = (tasks s)[slot := t]" "stack_top t = page_addr (k + 4)" by blast
    with f s'(1) sl len un show ?thesis
      by (intro exI [of _ "k + 4"] stacks_ok_install [OF ok, of slot t]) auto
  qed
qed

lemma create_user_task_stacks:
  assumes ok: "stacks_ok k s" and wf: "sched_wf s" and live: "live_states s"
  shows "\<exists>k'. stacks_ok k' (snd (scheduler_create_user_task boot name entry s))"
proof (cases "find_free_slot s")
  case None
  with ok show ?thesis by (auto simp: create_full)
next
  case (Some slot)
  note sl = free_slot [OF Some]
  with live have un: "t_state (tasks s ! slot) = TASK_UNUSED" by (auto simp: live_states_def)
  have len: "length (tasks s) = MAX_TASKS" using wf by (simp add: sched_wf_def)
  have inv: "pmm_inv (phys s)" "owned_below pmm_pool (pmm_used (phys s)) k" "512 \<le> k"
    using ok by (auto simp: stacks_ok_def)
  obtain r p where al: "alloc_pages pmm_alloc_page 4 (phys s) = (r, p)" by fastforce
  let ?s' = "snd (scheduler_create_user_task boot name entry s)"
  show ?thesis
  proof (cases r)
    case None
    note f = four_pages_fail [OF inv(1) al [unfolded None]]
    have s': "phys ?s' = p" "\<exists>t. tasks ?s' = (tasks s)[slot := t] \<and> t_state t = TASK_UNUSED"
      using \<open>find_free_slot s = Some slot\<close> al None by (auto simp: scheduler_create_user_task_def sched_defs)
    have "in_use ?s' i \<Longrightarrow> in_use s i \<and> stack_top (tasks ?s' ! i) = stack_top (tasks s ! i)" for i
      using s'(2) sl len by (cases "i = slot") (auto simp: in_use_def)
    with f s' ok show ?thesis
      by (intro exI [of _ TOTAL_PAGES] stacks_ok_same [OF ok]) (auto simp: stacks_ok_def)
  next
    case (Some bs)
    then obtain b cs where bs: "r = Some (b # cs)"
      using al alloc_pages_nonempty [of 4 pmm_alloc_page "phys s" p] by (cases bs) simp_all
    note f = four_pages [OF inv al [unfolded bs]]
    obtain u p2 where u: "pmm_alloc_page p = (u, p2)" by fastforce
    from alloc_one_below [OF _ _ _ _ u, of "k + 4"] f obtain k' where k': "k + 4 \<le> k'" "k' \<le> TOTAL_PAGES"
      "owned_below pmm_pool (pmm_used p2) k'" "pmm_inv p2" using inv(3) by auto
    have s': "phys ?s' = p2"
      "\<exists>t. tasks ?s' = (tasks s)[slot := t] \<and> stack_top t = page_addr (k + 4)"
      using \<open>find_free_slot s = Some slot\<close> al bs f u page_addr_add [of k]
      by (auto simp: scheduler_create_user_task_def sched_defs)
    then obtain t where "tasks ?s' = (tasks s)[slot := t]" "stack_top t = page_addr (k + 4)" by blast
    with k' s'(1) sl len un show ?thesis
      by (intro exI [of _ k'] stacks_ok_install [OF ok, of slot t]) auto
  qed
qed

lemma tick_stack_top:
  assumes "sched_wf s" "i < MAX_TASKS"
  shows "stack_top (tasks (snd (scheduler_tick s)) ! i) = stack_top (tasks s ! i)"
    and "phys (snd (scheduler_tick s)) = phys s"
  using assms
  by (auto simp: scheduler_tick_def count_tick_def sched_defs sched_wf_def update_same_field split: option.splits)

lemma tick_stacks:
  assumes "stacks_ok k s" "sched_wf s"
  shows "stacks_ok k (snd (scheduler_tick s))"
proof (rule stacks_ok_same [OF assms(1) order_refl])
  fix i assume i: "in_use (snd (scheduler_tick s)) i"
  then have "i < MAX_TASKS" by (simp add: in_use_def)
  moreover from i have "in_use s i"
  proof (cases "find_next_ready_task s")
    case (Some n)
    with i tick_Some(3) [OF assms(2) Some, of i] assms(2) find_next_ready_less [OF Some] show ?thesis
      by (auto simp: in_use_def is_ready_def sched_wf_def split: if_splits)
  qed (simp add: in_use_def tick_None)
  ultimately show "in_use s i \<and> stack_top (tasks (snd (scheduler_tick s)) ! i) = stack_top (tasks s ! i)"
    using tick_stack_top [OF assms(2)] by simp
qed (use assms tick_stack_top(2) [OF assms(2), of 0] in \<open>auto simp: stacks_ok_def MAX_TASKS_def\<close>)

lemma step_stacks:
  assumes "stacks_ok k s" "sched_wf s" "live_states s"
  shows "\<exists>k'. stacks_ok k' (sched_step e s)"
proof (cases e)
  case Tick
  with tick_stacks [OF assms(1,2)] show ?thesis by auto
next
  case Yield
  have "stacks_ok k (snd (scheduler_tick (s\<lparr>int_flag := False\<rparr>)))"
    using assms by (intro tick_stacks) (simp_all add: stacks_ok_def stack_end_def in_use_def)
  with Yield have "stacks_ok k (sched_step e s)"
    by (simp add: stacks_ok_def stack_end_def in_use_def yield_tick)
  then show ?thesis ..
next
  case (Execute c m)
  with assms show ?thesis by (auto simp: stacks_ok_def stack_end_def in_use_def)
qed (use create_task_stacks [OF assms] create_user_task_stacks [OF assms] in simp_all)

lemma reach_stacks: "sched_reach s \<Longrightarrow> \<exists>k. stacks_ok k s"
proof (induction rule: sched_reach.induct)
  case (boot s0 k)
  then have "stacks_ok k (scheduler_init s0)"
    by (auto simp: stacks_ok_def scheduler_init_def reset_task_def in_use_def)
  then show ?case ..
next
  case (event s e)
  then show ?case by (blast intro: step_stacks reach_wf reach_live)
next
  case (start s i)
  from reach_wf [OF start.hyps(1)] have len: "length (tasks s) = MAX_TASKS" by (simp add: sched_wf_def)
  obtain n where n: "n < MAX_TASKS" "is_ready s n" "\<forall>j < n. \<not> is_ready s j"
    using least_ready [OF start.hyps(2,3)] by blast
  from start.IH obtain k where k: "stacks_ok k s" ..
  have "in_use (scheduler_start s) j \<Longrightarrow> in_use s j" for j
    using start_Some(3) [OF len n, of j] n(2) by (auto simp: in_use_def is_ready_def split: if_splits)
  then have "stacks_ok k (scheduler_start s)"
    using k start_Some(4,5) [OF len n] by (intro stacks_ok_same [OF k]) (auto simp: stacks_ok_def in_use_def)
  then show ?case ..
qed


subsection \<open>Facts shared by the properties\<close>

lemma tick_tss:
  "sched_wf s \<Longrightarrow> find_next_ready_task s = Some n
    \<Longrightarrow> tss_rsp0 (snd (scheduler_tick s)) = stack_top (tasks s ! n)"
proof -
  assume wf: "sched_wf s" and n: "find_next_ready_task s = Some n"
  have top: "stack_top (tasks (count_tick s) ! i) = stack_top (tasks s ! i)" for i
    by (simp add: count_tick_def sched_defs update_same_field)
  from n wf find_next_ready_less [OF n] have "int n \<noteq> current_task_id s"
    by (auto simp: sched_wf_def is_ready_def)
  with n show ?thesis by (auto simp: scheduler_tick_def sched_defs update_same_field top)
qed

lemma step_in_use:
  assumes wf: "sched_wf s" and live: "live_states s" and i: "in_use s i"
  shows "in_use (sched_step e s) i"
proof -
  have il: "i < MAX_TASKS" using i by (simp add: in_use_def)
  have tick: "in_use (snd (scheduler_tick u)) i" if "sched_wf u" "in_use u i" for u
  proof (cases "find_next_ready_task u")
    case (Some n)
    from tick_Some(3) [OF that(1) Some il] that(2) show ?thesis by (auto simp: in_use_def)
  qed (use that in \<open>simp add: in_use_def tick_None\<close>)
  consider "switching e" | "creates e" | c m where "e = Execute c m"
    by (cases e) (auto simp: switching_def creates_def)
  then show ?thesis
  proof cases
    case 1
    with tick [OF wf i] tick [of "s\<lparr>int_flag := False\<rparr>"] wf i show ?thesis
      by (cases e) (auto simp: switching_def in_use_def yield_tick)
  next
    case 2
    from creates_frame [OF this, of s] show ?thesis
    proof
      assume "\<exists>slot t. slot < MAX_TASKS
        \<and> (t_state (tasks s ! slot) = TASK_UNUSED \<or> t_state (tasks s ! slot) = TASK_DEAD)
        \<and> tasks (sched_step e s) = (tasks s)[slot := t] \<and> (t_state t = TASK_READY \<or> t_state t = TASK_UNUSED)
        \<and> current_task_id (sched_step e s) = current_task_id s"
      then obtain slot t where st: "slot < MAX_TASKS" "tasks (sched_step e s) = (tasks s)[slot := t]"
        "t_state (tasks s ! slot) = TASK_UNUSED" using live by (force simp: live_states_def)
      then have "slot \<noteq> i" using i by (auto simp: in_use_def)
      with st i show ?thesis by (simp add: in_use_def)
    qed (use i in simp)
  qed (use i in \<open>simp add: in_use_def\<close>)
qed

lemma run_in_use: "sched_reach s \<Longrightarrow> in_use s i \<Longrightarrow> in_use (sched_run es s) i"
  by (induction es arbitrary: s) (auto intro: event step_in_use reach_wf reach_live)

lemma boot_unused: "\<not> in_use boot_state i"
  by (simp add: in_use_def boot_state_def scheduler_init_def reset_task_def)

lemma boot_free: "find_free_slot boot_state = Some 0"
  unfolding find_free_slot_def find_upt_Some
  by (simp add: boot_state_def scheduler_init_def reset_task_def MAX_TASKS_def)

text \<open>What a successful creation leaves in the slot.\<close>

lemma create_task_slot:
  assumes s: "sched_reach s" and sl: "find_free_slot s = Some slot"
    and c: "scheduler_create_task name entry s = (r, s')" and rd: "is_ready s' slot"
  shows "\<exists>b. stack_top (tasks s' ! slot) = b + TASK_STACK_SIZE
    \<and> ctx (tasks s' ! slot) = fresh_context entry (stack_top (tasks s' ! slot) - 8)
    \<and> t_name (tasks s' ! slot) = copy_task_name name \<and> is_user (tasks s' ! slot) = 0
    \<and> kmem s' = store64 (stack_top (tasks s' ! slot) - 8) entry (kmem s)
    \<and> r = sint (of_int (next_task_id s) :: u32) \<and> tick_count (tasks s' ! slot) = 0
    \<and> current_task_id s' = current_task_id s \<and> (\<forall>j. j \<noteq> slot \<longrightarrow> tasks s' ! j = tasks s ! j)"
proof -
  have len: "slot < length (tasks s)" using reach_wf [OF s] free_slot [OF sl] by (simp add: sched_wf_def)
  obtain q p where al: "alloc_pages pmm_alloc_page 4 (phys s) = (q, p)" by fastforce
  show ?thesis
  proof (cases q)
    case None
    with c sl al rd len show ?thesis by (auto simp: scheduler_create_task_def sched_defs is_ready_def)
  next
    case (Some bs)
    then obtain b cs where "bs = b # cs"
      using al alloc_pages_nonempty [of 4 pmm_alloc_page "phys s" p] by (cases bs) simp_all
    with c sl al Some len show ?thesis
      by (intro exI [of _ b]) (auto simp: scheduler_create_task_def sched_defs)
  qed
qed

lemma create_task_ready:
  assumes s: "sched_reach s" and sl: "find_free_slot s = Some slot"
    and c: "scheduler_create_task name entry s = (r, s')"
  shows "is_ready s' slot \<longleftrightarrow> fst (alloc_pages pmm_alloc_page 4 (phys s)) \<noteq> None"
proof -
  have len: "slot < length (tasks s)" using reach_wf [OF s] free_slot [OF sl] by (simp add: sched_wf_def)
  obtain q p where al: "alloc_pages pmm_alloc_page 4 (phys s) = (q, p)" by fastforce
  show ?thesis
  proof (cases q)
    case None
    with c sl al len show ?thesis by (auto simp: scheduler_create_task_def sched_defs is_ready_def)
  next
    case (Some bs)
    then obtain b cs where "bs = b # cs"
      using al alloc_pages_nonempty [of 4 pmm_alloc_page "phys s" p] by (cases bs) simp_all
    with c sl al Some len show ?thesis by (auto simp: scheduler_create_task_def sched_defs is_ready_def)
  qed
qed


text \<open>While four pages are left, a creation that finds a slot succeeds.\<close>

lemma create_task_room:
  assumes s: "sched_reach s" and k: "stacks_ok k s" "k + 4 \<le> TOTAL_PAGES"
    and sl: "find_free_slot s = Some slot"
  shows "is_ready (sched_step (CreateTask name entry) s) slot
    \<and> stacks_ok (k + 4) (sched_step (CreateTask name entry) s)
    \<and> stack_top (tasks (sched_step (CreateTask name entry) s) ! slot) = page_addr (k + 4)"
proof -
  obtain r s' where c: "scheduler_create_task name entry s = (r, s')" by fastforce
  have inv: "pmm_inv (phys s)" "owned_below pmm_pool (pmm_used (phys s)) k" "512 \<le> k"
    using k by (auto simp: stacks_ok_def)
  have "{k..<k + 4} \<subseteq> pmm_pool" using inv(3) k(2) by (auto simp: pmm_pool_def)
  with pm.alloc_pages_succeeds [OF inv(1,2)] have al: "fst (alloc_pages pmm_alloc_page 4 (phys s)) \<noteq> None" .
  with create_task_ready [OF s sl c] c have rd: "is_ready (sched_step (CreateTask name entry) s) slot" by simp
  obtain bs p where bs: "alloc_pages pmm_alloc_page 4 (phys s) = (Some bs, p)"
    using al by (cases "alloc_pages pmm_alloc_page 4 (phys s)") auto
  then obtain b cs where b: "bs = b # cs"
    using alloc_pages_nonempty [of 4 pmm_alloc_page "phys s" p] by (cases bs) simp_all
  note f = four_pages [OF inv bs [unfolded b]]
  have wf: "slot < MAX_TASKS" "length (tasks s) = MAX_TASKS" "t_state (tasks s ! slot) = TASK_UNUSED"
    using free_slot [OF sl] reach_wf [OF s] reach_live [OF s] by (force simp: sched_wf_def live_states_def)+
  have s': "phys s' = p" "\<exists>t. tasks s' = (tasks s)[slot := t] \<and> stack_top t = page_addr (k + 4)"
    using sl bs b f page_addr_add [of k] c by (auto simp: scheduler_create_task_def sched_defs)
  then obtain t where "tasks s' = (tasks s)[slot := t]" "stack_top t = page_addr (k + 4)" by blast
  with f s'(1) wf have "stacks_ok (k + 4) s'"
    by (intro stacks_ok_install [OF k(1), of slot t]) auto
  moreover have "stack_top (tasks s' ! slot) = page_addr (k + 4)"
    using \<open>tasks s' = (tasks s)[slot := t]\<close> \<open>stack_top t = page_addr (k + 4)\<close> wf by simp
  ultimately show ?thesis using rd c by simp
qed

lemma create_next_free:
  assumes s: "sched_reach s" and sl: "find_free_slot s = Some slot" "Suc slot < MAX_TASKS"
    and rd: "is_ready (sched_step (CreateTask name entry) s) slot"
    and un: "t_state (tasks s ! Suc slot) = TASK_UNUSED"
  shows "find_free_slot (sched_step (CreateTask name entry) s) = Some (Suc slot)"
proof -
  obtain r s' where c: "scheduler_create_task name entry s = (r, s')" by fastforce
  from create_task_slot [OF s sl(1) c] rd c have "\<forall>j. j \<noteq> slot \<longrightarrow> tasks s' ! j = tasks s ! j" by auto
  with sl un rd c show ?thesis
    unfolding find_free_slot_def find_upt_Some by (auto simp: is_ready_def less_Suc_eq)
qed

text \<open>Two tasks created after boot, and the scheduler started: the state of the examples.\<close>

definition one_task :: sched where
  "one_task = sched_step (CreateTask (ascii ''shell'') 0x101000) boot_state"

definition two_tasks :: sched where
  "two_tasks = sched_step (CreateTask (ascii ''idle'') 0x102000) one_task"

definition started :: sched where
  "started = scheduler_start two_tasks"

lemma one_task_facts:
  "sched_reach one_task" "is_ready one_task 0" "find_free_slot one_task = Some 1" "stacks_ok 516 one_task"
  "current_task_id one_task = -1" "t_state (tasks one_task ! 1) = TASK_UNUSED"
proof -
  have ok: "stacks_ok 512 boot_state"
    by (auto simp: stacks_ok_def boot_state_def scheduler_init_def reset_task_def in_use_def
        pmm_init_prefix TOTAL_PAGES_def zero_task_def)
  have u: "t_state (tasks boot_state ! i) = TASK_UNUSED" if "i < MAX_TASKS" for i
    using boot_unused [of i] that by (simp add: in_use_def)
  note r = create_task_room [OF boot_reach ok _ boot_free, unfolded TOTAL_PAGES_def, simplified]
  show "sched_reach one_task" unfolding one_task_def by (intro event boot_reach)
  show "is_ready one_task 0" "stacks_ok 516 one_task" unfolding one_task_def
    using create_task_room [OF boot_reach ok _ boot_free] by (simp_all add: TOTAL_PAGES_def)
  then show "find_free_slot one_task = Some 1"
    using create_next_free [OF boot_reach boot_free] u [of "Suc 0"] by (simp add: one_task_def MAX_TASKS_def)
  have "current_task_id boot_state = -1" by (simp add: boot_state_def scheduler_init_def)
  moreover obtain r s' where c: "scheduler_create_task (ascii ''shell'') 0x101000 boot_state = (r, s')" by fastforce
  ultimately show "current_task_id one_task = -1" "t_state (tasks one_task ! 1) = TASK_UNUSED"
    using create_task_slot [OF boot_reach boot_free c] \<open>is_ready one_task 0\<close> u [of 1]
    by (simp_all add: one_task_def MAX_TASKS_def)
qed

lemma two_tasks_facts:
  "sched_reach two_tasks" "is_ready two_tasks 0" "is_ready two_tasks 1" "current_task_id two_tasks = -1"
proof -
  show "sched_reach two_tasks" unfolding two_tasks_def by (intro event one_task_facts)
  show r: "is_ready two_tasks 1" unfolding two_tasks_def
    using create_task_room [OF one_task_facts(1,4) _ one_task_facts(3)] by (simp add: TOTAL_PAGES_def)
  obtain q s' where c: "scheduler_create_task (ascii ''idle'') 0x102000 one_task = (q, s')" by fastforce
  from create_task_slot [OF one_task_facts(1,3) c] r c one_task_facts
  show "is_ready two_tasks 0" "current_task_id two_tasks = -1"
    by (simp_all add: two_tasks_def is_ready_def)
qed

lemma started_facts: "sched_reach started" "current_task_id started = 0" "is_ready started 1"
proof -
  have len: "length (tasks two_tasks) = MAX_TASKS"
    using reach_wf [OF two_tasks_facts(1)] by (simp add: sched_wf_def)
  have l: "0 < MAX_TASKS" "\<forall>j<0. \<not> is_ready two_tasks j" by (simp_all add: MAX_TASKS_def)
  note st = start_Some [OF len l(1) two_tasks_facts(2) l(2)]
  show "sched_reach started" unfolding started_def by (rule start [OF two_tasks_facts(1,2) l(1)])
  show "current_task_id started = 0" using st(1) by (simp add: started_def)
  show "is_ready started 1" using st(3) [of 1] two_tasks_facts(3)
    by (simp add: started_def is_ready_def MAX_TASKS_def)
qed

lemma others_unused:
  assumes "1 < d" "d < MAX_TASKS"
  shows "\<not> is_ready started d"
proof -
  have u: "t_state (tasks boot_state ! d) = TASK_UNUSED"
    using boot_unused [of d] assms by (simp add: in_use_def)
  obtain r s' where c: "scheduler_create_task (ascii ''shell'') 0x101000 boot_state = (r, s')" by fastforce
  have one: "tasks one_task ! d = tasks boot_state ! d"
    using create_task_slot [OF boot_reach boot_free c] one_task_facts(2) c assms by (simp add: one_task_def)
  obtain q s'' where c2: "scheduler_create_task (ascii ''idle'') 0x102000 one_task = (q, s'')" by fastforce
  have two: "tasks two_tasks ! d = tasks one_task ! d"
    using create_task_slot [OF one_task_facts(1,3) c2] two_tasks_facts(3) c2 assms by (simp add: two_tasks_def)
  have len: "length (tasks two_tasks) = MAX_TASKS"
    using reach_wf [OF two_tasks_facts(1)] by (simp add: sched_wf_def)
  have l: "0 < MAX_TASKS" "\<forall>j<0. \<not> is_ready two_tasks j" by (simp_all add: MAX_TASKS_def)
  from start_Some(3) [OF len l(1) two_tasks_facts(2) l(2) assms(2)] one two u assms(1) show ?thesis
    by (simp add: started_def is_ready_def)
qed

text \<open>Two ticks hand the CPU to the second task and back.\<close>

lemma started_tick:
  "current_task_id (sched_step Tick started) = 1" "is_ready (sched_step Tick started) 0"
  "1 < d \<Longrightarrow> d < MAX_TASKS \<Longrightarrow> \<not> is_ready (sched_step Tick started) d"
proof -
  have n: "find_next_ready_task started = Some 1" unfolding find_next_ready_Some
    using started_facts by (intro exI [of _ 0]) (simp add: slot_after_def MAX_TASKS_def)
  note t = tick_Some [OF reach_wf [OF started_facts(1)] n]
  show "current_task_id (sched_step Tick started) = 1" using t(1) by simp
  show "is_ready (sched_step Tick started) 0" using t(3) [of 0] started_facts(2)
    by (simp add: is_ready_def MAX_TASKS_def)
  show "1 < d \<Longrightarrow> d < MAX_TASKS \<Longrightarrow> \<not> is_ready (sched_step Tick started) d"
    using t(3) [of d] others_unused [of d] started_facts(2) by (simp add: is_ready_def)
qed

lemma started_tick_yield: "current_task_id (sched_run [Execute c m, Yield] (sched_step Tick started)) = 0"
proof -
  let ?s = "sched_step (Execute c m) (sched_step Tick started)"
  have cur: "current_task_id ?s = 1" using started_tick(1) by simp
  have "find_next_ready_task (?s\<lparr>int_flag := False\<rparr>) = Some 0" unfolding find_next_ready_Some
    using started_tick cur by (intro exI [of _ 6]) (auto simp: slot_after_def MAX_TASKS_def is_ready_def)
  moreover have "sched_wf (?s\<lparr>int_flag := False\<rparr>)"
    using reach_wf [OF event [OF event [OF started_facts(1)]], of "Execute c m" Tick] by simp
  ultimately show ?thesis using tick_Some(1) [of "?s\<lparr>int_flag := False\<rparr>" 0] by (simp add: yield_tick)
qed

lemma one_task_only: "j < 8 \<Longrightarrow> is_ready one_task j \<longleftrightarrow> j = 0"
proof -
  assume j: "j < 8"
  obtain r s' where c: "scheduler_create_task (ascii ''shell'') 0x101000 boot_state = (r, s')" by fastforce
  have "tasks one_task ! j = tasks boot_state ! j" if "j \<noteq> 0"
    using create_task_slot [OF boot_reach boot_free c] one_task_facts(2) c that by (simp add: one_task_def)
  with one_task_facts(2) boot_unused [of j] j show ?thesis
    by (cases "j = 0") (auto simp: is_ready_def in_use_def MAX_TASKS_def)
qed

text \<open>A third task created in \<open>started\<close>, which takes slot 2.\<close>

definition third_task :: sched where
  "third_task = sched_step (CreateTask (ascii ''net'') 0x103000) started"

lemma all_less_two: "(\<forall>j < 2. P j) \<longleftrightarrow> P 0 \<and> P (1 :: nat)"
  by (auto simp: numeral_2_eq_2 less_Suc_eq)

lemma started_room: "stacks_ok 520 started" "find_free_slot started = Some 2"
proof -
  have len: "length (tasks two_tasks) = MAX_TASKS"
    using reach_wf [OF two_tasks_facts(1)] by (simp add: sched_wf_def)
  have l: "0 < MAX_TASKS" "\<forall>j<0. \<not> is_ready two_tasks j" by (simp_all add: MAX_TASKS_def)
  note st = start_Some [OF len l(1) two_tasks_facts(2) l(2)]
  have two: "stacks_ok 520 two_tasks" unfolding two_tasks_def
    using create_task_room [OF one_task_facts(1,4) _ one_task_facts(3)] by (simp add: TOTAL_PAGES_def)
  have "in_use started j \<Longrightarrow> in_use two_tasks j" for j
    using st(3) [of j] two_tasks_facts(2) by (auto simp: started_def in_use_def is_ready_def split: if_splits)
  then show "stacks_ok 520 started" using two st(4,5)
    by (intro stacks_ok_same [OF two]) (auto simp: stacks_ok_def started_def in_use_def)
  have "t_state (tasks started ! d) \<in> {TASK_UNUSED, TASK_READY, TASK_RUNNING}" if "d < MAX_TASKS" for d
    using reach_live [OF started_facts(1)] that by (simp add: live_states_def)
  then have live: "t_state (tasks started ! 2) \<in> {TASK_UNUSED, TASK_READY, TASK_RUNNING}"
    by (simp add: MAX_TASKS_def)
  have run: "t_state (tasks started ! d) = TASK_RUNNING \<longleftrightarrow> d = 0" if "d < 8" for d
    using reach_wf [OF started_facts(1)] started_facts(2) that by (simp add: sched_wf_def MAX_TASKS_def)
  have "t_state (tasks started ! 1) = TASK_READY" using started_facts(3) by (simp add: is_ready_def)
  moreover have "t_state (tasks started ! 2) = TASK_UNUSED"
    using live run [of 2] others_unused [of 2] by (simp add: is_ready_def MAX_TASKS_def)
  moreover have "t_state (tasks started ! 0) = TASK_RUNNING" using run by simp
  ultimately have "\<forall>j < 2. \<not> (t_state (tasks started ! j) = TASK_UNUSED \<or> t_state (tasks started ! j) = TASK_DEAD)"
    by (simp add: all_less_two)
  with \<open>t_state (tasks started ! 2) = TASK_UNUSED\<close> show "find_free_slot started = Some 2"
    unfolding find_free_slot_def find_upt_Some by (simp add: MAX_TASKS_def)
qed

lemma third_task_facts:
  "sched_reach third_task" "is_ready third_task 2" "is_ready third_task 1" "current_task_id third_task = 0"
proof -
  show "sched_reach third_task" unfolding third_task_def by (intro event started_facts)
  show r: "is_ready third_task 2" unfolding third_task_def
    using create_task_room [OF started_facts(1) started_room(1) _ started_room(2)] by (simp add: TOTAL_PAGES_def)
  obtain q s' where c: "scheduler_create_task (ascii ''net'') 0x103000 started = (q, s')" by fastforce
  from create_task_slot [OF started_facts(1) started_room(2) c] r c started_facts
  show "is_ready third_task 1" "current_task_id third_task = 0"
    by (simp_all add: third_task_def is_ready_def)
qed

lemma third_task_ticks:
  "current_task_id (sched_step Tick third_task) = 1"
  "current_task_id (sched_run [Tick, Execute c m, Tick] third_task) = 2"
proof -
  have n: "find_next_ready_task third_task = Some 1" unfolding find_next_ready_Some
    using third_task_facts by (intro exI [of _ 0]) (simp add: slot_after_def MAX_TASKS_def)
  note t = tick_Some [OF reach_wf [OF third_task_facts(1)] n]
  show c1: "current_task_id (sched_step Tick third_task) = 1" using t(1) by simp
  let ?s = "sched_step (Execute c m) (sched_step Tick third_task)"
  have "is_ready (sched_step Tick third_task) 2" using t(3) [of 2] third_task_facts(2,4)
    by (simp add: is_ready_def MAX_TASKS_def)
  then have "find_next_ready_task ?s = Some 2" unfolding find_next_ready_Some
    using c1 by (intro exI [of _ 0]) (simp add: slot_after_def MAX_TASKS_def is_ready_def)
  with tick_Some(1) [OF reach_wf [OF event [OF event [OF third_task_facts(1)]]], of "Execute c m" Tick 2]
  show "current_task_id (sched_run [Tick, Execute c m, Tick] third_task) = 2" by simp
qed

end
