(* ===== verification/Scheduler_Guarantees.thy ===== *)
theory Scheduler_Guarantees
  imports Scheduler_Props
begin

text \<open>
  The properties of the scheduler, over the reachable states of \<open>Scheduler_Props\<close>: one
  running task, round-robin order with bounded waiting, faithful resumption, exclusive
  stacks, creation and start; and what the scheduler does not do: a task is never marked
  dead, and a start after an early tick on the only ready task runs nothing.
\<close>

subsection \<open>Properties\<close>

text \<open>C10: in every reachable state the task table has its eight slots, \<open>current_task_id\<close>
  is -1 or a slot number, the slot it names is the one RUNNING task, every other slot is
  UNUSED or READY, and while no task is current none is RUNNING.\<close>

theorem one_running_task:
  assumes "sched_reach s"
  shows "length (tasks s) = 8 \<and> current_task_id s \<in> {-1..7}
    \<and> (\<forall>i < 8. t_state (tasks s ! i) =
         (if int i = current_task_id s then TASK_RUNNING
          else if t_state (tasks s ! i) = TASK_READY then TASK_READY else TASK_UNUSED))"
proof -
  have "t_state (tasks s ! i) \<in> {TASK_UNUSED, TASK_READY, TASK_RUNNING}" if "i < 8" for i
    using reach_live [OF assms] that by (simp add: live_states_def MAX_TASKS_def)
  with reach_wf [OF assms] show ?thesis by (auto simp: sched_wf_def MAX_TASKS_def)
qed

theorem one_running_task_witness: "length (tasks boot_state) = 8 \<and> current_task_id boot_state \<in> {-1..7}"
  using one_running_task [OF boot_reach] by blast



lemma count_tick_tasks: "i < length (tasks s) \<Longrightarrow> tasks (count_tick s) ! i =
    (if int i = current_task_id s then (tasks s ! i)\<lparr>tick_count := tick_count (tasks s ! i) + 1\<rparr> else tasks s ! i)"
  by (auto simp: count_tick_def set_task_def Let_def nth_list_update)

lemma count_tick_flag [simp]: "int_flag (count_tick s) = int_flag s"
  by (simp add: count_tick_def set_task_def Let_def)

lemma tick_effect:
  assumes wf: "sched_wf s" and n: "find_next_ready_task s = Some n"
  defines "s' \<equiv> snd (scheduler_tick s)"
  shows "i < MAX_TASKS \<Longrightarrow> tasks s' ! i =
      (if i = n then (tasks s ! i)\<lparr>t_state := TASK_RUNNING\<rparr>
       else if int i = current_task_id s
       then (tasks s ! i)\<lparr>tick_count := tick_count (tasks s ! i) + 1, t_state := TASK_READY, ctx := save_context (cpu s) (kmem s)\<rparr>
       else tasks s ! i)"
    and "current_task_id s < 0 \<Longrightarrow> cpu s' = cpu s \<and> kmem s' = kmem s"
    and "phys s' = phys s" "next_task_id s' = next_task_id s" "int_flag s' = int_flag s"
proof -
  have len: "length (tasks s) = MAX_TASKS" using wf by (simp add: sched_wf_def)
  have nl: "n < MAX_TASKS" "t_state (tasks s ! n) = TASK_READY"
    using find_next_ready_less [OF n] by (auto simp: is_ready_def)
  with wf have ne: "int n \<noteq> current_task_id s" by (auto simp: sched_wf_def)
  have ne': "0 \<le> current_task_id s \<Longrightarrow> nat (current_task_id s) \<noteq> n" using ne by auto
  have cl: "0 \<le> current_task_id s \<Longrightarrow> nat (current_task_id s) < MAX_TASKS"
    using wf by (auto simp: sched_wf_def)
  note d = s'_def scheduler_tick_def n ne sched_defs len count_tick_tasks
  show "i < MAX_TASKS \<Longrightarrow> tasks s' ! i =
      (if i = n then (tasks s ! i)\<lparr>t_state := TASK_RUNNING\<rparr>
       else if int i = current_task_id s
       then (tasks s ! i)\<lparr>tick_count := tick_count (tasks s ! i) + 1, t_state := TASK_READY, ctx := save_context (cpu s) (kmem s)\<rparr>
       else tasks s ! i)"
    using ne ne' nl cl by (auto simp: d nth_list_update)
  show "current_task_id s < 0 \<Longrightarrow> cpu s' = cpu s \<and> kmem s' = kmem s"
    and "phys s' = phys s" "next_task_id s' = next_task_id s" "int_flag s' = int_flag s"
    using ne by (auto simp: d)
qed

text \<open>C17: a tick in a reachable state looks at the slots in cyclic order from the one after
  the current task. If none is ready, all that happens is that the current task's tick count
  goes up by one. Otherwise the first ready one becomes the RUNNING task; the old one is
  charged with the tick and becomes READY with its registers and return address saved; every
  other slot stays as it was; the TSS points at the new task's stack top; the pages, the ids
  and the interrupt flag stay. When a task was current, the CPU is switched: it holds the
  registers of the new task, whose return address is in the memory its stack pointer left.\<close>

theorem tick_round_robin:
  assumes "sched_reach s"
  shows "(\<forall>d < 8. \<not> is_ready s (slot_after (current_task_id s) d)) \<and> scheduler_tick s = (False,
        if current_task_id s < 0 then s
        else let c = nat (current_task_id s); t = tasks s ! c
             in s\<lparr>tasks := (tasks s)[c := t\<lparr>tick_count := tick_count t + 1\<rparr>]\<rparr>)
    \<or> (\<exists>d < 8. let n = slot_after (current_task_id s) d; s' = snd (scheduler_tick s); new = ctx (tasks s ! n) in
         is_ready s n \<and> (\<forall>e < d. \<not> is_ready s (slot_after (current_task_id s) e))
         \<and> current_task_id s' = int n \<and> tss_rsp0 s' = stack_top (tasks s ! n) \<and> length (tasks s') = 8
         \<and> (\<forall>i < 8. tasks s' ! i =
              (if i = n then (tasks s ! i)\<lparr>t_state := TASK_RUNNING\<rparr>
               else if int i = current_task_id s
               then (tasks s ! i)\<lparr>tick_count := tick_count (tasks s ! i) + 1, t_state := TASK_READY,
                      ctx := (cpu s)\<lparr>rip := load64 (kmem s) (rsp (cpu s))\<rparr>\<rparr>
               else tasks s ! i))
         \<and> phys s' = phys s \<and> next_task_id s' = next_task_id s \<and> int_flag s' = int_flag s
         \<and> (if current_task_id s < 0 then \<not> fst (scheduler_tick s) \<and> cpu s' = cpu s \<and> kmem s' = kmem s
            else fst (scheduler_tick s) \<and> cpu s' = new\<lparr>rsp := rsp new + 8\<rparr> \<and> kmem s' = store64 (rsp new) (rip new) (kmem s)))"
proof (cases "find_next_ready_task s")
  case None
  then show ?thesis using find_next_ready_None [of s] tick_None [OF None]
    by (simp add: MAX_TASKS_def count_tick_def set_task_def Let_def not_le)
next
  case (Some n)
  note wf = reach_wf [OF assms]
  from Some obtain d where d: "d < 8" "n = slot_after (current_task_id s) d" "is_ready s n"
    "\<forall>e < d. \<not> is_ready s (slot_after (current_task_id s) e)" by (auto simp: find_next_ready_Some MAX_TASKS_def)
  note t = tick_Some [OF wf Some] and e = tick_effect [OF wf Some]
  have "if current_task_id s < 0 then \<not> fst (scheduler_tick s) \<and> cpu (snd (scheduler_tick s)) = cpu s \<and> kmem (snd (scheduler_tick s)) = kmem s
      else fst (scheduler_tick s) \<and> cpu (snd (scheduler_tick s)) = load_context (ctx (tasks s ! n))
        \<and> kmem (snd (scheduler_tick s)) = store64 (rsp (ctx (tasks s ! n))) (rip (ctx (tasks s ! n))) (kmem s)"
    using t(2,6,7) e(2) by auto
  with d t(1,4) e(1,3-5) tick_tss [OF wf Some] show ?thesis
    by (intro disjI2 exI [of _ d]) (simp add: Let_def MAX_TASKS_def load_context_def save_context_def)
qed

theorem tick_round_robin_witness: "current_task_id (snd (scheduler_tick started)) = 1"
proof -
  have r: "is_ready started (slot_after (current_task_id started) 0)"
    using started_facts by (simp add: slot_after_def MAX_TASKS_def)
  then have none: "\<not> (\<forall>d < 8. \<not> is_ready started (slot_after (current_task_id started) d))"
    by (metis zero_less_numeral)
  obtain d where d: "\<forall>e < d. \<not> is_ready started (slot_after (current_task_id started) e)"
    "current_task_id (snd (scheduler_tick started)) = int (slot_after (current_task_id started) d)"
    using tick_round_robin [OF started_facts(1)] none by (auto simp: Let_def)
  with r have "d = 0" by blast
  with d(2) started_facts(2) show ?thesis by (simp add: slot_after_def MAX_TASKS_def)
qed

text \<open>C5: no task starves. From a reachable state in which task \<open>i\<close> is ready, any sequence of
  scheduler calls and task execution that contains eight timer ticks or yields makes
  \<open>i\<close> the current task at some point, whatever tasks are created in between.\<close>

theorem ready_task_runs:
  assumes "sched_reach s" "i < 8" "is_ready s i" "8 \<le> length (filter switching es)"
  shows "\<exists>k \<le> length es. current_task_id (sched_run (take k es) s) = int i"
  using waiting_bound [OF reach_wf [OF assms(1)] _ assms(3), of es] assms(2,4)
    offset_less [of "current_task_id s" i] by (simp add: MAX_TASKS_def)

theorem ready_task_runs_witness:
  "\<exists>k \<le> 9. current_task_id (sched_run (take k (Tick # Execute zero_context (\<lambda>_. 0) # replicate 7 Yield)) started) = 1"
  using ready_task_runs [OF started_facts(1) _ started_facts(3),
      of "Tick # Execute zero_context (\<lambda>_. 0) # replicate 7 Yield"]
  by (simp add: switching_def)

text \<open>C8: a task that was switched out finds its registers again. If a tick or a yield takes
  the CPU from task \<open>a\<close>, then when \<open>a\<close> becomes current for the first time afterwards, after
  any other tasks ran, ticked, yielded or were created, the callee-saved registers are those
  it had, with the return address of \<open>context_switch\<close> popped from its stack.\<close>

theorem switched_out_task_resumes:
  assumes "sched_reach s" "current_task_id s = int a" "switching e" "es \<noteq> []"
    and "\<forall>k < length es. current_task_id (sched_run (take k es) (sched_step e s)) \<noteq> int a"
    and "current_task_id (sched_run es (sched_step e s)) = int a"
  shows "cpu (sched_run es (sched_step e s)) = (cpu s)\<lparr>rip := load64 (kmem s) (rsp (cpu s)), rsp := rsp (cpu s) + 8\<rparr>"
proof -
  have wf: "sched_wf s" by (rule reach_wf [OF assms(1)])
  have ne: "current_task_id (sched_step e s) \<noteq> int a" using assms(4,5) by force
  have "a < MAX_TASKS" using wf assms(2) by (simp add: sched_wf_def)
  with switch_saves [OF wf assms(2,3) ne] away_resume [OF step_wf [OF wf] _ _ _ assms(4-6)]
  show ?thesis by (simp add: load_context_def save_context_def)
qed

theorem switched_out_task_resumes_witness:
  "cpu (sched_run [Execute zero_context (\<lambda>_. 0), Yield] (sched_step Tick started))
    = (cpu started)\<lparr>rip := load64 (kmem started) (rsp (cpu started)), rsp := rsp (cpu started) + 8\<rparr>"
proof (rule switched_out_task_resumes [OF started_facts(1)])
  show "current_task_id started = int 0" by (simp add: started_facts)
  show "switching Tick" "[Execute zero_context (\<lambda>_. 0), Yield] \<noteq> []" by (simp_all add: switching_def)
  show "\<forall>k < length [Execute zero_context (\<lambda>_. 0), Yield]. current_task_id
      (sched_run (take k [Execute zero_context (\<lambda>_. 0), Yield]) (sched_step Tick started)) \<noteq> int 0"
    using started_tick(1) by (auto simp: less_Suc_eq)
  show "current_task_id (sched_run [Execute zero_context (\<lambda>_. 0), Yield] (sched_step Tick started)) = int 0"
    using started_tick_yield by simp
qed


text \<open>a kernel task starts where it was told to. In a reachable state with a current task,
  let a creation fill slot \<open>slot\<close>. When that slot becomes current for the first time, after
  any other events, the CPU returns into the entry point with an empty stack: \<open>rip\<close> is the
  entry, \<open>rsp\<close> the top of the task's own stack, and the other callee-saved registers are zero.\<close>

theorem new_task_starts_at_entry:
  assumes "sched_reach s" "0 \<le> current_task_id s" "find_free_slot s = Some slot"
    and "scheduler_create_task name entry s = (r, s')" "is_ready s' slot" "es \<noteq> []"
    and "\<forall>k < length es. current_task_id (sched_run (take k es) s') \<noteq> int slot"
    and "current_task_id (sched_run es s') = int slot"
  shows "cpu (sched_run es s') = \<lparr>r15 = 0, r14 = 0, r13 = 0, r12 = 0, rbx = 0,
      rbp = stack_top (tasks s' ! slot) - 8, rsp = stack_top (tasks s' ! slot), rip = entry\<rparr>"
proof -
  have s': "s' = sched_step (CreateTask name entry) s" using assms(4) by simp
  have wf: "sched_wf s'" unfolding s' by (rule step_wf [OF reach_wf [OF assms(1)]])
  have slot: "slot < MAX_TASKS" using free_slot [OF assms(3)] by simp
  note c = create_task_slot [OF assms(1,3,4,5)]
  from c assms(2) have "0 \<le> current_task_id s'" by auto
  from away_resume [OF wf slot assms(5) this assms(6-8)] c show ?thesis
    by (auto simp: load_context_def fresh_context_def)
qed

theorem new_task_starts_at_entry_witness:
  "rip (cpu (sched_run [Tick, Execute zero_context (\<lambda>_. 0), Tick] third_task)) = 0x103000"
proof -
  obtain r s' where c: "scheduler_create_task (ascii ''net'') 0x103000 started = (r, s')" by fastforce
  then have s': "third_task = s'" by (simp add: third_task_def)
  have "\<forall>k < length [Tick, Execute zero_context (\<lambda>_. 0), Tick]. current_task_id
      (sched_run (take k [Tick, Execute zero_context (\<lambda>_. 0), Tick]) s') \<noteq> int 2"
    using third_task_facts(4) third_task_ticks(1) by (auto simp: s' [symmetric] less_Suc_eq)
  with new_task_starts_at_entry [OF started_facts(1) _ started_room(2) c, of "[Tick, Execute zero_context (\<lambda>_. 0), Tick]"]
  show ?thesis using third_task_facts(2) third_task_ticks(2) started_facts(2) by (simp add: s')
qed

text \<open>C21: in every reachable state the 16 KiB kernel stacks of two different tasks in use do
  not overlap, and each lies in the managed memory above the 2 MiB kernel area.\<close>

theorem kernel_stacks_disjoint:
  assumes "sched_reach s" "i < 8" "j < 8" "i \<noteq> j"
    and "t_state (tasks s ! i) \<noteq> TASK_UNUSED" "t_state (tasks s ! j) \<noteq> TASK_UNUSED"
  shows "(unat (stack_top (tasks s ! i)) + 16384 \<le> unat (stack_top (tasks s ! j))
      \<or> unat (stack_top (tasks s ! j)) + 16384 \<le> unat (stack_top (tasks s ! i)))
    \<and> 0x200000 + 16384 \<le> unat (stack_top (tasks s ! i))
    \<and> unat (stack_top (tasks s ! i)) \<le> TOTAL_PAGES * 4096"
proof -
  from reach_stacks [OF assms(1)] obtain k f where
    f: "\<forall>i. in_use s i \<longrightarrow> stack_end s i (f i) \<and> f i \<le> k"
    "\<forall>i j. in_use s i \<longrightarrow> in_use s j \<longrightarrow> i \<noteq> j \<longrightarrow> f i + 4 \<le> f j \<or> f j + 4 \<le> f i"
    by (auto simp: stacks_ok_def)
  have u: "in_use s i" "in_use s j" using assms by (simp_all add: in_use_def MAX_TASKS_def)
  have i: "stack_end s i (f i)" and j: "stack_end s j (f j)" using f(1) u by auto
  have "f i + 4 \<le> f j \<or> f j + 4 \<le> f i" using f(2) u assms(4) by blast
  with stack_end_addr [OF i] stack_end_addr [OF j] i show ?thesis by (auto simp: stack_end_def)
qed

theorem kernel_stacks_disjoint_witness:
  "unat (stack_top (tasks started ! 0)) + 16384 \<le> unat (stack_top (tasks started ! 1))
    \<or> unat (stack_top (tasks started ! 1)) + 16384 \<le> unat (stack_top (tasks started ! 0))"
proof -
  have "t_state (tasks started ! 0) = TASK_RUNNING" using reach_wf [OF started_facts(1)] started_facts(2)
    by (auto simp: sched_wf_def MAX_TASKS_def)
  with kernel_stacks_disjoint [OF started_facts(1), of 0 1] started_facts(3) show ?thesis
    by (auto simp: is_ready_def)
qed

text \<open>the task table only fills up. In every reachable state no task is BLOCKED or DEAD,
  a slot in use stays in use whatever happens, and once all eight slots are in use every
  creation of a kernel or user task fails for good with -1 and changes nothing.\<close>

theorem slots_never_freed:
  assumes "sched_reach s"
  shows "(\<forall>i < 8. t_state (tasks s ! i) \<noteq> TASK_DEAD \<and> t_state (tasks s ! i) \<noteq> TASK_BLOCKED)
    \<and> (\<forall>i < 8. t_state (tasks s ! i) \<noteq> TASK_UNUSED \<longrightarrow>
         t_state (tasks (sched_run es s) ! i) \<noteq> TASK_UNUSED)
    \<and> ((\<forall>i < 8. t_state (tasks s ! i) \<noteq> TASK_UNUSED) \<longrightarrow>
         scheduler_create_task name entry (sched_run es s) = (-1, sched_run es s)
         \<and> scheduler_create_user_task boot name entry (sched_run es s) = (-1, sched_run es s))"
proof -
  have l: "live_states s" "live_states (sched_run es s)"
    using reach_live assms reach_run by auto
  have u: "t_state (tasks (sched_run es s) ! i) \<noteq> TASK_UNUSED"
    if "i < 8" "t_state (tasks s ! i) \<noteq> TASK_UNUSED" for i
    using run_in_use [OF assms, of i es] that by (simp add: in_use_def MAX_TASKS_def)
  have "find_free_slot (sched_run es s) = None" if "\<forall>i < 8. t_state (tasks s ! i) \<noteq> TASK_UNUSED"
    unfolding find_free_slot_def find_upt_None using that u l(2)
    by (force simp: live_states_def MAX_TASKS_def)
  with l(1) u show ?thesis by (auto simp: live_states_def MAX_TASKS_def create_full)
qed

theorem slots_never_freed_witness: "t_state (tasks (sched_run [Yield, Tick] started) ! 1) \<noteq> TASK_UNUSED"
proof -
  have "t_state (tasks started ! 1) = TASK_READY" using started_facts(3) by (simp add: is_ready_def)
  then have "t_state (tasks started ! 1) \<noteq> TASK_UNUSED" by simp
  with slots_never_freed [OF started_facts(1), of "[Yield, Tick]"] show ?thesis by simp
qed

text \<open>\<open>scheduler_start\<close> in a reachable state with a ready task makes the lowest-numbered
  ready slot the one RUNNING task, with its registers in the CPU, its stack top in the TSS
  and interrupts enabled; a task that an early tick had marked RUNNING is READY again.\<close>

theorem start_runs_first_ready:
  assumes "sched_reach s" "i < 8" "is_ready s i"
  shows "\<exists>n \<le> i. is_ready s n \<and> (\<forall>j < n. \<not> is_ready s j)
    \<and> current_task_id (scheduler_start s) = int n \<and> cpu (scheduler_start s) = ctx (tasks s ! n)
    \<and> tss_rsp0 (scheduler_start s) = stack_top (tasks s ! n) \<and> int_flag (scheduler_start s)
    \<and> (\<forall>j < 8. t_state (tasks (scheduler_start s) ! j) = (if j = n then TASK_RUNNING
         else if int j = current_task_id s then TASK_READY else t_state (tasks s ! j)))"
proof -
  note wf = reach_wf [OF assms(1)]
  then have len: "length (tasks s) = MAX_TASKS" by (simp add: sched_wf_def)
  obtain n where n: "n < MAX_TASKS" "is_ready s n" "\<forall>j < n. \<not> is_ready s j"
    using least_ready [OF assms(3)] assms(2) by (auto simp: MAX_TASKS_def)
  have "n \<le> i" using n(3) assms(3) by (meson not_le)
  moreover have "\<forall>j < 8. t_state (tasks (scheduler_start s) ! j) = (if j = n then TASK_RUNNING
         else if int j = current_task_id s then TASK_READY else t_state (tasks s ! j))"
    using start_Some(3) [OF len n] wf by (auto simp: sched_wf_def MAX_TASKS_def)
  ultimately show ?thesis using start_Some(1,6,7,8) [OF len n] n by (intro exI [of _ n]) auto
qed

theorem start_runs_first_ready_witness: "current_task_id (scheduler_start two_tasks) = 0"
  using start_runs_first_ready [OF two_tasks_facts(1) _ two_tasks_facts(2)] by auto

text \<open>\<open>scheduler_start\<close> after an early tick on the only ready task runs nothing. In a
  reachable state without a current task where slot \<open>i\<close> alone is READY, one timer tick before
  the start marks it RUNNING; the start then finds no READY task before it cleans the
  RUNNING mark up, returns to its caller with the task left RUNNING, no task current, and
  the CPU registers untouched, and no later tick picks the task.\<close>

theorem early_tick_loses_only_task:
  assumes "sched_reach s" "current_task_id s = -1" "i < 8"
    and "\<forall>j < 8. is_ready s j \<longleftrightarrow> j = i"
  shows "let s' = scheduler_start (snd (scheduler_tick s)) in
    t_state (tasks s' ! i) = TASK_RUNNING \<and> current_task_id s' = -1 \<and> cpu s' = cpu s
    \<and> scheduler_tick s' = (False, s')"
proof -
  note wf = reach_wf [OF assms(1)]
  have il: "i < MAX_TASKS" "is_ready s i" using assms by (auto simp: MAX_TASKS_def)
  obtain n where n: "find_next_ready_task s = Some n" using find_next_ready_exists [OF il] by blast
  with find_next_ready_less [OF n] assms(4) have ni: "n = i" by (auto simp: MAX_TASKS_def)
  let ?t = "snd (scheduler_tick s)"
  note t = tick_Some [OF wf n [unfolded ni]]
  have none: "\<not> is_ready ?t j" if "j < MAX_TASKS" for j
    using t(3) [OF that] that assms(2,4) by (auto simp: is_ready_def MAX_TASKS_def)
  then have st: "scheduler_start ?t = ?t\<lparr>current_task_id := -1, int_flag := True\<rparr>"
    by (auto simp: scheduler_start_def find_upt_None [THEN iffD2] is_ready_def)
  have "find_next_ready_task (scheduler_start ?t) = None"
    unfolding find_next_ready_None st using none slot_after_less by (simp add: is_ready_def)
  then have "scheduler_tick (scheduler_start ?t) = (False, scheduler_start ?t)"
    by (simp add: tick_None count_tick_def st)
  moreover have "cpu ?t = cpu s" using n assms(2)
    by (auto simp: scheduler_tick_def count_tick_def sched_defs)
  ultimately show ?thesis using t(3) [OF il(1)] by (simp add: st Let_def)
qed

theorem early_tick_loses_only_task_witness:
  "t_state (tasks (scheduler_start (snd (scheduler_tick one_task))) ! 0) = TASK_RUNNING
    \<and> current_task_id (scheduler_start (snd (scheduler_tick one_task))) = -1"
  using early_tick_loses_only_task [OF one_task_facts(1,5), of 0] one_task_only by (simp add: Let_def)

end
