(* ===== verification/Ring_Queue.thy ===== *)
theory Ring_Queue
  imports Kernel_Prelude
begin

text \<open>
  The bounded queue shared by the serial transmitter and the keyboard driver: a circular
  buffer with a read and a write index, where one slot stays empty so that equal indices
  mean an empty queue, and where a push on a full queue drops its argument. The first part
  relates the indices to the list of queued elements; the second is the interface as a
  locale, with the facts its clients use.
\<close>

subsection \<open>Indices and contents\<close>

definition ring_count :: "nat \<Rightarrow> nat \<Rightarrow> nat \<Rightarrow> nat" where
  "ring_count n r w = (w + n - r) mod n"

definition ring_list :: "nat \<Rightarrow> 'a list \<Rightarrow> nat \<Rightarrow> nat \<Rightarrow> 'a list" where
  "ring_list n buf r w = map (\<lambda>i. buf ! ((r + i) mod n)) [0..<ring_count n r w]"

lemma length_ring_list [simp]: "length (ring_list n buf r w) = ring_count n r w"
  by (simp add: ring_list_def)

lemma ring_count_less: "0 < n \<Longrightarrow> ring_count n r w < n"
  by (simp add: ring_count_def)

lemma ring_count_0: "r < n \<Longrightarrow> w < n \<Longrightarrow> ring_count n r w = 0 \<longleftrightarrow> r = w"
  by (cases "r \<le> w") (auto simp: ring_count_def mod_if)

lemma ring_count_cases:
  "r < n \<Longrightarrow> w < n \<Longrightarrow> ring_count n r w = (if r \<le> w then w - r else w + n - r)"
  by (auto simp: ring_count_def mod_if)

lemma ring_full: "r < n \<Longrightarrow> w < n \<Longrightarrow> (w + 1) mod n = r \<longleftrightarrow> ring_count n r w = n - 1"
  by (auto simp: ring_count_cases mod_if)

lemma ring_count_push:
  "r < n \<Longrightarrow> w < n \<Longrightarrow> (w + 1) mod n \<noteq> r \<Longrightarrow> ring_count n r ((w + 1) mod n) = Suc (ring_count n r w)"
  by (auto simp: ring_count_cases mod_if)

lemma ring_count_pop:
  "r < n \<Longrightarrow> w < n \<Longrightarrow> r \<noteq> w \<Longrightarrow> Suc (ring_count n ((r + 1) mod n) w) = ring_count n r w"
  by (auto simp: ring_count_cases mod_if)

lemma ring_slot_w: "r < n \<Longrightarrow> w < n \<Longrightarrow> (r + ring_count n r w) mod n = w"
  by (auto simp: ring_count_cases mod_if)

lemma ring_slot_neq: "r < n \<Longrightarrow> w < n \<Longrightarrow> i < ring_count n r w \<Longrightarrow> (r + i) mod n \<noteq> w"
proof -
  assume a: "r < n" "w < n" "i < ring_count n r w"
  show ?thesis
  proof (cases "r + i < n")
    case True
    with a show ?thesis by (auto simp: ring_count_cases split: if_splits)
  next
    case False
    with a have less: "\<not> r \<le> w" "r + i - n < w" by (auto simp: ring_count_cases split: if_splits)
    have "(r + i) mod n = (r + i - n) mod n" using False by (simp add: le_mod_geq)
    with less a(2) show ?thesis by simp
  qed
qed

lemma ring_push:
  assumes "length buf = n" "r < n" "w < n" "(w + 1) mod n \<noteq> r"
  shows "ring_list n (buf[w := x]) r ((w + 1) mod n) = ring_list n buf r w @ [x]"
proof -
  have "map (\<lambda>i. buf[w := x] ! ((r + i) mod n)) [0..<ring_count n r w] = ring_list n buf r w"
    unfolding ring_list_def using assms ring_slot_neq [OF assms(2,3), THEN not_sym] by (intro map_cong) auto
  then show ?thesis using assms(1,3)
    by (simp add: ring_list_def ring_count_push [OF assms(2-4), simplified] ring_slot_w [OF assms(2,3)])
qed

lemma ring_pop:
  assumes "r < n" "w < n" "r \<noteq> w"
  shows "ring_list n buf r w = buf ! r # ring_list n buf ((r + 1) mod n) w"
proof -
  have "ring_list n buf r w = map (\<lambda>i. buf ! ((r + i) mod n)) [0..<Suc (ring_count n ((r + 1) mod n) w)]"
    using ring_count_pop [OF assms] by (simp add: ring_list_def)
  also have "\<dots> = buf ! (r mod n) # map (\<lambda>i. buf ! ((r + Suc i) mod n)) [0..<ring_count n ((r + 1) mod n) w]"
    by (simp only: upt_conv_Cons zero_less_Suc list.map map_Suc_upt [symmetric] map_map o_def) simp
  also have "\<dots> = buf ! r # ring_list n buf ((r + 1) mod n) w"
    using assms by (simp add: ring_list_def mod_simps)
  finally show ?thesis .
qed

lemma ring_empty: "r < n \<Longrightarrow> w < n \<Longrightarrow> ring_list n buf r w = [] \<longleftrightarrow> r = w"
  using length_ring_list [of n buf r w] ring_count_0 [of r n w] by (metis length_0_conv)

subsection \<open>The interface\<close>

locale bounded_queue =
  fixes push :: "'a \<Rightarrow> 'q \<Rightarrow> 'q"
    and pop :: "'q \<Rightarrow> ('a \<times> 'q) option"
    and contents :: "'q \<Rightarrow> 'a list"
    and invar :: "'q \<Rightarrow> bool"
    and cap :: nat
  assumes contents_cap: "invar q \<Longrightarrow> length (contents q) \<le> cap"
    and push_contents: "invar q \<Longrightarrow>
      contents (push x q) = (if length (contents q) < cap then contents q @ [x] else contents q)"
    and push_invar: "invar q \<Longrightarrow> invar (push x q)"
    and pop_empty: "invar q \<Longrightarrow> contents q = [] \<Longrightarrow> pop q = None"
    and pop_first: "invar q \<Longrightarrow> contents q = x # xs \<Longrightarrow>
      \<exists>q'. pop q = Some (x, q') \<and> contents q' = xs \<and> invar q'"
begin

text \<open>Pushing a sequence keeps the part that fits.\<close>

lemma push_all:
  "invar q \<Longrightarrow> invar (fold push xs q)
    \<and> contents (fold push xs q) = contents q @ take (cap - length (contents q)) xs"
proof (induction xs arbitrary: q)
  case Nil
  then show ?case by simp
next
  case (Cons x xs)
  note ih = Cons.IH [OF push_invar [OF Cons.prems, of x]]
  show ?case
  proof (cases "length (contents q) < cap")
    case True
    then obtain m where "cap - length (contents q) = Suc m" "cap - Suc (length (contents q)) = m"
      by (metis Suc_diff_Suc)
    with ih True show ?thesis by (simp add: push_contents [OF Cons.prems])
  next
    case False
    with ih show ?thesis by (simp add: push_contents [OF Cons.prems])
  qed
qed

lemma pop_cases:
  assumes "invar q"
  obtains "contents q = []" "pop q = None"
  | x q' where "pop q = Some (x, q')" "contents q = x # contents q'" "invar q'"
proof (cases "contents q")
  case Nil
  show ?thesis by (rule that(1) [OF Nil pop_empty [OF assms Nil]])
next
  case (Cons x xs)
  from pop_first [OF assms Cons] obtain q' where "pop q = Some (x, q')" "contents q' = xs" "invar q'" by blast
  with Cons that(2) show ?thesis by simp
qed

lemma pop_None: "invar q \<Longrightarrow> pop q = None \<longleftrightarrow> contents q = []"
  by (rule pop_cases [of q]) auto

lemma pop_Some: "invar q \<Longrightarrow> pop q = Some (x, q') \<Longrightarrow> contents q = x # contents q' \<and> invar q'"
  by (rule pop_cases [of q]) auto

text \<open>Popping up to \<open>k\<close> elements gives the oldest ones in order.\<close>

fun pops :: "nat \<Rightarrow> 'q \<Rightarrow> 'a list \<times> 'q" where
  "pops 0 q = ([], q)"
| "pops (Suc k) q = (case pop q of None \<Rightarrow> ([], q)
     | Some (x, q') \<Rightarrow> (case pops k q' of (xs, q'') \<Rightarrow> (x # xs, q'')))"

lemma pops_contents:
  "invar q \<Longrightarrow> fst (pops k q) = take k (contents q) \<and> contents (snd (pops k q)) = drop k (contents q)
    \<and> invar (snd (pops k q))"
proof (induction k arbitrary: q)
  case 0
  then show ?case by simp
next
  case (Suc k)
  show ?case
  proof (rule pop_cases [OF Suc.prems])
    assume "contents q = []" "pop q = None"
    with Suc.prems show ?thesis by simp
  next
    fix x q' assume "pop q = Some (x, q')" "contents q = x # contents q'" "invar q'"
    with Suc.IH [of q'] show ?thesis by (simp add: case_prod_beta)
  qed
qed

end

end
