(* ===== verification/Ports.thy ===== *)
theory Ports
  imports Kernel_Prelude
begin

text \<open>
  Port input and output. What the devices answer is not in the sources, so the four
  instructions are a parameter of every driver: the record \<open>ports\<close> over a type of device
  states. A driver model takes the record and threads the device state through in the
  order of the code's port accesses.
\<close>

record 'w ports =
  inb :: "u16 \<Rightarrow> 'w \<Rightarrow> u8 \<times> 'w"
  outb :: "u16 \<Rightarrow> u8 \<Rightarrow> 'w \<Rightarrow> 'w"
  inw :: "u16 \<Rightarrow> 'w \<Rightarrow> u16 \<times> 'w"
  outw :: "u16 \<Rightarrow> u16 \<Rightarrow> 'w \<Rightarrow> 'w"

text \<open>A list of writes in order.\<close>

fun outb_all :: "'w ports \<Rightarrow> (u16 \<times> u8) list \<Rightarrow> 'w \<Rightarrow> 'w" where
  "outb_all io [] w = w"
| "outb_all io ((p, v) # ws) w = outb_all io ws (outb io p v w)"

end
