(* ===== verification/Serial.thy ===== *)
theory Serial
  imports Ring_Queue Ports "HOL-Library.Sublist"
begin

text \<open>
  The serial driver (\<open>drivers/serial/serial.c\<close>): a 4096-byte transmit ring drained into the
  UART while it reports an empty holding register. The static variables are the record
  \<open>serial\<close>, which also holds the interrupt flag the driver saves, clears and restores.
\<close>

definition COM1 :: u16 where "COM1 = 0x3F8"
definition SERIAL_TX_BUF :: nat where "SERIAL_TX_BUF = 4096"

record serial =
  tx_buf :: bytes
  tx_head :: nat
  tx_tail :: nat
  irq_on :: bool

definition tx_empty :: "serial \<Rightarrow> bool" where
  "tx_empty s \<longleftrightarrow> tx_head s = tx_tail s"

definition tx_full :: "serial \<Rightarrow> bool" where
  "tx_full s \<longleftrightarrow> (tx_tail s + 1) mod SERIAL_TX_BUF = tx_head s"

definition irq_save_disable :: "serial \<Rightarrow> bool \<times> serial" where
  "irq_save_disable s = (irq_on s, s\<lparr>irq_on := False\<rparr>)"

definition irq_restore :: "bool \<Rightarrow> serial \<Rightarrow> serial" where
  "irq_restore flags s = s\<lparr>irq_on := flags\<rparr>"

definition tx_push :: "u8 \<Rightarrow> serial \<Rightarrow> serial" where
  "tx_push c s =
     (if \<not> tx_full s
      then s\<lparr>tx_buf := (tx_buf s)[tx_tail s := c], tx_tail := (tx_tail s + 1) mod SERIAL_TX_BUF\<rparr>
      else s)"

text \<open>Taking the byte at the head out of the ring.\<close>

definition tx_pop :: "serial \<Rightarrow> (u8 \<times> serial) option" where
  "tx_pop s =
     (if tx_empty s then None
      else Some (tx_buf s ! tx_head s, s\<lparr>tx_head := (tx_head s + 1) mod SERIAL_TX_BUF\<rparr>))"

text \<open>
  \<open>serial_drain\<close> sends while there is something to send and the line status register has
  bit 5 set. The fuel \<open>SERIAL_TX_BUF\<close> is more than the ring can hold.
\<close>

fun drain_loop :: "nat \<Rightarrow> 'w ports \<Rightarrow> serial \<Rightarrow> 'w \<Rightarrow> serial \<times> 'w" where
  "drain_loop 0 io s w = (s, w)"
| "drain_loop (Suc k) io s w =
     (case tx_pop s of
        None \<Rightarrow> (s, w)
      | Some (c, s') \<Rightarrow>
          (case inb io (COM1 + 5) w of (lsr, w') \<Rightarrow>
             if lsr AND 0x20 = 0 then (s, w') else drain_loop k io s' (outb io COM1 c w')))"

definition serial_drain :: "'w ports \<Rightarrow> serial \<Rightarrow> 'w \<Rightarrow> serial \<times> 'w" where
  "serial_drain io s w = drain_loop SERIAL_TX_BUF io s w"

definition serial_init :: "'w ports \<Rightarrow> 'w \<Rightarrow> 'w" where
  "serial_init io w = outb_all io
     [(COM1 + 1, 0x00), (COM1 + 3, 0x80), (COM1 + 0, 0x01), (COM1 + 1, 0x00), (COM1 + 3, 0x03),
      (COM1 + 2, 0xC7), (COM1 + 4, 0x0B)] w"

definition serial_putchar :: "'w ports \<Rightarrow> u8 \<Rightarrow> serial \<Rightarrow> 'w \<Rightarrow> serial \<times> 'w" where
  "serial_putchar io c s w =
     (case irq_save_disable s of (flags, s1) \<Rightarrow>
        (case serial_drain io (tx_push c s1) w of (s2, w') \<Rightarrow> (irq_restore flags s2, w')))"

definition serial_write :: "'w ports \<Rightarrow> bytes \<Rightarrow> serial \<Rightarrow> 'w \<Rightarrow> serial \<times> 'w" where
  "serial_write io str s w =
     (case irq_save_disable s of (flags, s1) \<Rightarrow>
        (case serial_drain io (fold tx_push (c_str str) s1) w of (s2, w') \<Rightarrow> (irq_restore flags s2, w')))"

definition serial_flush :: "'w ports \<Rightarrow> serial \<Rightarrow> 'w \<Rightarrow> serial \<times> 'w" where
  "serial_flush io s w =
     (case irq_save_disable s of (flags, s1) \<Rightarrow>
        (case serial_drain io s1 w of (s2, w') \<Rightarrow> (irq_restore flags s2, w')))"

definition serial_read_ready :: "'w ports \<Rightarrow> 'w \<Rightarrow> u8 \<times> 'w" where
  "serial_read_ready io w = (case inb io (COM1 + 5) w of (v, w') \<Rightarrow> (v AND 0x01, w'))"

definition serial_getchar :: "'w ports \<Rightarrow> 'w \<Rightarrow> u8 \<times> 'w" where
  "serial_getchar io w = inb io COM1 w"

subsection \<open>The ring as a bounded queue\<close>

definition tx_pending :: "serial \<Rightarrow> bytes" where
  "tx_pending s = ring_list SERIAL_TX_BUF (tx_buf s) (tx_head s) (tx_tail s)"

definition tx_inv :: "serial \<Rightarrow> bool" where
  "tx_inv s \<longleftrightarrow> length (tx_buf s) = SERIAL_TX_BUF \<and> tx_head s < SERIAL_TX_BUF \<and> tx_tail s < SERIAL_TX_BUF"

definition serial_boot :: serial where
  "serial_boot = \<lparr>tx_buf = replicate SERIAL_TX_BUF 0, tx_head = 0, tx_tail = 0, irq_on = False\<rparr>"

lemma serial_boot_facts [simp]: "tx_inv serial_boot" "tx_pending serial_boot = []"
  by (simp_all add: tx_inv_def serial_boot_def SERIAL_TX_BUF_def tx_pending_def ring_list_def ring_count_def)

lemma tx_full_count:
  "tx_inv s \<Longrightarrow> tx_full s \<longleftrightarrow> length (tx_pending s) = SERIAL_TX_BUF - 1"
  using ring_full [of "tx_head s" SERIAL_TX_BUF "tx_tail s"]
  by (simp add: tx_full_def tx_inv_def tx_pending_def)

interpretation tx: bounded_queue tx_push tx_pop tx_pending tx_inv "SERIAL_TX_BUF - 1"
proof
  fix s x
  assume inv: "tx_inv s"
  then have b: "length (tx_pending s) < SERIAL_TX_BUF"
    by (simp add: tx_pending_def ring_count_less SERIAL_TX_BUF_def)
  then show "length (tx_pending s) \<le> SERIAL_TX_BUF - 1" by simp
  show "tx_pending (tx_push x s) =
      (if length (tx_pending s) < SERIAL_TX_BUF - 1 then tx_pending s @ [x] else tx_pending s)"
  proof (cases "tx_full s")
    case True
    with tx_full_count [OF inv] show ?thesis by (simp add: tx_push_def)
  next
    case False
    with inv have "tx_pending (tx_push x s) = tx_pending s @ [x]"
      unfolding tx_pending_def by (simp add: tx_push_def, intro ring_push [simplified])
        (auto simp: tx_inv_def tx_full_def)
    with b tx_full_count [OF inv] False show ?thesis by simp
  qed
  show "tx_inv (tx_push x s)"
    using inv by (simp add: tx_push_def tx_inv_def SERIAL_TX_BUF_def)
  show "tx_pop s = None" if "tx_pending s = []"
    using that inv ring_empty [of "tx_head s" SERIAL_TX_BUF "tx_tail s" "tx_buf s"]
    by (simp add: tx_pop_def tx_empty_def tx_pending_def tx_inv_def)
  show "\<exists>q'. tx_pop s = Some (x, q') \<and> tx_pending q' = xs \<and> tx_inv q'" if "tx_pending s = x # xs" for xs
  proof -
    from that inv have ne: "tx_head s \<noteq> tx_tail s"
      using ring_empty [of "tx_head s" SERIAL_TX_BUF "tx_tail s" "tx_buf s"]
      by (auto simp: tx_pending_def tx_inv_def)
    with that inv ring_pop [of "tx_head s" SERIAL_TX_BUF "tx_tail s" "tx_buf s"] show ?thesis
      by (auto simp: tx_pop_def tx_empty_def tx_pending_def tx_inv_def SERIAL_TX_BUF_def)
  qed
qed


subsection \<open>Draining\<close>

text \<open>
  What the driver relies on in the UART: reading a register sends nothing, and a byte
  written to the data register is sent after those written before.
\<close>

definition uart_ok :: "'w ports \<Rightarrow> ('w \<Rightarrow> bytes) \<Rightarrow> bool" where
  "uart_ok io sent \<longleftrightarrow> (\<forall>p w. sent (snd (inb io p w)) = sent w) \<and> (\<forall>c w. sent (outb io COM1 c w) = sent w @ [c])"

lemma drain_loop_ok:
  "uart_ok io sent \<Longrightarrow> tx_inv s \<Longrightarrow> drain_loop k io s w = (s', w') \<Longrightarrow>
    tx_inv s' \<and> sent w' @ tx_pending s' = sent w @ tx_pending s \<and> irq_on s' = irq_on s
    \<and> length (tx_pending s') \<le> length (tx_pending s)"
proof (induction k arbitrary: s w)
  case 0
  then show ?case by simp
next
  case (Suc k)
  show ?case
  proof (cases "tx_pop s")
    case None
    with Suc.prems show ?thesis by simp
  next
    case (Some a)
    then obtain c s1 where p: "tx_pop s = Some (c, s1)" by (cases a) simp
    obtain lsr w1 where r: "inb io (COM1 + 5) w = (lsr, w1)" by fastforce
    have irq: "irq_on s1 = irq_on s" using p by (auto simp: tx_pop_def split: if_splits)
    have w1: "sent w1 = sent w" using Suc.prems(1) r by (metis snd_conv uart_ok_def)
    note c = tx.pop_Some [OF Suc.prems(2) p]
    show ?thesis
    proof (cases "lsr AND 0x20 = 0")
      case True
      with Suc.prems p r w1 c irq show ?thesis by auto
    next
      case False
      with Suc.prems(3) p r have d: "drain_loop k io s1 (outb io COM1 c w1) = (s', w')" by simp
      have "sent (outb io COM1 c w1) = sent w @ [c]" using Suc.prems(1) w1 by (simp add: uart_ok_def)
      with Suc.IH [OF Suc.prems(1) _ d] c irq show ?thesis by simp
    qed
  qed
qed

text \<open>Fuel for every pending byte is enough: more changes nothing.\<close>

lemma drain_loop_fuel:
  "tx_inv s \<Longrightarrow> length (tx_pending s) \<le> k \<Longrightarrow> drain_loop (k + j) io s w = drain_loop k io s w"
proof (induction k arbitrary: s w)
  case 0
  then have "tx_pop s = None" by (simp add: tx.pop_None)
  then show ?case by (cases j) simp_all
next
  case (Suc k)
  show ?case
  proof (cases "tx_pop s")
    case (Some a)
    then obtain c s1 where p: "tx_pop s = Some (c, s1)" by (cases a) simp
    from tx.pop_Some [OF Suc.prems(1) this] Suc.prems(2) Suc.IH [of s1] p show ?thesis
      by (simp split: prod.split)
  qed simp
qed

lemma serial_drain_fuel: "tx_inv s \<Longrightarrow> drain_loop (SERIAL_TX_BUF + j) io s w = serial_drain io s w"
  using drain_loop_fuel [of s SERIAL_TX_BUF] tx.contents_cap [of s]
  by (simp add: serial_drain_def SERIAL_TX_BUF_def)

datatype serial_op = Putchar u8 | Write bytes | Flush

fun serial_chars :: "serial_op \<Rightarrow> bytes" where
  "serial_chars (Putchar c) = [c]"
| "serial_chars (Write str) = c_str str"
| "serial_chars Flush = []"

fun serial_do :: "'w ports \<Rightarrow> serial_op \<Rightarrow> serial \<times> 'w \<Rightarrow> serial \<times> 'w" where
  "serial_do io (Putchar c) (s, w) = serial_putchar io c s w"
| "serial_do io (Write str) (s, w) = serial_write io str s w"
| "serial_do io Flush (s, w) = serial_flush io s w"

lemma tx_push_irq: "irq_on (fold tx_push cs s) = irq_on s"
  by (induction cs arbitrary: s) (simp_all add: tx_push_def)

lemma tx_flag [simp]: "tx_inv (s\<lparr>irq_on := b\<rparr>) = tx_inv s" "tx_pending (s\<lparr>irq_on := b\<rparr>) = tx_pending s"
  by (simp_all add: tx_inv_def tx_pending_def)

lemma serial_do_push:
  "serial_do io op (s, w) =
    (case serial_drain io (fold tx_push (serial_chars op) (s\<lparr>irq_on := False\<rparr>)) w of
       (s2, w') \<Rightarrow> (s2\<lparr>irq_on := irq_on s\<rparr>, w'))"
  by (cases op) (simp_all add: serial_putchar_def serial_write_def serial_flush_def irq_save_disable_def
    irq_restore_def)

lemma serial_do_ok:
  assumes "uart_ok io sent" "tx_inv s" "serial_do io op (s, w) = (s', w')"
  shows "tx_inv s' \<and> irq_on s' = irq_on s
    \<and> sent w' @ tx_pending s' = sent w @ tx_pending s
       @ take (SERIAL_TX_BUF - 1 - length (tx_pending s)) (serial_chars op)
    \<and> length (tx_pending s') \<le> length (tx_pending s) + length (serial_chars op)"
proof -
  let ?s1 = "fold tx_push (serial_chars op) (s\<lparr>irq_on := False\<rparr>)"
  obtain s2 w2 where d: "serial_drain io ?s1 w = (s2, w2)" by fastforce
  have p: "tx_inv ?s1" "tx_pending ?s1 = tx_pending s
      @ take (SERIAL_TX_BUF - 1 - length (tx_pending s)) (serial_chars op)"
    using tx.push_all [of "s\<lparr>irq_on := False\<rparr>" "serial_chars op"] assms(2) by auto
  from drain_loop_ok [OF assms(1) p(1) d [unfolded serial_drain_def]] p(2) assms(3) d show ?thesis
    by (auto simp: serial_do_push)
qed

subsection \<open>Property\<close>

text \<open>C22: the serial port is a first-in first-out channel. For any sequence of putchar, write
  and flush calls and any readiness of the UART, what was sent followed by what is pending is
  what was there before followed by a subsequence of the characters written; it is all of
  them when they fit into the 4095 free places; and each call leaves the interrupt flag as
  it was.\<close>

theorem serial_fifo:
  assumes "uart_ok io sent" "tx_inv s" "fold (serial_do io) ops (s, w) = (s', w')"
  shows "irq_on s' = irq_on s \<and> length (tx_pending s') \<le> 4095
    \<and> (\<exists>kept. sent w' @ tx_pending s' = sent w @ tx_pending s @ kept
         \<and> subseq kept (concat (map serial_chars ops))
         \<and> (length (tx_pending s) + length (concat (map serial_chars ops)) \<le> 4095 \<longrightarrow>
              kept = concat (map serial_chars ops)))"
  using assms(2,3)
proof (induction ops arbitrary: s w)
  case Nil
  with tx.contents_cap [of s] show ?case by (simp add: SERIAL_TX_BUF_def)
next
  case (Cons op ops)
  obtain s1 w1 where st: "serial_do io op (s, w) = (s1, w1)" by fastforce
  let ?k = "take (SERIAL_TX_BUF - 1 - length (tx_pending s)) (serial_chars op)"
  have d: "tx_inv s1" "irq_on s1 = irq_on s" "sent w1 @ tx_pending s1 = sent w @ tx_pending s @ ?k"
    using serial_do_ok [OF assms(1) Cons.prems(1) st] by auto
  from Cons.prems(2) st have r: "fold (serial_do io) ops (s1, w1) = (s', w')" by simp
  from Cons.IH [OF d(1) r] obtain kept where k: "irq_on s' = irq_on s1" "length (tx_pending s') \<le> 4095"
    "sent w' @ tx_pending s' = sent w1 @ tx_pending s1 @ kept" "subseq kept (concat (map serial_chars ops))"
    "length (tx_pending s1) + length (concat (map serial_chars ops)) \<le> 4095 \<longrightarrow>
       kept = concat (map serial_chars ops)" by blast
  have "length (tx_pending s1) \<le> length (tx_pending s) + length (serial_chars op)"
    using serial_do_ok [OF assms(1) Cons.prems(1) st] by simp
  then have all: "?k @ kept = concat (map serial_chars (op # ops))"
    if "length (tx_pending s) + length (concat (map serial_chars (op # ops))) \<le> 4095"
    using that k(5) by (simp add: SERIAL_TX_BUF_def)
  have "subseq (?k @ kept) (concat (map serial_chars (op # ops)))"
    using list_emb_append_mono [OF prefix_imp_subseq [OF take_is_prefix] k(4)] by simp
  with k d all show ?case by (intro conjI exI [of _ "?k @ kept"]) (simp_all add: append_assoc [symmetric] del: append_assoc)
qed

text \<open>A UART that is ready at every other poll.\<close>

definition blinking_uart :: "(bool \<times> bytes) ports" where
  "blinking_uart = \<lparr>inb = (\<lambda>p (b, out). (if b then 0x60 else 0, (\<not> b, out))),
     outb = (\<lambda>p c (b, out). (b, if p = COM1 then out @ [c] else out)),
     inw = (\<lambda>p w. (0, w)), outw = (\<lambda>p c w. w)\<rparr>"

theorem serial_fifo_witness:
  "\<exists>s' w'. fold (serial_do blinking_uart) [Write (ascii ''ok''), Putchar 10, Flush] (serial_boot, (True, [])) = (s', w')
    \<and> snd w' @ tx_pending s' = ascii ''ok'' @ [10]"
proof -
  have u: "uart_ok blinking_uart snd" by (auto simp: uart_ok_def blinking_uart_def split: prod.splits)
  obtain s' w' where f: "fold (serial_do blinking_uart) [Write (ascii ''ok''), Putchar 10, Flush]
      (serial_boot, (True, [])) = (s', w')" by (metis surj_pair)
  have c: "concat (map serial_chars [Write (ascii ''ok''), Putchar 10, Flush]) = ascii ''ok'' @ [10]"
    by (simp add: ascii_def c_str_def)
  from serial_fifo [OF u serial_boot_facts(1) f] have "snd w' @ tx_pending s' = ascii ''ok'' @ [10]"
    unfolding c by (auto simp: ascii_def)
  with f show ?thesis by blast
qed

end
