(* ===== verification/Keyboard.thy ===== *)
theory Keyboard
  imports Ring_Queue Ports
begin

text \<open>
  The PS/2 keyboard driver (\<open>drivers/input/keyboard.c\<close>): scancodes are turned into
  characters and kept in a queue of 64 slots; characters can also come from the serial
  port. The static variables are the record \<open>kbd\<close>; a \<open>char\<close> is the byte it is stored as.
\<close>

definition KBD_QUEUE_SIZE :: nat where "KBD_QUEUE_SIZE = 64"
definition KEY_UP :: u8 where "KEY_UP = 0x80"
definition KEY_DOWN :: u8 where "KEY_DOWN = 0x81"
definition KEY_LEFT :: u8 where "KEY_LEFT = 0x82"
definition KEY_RIGHT :: u8 where "KEY_RIGHT = 0x83"
definition KEY_PGUP :: u8 where "KEY_PGUP = 0x84"
definition KEY_PGDN :: u8 where "KEY_PGDN = 0x85"

record kbd =
  kbd_queue :: bytes
  kbd_q_head :: nat
  kbd_q_tail :: nat
  shift_held :: bool
  extended :: bool
  ctrl_held :: bool
  interrupt_requested :: bool

text \<open>The two scancode tables; the entries after the last initialiser are zero.\<close>

definition kbdus :: bytes where
  "kbdus = [0, 27] @ ascii ''1234567890-='' @ [8, 9] @ ascii ''qwertyuiop[]'' @ [10, 0]
     @ ascii ''asdfghjkl;'' @ [39, 96, 0, 92] @ ascii ''zxcvbnm,./'' @ [0] @ ascii ''*'' @ [0]
     @ ascii '' '' @ replicate 16 0 @ ascii ''-'' @ [0, 0, 0] @ ascii ''+'' @ replicate 49 0"

definition kbdus_shift :: bytes where
  "kbdus_shift = [0, 27] @ ascii ''!@#$%^&*()_+'' @ [8, 9] @ ascii ''QWERTYUIOP{}'' @ [10, 0]
     @ ascii ''ASDFGHJKL:'' @ [34, 126, 0, 124] @ ascii ''ZXCVBNM<>?'' @ [0] @ ascii ''*'' @ [0]
     @ ascii '' '' @ replicate 16 0 @ ascii ''-'' @ [0, 0, 0] @ ascii ''+'' @ replicate 49 0"

definition kbd_enqueue :: "u8 \<Rightarrow> kbd \<Rightarrow> kbd" where
  "kbd_enqueue c k =
     (let next = (kbd_q_head k + 1) mod KBD_QUEUE_SIZE in
      if next = kbd_q_tail k then k
      else k\<lparr>kbd_queue := (kbd_queue k)[kbd_q_head k := c], kbd_q_head := next\<rparr>)"

definition kbd_mark_interrupt_if_needed :: "u8 \<Rightarrow> kbd \<Rightarrow> kbd" where
  "kbd_mark_interrupt_if_needed c k = (if c = 3 then k\<lparr>interrupt_requested := True\<rparr> else k)"

definition kbd_dequeue :: "kbd \<Rightarrow> (u8 \<times> kbd) option" where
  "kbd_dequeue k =
     (if kbd_q_tail k = kbd_q_head k then None
      else Some (kbd_queue k ! kbd_q_tail k, k\<lparr>kbd_q_tail := (kbd_q_tail k + 1) mod KBD_QUEUE_SIZE\<rparr>))"

text \<open>With ctrl held, a letter becomes its control code.\<close>

definition ctrl_code :: "u8 \<Rightarrow> u8" where
  "ctrl_code c =
     (if 97 \<le> c \<and> c \<le> 122 then c - 97 + 1 else if 65 \<le> c \<and> c \<le> 90 then c - 65 + 1 else c)"

definition kbd_extended_key :: "u8 \<Rightarrow> kbd \<Rightarrow> kbd" where
  "kbd_extended_key sc k =
     (if sc = 0x1D then k\<lparr>ctrl_held := True\<rparr>
      else if sc = 0x9D then k\<lparr>ctrl_held := False\<rparr>
      else if sc AND 0x80 \<noteq> 0 then k
      else if sc = 0x48 then kbd_enqueue KEY_UP k
      else if sc = 0x50 then kbd_enqueue KEY_DOWN k
      else if sc = 0x4B then kbd_enqueue KEY_LEFT k
      else if sc = 0x4D then kbd_enqueue KEY_RIGHT k
      else if sc = 0x49 then kbd_enqueue KEY_PGUP k
      else if sc = 0x51 then kbd_enqueue KEY_PGDN k
      else k)"

definition kbd_process_scancode :: "u8 \<Rightarrow> kbd \<Rightarrow> kbd" where
  "kbd_process_scancode sc k =
     (if sc = 0xE0 then k\<lparr>extended := True\<rparr>
      else if sc = 0x2A \<or> sc = 0x36 then k\<lparr>shift_held := True\<rparr>
      else if sc = 0xAA \<or> sc = 0xB6 then k\<lparr>shift_held := False\<rparr>
      else if sc = 0x1D then k\<lparr>ctrl_held := True\<rparr>
      else if sc = 0x9D then k\<lparr>ctrl_held := False\<rparr>
      else if extended k then kbd_extended_key sc (k\<lparr>extended := False\<rparr>)
      else if sc AND 0x80 \<noteq> 0 then k
      else if 128 \<le> sc then k
      else
        let c = (if shift_held k then kbdus_shift ! unat sc else kbdus ! unat sc)
        in if c \<noteq> 0
           then let c' = (if ctrl_held k then ctrl_code c else c)
                in kbd_enqueue c' (kbd_mark_interrupt_if_needed c' k)
           else k)"

definition keyboard_callback :: "'w ports \<Rightarrow> kbd \<Rightarrow> 'w \<Rightarrow> kbd \<times> 'w" where
  "keyboard_callback io k w =
     (case inb io 0x64 w of (st, w1) \<Rightarrow>
        if st AND 0x01 \<noteq> 0
        then (case inb io 0x60 w1 of (sc, w2) \<Rightarrow> (kbd_process_scancode sc k, w2))
        else (k, w1))"

text \<open>
  The serial branch of \<open>keyboard_getchar\<close>: after ESC it reads the rest of an arrow key
  sequence if the bytes are there already, and drops them otherwise.
\<close>

definition serial_key :: "u8 \<Rightarrow> u8" where
  "serial_key c0 = (let c = (if c0 = 13 then 10 else c0) in if c = 127 then 8 else c)"

definition serial_escape :: "'w ports \<Rightarrow> 'w \<Rightarrow> u8 \<times> 'w" where
  "serial_escape io w =
     (case inb io 0x3FD w of (s1, w1) \<Rightarrow>
        if s1 AND 0x01 = 0 then (27, w1)
        else (case inb io 0x3F8 w1 of (next, w2) \<Rightarrow>
          if next \<noteq> 91 then (27, w2)
          else (case inb io 0x3FD w2 of (s3, w3) \<Rightarrow>
            if s3 AND 0x01 = 0 then (27, w3)
            else (case inb io 0x3F8 w3 of (arrow, w4) \<Rightarrow>
              (if arrow = 65 then KEY_UP else if arrow = 66 then KEY_DOWN
               else if arrow = 67 then KEY_RIGHT else if arrow = 68 then KEY_LEFT else 27, w4)))))"

definition serial_poll :: "'w ports \<Rightarrow> kbd \<Rightarrow> 'w \<Rightarrow> u8 option \<times> kbd \<times> 'w" where
  "serial_poll io k w =
     (case inb io 0x3FD w of (st, w1) \<Rightarrow>
        if st AND 0x01 = 0 then (None, k, w1)
        else (case inb io 0x3F8 w1 of (c0, w2) \<Rightarrow>
          let c = serial_key c0; k' = kbd_mark_interrupt_if_needed c k
          in if c = 27 then (case serial_escape io w2 of (r, w3) \<Rightarrow> (Some r, k', w3))
             else (Some c, k', w2)))"

text \<open>One pass of the loop of \<open>keyboard_getchar\<close>; \<open>iflag\<close> reads the interrupt flag.\<close>

definition getchar_poll :: "'w ports \<Rightarrow> ('w \<Rightarrow> bool) \<Rightarrow> kbd \<Rightarrow> 'w \<Rightarrow> u8 option \<times> kbd \<times> 'w" where
  "getchar_poll io iflag k w =
     (case kbd_dequeue k of
        Some (c, k') \<Rightarrow> (Some c, k', w)
      | None \<Rightarrow>
          if iflag w then serial_poll io k w
          else (case inb io 0x64 w of (st, w1) \<Rightarrow>
            if st AND 0x01 = 0 then serial_poll io k w1
            else (case inb io 0x60 w1 of (sc, w2) \<Rightarrow>
              let k1 = kbd_process_scancode sc k
              in (case kbd_dequeue k1 of
                    Some (c, k2) \<Rightarrow> (Some c, k2, w2)
                  | None \<Rightarrow> (None, k1, w2)))))"

text \<open>
  The loop may wait for ever. Its passes are the elements of the list; \<open>True\<close> stands for
  a keyboard interrupt taken just before the pass (if interrupts are enabled). \<open>None\<close>:
  still waiting after those passes.
\<close>

fun keyboard_getchar :: "'w ports \<Rightarrow> ('w \<Rightarrow> bool) \<Rightarrow> bool list \<Rightarrow> kbd \<Rightarrow> 'w \<Rightarrow> u8 option \<times> kbd \<times> 'w" where
  "keyboard_getchar io iflag [] k w = (None, k, w)"
| "keyboard_getchar io iflag (irq # irqs) k w =
     (case (if irq \<and> iflag w then keyboard_callback io k w else (k, w)) of (k1, w1) \<Rightarrow>
        (case getchar_poll io iflag k1 w1 of
           (Some c, k2, w2) \<Rightarrow> (Some c, k2, w2)
         | (None, k2, w2) \<Rightarrow> keyboard_getchar io iflag irqs k2 w2))"

definition keyboard_has_char :: "'w ports \<Rightarrow> kbd \<Rightarrow> 'w \<Rightarrow> bool \<times> 'w" where
  "keyboard_has_char io k w =
     (if kbd_q_head k \<noteq> kbd_q_tail k then (True, w)
      else (case inb io 0x64 w of (a, w1) \<Rightarrow>
        if a AND 0x01 \<noteq> 0 then (True, w1)
        else (case inb io 0x3FD w1 of (b, w2) \<Rightarrow> (b AND 0x01 \<noteq> 0, w2))))"

definition keyboard_interrupt_requested :: "'w ports \<Rightarrow> kbd \<Rightarrow> 'w \<Rightarrow> bool \<times> kbd \<times> 'w" where
  "keyboard_interrupt_requested io k w =
     (if interrupt_requested k then (True, k, w)
      else (case inb io 0x3FD w of (a, w1) \<Rightarrow>
        if a AND 0x01 \<noteq> 0
        then (case inb io 0x3F8 w1 of (c0, w2) \<Rightarrow>
          let c = (if c0 = 13 then 10 else c0)
          in if c = 3 then (True, k\<lparr>interrupt_requested := True\<rparr>, w2) else (False, k, w2))
        else (False, k, w1)))"

definition keyboard_clear_interrupt_requested :: "kbd \<Rightarrow> kbd" where
  "keyboard_clear_interrupt_requested k = k\<lparr>interrupt_requested := False\<rparr>"

subsection \<open>The queue\<close>

definition kbd_chars :: "kbd \<Rightarrow> bytes" where
  "kbd_chars k = ring_list KBD_QUEUE_SIZE (kbd_queue k) (kbd_q_tail k) (kbd_q_head k)"

definition kbd_inv :: "kbd \<Rightarrow> bool" where
  "kbd_inv k \<longleftrightarrow> length (kbd_queue k) = KBD_QUEUE_SIZE \<and> kbd_q_head k < KBD_QUEUE_SIZE
     \<and> kbd_q_tail k < KBD_QUEUE_SIZE"

definition kbd_boot :: kbd where
  "kbd_boot = \<lparr>kbd_queue = replicate 64 0, kbd_q_head = 0, kbd_q_tail = 0, shift_held = False,
     extended = False, ctrl_held = False, interrupt_requested = False\<rparr>"

lemma kbd_full_count:
  "kbd_inv k \<Longrightarrow> (kbd_q_head k + 1) mod KBD_QUEUE_SIZE = kbd_q_tail k
     \<longleftrightarrow> length (kbd_chars k) = KBD_QUEUE_SIZE - 1"
  using ring_full [of "kbd_q_tail k" KBD_QUEUE_SIZE "kbd_q_head k"]
  by (simp add: kbd_inv_def kbd_chars_def)

interpretation kq: bounded_queue kbd_enqueue kbd_dequeue kbd_chars kbd_inv "KBD_QUEUE_SIZE - 1"
proof
  fix k x
  assume inv: "kbd_inv k"
  then have b: "length (kbd_chars k) < KBD_QUEUE_SIZE"
    by (simp add: kbd_chars_def ring_count_less KBD_QUEUE_SIZE_def)
  then show "length (kbd_chars k) \<le> KBD_QUEUE_SIZE - 1" by simp
  show "kbd_chars (kbd_enqueue x k) =
      (if length (kbd_chars k) < KBD_QUEUE_SIZE - 1 then kbd_chars k @ [x] else kbd_chars k)"
  proof (cases "(kbd_q_head k + 1) mod KBD_QUEUE_SIZE = kbd_q_tail k")
    case True
    with kbd_full_count [OF inv] show ?thesis by (simp add: kbd_enqueue_def)
  next
    case False
    with inv have "kbd_chars (kbd_enqueue x k) = kbd_chars k @ [x]"
      unfolding kbd_chars_def by (simp add: kbd_enqueue_def Let_def, intro ring_push [simplified])
        (auto simp: kbd_inv_def)
    with b kbd_full_count [OF inv] False show ?thesis by simp
  qed
  show "kbd_inv (kbd_enqueue x k)"
    using inv by (simp add: kbd_enqueue_def kbd_inv_def KBD_QUEUE_SIZE_def Let_def)
  show "kbd_dequeue k = None" if "kbd_chars k = []"
    using that inv ring_empty [of "kbd_q_tail k" KBD_QUEUE_SIZE "kbd_q_head k" "kbd_queue k"]
    by (simp add: kbd_dequeue_def kbd_chars_def kbd_inv_def)
  show "\<exists>q'. kbd_dequeue k = Some (x, q') \<and> kbd_chars q' = xs \<and> kbd_inv q'" if "kbd_chars k = x # xs" for xs
  proof -
    from that inv have ne: "kbd_q_tail k \<noteq> kbd_q_head k"
      using ring_empty [of "kbd_q_tail k" KBD_QUEUE_SIZE "kbd_q_head k" "kbd_queue k"]
      by (auto simp: kbd_chars_def kbd_inv_def)
    with that inv ring_pop [of "kbd_q_tail k" KBD_QUEUE_SIZE "kbd_q_head k" "kbd_queue k"] show ?thesis
      by (auto simp: kbd_dequeue_def kbd_chars_def kbd_inv_def KBD_QUEUE_SIZE_def)
  qed
qed


subsection \<open>Key strokes\<close>

text \<open>
  What a user does at a US keyboard: a character key, with shift and left ctrl held or
  not, or one of the six extended keys the driver knows; the scancodes the keyboard then
  sends; and the character that is expected.
\<close>

datatype stroke = Key bool bool u8 | Arrow u8

fun stroke_codes :: "stroke \<Rightarrow> u8 list" where
  "stroke_codes (Key sh ct sc) =
     (if sh then [0x2A] else []) @ (if ct then [0x1D] else []) @ [sc, sc OR 0x80]
     @ (if ct then [0x9D] else []) @ (if sh then [0xAA] else [])"
| "stroke_codes (Arrow sc) = [0xE0, sc, 0xE0, sc OR 0x80]"

fun stroke_char :: "stroke \<Rightarrow> u8" where
  "stroke_char (Key sh ct sc) =
     (let c = (if sh then kbdus_shift else kbdus) ! unat sc in if ct then ctrl_code c else c)"
| "stroke_char (Arrow sc) =
     (if sc = 0x48 then KEY_UP else if sc = 0x50 then KEY_DOWN else if sc = 0x4B then KEY_LEFT
      else if sc = 0x4D then KEY_RIGHT else if sc = 0x49 then KEY_PGUP else KEY_PGDN)"

fun stroke_ok :: "stroke \<Rightarrow> bool" where
  "stroke_ok (Key sh ct sc) \<longleftrightarrow> sc < 0x80 \<and> kbdus ! unat sc \<noteq> 0 \<and> kbdus_shift ! unat sc \<noteq> 0"
| "stroke_ok (Arrow sc) \<longleftrightarrow> sc \<in> {0x48, 0x50, 0x4B, 0x4D, 0x49, 0x51}"

definition released :: "kbd \<Rightarrow> bool" where
  "released k \<longleftrightarrow> \<not> shift_held k \<and> \<not> ctrl_held k \<and> \<not> extended k"

lemma release_code:
  assumes "(sc :: u8) < 0x80"
  shows "sc AND 0x80 = 0" "(sc OR 0x80) AND 0x80 = 0x80" "(sc OR 0x80) AND 0x7F = sc" "\<not> 128 \<le> sc"
proof -
  have "unat (take_bit 7 sc) = unat sc"
    using assms by (simp add: unsigned_take_bit_eq word_less_nat_alt take_bit_nat_eq_self)
  then have "take_bit 7 sc = sc" by (simp add: word_unat_eq_iff)
  then have hi: "\<not> bit sc n" if "7 \<le> n" for n by (metis bit_take_bit_iff linorder_not_less that)
  then have lo: "n < 7" if "bit sc n" for n using that by (meson not_le)
  have m: "(0x7F :: u8) = mask 7" by (simp add: mask_eq_exp_minus_1)
  have e: "(0x80 :: u8) = push_bit 7 1" by simp
  show "sc AND 0x80 = 0" "(sc OR 0x80) AND 0x80 = 0x80" "(sc OR 0x80) AND 0x7F = sc"
    unfolding m e by (rule bit_word_eqI; auto simp: bit_simps hi simp del: push_bit_of_1 dest: lo)+
  show "\<not> 128 \<le> sc" using assms by (simp add: not_le)
qed

lemma release_eq: "(sc :: u8) < 0x80 \<Longrightarrow> sc OR 0x80 = x \<Longrightarrow> sc = x AND 0x7F"
  using release_code(3) by metis

lemma table_gaps:
  "kbdus ! 0x2A = 0" "kbdus ! 0x36 = 0" "kbdus ! 0x1D = 0" "kbdus ! 0x60 = 0" "length kbdus = 128" "length kbdus_shift = 128"
  "kbdus ! 0x48 = 0" "kbdus ! 0x50 = 0" "kbdus ! 0x4B = 0" "kbdus ! 0x4D = 0" "kbdus ! 0x49 = 0" "kbdus ! 0x51 = 0"
  by (simp_all add: kbdus_def kbdus_shift_def ascii_def nth_append)

text \<open>What one scancode does, for the keys of a stroke.\<close>

lemma char_key_codes:
  assumes "(sc :: u8) < 0x80" "kbdus ! unat sc \<noteq> 0"
  shows "sc \<noteq> 0xE0" "sc \<noteq> 0x2A" "sc \<noteq> 0x36" "sc \<noteq> 0xAA" "sc \<noteq> 0xB6" "sc \<noteq> 0x1D" "sc \<noteq> 0x9D"
    "sc OR 0x80 \<noteq> 0xE0" "sc OR 0x80 \<noteq> 0x2A" "sc OR 0x80 \<noteq> 0x36" "sc OR 0x80 \<noteq> 0xAA"
    "sc OR 0x80 \<noteq> 0xB6" "sc OR 0x80 \<noteq> 0x1D" "sc OR 0x80 \<noteq> 0x9D"
  using assms table_gaps(1-4) by (auto dest!: release_eq [OF assms(1)])

lemma press:
  assumes "sc < 0x80" "kbdus ! unat sc \<noteq> 0" "kbdus_shift ! unat sc \<noteq> 0" "\<not> extended k"
  shows "kbd_process_scancode sc k =
    (let c = stroke_char (Key (shift_held k) (ctrl_held k) sc)
     in kbd_enqueue c (kbd_mark_interrupt_if_needed c k))"
  using assms char_key_codes [OF assms(1,2)] release_code [OF assms(1)]
  by (simp add: kbd_process_scancode_def Let_def)

lemma release:
  assumes "sc < 0x80" "kbdus ! unat sc \<noteq> 0" "\<not> extended k"
  shows "kbd_process_scancode (sc OR 0x80) k = k"
  using assms char_key_codes [OF assms(1,2)] release_code [OF assms(1)]
  by (simp add: kbd_process_scancode_def)

lemma modifier_codes:
  "kbd_process_scancode 0x2A k = k\<lparr>shift_held := True\<rparr>" "kbd_process_scancode 0xAA k = k\<lparr>shift_held := False\<rparr>"
  "kbd_process_scancode 0x1D k = k\<lparr>ctrl_held := True\<rparr>" "kbd_process_scancode 0x9D k = k\<lparr>ctrl_held := False\<rparr>"
  "kbd_process_scancode 0xE0 k = k\<lparr>extended := True\<rparr>"
  by (simp_all add: kbd_process_scancode_def)

lemma enqueue_flags [simp]:
  "shift_held (kbd_enqueue c k) = shift_held k" "ctrl_held (kbd_enqueue c k) = ctrl_held k"
  "extended (kbd_enqueue c k) = extended k"
  "interrupt_requested (kbd_enqueue c k) = interrupt_requested k"
  by (simp_all add: kbd_enqueue_def Let_def)

lemma mark_flags [simp]:
  "shift_held (kbd_mark_interrupt_if_needed c k) = shift_held k"
  "ctrl_held (kbd_mark_interrupt_if_needed c k) = ctrl_held k"
  "extended (kbd_mark_interrupt_if_needed c k) = extended k"
  "interrupt_requested (kbd_mark_interrupt_if_needed c k) \<longleftrightarrow> interrupt_requested k \<or> c = 3"
  "kbd_chars (kbd_mark_interrupt_if_needed c k) = kbd_chars k"
  "kbd_inv (kbd_mark_interrupt_if_needed c k) = kbd_inv k"
  by (simp_all add: kbd_mark_interrupt_if_needed_def kbd_chars_def kbd_inv_def)

lemma modifier_chars [simp]:
  "kbd_chars (k\<lparr>shift_held := b\<rparr>) = kbd_chars k" "kbd_chars (k\<lparr>ctrl_held := b\<rparr>) = kbd_chars k"
  "kbd_chars (k\<lparr>extended := b\<rparr>) = kbd_chars k" "kbd_inv (k\<lparr>shift_held := b\<rparr>) = kbd_inv k"
  "kbd_inv (k\<lparr>ctrl_held := b\<rparr>) = kbd_inv k" "kbd_inv (k\<lparr>extended := b\<rparr>) = kbd_inv k"
  by (simp_all add: kbd_chars_def kbd_inv_def)

text \<open>Pressing and releasing a modifier, if the stroke has it.\<close>

lemma modifier_on:
  "\<not> shift_held k \<Longrightarrow> fold kbd_process_scancode (if sh then [0x2A] else []) k = k\<lparr>shift_held := sh\<rparr>"
  "\<not> ctrl_held k \<Longrightarrow> fold kbd_process_scancode (if ct then [0x1D] else []) k = k\<lparr>ctrl_held := ct\<rparr>"
  by (cases k; simp add: modifier_codes)+

lemma modifier_off:
  "shift_held k = sh \<Longrightarrow> fold kbd_process_scancode (if sh then [0xAA] else []) k = k\<lparr>shift_held := False\<rparr>"
  "ctrl_held k = ct \<Longrightarrow> fold kbd_process_scancode (if ct then [0x9D] else []) k = k\<lparr>ctrl_held := False\<rparr>"
  by (cases k; simp add: modifier_codes)+

lemma key_stroke:
  assumes "released k" "stroke_ok (Key sh ct sc)"
  shows "fold kbd_process_scancode (stroke_codes (Key sh ct sc)) k =
    (let c = stroke_char (Key sh ct sc)
     in (kbd_enqueue c (kbd_mark_interrupt_if_needed c (k\<lparr>shift_held := sh, ctrl_held := ct\<rparr>)))
          \<lparr>ctrl_held := False, shift_held := False\<rparr>)"
proof -
  have sc: "sc < 0x80" "kbdus ! unat sc \<noteq> 0" "kbdus_shift ! unat sc \<noteq> 0" using assms(2) by auto
  let ?c = "stroke_char (Key sh ct sc)" and ?m = "k\<lparr>shift_held := sh, ctrl_held := ct\<rparr>"
  let ?e = "kbd_enqueue ?c (kbd_mark_interrupt_if_needed ?c ?m)"
  have r: "\<not> shift_held k" "\<not> ctrl_held (k\<lparr>shift_held := sh\<rparr>)" "\<not> extended ?m" "\<not> extended ?e"
    using assms(1) by (simp_all add: released_def)
  have "kbd_process_scancode sc ?m = ?e" using press [OF sc r(3)] by (simp only: Let_def) simp
  moreover have "kbd_process_scancode (sc OR 0x80) ?e = ?e" by (rule release [OF sc(1,2) r(4)])
  moreover have "ctrl_held ?e = ct" "shift_held (?e\<lparr>ctrl_held := False\<rparr>) = sh" by simp_all
  ultimately show ?thesis
    by (simp only: stroke_codes.simps fold_append o_def modifier_on(1) [OF r(1)] modifier_on(2) [OF r(2)]
        fold.simps id_def modifier_off Let_def)
qed

lemma arrow_codes:
  assumes "sc \<in> {0x48, 0x50, 0x4B, 0x4D, 0x49, 0x51}" "extended k"
  shows "kbd_process_scancode sc k = kbd_enqueue (stroke_char (Arrow sc)) (k\<lparr>extended := False\<rparr>)"
    and "kbd_process_scancode (sc OR 0x80) k = k\<lparr>extended := False\<rparr>"
  using assms by (elim insertE emptyE; simp add: kbd_process_scancode_def kbd_extended_key_def)+

text \<open>One stroke with the modifiers released.\<close>

lemma one_stroke:
  assumes inv: "kbd_inv k" and rel: "released k" and ok: "stroke_ok st"
  defines "k' \<equiv> fold kbd_process_scancode (stroke_codes st) k"
  shows "kbd_inv k' \<and> released k'
    \<and> kbd_chars k' = kbd_chars k @ (if length (kbd_chars k) < KBD_QUEUE_SIZE - 1 then [stroke_char st] else [])
    \<and> (interrupt_requested k' \<longleftrightarrow> interrupt_requested k \<or> stroke_char st = 3)"
proof (cases st)
  case (Key sh ct sc)
  have ok': "stroke_ok (Key sh ct sc)" using ok Key by simp
  have "kbd_inv (kbd_mark_interrupt_if_needed c (k\<lparr>shift_held := sh, ctrl_held := ct\<rparr>))" for c
    using inv by simp
  note q = kq.push_contents [OF this] kq.push_invar [OF this]
  show ?thesis unfolding k'_def Key key_stroke [OF rel ok'] Let_def
    using rel q by (simp add: released_def del: stroke_char.simps)
next
  case (Arrow sc)
  let ?c = "stroke_char st"
  have sc: "sc \<in> {0x48, 0x50, 0x4B, 0x4D, 0x49, 0x51}" using ok Arrow by simp
  let ?e = "k\<lparr>extended := True\<rparr>"
  have "k' = (kbd_enqueue ?c (?e\<lparr>extended := False\<rparr>))\<lparr>extended := True, extended := False\<rparr>"
    using arrow_codes(1) [OF sc, of ?e] arrow_codes(2) [OF sc, of "(kbd_enqueue ?c (?e\<lparr>extended := False\<rparr>))\<lparr>extended := True\<rparr>"]
    by (simp add: k'_def Arrow modifier_codes del: stroke_char.simps)
  moreover have "?e\<lparr>extended := False\<rparr> = k" using rel by (cases k) (simp add: released_def)
  ultimately have k': "k' = (kbd_enqueue ?c k)\<lparr>extended := False\<rparr>" by simp
  moreover have "?c \<noteq> 3"
    using sc by (auto simp: Arrow KEY_UP_def KEY_DOWN_def KEY_LEFT_def KEY_RIGHT_def KEY_PGUP_def KEY_PGDN_def)
  ultimately show ?thesis using rel inv kq.push_invar [OF inv] kq.push_contents [OF inv, of ?c]
    by (simp add: released_def)
qed

text \<open>While characters are queued, \<open>keyboard_getchar\<close> returns the oldest without touching a port.\<close>

lemma getchar_queued:
  assumes "kbd_inv k" "kbd_chars k = c # cs"
  shows "\<exists>k'. keyboard_getchar io iflag (False # irqs) k w = (Some c, k', w) \<and> kbd_chars k' = cs \<and> kbd_inv k'"
  using kq.pop_first [OF assms] by (auto simp: getchar_poll_def)

subsection \<open>Properties\<close>

text \<open>what is typed arrives. With the modifiers released, any sequence of character keys
  (with or without shift and left ctrl) and arrow or page keys puts exactly the expected
  characters into the queue, in order, as long as there is room among its 63 places, leaves
  the modifiers released, and raises the interrupt flag exactly if a Ctrl-C was among them.\<close>

theorem typed_keys_arrive:
  assumes "kbd_inv k" "released k" "list_all stroke_ok sts"
  shows "let k' = fold kbd_process_scancode (concat (map stroke_codes sts)) k in
    kbd_chars k' = take 63 (kbd_chars k @ map stroke_char sts) \<and> released k' \<and> kbd_inv k'
    \<and> (interrupt_requested k' \<longleftrightarrow> interrupt_requested k \<or> 3 \<in> stroke_char ` set sts)"
  using assms
proof (induction sts arbitrary: k)
  case Nil
  with kq.contents_cap [of k] show ?case by (simp add: KBD_QUEUE_SIZE_def)
next
  case (Cons st sts)
  define k1 where "k1 = fold kbd_process_scancode (stroke_codes st) k"
  note s = one_stroke [OF Cons.prems(1,2), of st, folded k1_def]
  have st: "stroke_ok st" using Cons.prems(3) by simp
  from s [OF st] have k1: "kbd_inv k1" "released k1"
    "kbd_chars k1 = kbd_chars k @ (if length (kbd_chars k) < KBD_QUEUE_SIZE - 1 then [stroke_char st] else [])"
    "interrupt_requested k1 \<longleftrightarrow> interrupt_requested k \<or> stroke_char st = 3" by auto
  have c: "take 63 (kbd_chars k1 @ cs) = take 63 (kbd_chars k @ stroke_char st # cs)" for cs
    using k1(3) kq.contents_cap [OF Cons.prems(1)] by (simp add: KBD_QUEUE_SIZE_def take_Cons')
  have f: "fold kbd_process_scancode (concat (map stroke_codes (st # sts))) k
      = fold kbd_process_scancode (concat (map stroke_codes sts)) k1" by (simp add: k1_def)
  have "list_all stroke_ok sts" using Cons.prems(3) by simp
  from Cons.IH [OF k1(1,2) this] show ?case unfolding f Let_def using c k1(4) by auto
qed

theorem typed_keys_arrive_witness:
  "kbd_chars (fold kbd_process_scancode (concat (map stroke_codes
      [Key True False 0x1E, Key False False 0x02, Arrow 0x48, Key False True 0x2E])) kbd_boot)
    = [65, 49, KEY_UP, 3]"
proof -
  have "list_all stroke_ok [Key True False 0x1E, Key False False 0x02, Arrow 0x48, Key False True 0x2E]"
    by (simp add: kbdus_def kbdus_shift_def ascii_def word_less_nat_alt)
  moreover have "map stroke_char [Key True False 0x1E, Key False False 0x02, Arrow 0x48, Key False True 0x2E]
      = [65, 49, KEY_UP, 3]"
    by (simp add: kbdus_def kbdus_shift_def ascii_def ctrl_code_def)
  moreover have "kbd_inv kbd_boot" "released kbd_boot" "kbd_chars kbd_boot = []"
    by (simp_all add: kbd_boot_def kbd_inv_def released_def KBD_QUEUE_SIZE_def kbd_chars_def ring_list_def ring_count_def)
  ultimately show ?thesis
    using typed_keys_arrive [of kbd_boot "[Key True False 0x1E, Key False False 0x02, Arrow 0x48, Key False True 0x2E]"]
    by (simp only: Let_def append_Nil) simp
qed

text \<open>the right ctrl key loses keys. Its prefixed codes are taken by the left ctrl branch
  before the prefix is looked at, so the prefix stays pending: a character key pressed while
  right ctrl is held is swallowed (Ctrl-C raises no interrupt), and so is the next character
  key pressed after right ctrl was released.\<close>

theorem right_ctrl_loses_keys:
  assumes "released k" "stroke_ok (Key False False sc)" "stroke_ok (Key False False sc2)"
  shows "let k1 = fold kbd_process_scancode [0xE0, 0x1D, sc, sc OR 0x80, 0xE0, 0x9D] k;
        k2 = fold kbd_process_scancode [sc2, sc2 OR 0x80] k1 in
    kbd_chars k1 = kbd_chars k \<and> interrupt_requested k1 = interrupt_requested k \<and> extended k1
    \<and> kbd_chars k2 = kbd_chars k \<and> released k2"
proof -
  have swallow: "kbd_process_scancode c u = u\<lparr>extended := False\<rparr>"
    if "c < 0x80" "kbdus ! unat c \<noteq> 0" "extended u" for c u
    using that char_key_codes [OF that(1,2)] table_gaps(7-) 
    by (auto simp: kbd_process_scancode_def kbd_extended_key_def)
  have u: "kbd_process_scancode (c OR 0x80) u = u"
    if "c < 0x80" "kbdus ! unat c \<noteq> 0" "\<not> extended u" for c u
    using that by (rule release)
  have sc: "sc < 0x80" "kbdus ! unat sc \<noteq> 0" "sc2 < 0x80" "kbdus ! unat sc2 \<noteq> 0" using assms by auto
  show ?thesis using assms(1) sc
    by (simp add: modifier_codes swallow u Let_def released_def)
qed

theorem right_ctrl_loses_keys_witness:
  "kbd_chars (fold kbd_process_scancode [0xE0, 0x1D, 0x2E, 0xAE, 0xE0, 0x9D] kbd_boot) = []
    \<and> \<not> interrupt_requested (fold kbd_process_scancode [0xE0, 0x1D, 0x2E, 0xAE, 0xE0, 0x9D] kbd_boot)"
proof -
  have "stroke_ok (Key False False 0x2E)" by (simp add: kbdus_def kbdus_shift_def ascii_def word_less_nat_alt)
  moreover have "released kbd_boot" "kbd_chars kbd_boot = []" "\<not> interrupt_requested kbd_boot"
    by (simp_all add: kbd_boot_def released_def kbd_chars_def ring_list_def ring_count_def KBD_QUEUE_SIZE_def)
  moreover have "(0x2E :: u8) OR 0x80 = 0xAE" by simp
  ultimately show ?thesis using right_ctrl_loses_keys [of kbd_boot "0x2E" "0x2E"] by (auto simp: Let_def)
qed

end
