(* ===== verification/Vga.thy ===== *)
theory Vga
  imports Ports
begin

text \<open>
  The text console (\<open>drivers/display/vga.c\<close>): an 80 by 25 screen of 16-bit cells in video
  memory, and a circular buffer that keeps the last 500 lines scrolled off its top. The
  static variables and the video memory are the record \<open>vga\<close>; the cursor registers are
  reached through the ports. \<open>scrollback_pos\<close> is modelled without the wrap-around of an
  \<open>int\<close>, which needs two thousand million lines of output.
\<close>

definition VGA_WIDTH :: nat where "VGA_WIDTH = 80"
definition VGA_HEIGHT :: nat where "VGA_HEIGHT = 25"
definition SCROLLBACK_LINES :: nat where "SCROLLBACK_LINES = 500"

record vga =
  vga_row :: nat
  vga_column :: nat
  vga_color :: u8
  vga_buffer :: "u16 list"
  scrollback_buffer :: "u16 list"
  scrollback_pos :: int
  scrollback_view_offset :: int
  scrollback_total_lines :: int
  current_screen :: "u16 list"
  screen_saved :: bool

text \<open>A cell: the character in the low byte; C extends the signed \<open>char\<close> to 16 bits.\<close>

definition vga_cell :: "u8 \<Rightarrow> u8 \<Rightarrow> u16" where
  "vga_cell c color = scast c OR push_bit 8 (ucast color)"

definition vga_update_cursor :: "'w ports \<Rightarrow> vga \<Rightarrow> 'w \<Rightarrow> 'w" where
  "vga_update_cursor io v w =
     (let pos = (of_nat (vga_row v * VGA_WIDTH + vga_column v) :: u16) in
      outb_all io [(0x3D4, 0x0F), (0x3D5, ucast (pos AND 0xFF)),
                   (0x3D4, 0x0E), (0x3D5, ucast (drop_bit 8 pos AND 0xFF))] w)"

definition vga_set_color :: "u8 \<Rightarrow> u8 \<Rightarrow> vga \<Rightarrow> vga" where
  "vga_set_color fg bg v = v\<lparr>vga_color := fg OR push_bit 4 bg\<rparr>"

definition vga_get_color :: "vga \<Rightarrow> u8" where
  "vga_get_color v = vga_color v"

definition vga_clear :: "'w ports \<Rightarrow> vga \<Rightarrow> 'w \<Rightarrow> vga \<times> 'w" where
  "vga_clear io v w =
     (let v' = v\<lparr>vga_buffer := map (\<lambda>_. vga_cell 32 (vga_color v)) (vga_buffer v), vga_row := 0,
            vga_column := 0, scrollback_pos := 0, scrollback_view_offset := 0,
            scrollback_total_lines := 0\<rparr>
      in (v', vga_update_cursor io v' w))"

definition vga_init :: "'w ports \<Rightarrow> vga \<Rightarrow> 'w \<Rightarrow> vga \<times> 'w" where
  "vga_init io v w =
     vga_clear io (v\<lparr>vga_row := 0, vga_column := 0, vga_color := 7, scrollback_pos := 0,
       scrollback_view_offset := 0, scrollback_total_lines := 0, screen_saved := False\<rparr>) w"

text \<open>The top line goes to the history, the others move up, the last one is blanked.\<close>

definition vga_scroll :: "vga \<Rightarrow> vga" where
  "vga_scroll v =
     (let line_idx = nat (scrollback_pos v) mod SCROLLBACK_LINES in
      v\<lparr>scrollback_buffer := blit (line_idx * VGA_WIDTH) (take VGA_WIDTH (vga_buffer v)) (scrollback_buffer v),
        scrollback_pos := scrollback_pos v + 1,
        scrollback_total_lines := (if scrollback_total_lines v < int SCROLLBACK_LINES
          then scrollback_total_lines v + 1 else scrollback_total_lines v),
        vga_buffer := drop VGA_WIDTH (vga_buffer v) @ replicate VGA_WIDTH (vga_cell 32 (vga_color v))\<rparr>)"

definition vga_restore_screen :: "vga \<Rightarrow> vga" where
  "vga_restore_screen v =
     (if screen_saved v then v\<lparr>vga_buffer := current_screen v, screen_saved := False\<rparr> else v)"

definition vga_scrollback_reset :: "'w ports \<Rightarrow> vga \<Rightarrow> 'w \<Rightarrow> vga \<times> 'w" where
  "vga_scrollback_reset io v w =
     (if scrollback_view_offset v = 0 then (v, w)
      else let v' = vga_restore_screen (v\<lparr>scrollback_view_offset := 0\<rparr>)
           in (v', vga_update_cursor io v' w))"

text \<open>The three cases of a character, then the scroll if the row ran off the screen.\<close>

definition vga_place :: "u8 \<Rightarrow> vga \<Rightarrow> vga" where
  "vga_place c v =
     (if c = 10 then v\<lparr>vga_column := 0, vga_row := vga_row v + 1\<rparr>
      else if c = 8 then
        let v' = (if 0 < vga_column v then v\<lparr>vga_column := vga_column v - 1\<rparr>
                  else if 0 < vga_row v then v\<lparr>vga_row := vga_row v - 1, vga_column := VGA_WIDTH - 1\<rparr>
                  else v)
        in v'\<lparr>vga_buffer := (vga_buffer v')[vga_row v' * VGA_WIDTH + vga_column v' := vga_cell 32 (vga_color v)]\<rparr>
      else
        let v' = v\<lparr>vga_buffer := (vga_buffer v)[vga_row v * VGA_WIDTH + vga_column v := vga_cell c (vga_color v)],
                 vga_column := vga_column v + 1\<rparr>
        in if vga_column v' = VGA_WIDTH then v'\<lparr>vga_column := 0, vga_row := vga_row v' + 1\<rparr> else v')"

definition vga_putchar_raw :: "'w ports \<Rightarrow> u8 \<Rightarrow> vga \<Rightarrow> 'w \<Rightarrow> vga \<times> 'w" where
  "vga_putchar_raw io c v w =
     (case (if 0 < scrollback_view_offset v then vga_scrollback_reset io v w else (v, w)) of (v0, w0) \<Rightarrow>
        let v1 = vga_place c v0
        in (if VGA_HEIGHT \<le> vga_row v1 then vga_scroll (v1\<lparr>vga_row := VGA_HEIGHT - 1\<rparr>) else v1, w0))"

definition vga_putchar :: "'w ports \<Rightarrow> u8 \<Rightarrow> vga \<Rightarrow> 'w \<Rightarrow> vga \<times> 'w" where
  "vga_putchar io c v w =
     (case vga_putchar_raw io c v w of (v', w') \<Rightarrow> (v', vga_update_cursor io v' w'))"

fun vga_put_all :: "'w ports \<Rightarrow> bytes \<Rightarrow> vga \<Rightarrow> 'w \<Rightarrow> vga \<times> 'w" where
  "vga_put_all io [] v w = (v, w)"
| "vga_put_all io (c # cs) v w =
     (case vga_putchar_raw io c v w of (v', w') \<Rightarrow> vga_put_all io cs v' w')"

definition vga_write :: "'w ports \<Rightarrow> bytes \<Rightarrow> vga \<Rightarrow> 'w \<Rightarrow> vga \<times> 'w" where
  "vga_write io str v w =
     (case vga_put_all io (c_str str) v w of (v', w') \<Rightarrow> (v', vga_update_cursor io v' w'))"

definition vga_flush :: "'w ports \<Rightarrow> vga \<Rightarrow> 'w \<Rightarrow> 'w" where
  "vga_flush io v w = vga_update_cursor io v w"

text \<open>The history line a row of the view shows, or a blank line.\<close>

definition history_line :: "vga \<Rightarrow> int \<Rightarrow> u16 list" where
  "history_line v i = seg (nat i mod SCROLLBACK_LINES * VGA_WIDTH) VGA_WIDTH (scrollback_buffer v)"

definition view_line :: "vga \<Rightarrow> int \<Rightarrow> u16 list" where
  "view_line v i =
     (if 0 \<le> i \<and> i < scrollback_pos v then history_line v i
      else replicate VGA_WIDTH (vga_cell 32 (vga_color v)))"

definition vga_scrollback_render :: "'w ports \<Rightarrow> vga \<Rightarrow> 'w \<Rightarrow> vga \<times> 'w" where
  "vga_scrollback_render io v w =
     (if scrollback_view_offset v = 0 then (v, vga_update_cursor io v w)
      else
        let start_line = scrollback_pos v - scrollback_view_offset v - int VGA_HEIGHT in
        (v\<lparr>vga_buffer := concat (map (\<lambda>y. view_line v (start_line + int y)) [0..<VGA_HEIGHT])\<rparr>,
         outb_all io [(0x3D4, 0x0A), (0x3D5, 0x20)] w))"

definition vga_scrollback_up :: "'w ports \<Rightarrow> int \<Rightarrow> vga \<Rightarrow> 'w \<Rightarrow> vga \<times> 'w" where
  "vga_scrollback_up io lines v w =
     (if scrollback_total_lines v = 0 then (v, w)
      else
        let v1 = (if scrollback_view_offset v = 0
                  then v\<lparr>current_screen := vga_buffer v, screen_saved := True\<rparr> else v);
            off = scrollback_view_offset v1 + lines
        in vga_scrollback_render io
             (v1\<lparr>scrollback_view_offset :=
                (if scrollback_total_lines v1 < off then scrollback_total_lines v1 else off)\<rparr>) w)"

definition vga_scrollback_down :: "'w ports \<Rightarrow> int \<Rightarrow> vga \<Rightarrow> 'w \<Rightarrow> vga \<times> 'w" where
  "vga_scrollback_down io lines v w =
     (if scrollback_view_offset v = 0 then (v, w)
      else
        let off = scrollback_view_offset v - lines;
            v1 = v\<lparr>scrollback_view_offset := (if off < 0 then 0 else off)\<rparr>
        in if scrollback_view_offset v1 = 0
           then let v2 = vga_restore_screen v1 in (v2, vga_update_cursor io v2 w)
           else vga_scrollback_render io v1 w)"

definition vga_scrollback_is_active :: "vga \<Rightarrow> bool" where
  "vga_scrollback_is_active v \<longleftrightarrow> 0 < scrollback_view_offset v"


subsection \<open>Well-formed consoles\<close>

definition view_ok :: "vga \<Rightarrow> bool" where
  "view_ok v \<longleftrightarrow> 0 \<le> scrollback_view_offset v \<and> scrollback_view_offset v \<le> scrollback_total_lines v
     \<and> (0 < scrollback_view_offset v \<longrightarrow> screen_saved v \<and> length (current_screen v) = 2000)"

definition vga_wf :: "vga \<Rightarrow> bool" where
  "vga_wf v \<longleftrightarrow> vga_row v < 25 \<and> vga_column v < 80 \<and> length (vga_buffer v) = 2000
     \<and> length (scrollback_buffer v) = 40000 \<and> 0 \<le> scrollback_pos v
     \<and> scrollback_total_lines v = min (scrollback_pos v) 500 \<and> view_ok v"

definition rows :: "vga \<Rightarrow> u16 list list" where
  "rows v = map (\<lambda>y. seg (y * 80) 80 (vga_buffer v)) [0..<25]"

text \<open>The lines in the history, oldest first.\<close>

definition history :: "vga \<Rightarrow> u16 list list" where
  "history v = map (\<lambda>k. history_line v (scrollback_pos v - scrollback_total_lines v + int k))
     [0..<nat (scrollback_total_lines v)]"

lemmas vga_consts = VGA_WIDTH_def VGA_HEIGHT_def SCROLLBACK_LINES_def

lemma cell_index: "r < 25 \<Longrightarrow> c < 80 \<Longrightarrow> r * 80 + c < (2000 :: nat)"
  by simp

lemma place_wf:
  assumes "vga_wf v"
  shows "vga_column (vga_place c v) < 80" "vga_row (vga_place c v) \<le> 25"
    "length (vga_buffer (vga_place c v)) = 2000"
    "scrollback_buffer (vga_place c v) = scrollback_buffer v" "scrollback_pos (vga_place c v) = scrollback_pos v"
    "scrollback_total_lines (vga_place c v) = scrollback_total_lines v"
    "view_ok (vga_place c v) = view_ok v"
    "scrollback_view_offset (vga_place c v) = scrollback_view_offset v" "vga_color (vga_place c v) = vga_color v"
  using assms by (auto simp: vga_place_def Let_def vga_wf_def vga_consts view_ok_def)

lemma line_slot: "i mod 500 * 80 + 80 \<le> (40000 :: nat)"
  using mod_less_divisor [of 500 i] by linarith

lemma slot_apart:
  "(i :: nat) mod 500 \<noteq> j mod 500 \<Longrightarrow> i mod 500 * 80 + 80 \<le> j mod 500 * 80 \<or> j mod 500 * 80 + 80 \<le> i mod 500 * 80"
  by linarith

lemma mod_near: "(a :: nat) < b \<Longrightarrow> b < a + 500 \<Longrightarrow> a mod 500 \<noteq> b mod 500"
proof
  assume "a < b" "b < a + 500" "a mod 500 = b mod 500"
  then have "500 dvd b - a" by (metis less_imp_le mod_eq_dvd_iff_nat)
  with \<open>a < b\<close> \<open>b < a + 500\<close> show False by (auto dest: dvd_imp_le)
qed

lemma hd_rows: "hd (rows v) = take 80 (vga_buffer v)"
  by (simp only: rows_def hd_map hd_upt upt_eq_Nil_conv seg_def) (simp add: list.map_sel(1) hd_upt)

text \<open>Scrolling moves the top line to the end of the history, which forgets its oldest line when full.\<close>

lemma scroll_history_line:
  assumes "vga_wf v" "0 \<le> i" "scrollback_pos v - 500 < i" "i \<le> scrollback_pos v"
  shows "history_line (vga_scroll v) i = (if i = scrollback_pos v then hd (rows v) else history_line v i)"
proof -
  let ?p = "nat (scrollback_pos v)"
  have b: "scrollback_buffer (vga_scroll v) = blit (?p mod 500 * 80) (take 80 (vga_buffer v)) (scrollback_buffer v)"
    by (simp add: vga_scroll_def Let_def vga_consts)
  have len: "length (take 80 (vga_buffer v)) = 80" "length (scrollback_buffer v) = 40000"
    using assms(1) by (simp_all add: vga_wf_def)
  show ?thesis
  proof (cases "i = scrollback_pos v")
    case True
    have fit: "?p mod 500 * 80 + length (take 80 (vga_buffer v)) \<le> length (scrollback_buffer v)"
      unfolding len by (rule line_slot)
    have "seg (?p mod 500 * 80) 80 (scrollback_buffer (vga_scroll v)) = take 80 (vga_buffer v)"
      unfolding b using seg_blit_same [OF fit, unfolded len(1)] .
    with True show ?thesis by (simp only: history_line_def vga_consts hd_rows if_True refl simp_thms)
  next
    case False
    have "nat i < ?p" "?p < nat i + 500" using assms False by auto
    from slot_apart [OF mod_near [OF this]]
    have ap: "nat i mod 500 * 80 + 80 \<le> ?p mod 500 * 80
      \<or> ?p mod 500 * 80 + length (take 80 (vga_buffer v)) \<le> nat i mod 500 * 80" unfolding len .
    have fit: "?p mod 500 * 80 + length (take 80 (vga_buffer v)) \<le> length (scrollback_buffer v)"
      "nat i mod 500 * 80 + 80 \<le> length (scrollback_buffer v)"
      unfolding len by (rule line_slot)+
    have "seg (nat i mod 500 * 80) 80 (scrollback_buffer (vga_scroll v))
        = seg (nat i mod 500 * 80) 80 (scrollback_buffer v)"
      unfolding b by (rule seg_blit_other [OF fit ap])
    with False show ?thesis by (simp only: history_line_def vga_consts if_False)
  qed
qed

lemma scroll_wf:
  assumes "vga_wf v" "scrollback_view_offset v = 0"
  shows "vga_wf (vga_scroll v)"
  using assms by (auto simp: vga_wf_def vga_scroll_def Let_def vga_consts view_ok_def min_def line_slot intro!: length_blit)

lemma seg_drop: "seg i n (drop k xs) = seg (k + i) n xs"
  by (simp add: seg_def add.commute)

lemma scroll_rows:
  assumes "vga_wf v"
  shows "rows (vga_scroll v) = tl (rows v) @ [replicate 80 (vga_cell 32 (vga_color v))]"
proof -
  have len: "length (vga_buffer v) = 2000" using assms by (simp add: vga_wf_def)
  have u: "[0..<25] = [0..<24] @ [24::nat]" "[0..<25::nat] = 0 # map Suc [0..<24]"
    by (simp_all add: map_Suc_upt upt_conv_Cons)
  have "seg (y * 80) 80 (drop 80 (vga_buffer v) @ replicate 80 b) = seg (Suc y * 80) 80 (vga_buffer v)"
    if "y < 24" for y b using that len by (simp add: seg_def add.commute)
  then have "map (\<lambda>y. seg (y * 80) 80 (vga_buffer (vga_scroll v))) [0..<24]
      = map (\<lambda>y. seg (Suc y * 80) 80 (vga_buffer v)) [0..<24]"
    by (simp add: vga_scroll_def Let_def vga_consts)
  moreover have "seg (24 * 80) 80 (vga_buffer (vga_scroll v)) = replicate 80 (vga_cell 32 (vga_color v))"
    using len by (simp add: vga_scroll_def Let_def vga_consts seg_def)
  moreover have "tl (rows v) = map (\<lambda>y. seg (Suc y * 80) 80 (vga_buffer v)) [0..<24]"
    unfolding rows_def u(2) by (simp only: list.map list.sel map_map o_def)
  ultimately show ?thesis unfolding rows_def [of "vga_scroll v"] u(1) by simp
qed

subsection \<open>Viewing the history\<close>

lemma length_history_line: "vga_wf v \<Longrightarrow> length (history_line v i) = 80"
  using line_slot [of "nat i"] by (simp only: history_line_def vga_consts seg_exact vga_wf_def)

lemma length_view_line: "vga_wf v \<Longrightarrow> length (view_line v i) = 80"
  by (simp add: view_line_def length_history_line vga_consts)

lemma concat_rows:
  "(\<And>y. y < n \<Longrightarrow> length (f y) = 80) \<Longrightarrow> length (concat (map f [0..<n])) = n * 80
    \<and> (\<forall>y < n. seg (y * 80) 80 (concat (map f [0..<n])) = f y)"
proof (induction n)
  case 0
  then show ?case by simp
next
  case (Suc n)
  then have ih: "length (concat (map f [0..<n])) = n * 80"
    "\<forall>y < n. seg (y * 80) 80 (concat (map f [0..<n])) = f y" by auto
  have "seg (y * 80) 80 (concat (map f [0..<n]) @ f n) = f y" if "y < Suc n" for y
  proof (cases "y = n")
    case True
    with ih(1) Suc.prems show ?thesis by (simp add: seg_def)
  next
    case False
    with that ih have "y * 80 + 80 \<le> length (concat (map f [0..<n]))" "seg (y * 80) 80 (concat (map f [0..<n])) = f y" by auto
    then show ?thesis by (simp add: seg_def)
  qed
  with ih(1) Suc.prems show ?case by simp
qed

text \<open>The lines a view shows.\<close>

lemma render_rows:
  assumes "vga_wf v" "scrollback_view_offset v \<noteq> 0" "y < 25"
  shows "rows (fst (vga_scrollback_render io v w)) ! y
    = view_line v (scrollback_pos v - scrollback_view_offset v - 25 + int y)"
  using assms concat_rows [of 25 "\<lambda>y. view_line v (scrollback_pos v - scrollback_view_offset v - 25 + int y)"]
    length_view_line [OF assms(1)]
  unfolding rows_def by (simp only: vga_scrollback_render_def Let_def if_False vga_consts fst_conv
    vga.select_convs vga.update_convs nth_map length_upt nth_upt) (simp add: vga_scrollback_render_def)

lemma render_fields:
  "vga_wf v \<Longrightarrow> vga_wf (fst (vga_scrollback_render io v w))"
  "vga_row (fst (vga_scrollback_render io v w)) = vga_row v"
  "vga_column (fst (vga_scrollback_render io v w)) = vga_column v"
  "current_screen (fst (vga_scrollback_render io v w)) = current_screen v"
  "screen_saved (fst (vga_scrollback_render io v w)) = screen_saved v"
  "scrollback_view_offset (fst (vga_scrollback_render io v w)) = scrollback_view_offset v"
  "scrollback_pos (fst (vga_scrollback_render io v w)) = scrollback_pos v"
  "scrollback_buffer (fst (vga_scrollback_render io v w)) = scrollback_buffer v"
  "scrollback_total_lines (fst (vga_scrollback_render io v w)) = scrollback_total_lines v"
  "vga_color (fst (vga_scrollback_render io v w)) = vga_color v"
proof -
  assume wf: "vga_wf v"
  have "length (concat (map (\<lambda>y. view_line v (scrollback_pos v - scrollback_view_offset v - 25 + int y)) [0..<25])) = 2000"
    using concat_rows [of 25 "\<lambda>y. view_line v (scrollback_pos v - scrollback_view_offset v - 25 + int y)"]
      length_view_line [OF wf] by simp
  with wf show "vga_wf (fst (vga_scrollback_render io v w))"
    by (auto simp: vga_wf_def view_ok_def vga_scrollback_render_def Let_def vga_consts)
qed (simp_all add: vga_scrollback_render_def Let_def)

datatype view_op = Up nat | Down nat

fun view_do :: "'w ports \<Rightarrow> view_op \<Rightarrow> vga \<times> 'w \<Rightarrow> vga \<times> 'w" where
  "view_do io (Up n) (v, w) = vga_scrollback_up io (int n) v w"
| "view_do io (Down n) (v, w) = vga_scrollback_down io (int n) v w"

text \<open>What holds while the history of the console \<open>v\<close> is viewed.\<close>

definition viewing :: "vga \<Rightarrow> vga \<Rightarrow> bool" where
  "viewing v u \<longleftrightarrow> vga_wf u \<and> vga_row u = vga_row v \<and> vga_column u = vga_column v
     \<and> scrollback_pos u = scrollback_pos v \<and> scrollback_total_lines u = scrollback_total_lines v
     \<and> scrollback_buffer u = scrollback_buffer v \<and> vga_color u = vga_color v
     \<and> (if scrollback_view_offset u = 0 then vga_buffer u = vga_buffer v
        else current_screen u = vga_buffer v
          \<and> (\<forall>y < 25. rows u ! y = view_line v (scrollback_pos v - scrollback_view_offset u - 25 + int y)))"

lemma view_line_same:
  "scrollback_pos u = scrollback_pos v \<Longrightarrow> scrollback_buffer u = scrollback_buffer v \<Longrightarrow> vga_color u = vga_color v
    \<Longrightarrow> view_line u i = view_line v i"
  by (simp add: view_line_def history_line_def)

lemma render_viewing:
  assumes "vga_wf u" "scrollback_view_offset u \<noteq> 0" "current_screen u = vga_buffer v"
    "vga_row u = vga_row v" "vga_column u = vga_column v" "scrollback_pos u = scrollback_pos v"
    "scrollback_total_lines u = scrollback_total_lines v" "scrollback_buffer u = scrollback_buffer v"
    "vga_color u = vga_color v"
  shows "viewing v (fst (vga_scrollback_render io u w))"
  using assms render_rows [OF assms(1,2), of _ io w] render_fields(1) [OF assms(1), of io w]
    view_line_same [of u v]
  unfolding viewing_def render_fields by simp

lemma up_viewing:
  assumes "viewing v u"
  shows "viewing v (fst (vga_scrollback_up io (int n) u w))"
proof (cases "scrollback_total_lines u = 0")
  case True
  with assms show ?thesis by (simp add: vga_scrollback_up_def)
next
  case False
  define u1 where "u1 = (if scrollback_view_offset u = 0
    then u\<lparr>current_screen := vga_buffer u, screen_saved := True\<rparr> else u)"
  define u2 where "u2 = u1\<lparr>scrollback_view_offset := min (scrollback_total_lines u) (scrollback_view_offset u + int n)\<rparr>"
  have off: "scrollback_view_offset u1 = scrollback_view_offset u" "scrollback_total_lines u1 = scrollback_total_lines u"
    by (simp_all add: u1_def)
  have r: "vga_scrollback_up io (int n) u w = vga_scrollback_render io u2 w"
    unfolding vga_scrollback_up_def u1_def [symmetric] Let_def off u2_def min_def using False
    by (simp add: not_le)
  have t: "0 < scrollback_total_lines u" "0 \<le> scrollback_view_offset u"
    "scrollback_view_offset u \<le> scrollback_total_lines u"
    using assms False by (auto simp: viewing_def vga_wf_def view_ok_def)
  show ?thesis
  proof (cases "scrollback_view_offset u2 = 0")
    case True
    then have "n = 0" "scrollback_view_offset u = 0" using t by (auto simp: u2_def)
    with assms True show ?thesis
      unfolding r by (auto simp: vga_scrollback_render_def u2_def u1_def viewing_def vga_wf_def view_ok_def rows_def)
  next
    case nz: False
    have "vga_wf u2" "current_screen u2 = vga_buffer v"
      using assms t by (auto simp: u2_def u1_def viewing_def vga_wf_def view_ok_def)
    then show ?thesis unfolding r
      by (rule render_viewing [OF _ nz]) (use assms in \<open>auto simp: u2_def u1_def viewing_def\<close>)
  qed
qed

lemma down_viewing:
  assumes "viewing v u"
  shows "viewing v (fst (vga_scrollback_down io (int n) u w))"
proof (cases "scrollback_view_offset u = 0")
  case True
  with assms show ?thesis by (simp add: vga_scrollback_down_def)
next
  case False
  define u1 where "u1 = u\<lparr>scrollback_view_offset := max 0 (scrollback_view_offset u - int n)\<rparr>"
  have t: "0 < scrollback_view_offset u" "screen_saved u" "current_screen u = vga_buffer v"
    "length (current_screen u) = 2000"
    using assms False by (auto simp: viewing_def vga_wf_def view_ok_def)
  have wf: "vga_wf u1" using assms t by (auto simp: u1_def viewing_def vga_wf_def view_ok_def)
  have r: "vga_scrollback_down io (int n) u w =
     (if scrollback_view_offset u1 = 0
      then (vga_restore_screen u1, vga_update_cursor io (vga_restore_screen u1) w)
      else vga_scrollback_render io u1 w)"
    using False by (simp add: vga_scrollback_down_def u1_def Let_def max_def)
  show ?thesis
  proof (cases "scrollback_view_offset u1 = 0")
    case True
    with assms t wf show ?thesis
      by (auto simp: r vga_restore_screen_def viewing_def vga_wf_def view_ok_def u1_def)
  next
    case nz: False
    have "viewing v (fst (vga_scrollback_render io u1 w))"
      by (rule render_viewing [OF wf nz]) (use assms t(3) in \<open>auto simp: u1_def viewing_def\<close>)
    with nz show ?thesis by (simp add: r)
  qed
qed

lemma views_viewing: "viewing v (fst p) \<Longrightarrow> viewing v (fst (fold (view_do io) ops p))"
proof (induction ops arbitrary: p)
  case (Cons op ops)
  have "viewing v (fst (view_do io op p))"
    using Cons.prems up_viewing down_viewing by (cases p; cases op) auto
  with Cons.IH show ?case by simp
qed simp

lemma viewing_refl: "vga_wf v \<Longrightarrow> scrollback_view_offset v = 0 \<Longrightarrow> viewing v v"
  by (simp add: viewing_def)

lemma reset_restores:
  assumes "viewing v u"
  shows "vga_buffer (fst (vga_scrollback_reset io u w)) = vga_buffer v
    \<and> vga_row (fst (vga_scrollback_reset io u w)) = vga_row v
    \<and> vga_column (fst (vga_scrollback_reset io u w)) = vga_column v
    \<and> scrollback_view_offset (fst (vga_scrollback_reset io u w)) = 0
    \<and> vga_wf (fst (vga_scrollback_reset io u w))
    \<and> history (fst (vga_scrollback_reset io u w)) = history v"
proof (cases "scrollback_view_offset u = 0")
  case True
  with assms show ?thesis
    by (simp add: vga_scrollback_reset_def viewing_def history_def history_line_def)
next
  case False
  with assms show ?thesis
    by (auto simp: vga_scrollback_reset_def vga_restore_screen_def Let_def viewing_def vga_wf_def view_ok_def
      history_def history_line_def)
qed

text \<open>A console with the cursor on the last line and one line in the history.\<close>

definition sample_console :: vga where
  "sample_console = \<lparr>vga_row = 24, vga_column = 0, vga_color = 7, vga_buffer = replicate 2000 (vga_cell 65 7),
     scrollback_buffer = replicate 40000 (vga_cell 66 7), scrollback_pos = 1, scrollback_view_offset = 0,
     scrollback_total_lines = 1, current_screen = replicate 2000 0, screen_saved = False\<rparr>"

lemma sample_console_ok:
  "vga_wf sample_console" "scrollback_view_offset sample_console = 0" "scrollback_pos sample_console = 1"
  "vga_color sample_console = 7" "vga_row sample_console = 24" "vga_column sample_console = 0"
  by (simp_all add: vga_wf_def view_ok_def sample_console_def)

lemma sample_history: "history_line sample_console i = replicate 80 (vga_cell 66 7)"
proof (rule nth_equalityI)
  have len: "length (history_line sample_console i) = 80" by (rule length_history_line [OF sample_console_ok(1)])
  then show "length (history_line sample_console i) = length (replicate 80 (vga_cell 66 7))" by simp
  fix k assume k: "k < length (history_line sample_console i)"
  have fit: "nat i mod 500 * 80 + 80 \<le> length (scrollback_buffer sample_console)"
    using line_slot [of "nat i"] by (simp add: sample_console_def)
  then have "nat i mod 500 * 80 + k < 40000" using k len line_slot [of "nat i"] by linarith
  moreover have "history_line sample_console i ! k = scrollback_buffer sample_console ! (nat i mod 500 * 80 + k)"
    using nth_seg [OF fit, of k] k len by (simp only: history_line_def vga_consts)
  ultimately show "history_line sample_console i ! k = replicate 80 (vga_cell 66 7) ! k"
    using k len by (simp add: sample_console_def)
qed

subsection \<open>Properties\<close>

text \<open>C30: looking at the history never harms the screen. After any sequence of scrolling up
  and down, going back to the live view restores the screen, cell by cell, with the cursor
  and the history as they were.\<close>

theorem scrollback_view_restores:
  assumes "vga_wf v" "scrollback_view_offset v = 0"
  shows "case fold (view_do io) ops (v, w) of (u, w1) \<Rightarrow> case vga_scrollback_reset io u w1 of (v', w2) \<Rightarrow>
    vga_buffer v' = vga_buffer v \<and> vga_row v' = vga_row v \<and> vga_column v' = vga_column v
    \<and> scrollback_view_offset v' = 0 \<and> vga_wf v' \<and> history v' = history v"
  using reset_restores [OF views_viewing [of v "(v, w)" io ops]] viewing_refl [OF assms]
  by (simp add: case_prod_beta)

definition silent_ports :: "unit ports" where
  "silent_ports = \<lparr>inb = (\<lambda>p w. (0, w)), outb = (\<lambda>p c w. w), inw = (\<lambda>p w. (0, w)), outw = (\<lambda>p c w. w)\<rparr>"

theorem scrollback_view_restores_witness:
  "vga_buffer (fst (vga_scrollback_reset silent_ports
      (fst (fold (view_do silent_ports) [Up 25, Up 3, Down 1] (sample_console, ()))) ()))
    = replicate 2000 (vga_cell 65 7)"
proof -
  have "vga_buffer sample_console = replicate 2000 (vga_cell 65 7)" by (simp add: sample_console_def)
  with scrollback_view_restores [OF sample_console_ok(1,2), of silent_ports "[Up 25, Up 3, Down 1]" "()"]
  show ?thesis by (simp only: case_prod_beta split: prod.splits) simp
qed

text \<open>the line that was scrolled off the screen last is never shown. Whatever scrolling up
  and down, every row of a view of the history is blank or an older line, so a newest line
  that differs from those is on no row (up to 500 lines, when no line was forgotten yet).\<close>

theorem newest_history_line_hidden:
  assumes "vga_wf v" "scrollback_view_offset v = 0" "0 < scrollback_pos v"
    and "\<forall>i. 0 \<le> i \<and> i < scrollback_pos v - 1 \<longrightarrow> history_line v i \<noteq> history_line v (scrollback_pos v - 1)"
    and "history_line v (scrollback_pos v - 1) \<noteq> replicate 80 (vga_cell 32 (vga_color v))"
    and "0 < scrollback_view_offset (fst (fold (view_do io) ops (v, w)))"
  shows "history_line v (scrollback_pos v - 1) \<notin> set (rows (fst (fold (view_do io) ops (v, w))))"
proof -
  let ?u = "fst (fold (view_do io) ops (v, w))"
  have vw: "viewing v ?u" using views_viewing [of v "(v, w)" io ops] viewing_refl [OF assms(1,2)] by simp
  have "rows ?u ! y \<noteq> history_line v (scrollback_pos v - 1)" if "y < 25" for y
  proof -
    let ?i = "scrollback_pos v - scrollback_view_offset ?u - 25 + int y"
    have r: "rows ?u ! y = view_line v ?i" using vw that assms(6) by (simp add: viewing_def)
    have "?i < scrollback_pos v - 1" using that assms(6) by simp
    with assms(4,5) show ?thesis unfolding r by (simp add: view_line_def vga_consts)
  qed
  moreover have "length (rows ?u) = 25" by (simp add: rows_def)
  ultimately show ?thesis by (metis in_set_conv_nth)
qed

theorem newest_history_line_hidden_witness:
  "replicate 80 (vga_cell 66 7) \<notin> set (rows (fst (fold (view_do silent_ports) [Up 1] (sample_console, ()))))"
proof -
  have off: "0 < scrollback_view_offset (fst (fold (view_do silent_ports) [Up 1] (sample_console, ())))"
    by (simp add: vga_scrollback_up_def Let_def sample_console_def vga_scrollback_render_def)
  have "vga_cell 66 7 \<noteq> vga_cell 32 7" by (simp add: vga_cell_def)
  then have "history_line sample_console (scrollback_pos sample_console - 1)
      \<noteq> replicate 80 (vga_cell 32 (vga_color sample_console))"
    by (simp add: sample_history sample_console_ok replicate_eq_replicate)
  with newest_history_line_hidden [OF sample_console_ok(1,2) _ _ _ off] show ?thesis
    by (simp add: sample_history sample_console_ok)
qed

lemma history_scroll:
  assumes wf: "vga_wf v"
  shows "history (vga_scroll v) = (if length (history v) = 500 then tl (history v) else history v) @ [hd (rows v)]"
proof -
  let ?p = "scrollback_pos v" and ?t = "nat (scrollback_total_lines v)"
  have t: "scrollback_total_lines v = min ?p 500" "0 \<le> ?p" using wf by (auto simp: vga_wf_def)
  have s: "scrollback_pos (vga_scroll v) = ?p + 1"
    "scrollback_total_lines (vga_scroll v) = min (?p + 1) 500"
    using t by (auto simp: vga_scroll_def Let_def vga_consts)
  have len: "length (history v) = ?t" by (simp add: history_def)
  have new: "history (vga_scroll v) = map (\<lambda>k. history_line (vga_scroll v) (?p + 1 - min (?p + 1) 500 + int k))
      [0..<nat (min (?p + 1) 500)]" by (simp add: history_def s)
  define n where "n = nat (min (?p + 1) 500) - 1"
  have n: "nat (min (?p + 1) 500) = Suc n" "?p + 1 - min (?p + 1) 500 + int n = ?p" using t by (auto simp: n_def)
  have old: "history_line (vga_scroll v) (?p + 1 - min (?p + 1) 500 + int k)
      = history_line v (?p + 1 - min (?p + 1) 500 + int k)" if "k < n" for k
    using that n t by (subst scroll_history_line [OF wf]) (auto simp: min_def split: if_splits)
  have "history_line (vga_scroll v) ?p = hd (rows v)" using t by (subst scroll_history_line [OF wf]) auto
  then have last: "history_line (vga_scroll v) (?p + 1 - min (?p + 1) 500 + int n) = hd (rows v)" by (simp only: n(2))
  have "history (vga_scroll v) = map (\<lambda>k. history_line v (?p + 1 - min (?p + 1) 500 + int k)) [0..<n] @ [hd (rows v)]"
    unfolding new n(1) using old last by simp
  moreover have "map (\<lambda>k. history_line v (?p + 1 - min (?p + 1) 500 + int k)) [0..<n]
      = (if length (history v) = 500 then tl (history v) else history v)"
  proof (cases "?p < 500")
    case True
    with t n_def have "n = ?t" "?t \<noteq> 500" by auto
    with True t len show ?thesis by (simp add: history_def)
  next
    case False
    with t n_def have nt: "?t = 500" "n = 499" by auto
    have "[0..<500] = (0::nat) # map Suc [0..<499]" by (simp only: map_Suc_upt upt_conv_Cons) simp
    then have "tl (history v) = map (\<lambda>k. history_line v (?p - 500 + int (Suc k))) [0..<499]"
      using False t nt by (simp add: history_def o_def del: upt.upt_Suc)
    with False nt len show ?thesis by (simp add: algebra_simps)
  qed
  ultimately show ?thesis by simp
qed

text \<open>C32: output keeps the console well-formed, so that every cell it writes is on the screen,
  and loses no line. Each character either leaves the history alone, or scrolls: then the
  top row of the screen becomes the newest line of the history (the oldest of 500 is
  forgotten), the other rows move up by one and the last row is blank.\<close>

theorem output_keeps_lines:
  assumes "vga_wf v" "scrollback_view_offset v = 0"
  shows "let p = vga_place c v; v' = fst (vga_putchar_raw io c v w) in
    vga_wf v' \<and> vga_row v' < 25 \<and> vga_column v' < 80
    \<and> (if vga_row p < 25 then v' = p \<and> history v' = history v
       else history v' = (if length (history v) = 500 then tl (history v) else history v) @ [hd (rows p)]
         \<and> rows v' = tl (rows p) @ [replicate 80 (vga_cell 32 (vga_color v))] \<and> vga_row v' = 24)"
proof -
  let ?p = "vga_place c v" and ?q = "(vga_place c v)\<lparr>vga_row := 24\<rparr>"
  note pw = place_wf [OF assms(1), of c]
  have h: "history ?p = history v" "history ?q = history v" "rows ?q = rows ?p"
    using pw by (simp_all add: history_def history_line_def rows_def)
  have r: "fst (vga_putchar_raw io c v w) = (if 25 \<le> vga_row ?p then vga_scroll ?q else ?p)"
    using assms(2) by (simp add: vga_putchar_raw_def Let_def vga_consts)
  show ?thesis
  proof (cases "vga_row ?p < 25")
    case True
    then have "vga_wf ?p" using pw assms(1) by (simp add: vga_wf_def)
    with True h r show ?thesis by (simp add: Let_def vga_wf_def)
  next
    case False
    have wq: "vga_wf ?q" using pw assms by (simp add: vga_wf_def view_ok_def)
    have oq: "scrollback_view_offset ?q = 0" using pw(8) assms(2) by simp
    have "vga_row (vga_scroll ?q) = 24" by (simp add: vga_scroll_def Let_def)
    with False r h pw(9) scroll_wf [OF wq oq] history_scroll [OF wq] scroll_rows [OF wq] show ?thesis
      by (simp add: Let_def) (simp add: vga_wf_def)
  qed
qed

theorem output_keeps_lines_witness:
  "vga_wf (fst (vga_putchar_raw silent_ports 10 sample_console ()))
    \<and> length (history (fst (vga_putchar_raw silent_ports 10 sample_console ()))) = 2"
proof -
  have "vga_row (vga_place 10 sample_console) = 25" by (simp add: vga_place_def sample_console_def)
  moreover have "length (history sample_console) = 1" by (simp add: history_def sample_console_def)
  ultimately show ?thesis
    using output_keeps_lines [OF sample_console_ok(1,2), of 10 silent_ports "()"] by (simp add: Let_def)
qed

end
