(* ===== verification/Debuglog.thy ===== *)
theory Debuglog
  imports Kernel_Prelude
begin

text \<open>
  The debug log (\<open>lib/debuglog.c\<close>): a buffer of 16384 bytes kept as a C string, which takes
  characters while logging is on and notes when it overflows. The static variables are the
  record \<open>dbg\<close>; the compile-time defaults are those of the file (logging on, printing off).
\<close>

definition DEBUG_LOG_SIZE :: nat where "DEBUG_LOG_SIZE = 16384"

record dbg =
  debug_log :: bytes
  debug_log_pos :: nat
  debug_log_overflow :: bool
  debug_log_enabled :: bool
  debug_print_enabled :: bool

definition debug_log_init :: "dbg \<Rightarrow> dbg" where
  "debug_log_init d = d\<lparr>debug_log_pos := 0, debug_log_overflow := False, debug_log_enabled := True,
     debug_print_enabled := False, debug_log := replicate DEBUG_LOG_SIZE 0\<rparr>"

definition debug_log_putchar :: "u8 \<Rightarrow> dbg \<Rightarrow> dbg" where
  "debug_log_putchar c d =
     (if \<not> debug_log_enabled d then d
      else if debug_log_pos d < DEBUG_LOG_SIZE - 1
      then d\<lparr>debug_log := (debug_log d)[debug_log_pos d := c, debug_log_pos d + 1 := 0],
             debug_log_pos := debug_log_pos d + 1\<rparr>
      else d\<lparr>debug_log_overflow := True\<rparr>)"

text \<open>\<open>None\<close> is the NULL pointer.\<close>

definition debug_log_write :: "bytes option \<Rightarrow> dbg \<Rightarrow> dbg" where
  "debug_log_write str d =
     (if \<not> debug_log_enabled d then d
      else (case str of None \<Rightarrow> d | Some s \<Rightarrow> fold debug_log_putchar (c_str s) d))"

text \<open>What \<open>debug_log_dump\<close> prints: the log, and whether the overflow line follows.\<close>

definition debug_log_dump :: "dbg \<Rightarrow> bytes \<times> bool" where
  "debug_log_dump d = (c_str (debug_log d), debug_log_overflow d)"

definition debug_log_buffer :: "dbg \<Rightarrow> bytes" where
  "debug_log_buffer d = debug_log d"

definition debug_log_length :: "dbg \<Rightarrow> nat" where
  "debug_log_length d = debug_log_pos d"

definition debug_log_set_enabled :: "int \<Rightarrow> dbg \<Rightarrow> dbg" where
  "debug_log_set_enabled e d = d\<lparr>debug_log_enabled := e \<noteq> 0\<rparr>"

definition debug_log_is_enabled :: "dbg \<Rightarrow> bool" where
  "debug_log_is_enabled d = debug_log_enabled d"

definition debug_print_set_enabled :: "int \<Rightarrow> dbg \<Rightarrow> dbg" where
  "debug_print_set_enabled e d = d\<lparr>debug_print_enabled := e \<noteq> 0\<rparr>"

definition debug_print_is_enabled :: "dbg \<Rightarrow> bool" where
  "debug_print_is_enabled d = debug_print_enabled d"

subsection \<open>The log as a bounded text\<close>

text \<open>The first \<open>pos\<close> bytes are the text logged so far, and a NUL follows.\<close>

definition log_holds :: "dbg \<Rightarrow> bytes \<Rightarrow> bool" where
  "log_holds d s \<longleftrightarrow> length (debug_log d) = DEBUG_LOG_SIZE \<and> debug_log_pos d = min (length s) (DEBUG_LOG_SIZE - 1)
     \<and> take (debug_log_pos d) (debug_log d) = take (DEBUG_LOG_SIZE - 1) s
     \<and> debug_log d ! debug_log_pos d = 0
     \<and> (debug_log_overflow d \<longleftrightarrow> DEBUG_LOG_SIZE - 1 < length s)"

lemma init_holds: "log_holds (debug_log_init d) []"
  by (simp add: log_holds_def debug_log_init_def DEBUG_LOG_SIZE_def)

lemma putchar_enabled [simp]: "debug_log_enabled (debug_log_putchar c d) = debug_log_enabled d"
  by (simp add: debug_log_putchar_def)

lemma putchar_holds:
  assumes "log_holds d s" "debug_log_enabled d"
  shows "log_holds (debug_log_putchar c d) (s @ [c])"
proof (cases "length s < DEBUG_LOG_SIZE - 1")
  case True
  with assms have p: "debug_log_pos d = length s" "length (debug_log d) = DEBUG_LOG_SIZE"
    "take (length s) (debug_log d) = s" by (auto simp: log_holds_def)
  with True have "take (Suc (length s)) ((debug_log d)[length s := c, Suc (length s) := 0]) = s @ [c]"
    by (simp add: take_Suc_conv_app_nth)
  with assms p True show ?thesis
    by (simp add: log_holds_def debug_log_putchar_def DEBUG_LOG_SIZE_def)
next
  case False
  with assms show ?thesis
    by (auto simp: log_holds_def debug_log_putchar_def)
qed

lemma putchars_holds:
  "log_holds d s \<Longrightarrow> debug_log_enabled d \<Longrightarrow>
    log_holds (fold debug_log_putchar cs d) (s @ cs) \<and> debug_log_enabled (fold debug_log_putchar cs d)"
proof (induction cs arbitrary: d s)
  case (Cons c cs)
  from Cons.IH [OF putchar_holds [OF Cons.prems]] Cons.prems(2) show ?case by simp
qed simp

lemma takeWhile_stop: "i < length xs \<Longrightarrow> \<not> P (xs ! i) \<Longrightarrow> \<forall>j < i. P (xs ! j) \<Longrightarrow> takeWhile P xs = take i xs"
  by (metis takeWhile_eq_take_P_nth)

datatype log_op = LogChar u8 | LogWrite bytes

fun log_do :: "log_op \<Rightarrow> dbg \<Rightarrow> dbg" where
  "log_do (LogChar c) d = debug_log_putchar c d"
| "log_do (LogWrite s) d = debug_log_write (Some s) d"

fun log_text :: "log_op \<Rightarrow> bytes" where
  "log_text (LogChar c) = [c]"
| "log_text (LogWrite s) = c_str s"

lemma log_do_puts: "debug_log_enabled d \<Longrightarrow> log_do op d = fold debug_log_putchar (log_text op) d"
  by (cases op) (simp_all add: debug_log_write_def)

lemma log_run_holds:
  "log_holds d s \<Longrightarrow> debug_log_enabled d \<Longrightarrow>
    log_holds (fold log_do ops d) (s @ concat (map log_text ops)) \<and> debug_log_enabled (fold log_do ops d)"
proof (induction ops arbitrary: d s)
  case (Cons op ops)
  from Cons.prems log_do_puts [of d op] putchars_holds [of d s "log_text op"]
  have "log_holds (log_do op d) (s @ log_text op)" "debug_log_enabled (log_do op d)" by auto
  from Cons.IH [OF this] show ?case by simp
qed simp

text \<open>the debug log keeps the beginning of the output. After \<open>debug_log_init\<close>, any
  sequence of characters and strings without a NUL leaves in the buffer, as a C string,
  exactly the first 16383 characters written; the length is right, and the overflow flag
  says whether anything was lost.\<close>

theorem debug_log_keeps_prefix:
  assumes "0 \<notin> set (concat (map log_text ops))"
  shows "let d' = fold log_do ops (debug_log_init d); s = concat (map log_text ops) in
    debug_log_dump d' = (take 16383 s, 16383 < length s) \<and> debug_log_length d' = min (length s) 16383
    \<and> length (debug_log_buffer d') = 16384"
proof -
  let ?d = "fold log_do ops (debug_log_init d)" and ?s = "concat (map log_text ops)"
  have h: "log_holds ?d ?s"
    using log_run_holds [OF init_holds, of d ops] by (simp add: debug_log_init_def)
  let ?p = "debug_log_pos ?d"
  have t: "take ?p (debug_log ?d) = take 16383 ?s" "?p = min (length ?s) 16383" "length (debug_log ?d) = 16384"
    "debug_log ?d ! ?p = 0" using h by (auto simp: log_holds_def DEBUG_LOG_SIZE_def)
  have "debug_log ?d ! j \<noteq> 0" if "j < ?p" for j
  proof -
    have "debug_log ?d ! j = take ?p (debug_log ?d) ! j" using that by simp
    also have "\<dots> = ?s ! j" using t(1,2) that by simp
    finally show ?thesis using assms that t(2) nth_mem [of j ?s] by auto
  qed
  with t have "c_str (debug_log ?d) = take 16383 ?s"
    unfolding c_str_def by (subst takeWhile_stop [of ?p]) auto
  with h t show ?thesis
    by (simp add: Let_def debug_log_dump_def debug_log_length_def debug_log_buffer_def log_holds_def DEBUG_LOG_SIZE_def)
qed

theorem debug_log_keeps_prefix_witness:
  "fst (debug_log_dump (fold log_do [LogWrite (ascii ''boot''), LogChar 10]
     (debug_log_init \<lparr>debug_log = [], debug_log_pos = 0, debug_log_overflow = True,
        debug_log_enabled = False, debug_print_enabled = True\<rparr>))) = ascii ''boot'' @ [10]"
proof -
  have "concat (map log_text [LogWrite (ascii ''boot''), LogChar 10]) = ascii ''boot'' @ [10]"
    by (simp add: ascii_def c_str_def)
  with debug_log_keeps_prefix [of "[LogWrite (ascii ''boot''), LogChar 10]"] show ?thesis
    by (simp only: Let_def) (simp add: ascii_def)
qed

end
