(* ===== verification/Printf.thy ===== *)
theory Printf
  imports Debuglog Vga Serial
begin

text \<open>
  The kernel's \<open>printf\<close> (\<open>lib/printf.c\<close>): the characters it produces from a format and its
  arguments, and \<open>put_char\<close>, which sends each to the screen, the debug log and (while
  logging is on) the serial port. Numbers are printed from \<open>long\<close> values, here integers
  with C's division, which truncates towards zero.
\<close>

record console =
  con_vga :: vga
  con_dbg :: dbg
  con_serial :: serial

definition put_char :: "'w ports \<Rightarrow> u8 \<Rightarrow> console \<times> 'w \<Rightarrow> console \<times> 'w" where
  "put_char io c p =
     (case p of (con, w) \<Rightarrow>
       (case vga_putchar_raw io c (con_vga con) w of (v, w1) \<Rightarrow>
          let con1 = con\<lparr>con_vga := v, con_dbg := debug_log_putchar c (con_dbg con)\<rparr>
          in if debug_log_is_enabled (con_dbg con1)
             then (case serial_putchar io c (con_serial con1) w1 of (s, w2) \<Rightarrow> (con1\<lparr>con_serial := s\<rparr>, w2))
             else (con1, w1)))"

definition c_div :: "int \<Rightarrow> int \<Rightarrow> int" where
  "c_div a b = sgn a * (\<bar>a\<bar> div b)"

definition c_mod :: "int \<Rightarrow> int \<Rightarrow> int" where
  "c_mod a b = a - b * c_div a b"

definition digit_char :: "int \<Rightarrow> u8" where
  "digit_char r = (if 9 < r then of_int (r - 10 + 97) else of_int (r + 48))"

text \<open>The digits as the loop stores them, the lowest first. The bases are 10 and 16.\<close>

function digit_loop :: "int \<Rightarrow> int \<Rightarrow> bytes" where
  "digit_loop base val =
     (if val = 0 \<or> base < 2 then [] else digit_char (c_mod val base) # digit_loop base (c_div val base))"
  by pat_completeness auto
termination
proof (relation "measure (\<lambda>(base, val). nat \<bar>val\<bar>)")
  fix base val :: int
  assume "\<not> (val = 0 \<or> base < 2)"
  then have "\<bar>val\<bar> div base < \<bar>val\<bar>" "0 \<le> \<bar>val\<bar> div base"
    by (simp_all add: int_div_less_self pos_imp_zdiv_nonneg_iff)
  with \<open>\<not> (val = 0 \<or> base < 2)\<close> have "\<bar>c_div val base\<bar> < \<bar>val\<bar>"
    by (simp add: c_div_def abs_mult abs_sgn_eq)
  then show "((base, c_div val base), (base, val)) \<in> measure (\<lambda>(base, val). nat \<bar>val\<bar>)" by simp
qed simp

declare digit_loop.simps [simp del]

text \<open>The contents of \<open>buf\<close>, lowest digit first and the sign last.\<close>

definition number_buf :: "int \<Rightarrow> int \<Rightarrow> bytes" where
  "number_buf val base =
     (if val = 0 then [48]
      else if base = 10 \<and> val < 0 then digit_loop base (- val) @ [45]
      else digit_loop base val)"

definition print_int :: "int \<Rightarrow> int \<Rightarrow> int \<Rightarrow> u8 \<Rightarrow> bytes" where
  "print_int val base width pad =
     (let buf = number_buf val base;
          pad_count = (if int (length buf) < width then width - int (length buf) else 0)
      in replicate (nat pad_count) pad @ rev buf)"

text \<open>An argument, as the conversion that takes it reads it.\<close>

datatype parg = AStr bytes | AInt "32 word" | AUInt u32 | APtr u64 | AChar u8

text \<open>The digits of the field width, and the rest of the format.\<close>

fun parse_width :: "int \<Rightarrow> bytes \<Rightarrow> int \<times> bytes" where
  "parse_width acc [] = (acc, [])"
| "parse_width acc (c # cs) =
     (if 48 \<le> c \<and> c \<le> 57 then parse_width (acc * 10 + (uint c - 48)) cs else (acc, c # cs))"

definition conversion :: "u8 \<Rightarrow> int \<Rightarrow> u8 \<Rightarrow> parg list \<Rightarrow> (bytes \<times> parg list) option" where
  "conversion c width pad args =
     (if c = 115 then (case args of AStr s # as \<Rightarrow> Some (c_str s, as) | _ \<Rightarrow> None)
      else if c = 100 then (case args of AInt i # as \<Rightarrow> Some (print_int (sint i) 10 width pad, as) | _ \<Rightarrow> None)
      else if c = 120 then (case args of AUInt u # as \<Rightarrow> Some (print_int (uint u) 16 width pad, as) | _ \<Rightarrow> None)
      else if c = 112 then
        (case args of APtr p # as \<Rightarrow> Some (ascii ''0x'' @ print_int (sint p) 16 width pad, as) | _ \<Rightarrow> None)
      else if c = 99 then (case args of AChar b # as \<Rightarrow> Some ([b], as) | _ \<Rightarrow> None)
      else if c = 37 then Some ([37], args)
      else Some ([37, c], args))"

definition parse_pad :: "bytes \<Rightarrow> u8 \<times> bytes" where
  "parse_pad cs = (case cs of c # r \<Rightarrow> if c = 48 then (48, r) else (32, cs) | [] \<Rightarrow> (32, cs))"

lemma parse_width_shorter: "length (snd (parse_width acc cs)) \<le> length cs"
  by (induction acc cs rule: parse_width.induct) auto

text \<open>
  The characters \<open>printf\<close> puts. The format is the string without its NUL. \<open>None\<close>: the
  call is undefined in C, for want of an argument of the right type or because a \<open>%\<close> at
  the end makes the loop run past the NUL.
\<close>

function format_output :: "bytes \<Rightarrow> parg list \<Rightarrow> bytes option" where
  "format_output [] args = Some []"
| "format_output (c # cs) args =
     (if c = 37 then
        let (pad, cs1) = parse_pad cs;
            (width, cs2) = parse_width 0 cs1
        in (case cs2 of
              [] \<Rightarrow> None
            | d # rest \<Rightarrow>
                (case conversion d width pad args of
                   None \<Rightarrow> None
                 | Some (out, args') \<Rightarrow> map_option ((@) out) (format_output rest args')))
      else map_option ((#) c) (format_output cs args))"
  by pat_completeness auto
termination
proof (relation "measure (\<lambda>(f, a). length f)")
  fix c :: u8 and cs args x and pad :: u8 and cs1 y width cs2 d rest a out args'
  assume "x = parse_pad cs" "(pad, cs1) = x" "y = parse_width 0 cs1"
    "(width, cs2) = y" "cs2 = d # rest"
  then have "length (d # rest) \<le> length cs1"
    using parse_width_shorter [of 0 cs1] by (metis snd_conv)
  moreover have "length cs1 \<le> length cs"
    using \<open>x = parse_pad cs\<close> \<open>(pad, cs1) = x\<close> by (auto simp: parse_pad_def split: if_splits list.splits)
  ultimately have "length (d # rest) \<le> length cs" by simp
  then show "((rest, args'), (c # cs, args)) \<in> measure (\<lambda>(f, a). length f)" by simp
qed auto

definition printf :: "'w ports \<Rightarrow> bytes \<Rightarrow> parg list \<Rightarrow> console \<times> 'w \<Rightarrow> (console \<times> 'w) option" where
  "printf io format args p = map_option (\<lambda>out. fold (put_char io) out p) (format_output (c_str format) args)"


subsection \<open>Reading numbers back\<close>

definition digit_value :: "u8 \<Rightarrow> int" where
  "digit_value c = (if 97 \<le> c then uint c - 97 + 10 else uint c - 48)"

text \<open>The value of a numeral, most significant digit first, and with an optional sign.\<close>

definition read_digits :: "int \<Rightarrow> bytes \<Rightarrow> int" where
  "read_digits base cs = foldl (\<lambda>a c. a * base + digit_value c) 0 cs"

definition read_number :: "int \<Rightarrow> bytes \<Rightarrow> int" where
  "read_number base cs =
     (case cs of [] \<Rightarrow> 0 | c # r \<Rightarrow> if c = 45 then - read_digits base r else read_digits base cs)"

lemma digit_value_char:
  assumes "0 \<le> r" "r < 16"
  shows "digit_value (digit_char r) = r" "digit_char r \<noteq> 45"
proof -
  have "r \<in> {0,1,2,3,4,5,6,7,8,9,10,11,12,13,14,15}" using assms by simp presburger
  then show "digit_value (digit_char r) = r" "digit_char r \<noteq> 45"
    by (auto simp: digit_char_def digit_value_def word_le_nat_alt)
qed

lemma c_div_nonneg: "0 \<le> a \<Longrightarrow> 0 < b \<Longrightarrow> c_div a b = a div b" "0 \<le> a \<Longrightarrow> 0 < b \<Longrightarrow> c_mod a b = a mod b"
  by (auto simp: c_div_def c_mod_def sgn_if minus_mult_div_eq_mod)

lemma digit_loop_reads:
  assumes "2 \<le> base" "base \<le> 16" "0 \<le> val"
  shows "read_digits base (rev (digit_loop base val)) = val \<and> 45 \<notin> set (digit_loop base val)"
  using assms
proof (induction base val rule: digit_loop.induct)
  case (1 base val)
  show ?case
  proof (cases "val = 0")
    case True
    then show ?thesis by (simp add: digit_loop.simps read_digits_def)
  next
    case False
    have r: "0 \<le> val mod base" "val mod base < 16" using 1(2,3) pos_mod_bound [of base val] by (simp, linarith)
    have q: "0 \<le> val div base" using 1(2,4) by (simp add: pos_imp_zdiv_nonneg_iff)
    with 1 False have ih: "read_digits base (rev (digit_loop base (val div base))) = val div base"
      "45 \<notin> set (digit_loop base (val div base))" by (auto simp: c_div_nonneg)
    have "digit_loop base val = digit_char (val mod base) # digit_loop base (val div base)"
      using False 1(2,4) by (subst digit_loop.simps) (simp add: c_div_nonneg)
    with ih digit_value_char [OF r] show ?thesis by (auto simp: read_digits_def)
  qed
qed

lemma int_div_less: "0 < (b :: int) \<Longrightarrow> a < k * b \<Longrightarrow> a div b < k"
proof (rule ccontr)
  assume "0 < b" "a < k * b" "\<not> a div b < k"
  then have "k * b \<le> a div b * b" by (intro mult_right_mono) auto
  moreover have "a div b * b \<le> a" using pos_mod_sign [OF \<open>0 < b\<close>, of a] div_mult_mod_eq [of a b] by linarith
  ultimately show False using \<open>a < k * b\<close> by linarith
qed

lemma digit_loop_length:
  assumes "2 \<le> base" "0 \<le> val" "val < base ^ n"
  shows "length (digit_loop base val) \<le> n"
  using assms
proof (induction n arbitrary: val)
  case 0
  then show ?case by (simp add: digit_loop.simps)
next
  case (Suc n)
  show ?case
  proof (cases "val = 0")
    case False
    have "val div base < base ^ n"
      using Suc.prems by (intro int_div_less) (auto simp: mult.commute)
    moreover have "0 \<le> val div base" using Suc.prems by (simp add: pos_imp_zdiv_nonneg_iff)
    ultimately have "length (digit_loop base (val div base)) \<le> n" using Suc.IH Suc.prems(1) by blast
    moreover have "digit_loop base val = digit_char (val mod base) # digit_loop base (val div base)"
      using False Suc.prems by (subst digit_loop.simps) (simp add: c_div_nonneg)
    ultimately show ?thesis by simp
  qed (simp add: digit_loop.simps)
qed

lemma digit_loop_nonempty: "val \<noteq> 0 \<Longrightarrow> 2 \<le> base \<Longrightarrow> digit_loop base val \<noteq> []"
  by (subst digit_loop.simps) simp

lemma number_buf_reads:
  assumes "base = 10 \<or> base = 16 \<and> 0 \<le> val" "\<bar>val\<bar> < 2 ^ 63"
  shows "read_number base (rev (number_buf val base)) = val \<and> length (number_buf val base) \<le> 20"
proof -
  have pos: "read_number base (rev (digit_loop base v)) = v" if "0 < v" for v
  proof -
    have d: "read_digits base (rev (digit_loop base v)) = v" "45 \<notin> set (digit_loop base v)"
      using digit_loop_reads [of base v] assms(1) that by auto
    have "rev (digit_loop base v) \<noteq> []" using digit_loop_nonempty [of v base] that assms(1) by auto
    with d show ?thesis by (cases "rev (digit_loop base v)") (auto simp: read_number_def dest: arg_cong [where f = set])
  qed
  have len: "length (digit_loop base v) \<le> 19" if "0 < v" "v < 2 ^ 63" for v
    using digit_loop_length [of base v 19] that assms(1) by auto
  show ?thesis
  proof (cases "0 \<le> val")
    case True
    with pos [of val] len [of val] assms(2) show ?thesis
      by (auto simp: number_buf_def read_number_def read_digits_def digit_value_def word_le_nat_alt)
  next
    case False
    with assms have "base = 10" by simp
    have d: "read_digits 10 (rev (digit_loop 10 (- val))) = - val" using digit_loop_reads [of 10 "- val"] False by simp
    have "number_buf val base = digit_loop 10 (- val) @ [45]" using False \<open>base = 10\<close> by (simp add: number_buf_def)
    with d len [of "- val"] False assms(2) \<open>base = 10\<close> show ?thesis by (simp add: read_number_def)
  qed
qed

text \<open>a printed number can be read back. For a decimal or an unsigned hexadecimal value,
  \<open>print_int\<close> puts padding up to the field width and then a numeral whose value is the
  argument; the numeral takes at most 20 characters, so the 64-byte buffer is never overrun.\<close>

theorem printed_number_reads_back:
  assumes "base = 10 \<or> base = 16 \<and> 0 \<le> val" "\<bar>val\<bar> < 2 ^ 63"
  shows "\<exists>num. print_int val base width pad = replicate (nat (width - int (length num))) pad @ num
    \<and> read_number base num = val \<and> 0 < length num \<and> length num \<le> 20"
proof (intro exI conjI)
  note r = number_buf_reads [OF assms]
  show "print_int val base width pad
      = replicate (nat (width - int (length (rev (number_buf val base))))) pad @ rev (number_buf val base)"
    by (simp add: print_int_def Let_def)
  show "read_number base (rev (number_buf val base)) = val" "length (rev (number_buf val base)) \<le> 20"
    using r by auto
  show "0 < length (rev (number_buf val base))"
    using digit_loop_nonempty [of val base] assms(1) by (auto simp: number_buf_def)
qed

theorem printed_number_reads_back_witness:
  "\<exists>num. print_int (- 305) 10 6 32 = replicate (nat (6 - int (length num))) 32 @ num \<and> read_number 10 num = - 305"
  using printed_number_reads_back [of 10 "- 305" 6 32] by auto

end
