(* ===== verification/Ata.thy ===== *)
theory Ata
  imports Ports
begin

text \<open>
  The ATA driver (\<open>drivers/storage/ata.c\<close>): 28-bit PIO reads and writes with bounded
  waits, and IDENTIFY. Each function is a function of the ports and the device state. A
  result of -1 is the code's error value. A read also returns the bytes it stored to the
  caller's buffer before it returned, which is a prefix of the request when it fails.
\<close>

definition ATA_PRIMARY :: u8 where "ATA_PRIMARY = 0"
definition ATA_SECONDARY :: u8 where "ATA_SECONDARY = 1"
definition ATA_MASTER :: u8 where "ATA_MASTER = 0"
definition ATA_SLAVE :: u8 where "ATA_SLAVE = 1"

definition ATA_CMD_READ_PIO :: u8 where "ATA_CMD_READ_PIO = 0x20"
definition ATA_CMD_WRITE_PIO :: u8 where "ATA_CMD_WRITE_PIO = 0x30"
definition ATA_CMD_IDENTIFY_DRIVE :: u8 where "ATA_CMD_IDENTIFY_DRIVE = 0xEC"
definition ATA_SR_BSY :: u8 where "ATA_SR_BSY = 0x80"
definition ATA_SR_DF :: u8 where "ATA_SR_DF = 0x20"
definition ATA_SR_DRQ :: u8 where "ATA_SR_DRQ = 0x08"
definition ATA_SR_ERR :: u8 where "ATA_SR_ERR = 0x01"

record ata_device =
  ad_channel :: u8
  ad_drive :: u8
  ad_type :: u8
  ad_signature :: u16
  ad_capabilities :: u16
  ad_command_sets :: u32
  ad_size :: u32
  ad_model :: bytes
  ad_serial :: bytes

definition ata_get_io_base :: "u8 \<Rightarrow> u16" where
  "ata_get_io_base channel = (if channel = ATA_PRIMARY then 0x1F0 else 0x170)"

definition ata_get_ctrl_base :: "u8 \<Rightarrow> u16" where
  "ata_get_ctrl_base channel = (if channel = ATA_PRIMARY then 0x3F6 else 0x376)"

definition ata_read :: "'w ports \<Rightarrow> u16 \<Rightarrow> u16 \<Rightarrow> 'w \<Rightarrow> u8 \<times> 'w" where
  "ata_read io base off w = inb io (base + off) w"

definition ata_write :: "'w ports \<Rightarrow> u16 \<Rightarrow> u16 \<Rightarrow> u8 \<Rightarrow> 'w \<Rightarrow> 'w" where
  "ata_write io base off v w = outb io (base + off) v w"

definition ata_read_word :: "'w ports \<Rightarrow> u16 \<Rightarrow> u16 \<Rightarrow> 'w \<Rightarrow> u16 \<times> 'w" where
  "ata_read_word io base off w = inw io (base + off) w"

definition ata_write_word :: "'w ports \<Rightarrow> u16 \<Rightarrow> u16 \<Rightarrow> u16 \<Rightarrow> 'w \<Rightarrow> 'w" where
  "ata_write_word io base off v w = outw io (base + off) v w"

definition ata_delay400ns :: "'w ports \<Rightarrow> u16 \<Rightarrow> 'w \<Rightarrow> 'w" where
  "ata_delay400ns io ctrl w =
     snd (ata_read io ctrl 0 (snd (ata_read io ctrl 0 (snd (ata_read io ctrl 0 (snd (ata_read io ctrl 0 w)))))))"

fun ata_wait_bsy_clear :: "'w ports \<Rightarrow> u16 \<Rightarrow> nat \<Rightarrow> 'w \<Rightarrow> int \<times> 'w" where
  "ata_wait_bsy_clear io base 0 w = (-1, w)"
| "ata_wait_bsy_clear io base (Suc k) w =
     (case ata_read io base 7 w of (status, w') \<Rightarrow>
        if status AND ATA_SR_BSY = 0
        then (if status AND (ATA_SR_ERR OR ATA_SR_DF) \<noteq> 0 then -1 else 0, w')
        else ata_wait_bsy_clear io base k w')"

fun ata_wait_drq :: "'w ports \<Rightarrow> u16 \<Rightarrow> nat \<Rightarrow> 'w \<Rightarrow> int \<times> 'w" where
  "ata_wait_drq io base 0 w = (-1, w)"
| "ata_wait_drq io base (Suc k) w =
     (case ata_read io base 7 w of (status, w') \<Rightarrow>
        if status AND (ATA_SR_ERR OR ATA_SR_DF) \<noteq> 0 then (-1, w')
        else if status AND ATA_SR_BSY = 0 \<and> status AND ATA_SR_DRQ \<noteq> 0 then (0, w')
        else ata_wait_drq io base k w')"

definition ata_wait_ready :: "'w ports \<Rightarrow> u16 \<Rightarrow> nat \<Rightarrow> 'w \<Rightarrow> int \<times> 'w" where
  "ata_wait_ready io base timeout_ms w = ata_wait_bsy_clear io base (timeout_ms * 1000) w"

definition ata_device_exists :: "'w ports \<Rightarrow> u16 \<Rightarrow> 'w \<Rightarrow> bool \<times> 'w" where
  "ata_device_exists io base w =
     (case ata_read io base 7 w of (status1, w1) \<Rightarrow>
        (case ata_read io base 7 w1 of (status2, w2) \<Rightarrow>
           (\<not> (status1 = 0xFF \<and> status2 = 0xFF), w2)))"

text \<open>The inner loops over the data port: \<open>n\<close> words in, and the words of a buffer out.\<close>

fun ata_words_in :: "'w ports \<Rightarrow> u16 \<Rightarrow> nat \<Rightarrow> 'w \<Rightarrow> bytes \<times> 'w" where
  "ata_words_in io base 0 w = ([], w)"
| "ata_words_in io base (Suc n) w =
     (case ata_read_word io base 0 w of (word, w1) \<Rightarrow>
        (case ata_words_in io base n w1 of (bs, w2) \<Rightarrow> (le16 word @ bs, w2)))"

fun ata_words_out :: "'w ports \<Rightarrow> u16 \<Rightarrow> nat \<Rightarrow> bytes \<Rightarrow> 'w \<Rightarrow> 'w" where
  "ata_words_out io base 0 buf w = w"
| "ata_words_out io base (Suc n) buf w =
     ata_words_out io base n (drop 2 buf) (ata_write_word io base 0 (join16 (buf ! 0) (buf ! 1)) w)"

definition swap_pairs :: "bytes \<Rightarrow> nat \<Rightarrow> nat \<Rightarrow> bytes" where
  "swap_pairs bs off n = concat (map (\<lambda>i. [bs ! (off + 2 * i + 1), bs ! (off + 2 * i)]) [0..<n])"

definition ata_detect_device :: "'w ports \<Rightarrow> u8 \<Rightarrow> u8 \<Rightarrow> 'w \<Rightarrow> int \<times> ata_device option \<times> 'w" where
  "ata_detect_device io channel drive w =
     (let base = ata_get_io_base channel;
          w1 = ata_write io base 6 (0xA0 OR push_bit 4 drive) w;
          w2 = ata_write io base 7 ATA_CMD_IDENTIFY_DRIVE w1
      in (case ata_wait_ready io base 100 w2 of (r, w3) \<Rightarrow>
           if r \<noteq> 0 then (-1, None, w3)
           else (case ata_read io base 7 w3 of (status, w4) \<Rightarrow>
             if status AND ATA_SR_DRQ = 0 then (-1, None, w4)
             else (case ata_words_in io base 256 w4 of (dat, w5) \<Rightarrow>
               (0, Some \<lparr>ad_channel = channel, ad_drive = drive, ad_type = dat ! 0 AND 0xFF,
                  ad_signature = get_le16 dat 0, ad_capabilities = get_le16 dat 98,
                  ad_command_sets = get_le32 dat 164, ad_size = get_le32 dat 120,
                  ad_model = swap_pairs dat 54 20 @ [0], ad_serial = swap_pairs dat 20 10 @ [0]\<rparr>, w5)))))"

text \<open>
  The common beginning of a transfer: the device check, the drive select with its waits
  and the address registers. The command follows.
\<close>

definition ata_select :: "'w ports \<Rightarrow> u8 \<Rightarrow> u8 \<Rightarrow> u32 \<Rightarrow> u16 \<Rightarrow> 'w \<Rightarrow> bool \<times> 'w" where
  "ata_select io channel drive lba count w =
     (let base = ata_get_io_base channel; ctrl = ata_get_ctrl_base channel in
      case ata_device_exists io base w of (ex, w1) \<Rightarrow>
        if \<not> ex then (False, w1)
        else (case ata_wait_bsy_clear io base 100000 w1 of (r, w2) \<Rightarrow>
          if r \<noteq> 0 then (False, w2)
          else
            let w3 = ata_write io base 6 (0xE0 OR push_bit 4 drive OR ucast (drop_bit 24 lba AND 0x0F)) w2;
                w4 = ata_delay400ns io ctrl w3
            in (case ata_wait_bsy_clear io base 100000 w4 of (r', w5) \<Rightarrow>
              if r' \<noteq> 0 then (False, w5)
              else
                let w6 = ata_write io base 2 (ucast (count AND 0xFF)) w5;
                    w7 = ata_write io base 3 (ucast (lba AND 0xFF)) w6;
                    w8 = ata_write io base 4 (ucast (drop_bit 8 lba AND 0xFF)) w7
                in (True, ata_write io base 5 (ucast (drop_bit 16 lba AND 0xFF)) w8))))"

text \<open>The sector loops: \<open>None\<close> is the timeout return, with the bytes stored so far.\<close>

fun ata_read_loop :: "'w ports \<Rightarrow> u8 \<Rightarrow> nat \<Rightarrow> 'w \<Rightarrow> bool \<times> bytes \<times> 'w" where
  "ata_read_loop io channel 0 w = (True, [], w)"
| "ata_read_loop io channel (Suc n) w =
     (let base = ata_get_io_base channel; ctrl = ata_get_ctrl_base channel in
      case ata_wait_drq io base 500000 (ata_delay400ns io ctrl w) of (r, w1) \<Rightarrow>
        if r \<noteq> 0 then (False, [], w1)
        else (case ata_words_in io base 256 w1 of (bs, w2) \<Rightarrow>
          (case ata_read_loop io channel n (ata_delay400ns io ctrl w2) of (ok, rest, w3) \<Rightarrow>
             (ok, bs @ rest, w3))))"

definition ata_read_sectors :: "'w ports \<Rightarrow> u8 \<Rightarrow> u8 \<Rightarrow> u32 \<Rightarrow> u16 \<Rightarrow> 'w \<Rightarrow> int \<times> bytes \<times> 'w" where
  "ata_read_sectors io channel drive lba count w =
     (case ata_select io channel drive lba count w of (ok, w1) \<Rightarrow>
        if \<not> ok then (-1, [], w1)
        else (case ata_read_loop io channel (unat count)
                (ata_write io (ata_get_io_base channel) 7 ATA_CMD_READ_PIO w1) of (ok', bs, w2) \<Rightarrow>
          (if ok' then int (unat count) else -1, bs, w2)))"

fun ata_write_loop :: "'w ports \<Rightarrow> u8 \<Rightarrow> nat \<Rightarrow> bytes \<Rightarrow> 'w \<Rightarrow> bool \<times> 'w" where
  "ata_write_loop io channel 0 buf w = (True, w)"
| "ata_write_loop io channel (Suc n) buf w =
     (let base = ata_get_io_base channel in
      case ata_wait_drq io base 500000 w of (r, w1) \<Rightarrow>
        if r \<noteq> 0 then (False, w1)
        else
          let w2 = ata_words_out io base 256 buf w1;
              w3 = ata_write io base 7 0xE7 w2
          in (case ata_wait_bsy_clear io base 500000 w3 of (r', w4) \<Rightarrow>
               if r' \<noteq> 0 then (False, w4)
               else ata_write_loop io channel n (drop 512 buf) w4))"

definition ata_write_sectors :: "'w ports \<Rightarrow> u8 \<Rightarrow> u8 \<Rightarrow> u32 \<Rightarrow> u16 \<Rightarrow> bytes \<Rightarrow> 'w \<Rightarrow> int \<times> 'w" where
  "ata_write_sectors io channel drive lba count buf w =
     (case ata_select io channel drive lba count w of (ok, w1) \<Rightarrow>
        if \<not> ok then (-1, w1)
        else (case ata_write_loop io channel (unat count) buf
                (ata_write io (ata_get_io_base channel) 7 ATA_CMD_WRITE_PIO w1) of (ok', w2) \<Rightarrow>
          (if ok' then int (unat count) else -1, w2)))"

definition ata_get_device_count :: int where
  "ata_get_device_count = 0"

definition ata_get_device :: "int \<Rightarrow> ata_device option" where
  "ata_get_device index = None"

end
