(* ===== verification/Block_Device.thy ===== *)
theory Block_Device
  imports Ports
begin

text \<open>
  The interface the partition table and the file system have to the disk driver: a record
  with the two sector operations, and the laws of a drive that works, as a locale. A read
  gives the return value (the sector count, or -1) and the bytes stored to the caller's
  buffer; a write takes the caller's buffer.
\<close>

record 'w blkdev =
  blk_read :: "u8 \<Rightarrow> u8 \<Rightarrow> u32 \<Rightarrow> u16 \<Rightarrow> 'w \<Rightarrow> int \<times> bytes \<times> 'w"
  blk_write :: "u8 \<Rightarrow> u8 \<Rightarrow> u32 \<Rightarrow> u16 \<Rightarrow> bytes \<Rightarrow> 'w \<Rightarrow> int \<times> 'w"

text \<open>The sectors of a disk: the bytes of a run, and a run overwritten.\<close>

type_synonym disk = "nat \<Rightarrow> bytes"

definition disk_run :: "disk \<Rightarrow> nat \<Rightarrow> nat \<Rightarrow> bytes" where
  "disk_run d l n = concat (map d [l..<l + n])"

definition disk_put :: "disk \<Rightarrow> nat \<Rightarrow> nat \<Rightarrow> bytes \<Rightarrow> disk" where
  "disk_put d l n bs = (\<lambda>k. if l \<le> k \<and> k < l + n then seg ((k - l) * 512) 512 bs else d k)"

definition disk_ok :: "disk \<Rightarrow> bool" where
  "disk_ok d \<longleftrightarrow> (\<forall>k. length (d k) = 512)"

lemma disk_run_Suc: "disk_run d l (Suc n) = d l @ disk_run d (Suc l) n"
  by (simp add: disk_run_def upt_conv_Cons del: upt_Suc)

lemma disk_run_0 [simp]: "disk_run d l 0 = []"
  by (simp add: disk_run_def)

lemma disk_run_1 [simp]: "disk_run d l (Suc 0) = d l"
  by (simp add: disk_run_Suc)

lemma length_disk_run [simp]: "disk_ok d \<Longrightarrow> length (disk_run d l n) = n * 512"
  by (induction n arbitrary: l) (auto simp: disk_run_Suc disk_ok_def)

lemma disk_put_0: "disk_put d l 0 bs = d"
  by (auto simp: disk_put_def fun_eq_iff)

lemma disk_put_Suc:
  "Suc n * 512 \<le> length bs \<Longrightarrow>
    disk_put d l (Suc n) bs = disk_put (d(l := take 512 bs)) (Suc l) n (drop 512 bs)"
proof
  fix k assume "Suc n * 512 \<le> length bs"
  consider "k < l" | "k = l" | m where "k = Suc (l + m)" by (metis less_imp_Suc_add linorder_neqE_nat)
  then show "disk_put d l (Suc n) bs k = disk_put (d(l := take 512 bs)) (Suc l) n (drop 512 bs) k"
    by cases (auto simp: disk_put_def seg_def algebra_simps)
qed

lemma disk_put_one: "512 \<le> length bs \<Longrightarrow> disk_put d l (Suc 0) bs = d(l := take 512 bs)"
  using disk_put_Suc [of 0 bs d l] by (simp add: disk_put_0)

lemma disk_put_take: "disk_put d l (Suc 0) (take 512 bs) = disk_put d l (Suc 0) bs"
  by (auto simp: disk_put_def seg_def fun_eq_iff)

lemma disk_put_cons:
  "Suc n * 512 \<le> length bs \<Longrightarrow>
    disk_put d l (Suc n) bs = disk_put (disk_put d l (Suc 0) (take 512 bs)) (Suc l) n (drop 512 bs)"
  using disk_put_Suc [of n bs d l] disk_put_one [of bs d l] by (simp add: disk_put_take)

lemma disk_put_ok: "disk_ok d \<Longrightarrow> n * 512 \<le> length bs \<Longrightarrow> disk_ok (disk_put d l n bs)"
proof -
  assume d: "disk_ok d" and n: "n * 512 \<le> length bs"
  have "(k - l) * 512 + 512 \<le> length bs" if "l \<le> k" "k < l + n" for k
  proof -
    have "Suc (k - l) * 512 \<le> n * 512" using that by (intro mult_le_mono1) simp
    with n show ?thesis by simp
  qed
  with d show ?thesis by (simp add: disk_ok_def disk_put_def)
qed

text \<open>
  A working drive: \<open>disk\<close> gives the contents of its \<open>cap\<close> sectors, \<open>ready\<close> holds
  between operations. The driver takes at most 255 sectors at a time.
\<close>

locale block_device =
  fixes rd :: "u32 \<Rightarrow> u16 \<Rightarrow> 'w \<Rightarrow> int \<times> bytes \<times> 'w"
    and wr :: "u32 \<Rightarrow> u16 \<Rightarrow> bytes \<Rightarrow> 'w \<Rightarrow> int \<times> 'w"
    and disk :: "'w \<Rightarrow> disk"
    and ready :: "'w \<Rightarrow> bool"
    and cap :: nat
  assumes disk_len: "ready w \<Longrightarrow> disk_ok (disk w)"
    and read_ok: "ready w \<Longrightarrow> 0 < n \<Longrightarrow> unat n \<le> 255 \<Longrightarrow> unat l + unat n \<le> cap \<Longrightarrow>
      \<exists>w'. rd l n w = (int (unat n), disk_run (disk w) (unat l) (unat n), w') \<and> ready w' \<and> disk w' = disk w"
    and write_ok: "ready w \<Longrightarrow> 0 < n \<Longrightarrow> unat n \<le> 255 \<Longrightarrow> unat l + unat n \<le> cap \<Longrightarrow>
      unat n * 512 \<le> length bs \<Longrightarrow>
      \<exists>w'. wr l n bs w = (int (unat n), w') \<and> ready w'
        \<and> disk w' = disk_put (disk w) (unat l) (unat n) bs"
begin

lemma read_after_write:
  assumes "ready w" "0 < n" "unat n \<le> 255" "unat l + unat n \<le> cap" "length bs = unat n * 512"
  shows "\<exists>w1 w2. wr l n bs w = (int (unat n), w1) \<and> rd l n w1 = (int (unat n), bs, w2) \<and> ready w2"
proof -
  have "unat n * 512 \<le> length bs" using assms(5) by simp
  from write_ok [OF assms(1-4) this] obtain w1 where
    w1: "wr l n bs w = (int (unat n), w1)" "ready w1" "disk w1 = disk_put (disk w) (unat l) (unat n) bs" by blast
  have run: "disk_run (disk_put d k m bs) k m = bs" if "length bs = m * 512" for d :: disk and k m bs
    using that
  proof (induction m arbitrary: d k bs)
    case (Suc m)
    have "disk_put d k (Suc m) bs = disk_put (d(k := take 512 bs)) (Suc k) m (drop 512 bs)"
      using Suc.prems by (intro disk_put_Suc) simp
    moreover have "disk_put (d(k := take 512 bs)) (Suc k) m (drop 512 bs) k = take 512 bs"
      by (simp add: disk_put_def)
    moreover have "disk_run (disk_put (d(k := take 512 bs)) (Suc k) m (drop 512 bs)) (Suc k) m = drop 512 bs"
      using Suc.prems by (intro Suc.IH) simp
    ultimately show ?case by (simp add: disk_run_Suc)
  qed simp
  from read_ok [OF w1(2) assms(2-4)] w1 run [OF assms(5)] show ?thesis by auto
qed

end

end
