(* ===== verification/Ata_Pio.thy ===== *)
theory Ata_Pio
  imports Ata Block_Device
begin

text \<open>
  The ATA driver against the PIO protocol: a drive as the ATA standard describes it, as an
  instance of the ports, and the interpretation of the block device interface by the
  driver on that drive. The drive has the task file registers and a busy period of \<open>pio_delay\<close>
  status reads before every block and after every command. It sits on the primary channel, at
  the position \<open>pio_unit\<close> (0 or 1); when the device register selects the other one, where no
  drive is, the status reads as 0. In LBA mode the address is the 28-bit number in the
  registers, otherwise cylinder, head and sector of the default translation (16 heads, 63
  sectors). The standard forbids writing a command while the drive is busy or requests data,
  and does not say what happens then. A \<open>pio_tolerant\<close> drive ignores such a command, as the
  disks of QEMU do, on which the repository runs the kernel; another one gives up the
  transfer and reports an error until the next command. Every other port reads as zero.
\<close>

datatype pio_phase =
    Idle
  | Reading nat nat nat
  | Writing nat nat bytes

text \<open>
  \<open>Reading n l i\<close>: \<open>n\<close> sectors are left from \<open>l\<close> on, and word \<open>i\<close> of the first is next.
  \<open>Writing n l bs\<close>: \<open>n\<close> sectors are left from \<open>l\<close> on, and \<open>bs\<close> of the first has come in.
\<close>

record pio =
  pio_disk :: disk
  pio_count :: u8
  pio_lba0 :: u8
  pio_lba1 :: u8
  pio_lba2 :: u8
  pio_dev :: u8
  pio_unit :: u8
  pio_tolerant :: bool
  pio_err :: bool
  pio_delay :: nat
  pio_busy :: nat
  pio_phase :: pio_phase

definition pio_chosen :: "pio \<Rightarrow> bool" where
  "pio_chosen d \<longleftrightarrow> drop_bit 4 (pio_dev d) AND 1 = pio_unit d"

definition pio_address :: "pio \<Rightarrow> nat" where
  "pio_address d =
     (if pio_dev d AND 0x40 \<noteq> 0
      then unat (pio_lba0 d) + 256 * unat (pio_lba1 d) + 65536 * unat (pio_lba2 d) + 16777216 * unat (pio_dev d AND 0x0F)
      else ((unat (pio_lba1 d) + 256 * unat (pio_lba2 d)) * 16 + unat (pio_dev d AND 0x0F)) * 63 + unat (pio_lba0 d) - 1)"

definition pio_sectors :: "pio \<Rightarrow> nat" where
  "pio_sectors d = (if pio_count d = 0 then 256 else unat (pio_count d))"

definition pio_status :: "pio \<Rightarrow> u8 \<times> pio" where
  "pio_status d =
     (if \<not> pio_chosen d then (0, d)
      else if 0 < pio_busy d then (0x80, d\<lparr>pio_busy := pio_busy d - 1\<rparr>)
      else (if pio_err d then 0x51 else if pio_phase d = Idle then 0x50 else 0x58, d))"

definition pio_command :: "u8 \<Rightarrow> pio \<Rightarrow> pio" where
  "pio_command c d =
     (if \<not> pio_chosen d then d
      else if 0 < pio_busy d \<or> pio_phase d \<noteq> Idle
      then (if pio_tolerant d then d else d\<lparr>pio_phase := Idle, pio_err := True\<rparr>)
      else if c = 0x20
      then d\<lparr>pio_phase := Reading (pio_sectors d) (pio_address d) 0, pio_busy := pio_delay d, pio_err := False\<rparr>
      else if c = 0x30
      then d\<lparr>pio_phase := Writing (pio_sectors d) (pio_address d) [], pio_busy := pio_delay d, pio_err := False\<rparr>
      else if c = 0xE7 then d\<lparr>pio_busy := pio_delay d, pio_err := False\<rparr>
      else d)"

definition pio_inb :: "u16 \<Rightarrow> pio \<Rightarrow> u8 \<times> pio" where
  "pio_inb p d = (if p = 0x1F7 then pio_status d else (0, d))"

definition pio_outb :: "u16 \<Rightarrow> u8 \<Rightarrow> pio \<Rightarrow> pio" where
  "pio_outb p v d =
     (if p = 0x1F7 then pio_command v d
      else if p = 0x1F2 then d\<lparr>pio_count := v\<rparr>
      else if p = 0x1F3 then d\<lparr>pio_lba0 := v\<rparr>
      else if p = 0x1F4 then d\<lparr>pio_lba1 := v\<rparr>
      else if p = 0x1F5 then d\<lparr>pio_lba2 := v\<rparr>
      else if p = 0x1F6 then d\<lparr>pio_dev := v\<rparr>
      else d)"

definition pio_inw :: "u16 \<Rightarrow> pio \<Rightarrow> u16 \<times> pio" where
  "pio_inw p d =
     (case pio_phase d of
        Reading n l i \<Rightarrow>
          if p = 0x1F0 \<and> pio_chosen d \<and> pio_busy d = 0
          then (get_le16 (pio_disk d l) (2 * i),
                if i < 255 then d\<lparr>pio_phase := Reading n l (Suc i)\<rparr>
                else if n = 1 then d\<lparr>pio_phase := Idle\<rparr>
                else d\<lparr>pio_phase := Reading (n - 1) (Suc l) 0, pio_busy := pio_delay d\<rparr>)
          else (0, d)
      | _ \<Rightarrow> (0, d))"

definition pio_outw :: "u16 \<Rightarrow> u16 \<Rightarrow> pio \<Rightarrow> pio" where
  "pio_outw p v d =
     (case pio_phase d of
        Writing n l bs \<Rightarrow>
          if p = 0x1F0 \<and> pio_chosen d \<and> pio_busy d = 0
          then (if length bs < 510 then d\<lparr>pio_phase := Writing n l (bs @ le16 v)\<rparr>
                else d\<lparr>pio_disk := disk_put (pio_disk d) l 1 (bs @ le16 v), pio_busy := pio_delay d,
                       pio_phase := (if n = 1 then Idle else Writing (n - 1) (Suc l) [])\<rparr>)
          else d
      | _ \<Rightarrow> d)"

definition pio_ports :: "pio ports" where
  "pio_ports = \<lparr>inb = pio_inb, outb = pio_outb, inw = pio_inw, outw = pio_outw\<rparr>"

subsection \<open>Waiting\<close>

text \<open>The drive is selected and has no error to report.\<close>

definition pio_live :: "pio \<Rightarrow> bool" where
  "pio_live d \<longleftrightarrow> pio_chosen d \<and> \<not> pio_err d"

lemma pio_live_simps [simp]:
  "pio_live (d\<lparr>pio_busy := b\<rparr>) = pio_live d" "pio_live (d\<lparr>pio_phase := ph\<rparr>) = pio_live d"
  "pio_live (d\<lparr>pio_disk := D\<rparr>) = pio_live d"
  by (simp_all add: pio_live_def pio_chosen_def)

lemma pio_live_step: "pio_live d \<Longrightarrow> pio_live (d\<lparr>pio_phase := ph, pio_busy := b\<rparr>)"
  by (simp add: pio_live_def pio_chosen_def)

lemma pio_liveD: "pio_live d \<Longrightarrow> pio_chosen d" "pio_live d \<Longrightarrow> \<not> pio_err d"
  by (simp_all add: pio_live_def)

lemma base_ports: "ata_get_io_base 0 = 0x1F0" "ata_get_ctrl_base 0 = 0x3F6"
  by (simp_all add: ata_get_io_base_def ata_get_ctrl_base_def ATA_PRIMARY_def)

lemma status_read [simp]: "ata_read pio_ports 0x1F0 7 d = pio_status d"
  by (simp add: ata_read_def pio_ports_def pio_inb_def)

lemma delay_same [simp]: "ata_delay400ns pio_ports 0x3F6 d = d"
  by (simp add: ata_delay400ns_def ata_read_def pio_ports_def pio_inb_def)

lemmas ata_bits = ATA_SR_BSY_def ATA_SR_DF_def ATA_SR_DRQ_def ATA_SR_ERR_def

lemma live_status: "pio_live d \<Longrightarrow> pio_status d = (if 0 < pio_busy d then (0x80, d\<lparr>pio_busy := pio_busy d - 1\<rparr>)
    else (if pio_phase d = Idle then 0x50 else 0x58, d))"
  by (simp add: pio_status_def pio_live_def)

lemma wait_bsy:
  "pio_live d \<Longrightarrow> pio_busy d < k \<Longrightarrow> ata_wait_bsy_clear pio_ports 0x1F0 k d = (0, d\<lparr>pio_busy := 0\<rparr>)"
proof (induction k arbitrary: d)
  case (Suc k)
  show ?case
  proof (cases "pio_busy d")
    case 0
    with Suc.prems show ?thesis by (cases d) (simp add: live_status ata_bits)
  next
    case (Suc b)
    with Suc.IH [of "d\<lparr>pio_busy := b\<rparr>"] Suc.prems show ?thesis by (simp add: live_status ata_bits)
  qed
qed simp

lemma wait_drq:
  "pio_live d \<Longrightarrow> pio_busy d < k \<Longrightarrow> pio_phase d \<noteq> Idle \<Longrightarrow>
    ata_wait_drq pio_ports 0x1F0 k d = (0, d\<lparr>pio_busy := 0\<rparr>)"
proof (induction k arbitrary: d)
  case (Suc k)
  show ?case
  proof (cases "pio_busy d")
    case 0
    with Suc.prems show ?thesis by (cases d) (simp add: live_status ata_bits)
  next
    case (Suc b)
    with Suc.IH [of "d\<lparr>pio_busy := b\<rparr>"] Suc.prems show ?thesis by (simp add: live_status ata_bits)
  qed
qed simp

subsection \<open>Data transfer\<close>

lemma word_in:
  "pio_live d \<Longrightarrow> pio_phase d = Reading n l i \<Longrightarrow> pio_busy d = 0 \<Longrightarrow>
    ata_read_word pio_ports 0x1F0 0 d = (get_le16 (pio_disk d l) (2 * i),
      if i < 255 then d\<lparr>pio_phase := Reading n l (Suc i)\<rparr>
      else if n = 1 then d\<lparr>pio_phase := Idle\<rparr>
      else d\<lparr>pio_phase := Reading (n - 1) (Suc l) 0, pio_busy := pio_delay d\<rparr>)"
  by (simp add: ata_read_word_def pio_ports_def pio_inw_def pio_liveD)

lemma le16_join: "le16 (join16 a b) = [a, b]"
  unfolding le16_def join16_def
  by (simp, intro conjI; rule bit_word_eqI; auto simp: bit_simps dest: bit_imp_le_length)

lemma le16_get: "i + 2 \<le> length b \<Longrightarrow> le16 (get_le16 b i) = seg i 2 b"
  by (simp add: get_le16_def le16_join seg_def numeral_2_eq_2 Cons_nth_drop_Suc take_Suc_Cons
      take_Suc_conv_app_nth)

lemma words_in:
  "pio_live d \<Longrightarrow> pio_phase d = Reading n l i \<Longrightarrow> pio_busy d = 0 \<Longrightarrow> length (pio_disk d l) = 512 \<Longrightarrow> i + Suc k = 256 \<Longrightarrow>
    ata_words_in pio_ports 0x1F0 (Suc k) d = (seg (2 * i) (2 * Suc k) (pio_disk d l),
      if n = 1 then d\<lparr>pio_phase := Idle\<rparr>
      else d\<lparr>pio_phase := Reading (n - 1) (Suc l) 0, pio_busy := pio_delay d\<rparr>)"
proof (induction k arbitrary: d i)
  case 0
  then have "i = 255" by simp
  with 0 show ?case by (simp add: word_in le16_get)
next
  case (Suc k)
  have w: "ata_read_word pio_ports 0x1F0 0 d
      = (get_le16 (pio_disk d l) (2 * i), d\<lparr>pio_phase := Reading n l (Suc i)\<rparr>)"
    using Suc.prems by (simp add: word_in)
  have "ata_words_in pio_ports 0x1F0 (Suc k) (d\<lparr>pio_phase := Reading n l (Suc i)\<rparr>)
      = (seg (2 * Suc i) (2 * Suc k) (pio_disk d l),
         if n = 1 then d\<lparr>pio_phase := Idle\<rparr>
         else d\<lparr>pio_phase := Reading (n - 1) (Suc l) 0, pio_busy := pio_delay d\<rparr>)"
    using Suc.IH [of "d\<lparr>pio_phase := Reading n l (Suc i)\<rparr>" "Suc i"] Suc.prems by simp
  moreover have "le16 (get_le16 (pio_disk d l) (2 * i)) = seg (2 * i) 2 (pio_disk d l)"
    using Suc.prems by (intro le16_get) simp
  moreover have "seg (2 * i) 2 (pio_disk d l) @ seg (2 * Suc i) (2 * Suc k) (pio_disk d l)
      = seg (2 * i) (2 * Suc (Suc k)) (pio_disk d l)"
    using seg_append [of "2 * i" 2 "pio_disk d l" "2 * Suc k"] by simp
  ultimately show ?case by (subst ata_words_in.simps) (simp add: w del: ata_words_in.simps)
qed

lemma sector_in:
  "pio_live d \<Longrightarrow> pio_phase d = Reading n l 0 \<Longrightarrow> pio_busy d = 0 \<Longrightarrow> length (pio_disk d l) = 512 \<Longrightarrow>
    ata_words_in pio_ports 0x1F0 256 d = (pio_disk d l,
      if n = 1 then d\<lparr>pio_phase := Idle\<rparr>
      else d\<lparr>pio_phase := Reading (n - 1) (Suc l) 0, pio_busy := pio_delay d\<rparr>)"
  using words_in [of d n l 0 255] by (simp add: seg_def del: ata_words_in.simps)

lemma word_out:
  "pio_live d \<Longrightarrow> pio_phase d = Writing n l bs \<Longrightarrow> pio_busy d = 0 \<Longrightarrow>
    ata_write_word pio_ports 0x1F0 0 v d =
      (if length bs < 510 then d\<lparr>pio_phase := Writing n l (bs @ le16 v)\<rparr>
       else d\<lparr>pio_disk := disk_put (pio_disk d) l 1 (bs @ le16 v), pio_busy := pio_delay d,
              pio_phase := (if n = 1 then Idle else Writing (n - 1) (Suc l) [])\<rparr>)"
  by (simp add: ata_write_word_def pio_ports_def pio_outw_def pio_liveD)

lemma take_two: "2 \<le> length buf \<Longrightarrow> [buf ! 0, buf ! 1] = take 2 buf"
  by (cases buf; cases "tl buf") auto

lemma words_out:
  "pio_live d \<Longrightarrow> pio_phase d = Writing n l bs \<Longrightarrow> pio_busy d = 0 \<Longrightarrow> length bs + 2 * Suc k = 512 \<Longrightarrow>
    2 * Suc k \<le> length buf \<Longrightarrow>
    ata_words_out pio_ports 0x1F0 (Suc k) buf d =
      d\<lparr>pio_disk := disk_put (pio_disk d) l 1 (bs @ take (2 * Suc k) buf), pio_busy := pio_delay d,
        pio_phase := (if n = 1 then Idle else Writing (n - 1) (Suc l) [])\<rparr>"
proof (induction k arbitrary: d bs buf)
  case 0
  have t: "le16 (join16 (buf ! 0) (buf ! 1)) = take 2 buf"
    using 0(5) by (simp add: le16_join take_two [symmetric])
  have "\<not> length bs < 510" using 0(4) by presburger
  moreover have "take (2 * Suc 0) buf = take 2 buf" by (simp only: mult_Suc_right mult_0_right add_0_right)
  ultimately show ?case using word_out [OF 0(1-3), of "join16 (buf ! 0) (buf ! 1)", unfolded t]
    by (simp only: ata_words_out.simps if_False)
next
  case (Suc k)
  have t: "le16 (join16 (buf ! 0) (buf ! 1)) = take 2 buf"
    using Suc.prems(5) by (simp add: le16_join take_two [symmetric])
  let ?d = "d\<lparr>pio_phase := Writing n l (bs @ take 2 buf)\<rparr>"
  have w: "ata_write_word pio_ports 0x1F0 0 (join16 (buf ! 0) (buf ! 1)) d = ?d"
    using word_out [OF Suc.prems(1-3), of "join16 (buf ! 0) (buf ! 1)"] Suc.prems(4) t by simp
  have app: "(bs @ take 2 buf) @ take (2 * Suc k) (drop 2 buf) = bs @ take (2 * Suc (Suc k)) buf"
    using take_add [of 2 "2 * Suc k" buf] by simp
  have "length (bs @ take 2 buf) + 2 * Suc k = 512" "2 * Suc k \<le> length (drop 2 buf)"
    using Suc.prems(4,5) by simp_all
  from Suc.IH [of ?d "bs @ take 2 buf" "drop 2 buf", OF _ _ _ this, unfolded app] Suc.prems(1,3)
  have "ata_words_out pio_ports 0x1F0 (Suc k) (drop 2 buf) ?d =
      d\<lparr>pio_disk := disk_put (pio_disk d) l 1 (bs @ take (2 * Suc (Suc k)) buf), pio_busy := pio_delay d,
        pio_phase := (if n = 1 then Idle else Writing (n - 1) (Suc l) [])\<rparr>" by simp
  then show ?case by (simp only: ata_words_out.simps(2) [of _ _ "Suc k"] w)
qed

lemma sector_out:
  "pio_live d \<Longrightarrow> pio_phase d = Writing n l [] \<Longrightarrow> pio_busy d = 0 \<Longrightarrow> 512 \<le> length buf \<Longrightarrow>
    ata_words_out pio_ports 0x1F0 256 buf d =
      d\<lparr>pio_disk := disk_put (pio_disk d) l 1 (take 512 buf), pio_busy := pio_delay d,
        pio_phase := (if n = 1 then Idle else Writing (n - 1) (Suc l) [])\<rparr>"
  using words_out [of d n l "[]" 255 buf] by (simp del: ata_words_out.simps)

subsection \<open>The sector loops\<close>

lemma read_loop_ok:
  "pio_live d \<Longrightarrow> pio_delay d < 500000 \<Longrightarrow> pio_phase d = Reading (Suc n) l 0 \<Longrightarrow> pio_busy d < 500000 \<Longrightarrow> disk_ok (pio_disk d) \<Longrightarrow>
    ata_read_loop pio_ports 0 (Suc n) d
      = (True, disk_run (pio_disk d) l (Suc n), d\<lparr>pio_phase := Idle, pio_busy := 0\<rparr>)"
proof (induction n arbitrary: d l)
  case 0
  have "ata_words_in pio_ports 0x1F0 256 (d\<lparr>pio_busy := 0\<rparr>)
      = (pio_disk d l, d\<lparr>pio_busy := 0, pio_phase := Idle\<rparr>)"
    using sector_in [of "d\<lparr>pio_busy := 0\<rparr>" 1 l] 0 by (simp add: disk_ok_def)
  with 0 show ?case by (simp add: base_ports Let_def wait_drq del: ata_words_in.simps)
next
  case (Suc n)
  let ?e = "d\<lparr>pio_phase := Reading (Suc n) (Suc l) 0, pio_busy := pio_delay d\<rparr>"
  have "ata_words_in pio_ports 0x1F0 256 (d\<lparr>pio_busy := 0\<rparr>) = (pio_disk d l, ?e)"
    using sector_in [of "d\<lparr>pio_busy := 0\<rparr>" "Suc (Suc n)" l] Suc.prems by (simp add: disk_ok_def)
  moreover have "ata_read_loop pio_ports 0 (Suc n) ?e
      = (True, disk_run (pio_disk d) (Suc l) (Suc n), d\<lparr>pio_phase := Idle, pio_busy := 0\<rparr>)"
    using Suc.IH [of ?e "Suc l"] Suc.prems by simp
  ultimately show ?case using Suc.prems
    by (subst ata_read_loop.simps) (simp add: base_ports Let_def wait_drq disk_run_Suc
      del: ata_words_in.simps ata_read_loop.simps)
qed

lemma flush_cmd:
  "pio_live d \<Longrightarrow> pio_tolerant d \<Longrightarrow> pio_delay d < 500000 \<Longrightarrow> pio_busy d = pio_delay d \<Longrightarrow>
    ata_wait_bsy_clear pio_ports 0x1F0 500000 (ata_write pio_ports 0x1F0 7 0xE7 d)
      = (0, d\<lparr>pio_busy := 0\<rparr>)"
proof -
  assume a: "pio_live d" "pio_tolerant d" "pio_delay d < 500000" "pio_busy d = pio_delay d"
  have "ata_write pio_ports 0x1F0 7 0xE7 d = d"
    using a by (simp add: ata_write_def pio_ports_def pio_outb_def pio_command_def pio_liveD)
  with a wait_bsy [of d 500000] show ?thesis by (simp del: ata_wait_bsy_clear.simps)
qed

lemma write_loop_ok:
  "pio_live d \<Longrightarrow> pio_tolerant d \<Longrightarrow> pio_delay d < 500000 \<Longrightarrow> pio_phase d = Writing (Suc n) l [] \<Longrightarrow> pio_busy d < 500000 \<Longrightarrow> Suc n * 512 \<le> length buf \<Longrightarrow>
    ata_write_loop pio_ports 0 (Suc n) buf d
      = (True, d\<lparr>pio_disk := disk_put (pio_disk d) l (Suc n) buf, pio_phase := Idle, pio_busy := 0\<rparr>)"
proof (induction n arbitrary: d l buf)
  case 0
  let ?e = "d\<lparr>pio_disk := disk_put (pio_disk d) l 1 (take 512 buf), pio_busy := pio_delay d, pio_phase := Idle\<rparr>"
  have "ata_words_out pio_ports 0x1F0 256 buf (d\<lparr>pio_busy := 0\<rparr>) = ?e"
    using sector_out [of "d\<lparr>pio_busy := 0\<rparr>" 1 l buf] 0 by simp
  with 0 flush_cmd [of ?e] show ?case
    by (simp add: base_ports Let_def wait_drq disk_put_take del: ata_words_out.simps ata_wait_bsy_clear.simps)
next
  case (Suc n)
  let ?e = "d\<lparr>pio_disk := disk_put (pio_disk d) l 1 (take 512 buf), pio_busy := pio_delay d, pio_phase := Writing (Suc n) (Suc l) []\<rparr>"
  have "ata_words_out pio_ports 0x1F0 256 buf (d\<lparr>pio_busy := 0\<rparr>) = ?e"
    using sector_out [of "d\<lparr>pio_busy := 0\<rparr>" "Suc (Suc n)" l buf] Suc.prems by simp
  moreover have "ata_write_loop pio_ports 0 (Suc n) (drop 512 buf) (?e\<lparr>pio_busy := 0\<rparr>)
      = (True, d\<lparr>pio_disk := disk_put (disk_put (pio_disk d) l 1 (take 512 buf)) (Suc l) (Suc n) (drop 512 buf),
           pio_phase := Idle, pio_busy := 0\<rparr>)"
    using Suc.IH [of "?e\<lparr>pio_busy := 0\<rparr>" "Suc l" "drop 512 buf"] Suc.prems by simp
  ultimately show ?case using Suc.prems flush_cmd [of ?e]
    by (subst ata_write_loop.simps) (simp add: base_ports Let_def wait_drq disk_put_cons [of "Suc n"]
      del: ata_words_out.simps ata_wait_bsy_clear.simps ata_write_loop.simps)
qed

subsection \<open>Selecting the drive and the address\<close>

text \<open>
  Between two operations: the drive at the given position waits for a command and reports no
  error. \<open>pio_ready\<close> says also that it ignores a command it cannot take.
\<close>

definition pio_waiting :: "u8 \<Rightarrow> pio \<Rightarrow> bool" where
  "pio_waiting drive d \<longleftrightarrow> drive \<le> 1 \<and> pio_unit d = drive \<and> \<not> pio_err d
     \<and> pio_phase d = Idle \<and> pio_busy d < 100000 \<and> pio_delay d < 100000 \<and> disk_ok (pio_disk d)"

definition pio_ready :: "u8 \<Rightarrow> pio \<Rightarrow> bool" where
  "pio_ready drive d \<longleftrightarrow> pio_waiting drive d \<and> pio_tolerant d"

definition pio_selected :: "u8 \<Rightarrow> u32 \<Rightarrow> u16 \<Rightarrow> pio \<Rightarrow> pio" where
  "pio_selected drive lba count d = d\<lparr>pio_busy := 0,
     pio_dev := 0xE0 OR push_bit 4 drive OR ucast (drop_bit 24 lba AND 0x0F), pio_count := ucast count,
     pio_lba0 := ucast lba, pio_lba1 := ucast (drop_bit 8 lba), pio_lba2 := ucast (drop_bit 16 lba)\<rparr>"

text \<open>The first waits: without the drive selected they see a status of 0.\<close>

lemma exists_ok: "\<not> pio_err d \<Longrightarrow> \<exists>b \<le> pio_busy d. ata_device_exists pio_ports 0x1F0 d = (True, d\<lparr>pio_busy := b\<rparr>)"
proof -
  assume e: "\<not> pio_err d"
  show ?thesis
  proof (cases "pio_chosen d")
    case True
    have c: "pio_chosen (d\<lparr>pio_busy := b\<rparr>)" for b using True by (simp add: pio_chosen_def)
    consider "pio_busy d = 0" | "pio_busy d = 1" | k where "pio_busy d = Suc (Suc k)"
      by (metis One_nat_def not0_implies_Suc)
    then have "ata_device_exists pio_ports 0x1F0 d = (True, d\<lparr>pio_busy := pio_busy d - 2\<rparr>)"
      by cases (use e True c in \<open>auto simp: ata_device_exists_def pio_status_def\<close>)
    then show ?thesis by (intro exI [of _ "pio_busy d - 2"]) simp
  next
    case False
    then show ?thesis by (intro exI [of _ "pio_busy d"]) (simp add: ata_device_exists_def pio_status_def)
  qed
qed

lemma first_wait:
  "\<not> pio_err d \<Longrightarrow> pio_busy d < k \<Longrightarrow> \<exists>b \<le> pio_busy d. ata_wait_bsy_clear pio_ports 0x1F0 k d = (0, d\<lparr>pio_busy := b\<rparr>)"
proof (cases "pio_chosen d")
  case True
  assume "\<not> pio_err d" "pio_busy d < k"
  with True wait_bsy [of d k] show ?thesis by (auto simp: pio_live_def)
next
  case False
  assume "pio_busy d < k"
  then obtain m where "k = Suc m" by (cases k) auto
  with False show ?thesis by (intro exI [of _ "pio_busy d"]) (simp add: pio_status_def ata_bits)
qed

lemma register_writes:
  "ata_write pio_ports 0x1F0 2 v d = d\<lparr>pio_count := v\<rparr>" "ata_write pio_ports 0x1F0 3 v d = d\<lparr>pio_lba0 := v\<rparr>"
  "ata_write pio_ports 0x1F0 4 v d = d\<lparr>pio_lba1 := v\<rparr>" "ata_write pio_ports 0x1F0 5 v d = d\<lparr>pio_lba2 := v\<rparr>"
  "ata_write pio_ports 0x1F0 6 v d = d\<lparr>pio_dev := v\<rparr>" "ata_write pio_ports 0x1F0 7 v d = pio_command v d"
  by (simp_all add: ata_write_def pio_ports_def pio_outb_def)

text \<open>The device register: LBA mode, and the drive's position in bit 4.\<close>

lemma dev_bits:
  fixes drive :: u8 and x :: u32
  assumes "drive \<le> 1"
  defines "v \<equiv> 0xE0 OR push_bit 4 drive OR ucast (x AND 0x0F)"
  shows "v AND 0x40 \<noteq> 0" "drop_bit 4 v AND 1 = drive"
proof -
  have c: "(0xE0 :: u8) = push_bit 5 (mask 3)" "(0x40 :: u8) = push_bit 6 1" "(0x0F :: u32) = mask 4"
    by (simp_all add: mask_eq_exp_minus_1)
  have "bit v 6" unfolding v_def c by (simp add: bit_simps del: push_bit_numeral)
  then show "v AND 0x40 \<noteq> 0" unfolding c(2) by (simp only: bit_iff_and_push_bit_not_eq_0 not_False_eq_True)
  have d: "drive = 0 \<or> drive = 1" using assms(1) by (auto simp: word_le_nat_alt word_unat_eq_iff)
  have "bit (drop_bit 4 v AND 1) n = bit drive n" if "n < 8" for n
    using d that unfolding v_def c by (auto simp: bit_simps simp del: push_bit_numeral)
  then show "drop_bit 4 v AND 1 = drive" by (intro bit_word_eqI) simp
qed

lemma select_ok:
  assumes "pio_waiting drive d"
  shows "ata_select pio_ports 0 drive lba count d = (True, pio_selected drive lba count d)"
    "pio_live (pio_selected drive lba count d)"
proof -
  let ?v = "0xE0 OR push_bit 4 drive OR ucast (drop_bit 24 lba AND 0x0F)"
  have b: "pio_busy d < 100000" and e: "\<not> pio_err d" and v: "drop_bit 4 ?v AND 1 = pio_unit d"
    using assms dev_bits(2) [of drive "drop_bit 24 lba"] by (auto simp: pio_waiting_def)
  show "pio_live (pio_selected drive lba count d)"
    using e v by (simp add: pio_live_def pio_selected_def pio_chosen_def)
  from exists_ok [OF e] obtain b1 where b1: "b1 \<le> pio_busy d" "ata_device_exists pio_ports 0x1F0 d = (True, d\<lparr>pio_busy := b1\<rparr>)" by blast
  from first_wait [of "d\<lparr>pio_busy := b1\<rparr>" 100000] e b b1(1) obtain b2 where
    b2: "b2 \<le> b1" "ata_wait_bsy_clear pio_ports 0x1F0 100000 (d\<lparr>pio_busy := b1\<rparr>) = (0, d\<lparr>pio_busy := b2\<rparr>)" by auto
  have "pio_live (d\<lparr>pio_busy := b2, pio_dev := ?v\<rparr>)" using e v by (simp add: pio_live_def pio_chosen_def)
  then have b3: "ata_wait_bsy_clear pio_ports 0x1F0 100000 (d\<lparr>pio_busy := b2, pio_dev := ?v\<rparr>)
      = (0, d\<lparr>pio_busy := 0, pio_dev := ?v\<rparr>)"
    using wait_bsy [of "d\<lparr>pio_busy := b2, pio_dev := ?v\<rparr>" 100000] b b1(1) b2(1) by simp
  show "ata_select pio_ports 0 drive lba count d = (True, pio_selected drive lba count d)"
    by (simp add: ata_select_def base_ports Let_def b1(2) b2(2) b3 register_writes pio_selected_def
        del: ata_wait_bsy_clear.simps)
qed

lemma dev_nibble:
  "(0xE0 OR push_bit 4 (drive :: u8) OR ucast ((x :: u32) AND 0x0F)) AND 0x0F = ucast (x AND 0x0F)"
proof (rule bit_word_eqI)
  fix n assume n: "n < LENGTH(8)"
  have m: "(0x0F :: u8) = mask 4" "(0x0F :: u32) = mask 4" "(0xE0 :: u8) = push_bit 5 (mask 3)"
    by (simp_all add: mask_eq_exp_minus_1)
  show "bit ((0xE0 OR push_bit 4 drive OR ucast (x AND 0x0F)) AND 0x0F :: u8) n = bit (ucast (x AND 0x0F) :: u8) n"
    unfolding m using n by (auto simp: bit_simps simp del: push_bit_numeral)
qed

lemma low_nibble: "unat (x AND 0x0F :: u32) = unat x mod 16"
proof -
  have "(0x0F :: u32) = mask 4" by (simp add: mask_eq_exp_minus_1)
  then have "x AND 0x0F = take_bit 4 x" by (simp add: take_bit_eq_mask)
  then have "unat (x AND 0x0F) = take_bit 4 (unat x)" by (simp only: unsigned_take_bit_eq)
  then show ?thesis by (simp add: take_bit_eq_mod)
qed

lemma nat_split28:
  "l mod 256 + 256 * (l div 256 mod 256) + 65536 * (l div 65536 mod 256) + 16777216 * (l div 16777216 mod 16)
    = (l :: nat) mod 2 ^ 28"
proof -
  have a: "l mod 65536 = l mod 256 + 256 * (l div 256 mod 256)" using mod_mult2_eq [of l 256 256] by simp
  have b: "l mod 16777216 = l mod 65536 + 65536 * (l div 65536 mod 256)" using mod_mult2_eq [of l 65536 256] by simp
  have c: "l mod 268435456 = l mod 16777216 + 16777216 * (l div 16777216 mod 16)"
    using mod_mult2_eq [of l 16777216 16] by simp
  from a b c show ?thesis by simp
qed

lemma selected_address: "drive \<le> 1 \<Longrightarrow> pio_address (pio_selected drive lba count d) = unat lba mod 2 ^ 28"
proof -
  have "unat (ucast lba :: u8) = unat lba mod 256"
    "unat (ucast (drop_bit 8 lba) :: u8) = unat lba div 256 mod 256"
    "unat (ucast (drop_bit 16 lba) :: u8) = unat lba div 65536 mod 256"
    by (simp_all add: unsigned_ucast_eq take_bit_eq_mod unsigned_drop_bit_eq drop_bit_eq_div unat_div)
  moreover have "unat (ucast (drop_bit 24 lba AND 0x0F) :: u8) = unat lba div 16777216 mod 16"
    by (simp add: unsigned_ucast_eq take_bit_eq_mod low_nibble unsigned_drop_bit_eq drop_bit_eq_div unat_div)
  moreover assume "drive \<le> 1"
  ultimately show ?thesis
    using nat_split28 [of "unat lba"] dev_bits(1) [of drive "drop_bit 24 lba"]
    by (simp add: pio_address_def pio_selected_def dev_nibble)
qed

lemma selected_sectors:
  assumes "0 < count" "unat (count :: u16) \<le> 255"
  shows "pio_sectors (pio_selected drive lba count d) = unat count"
proof -
  have "unat (ucast count :: u8) = unat count"
    using assms(2) by (simp add: unsigned_ucast_eq take_bit_eq_mod)
  moreover have "unat count \<noteq> 0" using assms(1) by (simp add: word_less_nat_alt)
  ultimately have "(ucast count :: u8) \<noteq> 0" "unat (ucast count :: u8) = unat count" by (metis unat_0)+
  then show ?thesis by (simp add: pio_sectors_def pio_selected_def)
qed

lemma pos_Suc: "0 < (n :: u16) \<Longrightarrow> \<exists>m. unat n = Suc m"
  by (metis gr0_implies_Suc unat_gt_0 word_neq_0_conv)

lemma pio_readyD: "pio_ready drive d \<Longrightarrow> disk_ok (pio_disk d)"
  by (simp add: pio_ready_def pio_waiting_def)

lemma pio_ready_disk: "pio_ready drive d \<Longrightarrow> disk_ok D \<Longrightarrow> pio_ready drive (d\<lparr>pio_disk := D\<rparr>)"
  by (simp add: pio_ready_def pio_waiting_def)

lemma pio_read_any:
  assumes "pio_waiting drive d" "0 < n" "unat n \<le> 255"
  shows "\<exists>d'. ata_read_sectors pio_ports ATA_PRIMARY drive l n d
      = (int (unat n), disk_run (pio_disk d) (unat l mod 2 ^ 28) (unat n), d')
    \<and> pio_waiting drive d' \<and> pio_tolerant d' = pio_tolerant d \<and> pio_disk d' = pio_disk d"
proof -
  obtain m where m: "unat n = Suc m" using pos_Suc assms(2) by blast
  let ?s = "pio_selected drive l n d"
  have w: "drive \<le> 1" "pio_delay d < 100000" "disk_ok (pio_disk d)" "pio_phase d = Idle" using assms(1) by (simp_all add: pio_waiting_def)
  have s: "pio_address ?s = unat l mod 2 ^ 28" "pio_sectors ?s = Suc m"
    using selected_address [OF w(1), of l n d] selected_sectors [OF assms(2,3), of drive l d] m by auto
  note live = select_ok(2) [OF assms(1), of l n]
  let ?c = "?s\<lparr>pio_phase := Reading (Suc m) (unat l mod 2 ^ 28) 0, pio_busy := pio_delay d\<rparr>"
  have c: "pio_command ATA_CMD_READ_PIO ?s = ?c"
    unfolding pio_command_def s using w(4) pio_liveD [OF live]
    by (simp add: pio_selected_def ATA_CMD_READ_PIO_def)
  have "ata_read_loop pio_ports 0 (Suc m) ?c
      = (True, disk_run (pio_disk d) (unat l mod 2 ^ 28) (Suc m), ?s\<lparr>pio_phase := Idle, pio_busy := 0\<rparr>)"
    using read_loop_ok [of ?c m "unat l mod 2 ^ 28", OF pio_live_step [OF live]] w(2,3)
    by (simp add: pio_selected_def del: ata_read_loop.simps)
  then show ?thesis using assms(1)
    by (simp add: ata_read_sectors_def select_ok base_ports register_writes c m ATA_PRIMARY_def del: ata_read_loop.simps)
      (simp add: pio_waiting_def pio_selected_def)
qed

lemma pio_read_ok:
  "pio_ready drive d \<Longrightarrow> 0 < n \<Longrightarrow> unat n \<le> 255 \<Longrightarrow> unat l + unat n \<le> 2 ^ 28 \<Longrightarrow>
    \<exists>d'. ata_read_sectors pio_ports ATA_PRIMARY drive l n d
      = (int (unat n), disk_run (pio_disk d) (unat l) (unat n), d') \<and> pio_ready drive d' \<and> pio_disk d' = pio_disk d"
  using pio_read_any [of drive d n l] by (auto simp: word_less_nat_alt pio_ready_def)

text \<open>The drive after the write command, and what a write does to it.\<close>

lemma write_begins:
  assumes "pio_waiting drive d" "0 < n" "unat n \<le> 255" "unat l < 2 ^ 28"
  defines "c \<equiv> (pio_selected drive l n d)\<lparr>pio_phase := Writing (unat n) (unat l) [], pio_busy := pio_delay d\<rparr>"
  shows "ata_write_sectors pio_ports ATA_PRIMARY drive l n bs d
      = (case ata_write_loop pio_ports 0 (unat n) bs c of (ok, w) \<Rightarrow> (if ok then int (unat n) else -1, w))"
    "pio_live c"
proof -
  let ?s = "pio_selected drive l n d"
  have w: "drive \<le> 1" "pio_phase d = Idle" using assms(1) by (simp_all add: pio_waiting_def)
  have s: "pio_address ?s = unat l" "pio_sectors ?s = unat n"
    using selected_address [OF w(1), of l n d] selected_sectors [OF assms(2,3), of drive l d] assms(4) by auto
  note live = select_ok(2) [OF assms(1), of l n]
  then show "pio_live c" by (simp add: c_def)
  have "pio_command ATA_CMD_WRITE_PIO ?s = c"
    unfolding pio_command_def s c_def using w(2) pio_liveD [OF live]
    by (simp add: pio_selected_def ATA_CMD_WRITE_PIO_def)
  then show "ata_write_sectors pio_ports ATA_PRIMARY drive l n bs d
      = (case ata_write_loop pio_ports 0 (unat n) bs c of (ok, w) \<Rightarrow> (if ok then int (unat n) else -1, w))"
    using assms(1) by (simp add: ata_write_sectors_def select_ok base_ports register_writes ATA_PRIMARY_def)
qed

lemma pio_write_ok:
  assumes "pio_ready drive d" "0 < n" "unat n \<le> 255" "unat l + unat n \<le> 2 ^ 28" "unat n * 512 \<le> length bs"
  shows "\<exists>d'. ata_write_sectors pio_ports ATA_PRIMARY drive l n bs d = (int (unat n), d') \<and> pio_ready drive d'
      \<and> pio_disk d' = disk_put (pio_disk d) (unat l) (unat n) bs"
proof -
  obtain m where m: "unat n = Suc m" using pos_Suc assms(2) by blast
  have r: "pio_waiting drive d" "pio_tolerant d" "pio_delay d < 100000"
    using assms(1) by (simp_all add: pio_ready_def pio_waiting_def)
  have "unat l < 2 ^ 28" using assms(4) m by simp
  note w = write_begins [OF r(1) assms(2,3) this]
  let ?s = "pio_selected drive l n d"
  let ?c = "?s\<lparr>pio_phase := Writing (Suc m) (unat l) [], pio_busy := pio_delay d\<rparr>"
  have "ata_write_loop pio_ports 0 (Suc m) bs ?c = (True,
      ?s\<lparr>pio_disk := disk_put (pio_disk d) (unat l) (Suc m) bs, pio_phase := Idle, pio_busy := 0\<rparr>)"
    using write_loop_ok [of ?c m "unat l" bs, OF w(2) [unfolded m]] r assms(5) m
    by (simp add: pio_selected_def del: ata_write_loop.simps)
  then show ?thesis using assms(1) disk_put_ok [of "pio_disk d" "Suc m" bs "unat l"] assms(5) m
    by (simp add: w(1) del: ata_write_loop.simps) (simp add: pio_ready_def pio_waiting_def pio_selected_def)
qed

text \<open>A drive that is not tolerant gives up at the cache flush after the first of several sectors.\<close>

lemma pio_write_refused:
  assumes "pio_waiting drive d" "\<not> pio_tolerant d" "1 < n" "unat n \<le> 255" "unat l < 2 ^ 28" "512 \<le> length bs"
  shows "\<exists>d'. ata_write_sectors pio_ports ATA_PRIMARY drive l n bs d = (-1, d')
    \<and> pio_disk d' = disk_put (pio_disk d) (unat l) 1 bs"
proof -
  have "1 < unat n" using assms(3) by (simp add: word_less_nat_alt)
  then obtain m where m: "unat n = Suc (Suc m)" by (metis One_nat_def less_imp_Suc_add add_Suc)
  have d: "pio_delay d < 100000" using assms(1) by (simp add: pio_waiting_def)
  have n0: "0 < n" using assms(3) by (simp add: word_less_nat_alt)
  note w = write_begins [OF assms(1) n0 assms(4,5), unfolded m]
  define c where "c = (pio_selected drive l n d)\<lparr>pio_phase := Writing (Suc (Suc m)) (unat l) [], pio_busy := pio_delay d\<rparr>"
  define e where "e = c\<lparr>pio_disk := disk_put (pio_disk d) (unat l) 1 (take 512 bs), pio_phase := Writing (Suc m) (Suc (unat l)) []\<rparr>"
  have live: "pio_live c" using w(2) by (simp add: c_def)
  have f: "pio_busy c = pio_delay d" "pio_phase c = Writing (Suc (Suc m)) (unat l) []" "pio_disk c = pio_disk d"
    "pio_delay c = pio_delay d" "pio_tolerant c = pio_tolerant d" by (simp_all add: c_def pio_selected_def)
  have drq: "ata_wait_drq pio_ports 0x1F0 500000 c = (0, c\<lparr>pio_busy := 0\<rparr>)"
    using wait_drq [OF live, of 500000] f d by simp
  have out: "ata_words_out pio_ports 0x1F0 256 bs (c\<lparr>pio_busy := 0\<rparr>) = e"
    using sector_out [of "c\<lparr>pio_busy := 0\<rparr>" "Suc (Suc m)" "unat l" bs] live f assms(6) by (simp add: e_def)
  have flush: "ata_write pio_ports 0x1F0 7 0xE7 e = e\<lparr>pio_phase := Idle, pio_err := True\<rparr>"
    using assms(2) f pio_liveD(1) [OF live] by (simp add: register_writes pio_command_def e_def pio_chosen_def)
  have stuck: "ata_wait_bsy_clear pio_ports 0x1F0 k x = (-1, x\<lparr>pio_busy := 0\<rparr>)"
    if "pio_busy x < k" "pio_chosen x" "pio_err x" for k x
    using that
  proof (induction k arbitrary: x)
    case (Suc k)
    show ?case
    proof (cases "pio_busy x")
      case 0
      with Suc.prems show ?thesis by (cases x) (simp add: pio_status_def ata_bits)
    next
      case (Suc b)
      with Suc.IH [of "x\<lparr>pio_busy := b\<rparr>"] Suc.prems show ?thesis by (simp add: pio_status_def ata_bits pio_chosen_def)
    qed
  qed simp
  have "ata_wait_bsy_clear pio_ports 0x1F0 500000 (e\<lparr>pio_phase := Idle, pio_err := True\<rparr>)
      = (-1, e\<lparr>pio_phase := Idle, pio_err := True, pio_busy := 0\<rparr>)"
    using stuck [of "e\<lparr>pio_phase := Idle, pio_err := True\<rparr>" 500000] f d pio_liveD(1) [OF live]
    by (simp add: e_def pio_chosen_def)
  then have "ata_write_loop pio_ports 0 (Suc (Suc m)) bs c = (False, e\<lparr>pio_phase := Idle, pio_err := True, pio_busy := 0\<rparr>)"
    by (subst ata_write_loop.simps)
      (simp add: base_ports Let_def drq out flush del: ata_words_out.simps ata_wait_bsy_clear.simps ata_wait_drq.simps ata_write_loop.simps)
  then show ?thesis using w(1) by (simp add: e_def c_def [symmetric] disk_put_take del: ata_write_loop.simps)
qed

text \<open>The driver on a tolerant drive is a block device, for either position on the cable.\<close>

interpretation ata: block_device "ata_read_sectors pio_ports ATA_PRIMARY drive"
  "ata_write_sectors pio_ports ATA_PRIMARY drive" pio_disk "pio_ready drive" "2 ^ 28" for drive
proof
  show "disk_ok (pio_disk w)" if "pio_ready drive w" for w using that by (simp add: pio_ready_def pio_waiting_def)
qed (use pio_read_ok pio_write_ok in blast)+

definition ata_dev :: "'w ports \<Rightarrow> 'w blkdev" where
  "ata_dev io = \<lparr>blk_read = ata_read_sectors io, blk_write = ata_write_sectors io\<rparr>"

subsection \<open>Properties\<close>

text \<open>C11: the PIO driver reads and writes the right sectors of the right drive. On a drive that
  follows the PIO protocol, with any busy period shorter than the timeouts, a read of 1 to 255
  sectors inside the 28-bit range returns the count and the sectors, and changes nothing. If
  the drive ignores commands it cannot take, a write returns the count and changes exactly
  these sectors to the bytes of the buffer, and a read then returns them. On a drive that
  answers such a command with an error, a write of more than one sector fails after the first:
  the driver sends a cache flush in the middle of the transfer.\<close>

theorem ata_transfers_sectors:
  assumes "pio_waiting drive d" "0 < n" "unat n \<le> 255" "unat l + unat n \<le> 2 ^ 28" "length bs = unat n * 512"
  shows "(\<exists>d'. ata_read_sectors pio_ports ATA_PRIMARY drive l n d = (int (unat n), disk_run (pio_disk d) (unat l) (unat n), d')
      \<and> pio_disk d' = pio_disk d \<and> pio_waiting drive d')
    \<and> (pio_tolerant d \<longrightarrow> (\<exists>d1 d2. ata_write_sectors pio_ports ATA_PRIMARY drive l n bs d = (int (unat n), d1)
      \<and> pio_disk d1 = disk_put (pio_disk d) (unat l) (unat n) bs
      \<and> ata_read_sectors pio_ports ATA_PRIMARY drive l n d1 = (int (unat n), bs, d2)
      \<and> pio_disk d2 = pio_disk d1 \<and> pio_waiting drive d2))
    \<and> (\<not> pio_tolerant d \<and> 1 < n \<longrightarrow> (\<exists>d'. ata_write_sectors pio_ports ATA_PRIMARY drive l n bs d = (-1, d')
      \<and> pio_disk d' = disk_put (pio_disk d) (unat l) 1 bs))"
proof (intro conjI impI)
  have l: "unat l < 2 ^ 28" using assms(2,4) by (auto simp: word_less_nat_alt)
  show "\<exists>d'. ata_read_sectors pio_ports ATA_PRIMARY drive l n d = (int (unat n), disk_run (pio_disk d) (unat l) (unat n), d')
      \<and> pio_disk d' = pio_disk d \<and> pio_waiting drive d'"
    using pio_read_any [OF assms(1-3), of l] l by auto
  show "\<exists>d1 d2. ata_write_sectors pio_ports ATA_PRIMARY drive l n bs d = (int (unat n), d1)
      \<and> pio_disk d1 = disk_put (pio_disk d) (unat l) (unat n) bs
      \<and> ata_read_sectors pio_ports ATA_PRIMARY drive l n d1 = (int (unat n), bs, d2)
      \<and> pio_disk d2 = pio_disk d1 \<and> pio_waiting drive d2" if "pio_tolerant d"
  proof -
    have r: "pio_ready drive d" using assms(1) that by (simp add: pio_ready_def)
    from ata.write_ok [OF r assms(2-4), of bs] assms(5) obtain d1 where
      w: "ata_write_sectors pio_ports ATA_PRIMARY drive l n bs d = (int (unat n), d1)" "pio_ready drive d1"
      "pio_disk d1 = disk_put (pio_disk d) (unat l) (unat n) bs" by auto
    from ata.read_ok [OF w(2) assms(2-4)] obtain d2 bs' where
      d2: "ata_read_sectors pio_ports ATA_PRIMARY drive l n d1 = (int (unat n), bs', d2)" "pio_ready drive d2"
      "pio_disk d2 = pio_disk d1" by auto
    from ata.read_after_write [OF r assms(2-5)] w(1) d2(1) have "bs' = bs" by auto
    with w d2 show ?thesis by (auto simp: pio_ready_def)
  qed
  assume "\<not> pio_tolerant d \<and> 1 < n"
  moreover from this have "512 \<le> length bs" using assms(5) by (auto simp: word_less_nat_alt)
  ultimately show "\<exists>d'. ata_write_sectors pio_ports ATA_PRIMARY drive l n bs d = (-1, d')
      \<and> pio_disk d' = disk_put (pio_disk d) (unat l) 1 bs"
    using pio_write_refused [OF assms(1) _ _ assms(3) l] by blast
qed

definition sample_drive :: pio where
  "sample_drive = \<lparr>pio_disk = (\<lambda>_. replicate 512 0), pio_count = 0, pio_lba0 = 0, pio_lba1 = 0, pio_lba2 = 0,
     pio_dev = 0, pio_unit = 1, pio_tolerant = True, pio_err = False, pio_delay = 300, pio_busy = 0, pio_phase = Idle\<rparr>"

lemma sample_drive_ready: "pio_ready 1 sample_drive" "pio_waiting 1 sample_drive"
  by (simp_all add: pio_ready_def pio_waiting_def sample_drive_def disk_ok_def)

theorem ata_transfers_sectors_witness:
  "\<exists>d1 d2. ata_write_sectors pio_ports ATA_PRIMARY 1 2048 2 (replicate 1024 7) sample_drive = (2, d1)
    \<and> ata_read_sectors pio_ports ATA_PRIMARY 1 2048 2 d1 = (2, replicate 1024 7, d2)
    \<and> (\<exists>d3. ata_write_sectors pio_ports ATA_PRIMARY 1 2048 2 (replicate 1024 7) (sample_drive\<lparr>pio_tolerant := False\<rparr>) = (-1, d3))"
proof -
  have "pio_waiting 1 (sample_drive\<lparr>pio_tolerant := False\<rparr>)" using sample_drive_ready(2) by (simp add: pio_waiting_def)
  from ata_transfers_sectors [OF this, of 2 2048 "replicate 1024 7"]
  have "\<exists>d3. ata_write_sectors pio_ports ATA_PRIMARY 1 2048 2 (replicate 1024 7) (sample_drive\<lparr>pio_tolerant := False\<rparr>) = (-1, d3)"
    by auto
  moreover have "pio_tolerant sample_drive" by (simp add: sample_drive_def)
  ultimately show ?thesis using ata_transfers_sectors [OF sample_drive_ready(2), of 2 2048 "replicate 1024 7"] by auto
qed

text \<open>sector numbers above 28 bits are not refused. A read at such an address is
  reported as a success but delivers the sectors 2 to the power of 28 further down.\<close>

theorem ata_high_lba_aliases:
  assumes "pio_waiting drive d" "0 < n" "unat n \<le> 255" "2 ^ 28 \<le> unat l"
  shows "\<exists>d'. ata_read_sectors pio_ports ATA_PRIMARY drive l n d
    = (int (unat n), disk_run (pio_disk d) (unat l mod 2 ^ 28) (unat n), d') \<and> unat l mod 2 ^ 28 < unat l"
proof -
  have "unat l mod 2 ^ 28 < 2 ^ 28" by simp
  with assms(4) have "unat l mod 2 ^ 28 < unat l" by linarith
  with pio_read_any [OF assms(1-3), of l] show ?thesis by blast
qed

theorem ata_high_lba_aliases_witness:
  "\<exists>d'. ata_read_sectors pio_ports ATA_PRIMARY 1 0x10000005 1 sample_drive = (1, pio_disk sample_drive 5, d')"
  using ata_high_lba_aliases [OF sample_drive_ready(2), of 1 "0x10000005"] by auto

end
