(* ===== verification/Partition.thy ===== *)
theory Partition
  imports Block_Device
begin

text \<open>
  The MBR partition table (\<open>fs/partition.c\<close>). The state is the static table of 16 entries
  with its count; the disk is reached through the record of sector operations. Console
  messages are left out.
\<close>

definition MAX_PARTITIONS :: nat where "MAX_PARTITIONS = 16"

definition PART_TYPE_UNUSED :: u8 where "PART_TYPE_UNUSED = 0x00"

record partition =
  start_lba :: u32
  size_sectors :: u32
  part_type :: u8
  bootable :: u8
  part_disk :: u8
  partition_index :: u8

record mbr_partition =
  m_boot_flag :: u8
  m_type :: u8
  m_start_lba :: u32
  m_size_sectors :: u32

record part_table =
  partitions :: "partition list"
  partition_count :: nat

text \<open>Entry \<open>i\<close> of the master boot record, and its signature.\<close>

definition mbr_entry :: "bytes \<Rightarrow> nat \<Rightarrow> mbr_partition" where
  "mbr_entry mbr i =
     (let p = 446 + 16 * i in
      \<lparr>m_boot_flag = mbr ! p, m_type = mbr ! (p + 4), m_start_lba = get_le32 mbr (p + 8),
       m_size_sectors = get_le32 mbr (p + 12)\<rparr>)"

definition mbr_signature :: "bytes \<Rightarrow> u16" where
  "mbr_signature mbr = get_le16 mbr 510"

definition partition_disk_to_ata :: "u8 \<Rightarrow> u8 \<times> u8" where
  "partition_disk_to_ata disk =
     (if disk = 0 then (0, 0) else if disk = 1 then (0, 1) else if disk = 2 then (1, 0) else (1, 1))"

definition partition_type_name :: "u8 \<Rightarrow> string" where
  "partition_type_name t =
     (if t = 0x00 then ''Unused'' else if t = 0x01 then ''FAT12'' else if t = 0x04 then ''FAT16''
      else if t = 0x05 then ''Extended'' else if t = 0x0B then ''FAT32''
      else if t = 0x0C then ''FAT32 LBA'' else if t = 0x83 then ''Linux''
      else if t = 0x0F then ''Extended LBA'' else ''Unknown'')"

definition make_partition :: "u8 \<Rightarrow> nat \<Rightarrow> mbr_partition \<Rightarrow> partition" where
  "make_partition disk i m =
     \<lparr>start_lba = m_start_lba m, size_sectors = m_size_sectors m, part_type = m_type m,
      bootable = (if m_boot_flag m = 0x80 then 1 else 0), part_disk = disk, partition_index = of_nat i\<rparr>"

text \<open>The loop over the four primary entries, with its break when the table is full.\<close>

fun detect_loop :: "u8 \<Rightarrow> bytes \<Rightarrow> nat list \<Rightarrow> part_table \<Rightarrow> part_table" where
  "detect_loop disk mbr [] t = t"
| "detect_loop disk mbr (i # is) t =
     (if m_type (mbr_entry mbr i) = PART_TYPE_UNUSED then detect_loop disk mbr is t
      else
        let t' = \<lparr>partitions = (partitions t)[partition_count t := make_partition disk i (mbr_entry mbr i)],
                  partition_count = partition_count t + 1\<rparr>
        in if MAX_PARTITIONS \<le> partition_count t' then t' else detect_loop disk mbr is t')"

definition partition_detect :: "'w blkdev \<Rightarrow> u8 \<Rightarrow> part_table \<Rightarrow> 'w \<Rightarrow> int \<times> part_table \<times> 'w" where
  "partition_detect dev disk t w =
     (case partition_disk_to_ata disk of (channel, drive) \<Rightarrow>
       (case blk_read dev channel drive 0 1 w of (r, mbr, w') \<Rightarrow>
          if r \<noteq> 1 then (-1, t, w')
          else if mbr_signature mbr \<noteq> 0xAA55 then (-1, t, w')
          else let t' = detect_loop disk mbr [0, 1, 2, 3] (t\<lparr>partition_count := 0\<rparr>)
               in (int (partition_count t'), t', w')))"

text \<open>\<open>None\<close> is the error return -1.\<close>

definition partition_get_info :: "u8 \<Rightarrow> u8 \<Rightarrow> part_table \<Rightarrow> partition option" where
  "partition_get_info disk index t =
     (if partition_count t \<le> unat index then None
      else find (\<lambda>p. part_disk p = disk \<and> partition_index p = index) (take (partition_count t) (partitions t)))"

definition partition_get_count :: "u8 \<Rightarrow> part_table \<Rightarrow> nat" where
  "partition_get_count disk t =
     length (filter (\<lambda>p. part_disk p = disk) (take (partition_count t) (partitions t)))"

subsection \<open>Detection\<close>

definition used_entries :: "bytes \<Rightarrow> nat list \<Rightarrow> nat list" where
  "used_entries mbr is = filter (\<lambda>i. m_type (mbr_entry mbr i) \<noteq> PART_TYPE_UNUSED) is"

lemma detect_loop_appends:
  assumes "length (partitions t) = 16" "partition_count t + length is < 16"
  shows "let t' = detect_loop disk mbr is t; ps = map (\<lambda>i. make_partition disk i (mbr_entry mbr i)) (used_entries mbr is) in
    length (partitions t') = 16 \<and> partition_count t' = partition_count t + length ps
    \<and> take (partition_count t') (partitions t') = take (partition_count t) (partitions t) @ ps"
  using assms
proof (induction "is" arbitrary: t)
  case Nil
  then show ?case by (simp add: used_entries_def)
next
  case (Cons i "is")
  show ?case
  proof (cases "m_type (mbr_entry mbr i) = PART_TYPE_UNUSED")
    case True
    with Cons show ?thesis by (simp add: used_entries_def)
  next
    case False
    let ?p = "make_partition disk i (mbr_entry mbr i)"
    let ?t = "\<lparr>partitions = (partitions t)[partition_count t := ?p], partition_count = partition_count t + 1\<rparr>"
    define u where "u = detect_loop disk mbr is ?t"
    have tk: "take (partition_count ?t) (partitions ?t) = take (partition_count t) (partitions t) @ [?p]"
      using Cons.prems by (simp add: take_Suc_conv_app_nth)
    have "length (partitions ?t) = 16" "partition_count ?t + length is < 16" using Cons.prems by auto
    note ih = Cons.IH [OF this, folded u_def, unfolded Let_def tk]
    have d: "detect_loop disk mbr (i # is) t = u"
      using False Cons.prems(2) by (simp add: u_def MAX_PARTITIONS_def)
    have us: "used_entries mbr (i # is) = i # used_entries mbr is" using False by (simp add: used_entries_def)
    show ?thesis unfolding Let_def d us
      using ih [THEN conjunct1] ih [THEN conjunct2, THEN conjunct1] ih [THEN conjunct2, THEN conjunct2]
      by (intro conjI) (assumption, simp, simp only: list.map append_assoc append_Cons append_Nil)
  qed
qed


text \<open>
  The master boot record with given boot code and entries; the CHS fields, which the code
  skips, are those of the list \<open>chs\<close>.
\<close>

definition mbr_entry_bytes :: "mbr_partition \<Rightarrow> bytes \<Rightarrow> bytes" where
  "mbr_entry_bytes m chs =
     [m_boot_flag m] @ take 3 chs @ [m_type m] @ take 3 (drop 3 chs) @ le32 (m_start_lba m) @ le32 (m_size_sectors m)"

definition build_mbr :: "bytes \<Rightarrow> (mbr_partition \<times> bytes) list \<Rightarrow> bytes" where
  "build_mbr code es = code @ concat (map (\<lambda>(m, chs). mbr_entry_bytes m chs) es) @ [0x55, 0xAA]"

definition build_ok :: "bytes \<Rightarrow> (mbr_partition \<times> bytes) list \<Rightarrow> bool" where
  "build_ok code es \<longleftrightarrow> length code = 446 \<and> length es = 4 \<and> (\<forall>(m, chs) \<in> set es. length chs = 6)"

lemma length_entry: "length chs = 6 \<Longrightarrow> length (mbr_entry_bytes m chs) = 16"
  by (simp add: mbr_entry_bytes_def)

lemma six_bytes: "length (chs :: bytes) = 6 \<Longrightarrow> \<exists>a b c d e f. chs = [a, b, c, d, e, f]"
  by (auto simp: numeral_eq_Suc length_Suc_conv)

lemma entry_decodes:
  assumes "length pre = 446 + 16 * i" "length chs = 6"
  shows "mbr_entry (pre @ mbr_entry_bytes m chs @ post) i = m"
proof -
  obtain a b c d e f where c: "chs = [a, b, c, d, e, f]" using six_bytes [OF assms(2)] by blast
  have s: "seg (length pre + 8) 4 (pre @ mbr_entry_bytes m chs @ post) = le32 (m_start_lba m)"
    "seg (length pre + 12) 4 (pre @ mbr_entry_bytes m chs @ post) = le32 (m_size_sectors m)"
    by (simp_all add: seg_def c mbr_entry_bytes_def le32_def)
  have l: "length (pre @ mbr_entry_bytes m chs @ post) = length pre + 16 + length post"
    using length_entry [OF assms(2)] by simp
  have "get_le32 (pre @ mbr_entry_bytes m chs @ post) (length pre + 8) = m_start_lba m"
    "get_le32 (pre @ mbr_entry_bytes m chs @ post) (length pre + 12) = m_size_sectors m"
    using l by (subst get_le32_seg; simp add: s le_simps)+
  moreover have "(pre @ mbr_entry_bytes m chs @ post) ! length pre = m_boot_flag m"
    "(pre @ mbr_entry_bytes m chs @ post) ! (length pre + 4) = m_type m"
    by (simp_all add: nth_append c mbr_entry_bytes_def)
  ultimately show ?thesis using assms(1) by (simp add: mbr_entry_def Let_def)
qed

lemma concat_entries_length:
  "\<forall>(m, chs) \<in> set es. length chs = 6 \<Longrightarrow>
    length (concat (map (\<lambda>(m, chs). mbr_entry_bytes m chs) es)) = 16 * length es"
  by (induction es) (auto simp: length_entry)

lemma signature_at_end: "length pre = 510 \<Longrightarrow> mbr_signature (pre @ [0x55, 0xAA]) = 0xAA55"
  by (simp add: mbr_signature_def get_le16_def nth_append join16_def)

lemma build_decodes:
  assumes "build_ok code es" "i < 4"
  shows "mbr_entry (build_mbr code es) i = fst (es ! i)"
    and "mbr_signature (build_mbr code es) = 0xAA55" and "length (build_mbr code es) = 512"
proof -
  let ?f = "\<lambda>(m, chs). mbr_entry_bytes m chs"
  have es: "length es = 4" "length code = 446" "\<forall>(m, chs) \<in> set es. length chs = 6"
    using assms(1) by (auto simp: build_ok_def)
  have split: "es = take i es @ es ! i # drop (Suc i) es" using assms(2) es(1) by (simp add: id_take_nth_drop)
  have six: "length (snd (es ! i)) = 6" using es(3) nth_mem [of i es] assms(2) es(1) by (cases "es ! i") auto
  have pre: "length (code @ concat (map ?f (take i es))) = 446 + 16 * i"
    using es assms(2) concat_entries_length [of "take i es"] by (auto dest: in_set_takeD)
  have "build_mbr code es = (code @ concat (map ?f (take i es))) @ mbr_entry_bytes (fst (es ! i)) (snd (es ! i))
      @ (concat (map ?f (drop (Suc i) es)) @ [0x55, 0xAA])"
    unfolding build_mbr_def by (subst (1) split) (simp add: case_prod_beta)
  then show "mbr_entry (build_mbr code es) i = fst (es ! i)"
    using entry_decodes [OF pre six] by simp
  have l: "length (code @ concat (map ?f es)) = 510" using es concat_entries_length [OF es(3)] by simp
  have b: "build_mbr code es = (code @ concat (map ?f es)) @ [0x55, 0xAA]" by (simp add: build_mbr_def)
  show "length (build_mbr code es) = 512" using l unfolding b by simp
  show "mbr_signature (build_mbr code es) = 0xAA55"
    unfolding b by (rule signature_at_end [OF l])
qed

text \<open>A disk whose first sector can be read, and reads as \<open>mbr\<close>.\<close>

definition reads_mbr :: "'w blkdev \<Rightarrow> u8 \<Rightarrow> bytes \<Rightarrow> 'w \<Rightarrow> 'w \<Rightarrow> bool" where
  "reads_mbr dev disk mbr w w' \<longleftrightarrow>
     blk_read dev (fst (partition_disk_to_ata disk)) (snd (partition_disk_to_ata disk)) 0 1 w = (1, mbr, w')"

lemma detect_result:
  assumes "reads_mbr dev disk mbr w w'" "mbr_signature mbr = 0xAA55" "length (partitions t) = 16"
  shows "\<exists>t'. partition_detect dev disk t w = (int (partition_count t'), t', w')
    \<and> take (partition_count t') (partitions t')
      = map (\<lambda>i. make_partition disk i (mbr_entry mbr i)) (used_entries mbr [0, 1, 2, 3])
    \<and> partition_count t' = length (used_entries mbr [0, 1, 2, 3])"
proof -
  have "length (partitions (t\<lparr>partition_count := 0\<rparr>)) = 16"
    "partition_count (t\<lparr>partition_count := 0\<rparr>) + length [0, 1, 2, 3 :: nat] < 16" using assms(3) by simp_all
  note d = detect_loop_appends [OF this, of disk mbr, unfolded Let_def]
  define u where "u = detect_loop disk mbr [0, 1, 2, 3] (t\<lparr>partition_count := 0\<rparr>)"
  have "partition_detect dev disk t w = (int (partition_count u), u, w')"
    using assms(1,2) unfolding partition_detect_def reads_mbr_def u_def
    by (simp add: case_prod_beta Let_def del: detect_loop.simps)
  moreover have "take (partition_count u) (partitions u)
      = map (\<lambda>i. make_partition disk i (mbr_entry mbr i)) (used_entries mbr [0, 1, 2, 3])"
    using d [folded u_def, THEN conjunct2, THEN conjunct2] by simp
  moreover have "partition_count u = length (used_entries mbr [0, 1, 2, 3])"
    using d [folded u_def, THEN conjunct2, THEN conjunct1] by simp
  ultimately show ?thesis by blast
qed

lemma find_by_index:
  assumes "list_all (\<lambda>i. i < 256) is" "i < 256"
  shows "find (\<lambda>p. part_disk p = disk \<and> partition_index p = of_nat i) (map (\<lambda>i. make_partition disk i (f i)) is)
    = (if i \<in> set is then Some (make_partition disk i (f i)) else None)"
  using assms
proof (induction "is")
  case (Cons j "is")
  have "(of_nat j :: u8) = of_nat i \<longleftrightarrow> j = i"
    using Cons.prems by (intro of_nat_inj_small) simp_all
  then have "(part_disk (make_partition disk j (f j)) = disk \<and> partition_index (make_partition disk j (f j)) = of_nat i)
      = (j = i)" by (simp add: make_partition_def)
  moreover have "list_all (\<lambda>i. i < 256) is" using Cons.prems(1) by simp
  ultimately show ?case using Cons.IH [OF _ Cons.prems(2)]
    by (cases "j = i") (simp_all only: list.map find.simps if_True if_False list.set insert_iff simp_thms eq_commute [of i j])
qed simp

subsection \<open>Properties\<close>

text \<open>C34: detection decodes the partition table. On a disk whose first sector is a boot record
  with four given entries, \<open>partition_detect\<close> returns the number of used ones, and the table
  holds exactly those, in order, with the start, size, type and boot flag of the entries.\<close>

theorem partition_detect_decodes:
  assumes "build_ok code es" "reads_mbr dev disk (build_mbr code es) w w'" "length (partitions t) = 16"
  shows "\<exists>t'. partition_detect dev disk t w = (int (partition_count t'), t', w')
    \<and> take (partition_count t') (partitions t')
      = map (\<lambda>i. let e = fst (es ! i) in
            \<lparr>start_lba = m_start_lba e, size_sectors = m_size_sectors e, part_type = m_type e,
             bootable = (if m_boot_flag e = 0x80 then 1 else 0), part_disk = disk, partition_index = of_nat i\<rparr>)
          (filter (\<lambda>i. m_type (fst (es ! i)) \<noteq> 0) [0, 1, 2, 3])
    \<and> partition_get_count disk t' = length (filter (\<lambda>e. m_type (fst e) \<noteq> 0) es)"
proof -
  note b = build_decodes(1) [OF assms(1)]
  have u: "used_entries (build_mbr code es) [0, 1, 2, 3] = filter (\<lambda>i. m_type (fst (es ! i)) \<noteq> 0) [0, 1, 2, 3]"
    unfolding used_entries_def by (rule filter_cong) (auto simp: b PART_TYPE_UNUSED_def)
  have m: "map (\<lambda>i. make_partition disk i (mbr_entry (build_mbr code es) i)) (filter P [0, 1, 2, 3])
      = map (\<lambda>i. make_partition disk i (fst (es ! i))) (filter P [0, 1, 2, 3])" for P
    by (rule map_cong) (auto simp: b simp del: filter.simps)
  have es: "es = map (\<lambda>i. es ! i) [0, 1, 2, 3]"
  proof -
    have "length es = 4" using assms(1) by (simp add: build_ok_def)
    moreover have "[0..<4] = [0, 1, 2, 3 :: nat]" by (simp add: upt_rec)
    ultimately show ?thesis using map_nth [of es] by simp
  qed
  have n: "length (filter (\<lambda>i. m_type (fst (es ! i)) \<noteq> 0) [0, 1, 2, 3]) = length (filter (\<lambda>e. m_type (fst e) \<noteq> 0) es)"
    by (subst (2) es) (simp only: filter_map length_map o_def)
  have all: "filter (\<lambda>p. part_disk p = disk) (map (\<lambda>i. make_partition disk i (g i)) is)
      = map (\<lambda>i. make_partition disk i (g i)) is" for g "is"
    by (rule filter_True) (auto simp: make_partition_def)
  have lit: "make_partition disk i e = \<lparr>start_lba = m_start_lba e, size_sectors = m_size_sectors e, part_type = m_type e,
      bootable = (if m_boot_flag e = 0x80 then 1 else 0), part_disk = disk, partition_index = of_nat i\<rparr>" for i e
    by (simp add: make_partition_def)
  from detect_result [OF assms(2) build_decodes(2) [OF assms(1), of 0] assms(3), unfolded u m] n
  have "\<exists>t'. partition_detect dev disk t w = (int (partition_count t'), t', w')
    \<and> take (partition_count t') (partitions t')
      = map (\<lambda>i. make_partition disk i (fst (es ! i))) (filter (\<lambda>i. m_type (fst (es ! i)) \<noteq> 0) [0, 1, 2, 3])
    \<and> partition_get_count disk t' = length (filter (\<lambda>e. m_type (fst e) \<noteq> 0) es)"
    by (auto simp: partition_get_count_def all simp del: filter.simps list.map)
  then show ?thesis unfolding lit Let_def .
qed

text \<open>A disk that is its first sector, and a boot record with one entry in slot \<open>k\<close>.\<close>

definition one_sector_dev :: "bytes blkdev" where
  "one_sector_dev = \<lparr>blk_read = (\<lambda>c d l n w. if l = 0 then (1, w, w) else (-1, [], w)),
     blk_write = (\<lambda>c d l n bs w. (-1, w))\<rparr>"

definition empty_entry :: "mbr_partition \<times> bytes" where
  "empty_entry = (\<lparr>m_boot_flag = 0, m_type = 0, m_start_lba = 0, m_size_sectors = 0\<rparr>, replicate 6 0)"

definition fat_entry :: "mbr_partition \<times> bytes" where
  "fat_entry = (\<lparr>m_boot_flag = 0x80, m_type = 0x0C, m_start_lba = 2048, m_size_sectors = 65536\<rparr>, replicate 6 0)"

definition empty_table :: part_table where
  "empty_table = \<lparr>partitions = replicate 16 (make_partition 0 0 (fst empty_entry)), partition_count = 0\<rparr>"

definition sparse_mbr :: bytes where
  "sparse_mbr = build_mbr (replicate 446 0) [empty_entry, empty_entry, empty_entry, fat_entry]"

lemma sparse_mbr_ok: "build_ok (replicate 446 0) [empty_entry, empty_entry, empty_entry, fat_entry]"
  by (simp add: build_ok_def empty_entry_def fat_entry_def)

lemma one_sector_reads: "reads_mbr one_sector_dev 1 mbr mbr mbr"
  by (simp add: reads_mbr_def one_sector_dev_def)

lemma length_empty_table: "length (partitions empty_table) = 16"
  by (simp add: empty_table_def)

theorem partition_detect_decodes_witness:
  "\<exists>t'. partition_detect one_sector_dev 1 empty_table sparse_mbr = (int (partition_count t'), t', sparse_mbr)
    \<and> take (partition_count t') (partitions t')
      = [\<lparr>start_lba = 2048, size_sectors = 65536, part_type = 0x0C, bootable = 1, part_disk = 1, partition_index = 3\<rparr>]
    \<and> partition_get_count 1 t' = 1"
proof -
  let ?es = "[empty_entry, empty_entry, empty_entry, fat_entry]"
  have f: "filter (\<lambda>i. m_type (fst (?es ! i)) \<noteq> 0) [0, 1, 2, 3] = [3]"
    by (simp add: empty_entry_def fat_entry_def)
  have e: "?es ! 3 = fat_entry" "length (filter (\<lambda>e. m_type (fst e) \<noteq> 0) ?es) = 1"
    by (simp_all add: empty_entry_def fat_entry_def)
  from partition_detect_decodes [OF sparse_mbr_ok one_sector_reads length_empty_table, unfolded f list.map e, folded sparse_mbr_def]
  show ?thesis by (simp add: fat_entry_def)
qed

text \<open>a partition can be looked up only if enough entries are used. After detection, the
  entry at index \<open>i\<close> of the boot record is found if it is used and \<open>i\<close> is below the number of
  used entries; a used entry after a gap, like one in the last slot alone, is not found.\<close>

theorem partition_lookup_needs_dense_table:
  assumes "reads_mbr dev disk mbr w w'" "mbr_signature mbr = 0xAA55" "length (partitions t) = 16" "i < 4"
  shows "let (n, t', _) = partition_detect dev disk t w in
    partition_get_info disk (of_nat i) t' =
      (if m_type (mbr_entry mbr i) \<noteq> 0 \<and> int i < n
       then Some (make_partition disk i (mbr_entry mbr i)) else None)"
proof -
  from detect_result [OF assms(1-3)] obtain t' where
    d: "partition_detect dev disk t w = (int (partition_count t'), t', w')"
    "take (partition_count t') (partitions t')
      = map (\<lambda>i. make_partition disk i (mbr_entry mbr i)) (used_entries mbr [0, 1, 2, 3])" by blast
  have "i \<in> set [0, 1, 2, 3]" using assms(4) by (simp, presburger)
  then have "i \<in> set (used_entries mbr [0, 1, 2, 3]) \<longleftrightarrow> m_type (mbr_entry mbr i) \<noteq> 0"
    unfolding used_entries_def set_filter PART_TYPE_UNUSED_def by blast
  moreover have "find (\<lambda>p. part_disk p = disk \<and> partition_index p = of_nat i)
      (take (partition_count t') (partitions t'))
      = (if i \<in> set (used_entries mbr [0, 1, 2, 3]) then Some (make_partition disk i (mbr_entry mbr i)) else None)"
    unfolding d(2) using assms(4) by (intro find_by_index) (auto simp: used_entries_def list_all_iff simp del: filter.simps)
  moreover have "unat (of_nat i :: u8) = i" using assms(4) by (intro unat_of_nat_small) simp
  ultimately show ?thesis by (simp add: d(1) partition_get_info_def)
qed

theorem partition_lookup_needs_dense_table_witness:
  "partition_get_info 1 3 (fst (snd (partition_detect one_sector_dev 1 empty_table sparse_mbr))) = None
    \<and> m_type (mbr_entry sparse_mbr 3) = 0x0C"
proof -
  note b = build_decodes [OF sparse_mbr_ok, folded sparse_mbr_def]
  obtain n t' w' where d: "partition_detect one_sector_dev 1 empty_table sparse_mbr = (n, t', w')"
    by (metis prod_cases3)
  have "length (used_entries sparse_mbr [0, 1, 2, 3]) = 1"
    using b(1) [of 0] b(1) [of 1] b(1) [of 2] b(1) [of 3]
    by (simp add: used_entries_def PART_TYPE_UNUSED_def empty_entry_def fat_entry_def)
  with detect_result [OF one_sector_reads [of sparse_mbr] b(2) length_empty_table, of 0] d have "n = 1" by auto
  with d partition_lookup_needs_dense_table [OF one_sector_reads [of sparse_mbr] b(2) length_empty_table, of 0 3]
  have "partition_get_info 1 3 t' = None" by simp
  with d b(1) [of 3] show ?thesis by (simp add: fat_entry_def)
qed

end
