(* ===== verification/Fat_Names.thy ===== *)
theory Fat_Names
  imports Kernel_Prelude
begin

text \<open>
  File names in the FAT32 driver (\<open>fs/fat32.c\<close>): the 8.3 form built from a path component,
  the readable form of a directory entry, and the comparison of the two. A name is the list
  of the bytes of the C string, without its NUL.
\<close>

definition upper :: "u8 \<Rightarrow> u8" where
  "upper c = (if 97 \<le> c \<and> c \<le> 122 then c - 32 else c)"

definition fat32_make_upper :: "bytes \<Rightarrow> bytes" where
  "fat32_make_upper s = map upper s"

text \<open>The loop that splits base and extension; \<open>None\<close> is the error return.\<close>

fun name83_loop :: "bytes \<Rightarrow> bytes \<Rightarrow> bytes \<Rightarrow> bool \<Rightarrow> (bytes \<times> bytes) option" where
  "name83_loop [] base ext saw_dot = Some (base, ext)"
| "name83_loop (c # cs) base ext saw_dot =
     (if c = 47 then None
      else if c = 46 then (if saw_dot then None else name83_loop cs base ext True)
      else if \<not> saw_dot then
        (if 8 \<le> length base then None else name83_loop cs (base @ [c]) ext saw_dot)
      else (if 3 \<le> length ext then None else name83_loop cs base (ext @ [c]) saw_dot))"

definition pad_to :: "nat \<Rightarrow> bytes \<Rightarrow> bytes" where
  "pad_to n s = s @ replicate (n - length s) 32"

definition fat32_make_name83 :: "bytes \<Rightarrow> bytes option" where
  "fat32_make_name83 path =
     (let name = (case path of c # r \<Rightarrow> if c = 47 then r else path | [] \<Rightarrow> [])
      in if name = [] then None
         else (case name83_loop name [] [] False of
                 None \<Rightarrow> None
               | Some (base, ext) \<Rightarrow>
                   Some (pad_to 8 (fat32_make_upper base) @ pad_to 3 (fat32_make_upper ext))))"

text \<open>
  \<open>fat32_format_name\<close> writes into a buffer of \<open>out_size\<close> bytes; the result is the string
  it leaves there.
\<close>

definition put_limited :: "nat \<Rightarrow> bytes \<Rightarrow> bytes \<Rightarrow> bytes" where
  "put_limited out_size cs out =
     fold (\<lambda>c acc. if length acc + 1 < out_size then acc @ [c] else acc) cs out"

definition fat32_format_name :: "bytes \<Rightarrow> nat \<Rightarrow> bytes" where
  "fat32_format_name name out_size =
     (let base = takeWhile (\<lambda>c. c \<noteq> 32) (take 8 name);
          out = put_limited out_size base [];
          ext = take 3 (drop 8 name)
      in if (\<exists>c \<in> set ext. c \<noteq> 32) \<and> length out + 1 < out_size
         then put_limited out_size (takeWhile (\<lambda>c. c \<noteq> 32) ext) (out @ [46])
         else out)"

fun name_match_loop :: "bytes \<Rightarrow> bytes \<Rightarrow> bool" where
  "name_match_loop [] [] = True"
| "name_match_loop (e # es) (n # ns) = (upper e = upper n \<and> name_match_loop es ns)"
| "name_match_loop _ _ = False"

definition fat32_name_match :: "bytes \<Rightarrow> bytes \<Rightarrow> bool" where
  "fat32_name_match entry_name name = name_match_loop (c_str (fat32_format_name entry_name 13)) name"

subsection \<open>8.3 names\<close>

lemma name_match_loop_iff: "name_match_loop es ns \<longleftrightarrow> map upper es = map upper ns"
  by (induction es ns rule: name_match_loop.induct) auto

lemma upper_idem [simp]: "upper (upper c) = upper c"
proof -
  have "unat (c - 32) = unat c - 32" if "97 \<le> c"
  proof -
    have "32 \<le> c" using that by (simp add: word_le_nat_alt)
    then have "unat (c - 32) = unat c - unat (32 :: u8)" by (simp only: unat_sub)
    then show ?thesis by simp
  qed
  then show ?thesis by (auto simp: upper_def word_le_nat_alt)
qed

lemma upper_32 [simp]: "upper c = 32 \<longleftrightarrow> c = 32"
proof -
  have "c - 32 = 32 \<Longrightarrow> c = 64" by (simp add: diff_eq_eq)
  then show ?thesis by (auto simp: upper_def word_le_nat_alt)
qed

lemma upper_0 [simp]: "upper c = 0 \<longleftrightarrow> c = 0"
  by (auto simp: upper_def word_le_nat_alt)

lemma put_limited_fits: "length out + length cs < out_size \<Longrightarrow> put_limited out_size cs out = out @ cs"
  by (induction cs arbitrary: out) (auto simp: put_limited_def)

lemma takeWhile_pad: "32 \<notin> set s \<Longrightarrow> takeWhile (\<lambda>c. c \<noteq> 32) (pad_to n s) = s"
  by (auto simp: pad_to_def takeWhile_append takeWhile_eq_Nil_iff)

lemma length_pad: "length s \<le> n \<Longrightarrow> length (pad_to n s) = n"
  by (simp add: pad_to_def)

text \<open>What the split loop returns, from the dot on and as a whole.\<close>

lemma loop_after_dot:
  "name83_loop cs base ext True = Some (b, e) \<Longrightarrow>
    b = base \<and> e = ext @ cs \<and> 46 \<notin> set cs \<and> 47 \<notin> set cs \<and> (length ext \<le> 3 \<longrightarrow> length e \<le> 3)"
proof (induction cs arbitrary: ext)
  case (Cons c cs)
  then have "name83_loop cs base (ext @ [c]) True = Some (b, e)" "c \<noteq> 46" "c \<noteq> 47" "length ext < 3"
    by (auto split: if_splits)
  with Cons.IH [of "ext @ [c]"] show ?case by auto
qed simp

lemma loop_before_dot:
  "name83_loop cs base [] False = Some (b, e) \<Longrightarrow> length base \<le> 8 \<Longrightarrow>
    length b \<le> 8 \<and> length e \<le> 3 \<and> 47 \<notin> set cs
    \<and> (if 46 \<in> set cs then base @ cs = b @ 46 # e else base @ cs = b \<and> e = [])"
proof (induction cs arbitrary: base)
  case (Cons c cs)
  show ?case
  proof (cases "c = 46")
    case True
    with Cons.prems loop_after_dot [of cs base "[]" b e] show ?thesis by auto
  next
    case False
    with Cons.prems have "name83_loop cs (base @ [c]) [] False = Some (b, e)" "length (base @ [c]) \<le> 8" "c \<noteq> 47"
      by (auto split: if_splits)
    with Cons.IH [of "base @ [c]"] False show ?thesis by auto
  qed
qed simp

text \<open>Names the code can tell apart from their 8.3 form: no space, no NUL, no dot at the end.\<close>

definition plain_name :: "bytes \<Rightarrow> bool" where
  "plain_name s \<longleftrightarrow> s \<noteq> [] \<and> 32 \<notin> set s \<and> 0 \<notin> set s \<and> last s \<noteq> 46 \<and> hd s \<noteq> 47"

lemma name83_parts:
  assumes "plain_name s" "fat32_make_name83 s = Some n"
  shows "\<exists>b e. n = pad_to 8 (map upper b) @ pad_to 3 (map upper e) \<and> length b \<le> 8 \<and> length e \<le> 3
    \<and> s = (if e = [] then b else b @ 46 # e)"
proof -
  from assms have s: "(case s of c # r \<Rightarrow> if c = 47 then r else s | [] \<Rightarrow> []) = s" "s \<noteq> []"
    by (auto simp: plain_name_def split: list.splits)
  from assms(2) s obtain b e where l: "name83_loop s [] [] False = Some (b, e)"
    "n = pad_to 8 (map upper b) @ pad_to 3 (map upper e)"
    by (auto simp: fat32_make_name83_def fat32_make_upper_def Let_def split: option.splits)
  from loop_before_dot [OF l(1)] have "length b \<le> 8" "length e \<le> 3" "s = (if e = [] then b else b @ 46 # e)"
    using assms(1) by (auto simp: plain_name_def split: if_splits)
  with l(2) show ?thesis by blast
qed

text \<open>The readable form of the 8.3 name is the name in upper case.\<close>

lemma format_make_name83:
  assumes "plain_name s" "fat32_make_name83 s = Some n"
  shows "fat32_format_name n 13 = map upper s" and "length n = 11"
proof -
  from name83_parts [OF assms] obtain b e where p: "n = pad_to 8 (map upper b) @ pad_to 3 (map upper e)"
    "length b \<le> 8" "length e \<le> 3" "s = (if e = [] then b else b @ 46 # e)" by blast
  have ns: "32 \<notin> set (map upper b)" "32 \<notin> set (map upper e)"
    using assms(1) p(4) by (auto simp: plain_name_def image_iff split: if_splits)
  show "length n = 11" using p by (simp add: length_pad)
  have t: "take 8 n = pad_to 8 (map upper b)" "take 3 (drop 8 n) = pad_to 3 (map upper e)"
    using p by (simp_all add: length_pad)
  have ex: "(\<exists>c \<in> set (pad_to 3 (map upper e)). c \<noteq> 32) \<longleftrightarrow> e \<noteq> []"
    using ns(2) by (cases e) (auto simp: pad_to_def)
  have u46: "upper 46 = 46" by (simp add: upper_def word_le_nat_alt)
  show "fat32_format_name n 13 = map upper s"
    using p(2-4) u46 by (simp add: fat32_format_name_def Let_def t takeWhile_pad [OF ns(1)] takeWhile_pad [OF ns(2)] ex
        put_limited_fits)
qed

text \<open>The split does not look at case.\<close>

lemma upper_46 [simp]: "upper c = 46 \<longleftrightarrow> c = 46"
proof -
  have "c - 32 = 46 \<Longrightarrow> c = 78" by (simp add: diff_eq_eq)
  then show ?thesis by (auto simp: upper_def word_le_nat_alt)
qed

lemma upper_47 [simp]: "upper c = 47 \<longleftrightarrow> c = 47"
proof -
  have "c - 32 = 47 \<Longrightarrow> c = 79" by (simp add: diff_eq_eq)
  then show ?thesis by (auto simp: upper_def word_le_nat_alt)
qed

lemma name83_loop_upper:
  "name83_loop (map upper cs) (map upper b) (map upper e) d
   = map_option (\<lambda>(x, y). (map upper x, map upper y)) (name83_loop cs b e d)"
proof (induction cs b e d rule: name83_loop.induct)
  case (2 c cs base ext saw_dot)
  then show ?case by auto
qed simp

lemma name83_upper:
  assumes "plain_name s" "fat32_make_name83 s = Some n"
  shows "fat32_make_name83 (map upper s) = Some n"
proof -
  have strip: "(case t of c # r \<Rightarrow> if c = 47 then r else t | [] \<Rightarrow> []) = t"
    if "t \<noteq> []" "hd t \<noteq> 47" for t :: bytes
    using that by (cases t) auto
  from assms(1) have s: "s \<noteq> []" "hd s \<noteq> 47" "map upper s \<noteq> []" "hd (map upper s) \<noteq> 47"
    by (simp_all add: plain_name_def hd_map)
  have "name83_loop (map upper s) [] [] False
      = map_option (\<lambda>(x, y). (map upper x, map upper y)) (name83_loop s [] [] False)"
    using name83_loop_upper [of s "[]" "[]" False] by simp
  with assms(2) strip [OF s(1,2)] strip [OF s(3,4)] s(1) show ?thesis
    by (auto simp del: name83_loop.simps simp: fat32_make_name83_def fat32_make_upper_def Let_def o_def
        split: option.splits)
qed

subsection \<open>Property\<close>

text \<open>C35: the 8.3 form identifies a file up to case. For names without spaces, NULs and a
  trailing dot that have an 8.3 form, the form is 11 bytes, its directory entry matches
  exactly the names equal to the original up to case, and two names have the same form
  only if they are equal up to case.\<close>

theorem name83_identifies:
  assumes "plain_name s" "fat32_make_name83 s = Some n" "plain_name s'" "fat32_make_name83 s' = Some n'"
  shows "length n = 11 \<and> (\<forall>q. fat32_name_match n q \<longleftrightarrow> map upper q = map upper s)
    \<and> (n = n' \<longleftrightarrow> map upper s = map upper s')"
proof -
  note f = format_make_name83 [OF assms(1,2)] and f' = format_make_name83 [OF assms(3,4)]
  have "0 \<notin> set (map upper s)" using assms(1) by (auto simp: plain_name_def image_iff)
  then have "fat32_name_match n q \<longleftrightarrow> map upper q = map upper s" for q
    by (auto simp: fat32_name_match_def f name_match_loop_iff c_str_id o_def)
  moreover have "n = n'" if "map upper s = map upper s'"
    using that name83_upper [OF assms(1,2)] name83_upper [OF assms(3,4)] by simp
  ultimately show ?thesis using f f' by auto
qed

lemma name83_identifies_witness:
  "length [82, 69, 65, 68, 77, 69, 32, 32, 84, 88, 84 :: u8] = 11
    \<and> fat32_name_match [82, 69, 65, 68, 77, 69, 32, 32, 84, 88, 84] [114, 101, 97, 100, 109, 101, 46, 116, 120, 84]
    \<and> \<not> fat32_name_match [82, 69, 65, 68, 77, 69, 32, 32, 84, 88, 84] [114, 101, 97, 100, 109, 101]"
proof -
  have a: "plain_name [82, 101, 97, 100, 77, 101, 46, 84, 120, 116]" by (simp add: plain_name_def)
  have b: "fat32_make_name83 [82, 101, 97, 100, 77, 101, 46, 84, 120, 116]
      = Some [82, 69, 65, 68, 77, 69, 32, 32, 84, 88, 84]" by code_simp
  note q = name83_identifies [OF a b a b]
  have c: "map upper [114, 101, 97, 100, 109, 101, 46, 116, 120, 84]
      = map upper [82, 101, 97, 100, 77, 101, 46, 84, 120, 116]"
    and d: "map upper [114, 101, 97, 100, 109, 101] \<noteq> map upper [82, 101, 97, 100, 77, 101, 46, 84, 120, 116]"
    by code_simp+
  from q c d show ?thesis by blast
qed

end
