(* ===== verification/C_Memory.thy ===== *)
theory C_Memory
  imports Kernel_Prelude
begin

text \<open>
  The private \<open>memcpy\<close>, \<open>memset\<close> and \<open>memcmp\<close> of \<open>fs/fat32.c\<close> and \<open>fs/partition.c\<close>, as the loops
  they are, on the bytes behind their pointers, and the list operations they amount to. The
  models of the file system and the partition table write these list operations.
\<close>

definition memcpy :: "bytes \<Rightarrow> bytes \<Rightarrow> int \<Rightarrow> bytes" where
  "memcpy dest src n = fold (\<lambda>i d. d[i := src ! i]) [0..<nat n] dest"

definition memset :: "bytes \<Rightarrow> int \<Rightarrow> int \<Rightarrow> bytes" where
  "memset dest value n = fold (\<lambda>i d. d[i := of_int value]) [0..<nat n] dest"

fun memcmp_loop :: "bytes \<Rightarrow> bytes \<Rightarrow> nat list \<Rightarrow> int" where
  "memcmp_loop a b [] = 0"
| "memcmp_loop a b (i # is) = (if a ! i \<noteq> b ! i then uint (a ! i) - uint (b ! i) else memcmp_loop a b is)"

definition memcmp :: "bytes \<Rightarrow> bytes \<Rightarrow> int \<Rightarrow> int" where
  "memcmp a b n = memcmp_loop a b [0..<nat n]"

subsection \<open>What the loops compute\<close>

lemma fold_update:
  "n \<le> length d \<Longrightarrow> fold (\<lambda>i d. d[i := g i]) [0..<n] d = map g [0..<n] @ drop n d"
proof (induction n)
  case (Suc n)
  then have "drop n d = d ! n # drop (Suc n) d" by (simp add: Cons_nth_drop_Suc)
  with Suc show ?case by (simp add: list_update_append)
qed simp

lemma memcpy_blit: "nat n \<le> length src \<Longrightarrow> nat n \<le> length dest \<Longrightarrow> memcpy dest src n = blit 0 (take (nat n) src) dest"
  by (auto simp: memcpy_def fold_update blit_def intro: nth_equalityI)

lemma memset_replicate: "nat n \<le> length dest \<Longrightarrow> memset dest value n = replicate (nat n) (of_int value) @ drop (nat n) dest"
  by (simp add: memset_def fold_update map_replicate_const)

lemma memcmp_loop_zero: "memcmp_loop a b is = 0 \<longleftrightarrow> (\<forall>i \<in> set is. a ! i = b ! i)"
  by (induction "is") (auto simp: word_uint_eq_iff)

lemma memcmp_equal:
  "nat n \<le> length a \<Longrightarrow> nat n \<le> length b \<Longrightarrow> memcmp a b n = 0 \<longleftrightarrow> take (nat n) a = take (nat n) b"
  by (auto simp: memcmp_def memcmp_loop_zero list_eq_iff_nth_eq)

end
