(* ===== verification/Fat_State.thy ===== *)
theory Fat_State
  imports Ata Partition Fat_Names C_Memory
begin

text \<open>
  The static data of the FAT32 driver (\<open>fs/fat32.c\<close>, \<open>fs/fat32.h\<close>): the mounted file
  system, the one-sector FAT cache, the root directory buffer and the one open file; and
  the fields of the 32-byte directory entries. The disk is reached through the record of
  sector operations; \<open>f\<close> is the driver's state, \<open>w\<close> the outside world.
\<close>

record fat_fs =
  fs_disk :: u8
  fs_partition :: u8
  fs_start_lba :: u32
  fat_start :: u32
  data_start :: u32
  root_dir_cluster :: u32
  sectors_per_fat :: u32
  num_fats :: u8
  bytes_per_sector :: u16
  sectors_per_cluster :: u8
  total_clusters :: u32
  current_dir_cluster :: u32
  current_path :: bytes

record fat_file =
  file_first_cluster :: u32
  file_current_cluster :: u32
  file_position :: u32
  file_size :: u32
  file_sector_offset :: u32
  file_disk :: u32
  file_partition :: u8
  file_attributes :: u8

record fat_dir =
  dir_first_cluster :: u32
  dir_current_cluster :: u32
  dir_entry_index :: u32
  dir_disk :: u32
  dir_partition :: u8

record fat32 =
  current_fs :: fat_fs
  fs_mounted :: bool
  root_dir_buffer :: bytes
  root_dir_handle :: fat_dir
  fat_sector_cache :: bytes
  fat_cache_sector :: u32
  open_file :: fat_file
  file_cluster_buf :: bytes

definition ATTR_DIRECTORY :: u8 where "ATTR_DIRECTORY = 0x10"
definition ATTR_ARCHIVE :: u8 where "ATTR_ARCHIVE = 0x20"
definition ATTR_LFN :: u8 where "ATTR_LFN = 0x0f"

definition fat32_disk_to_ata :: "u8 \<Rightarrow> u8 \<times> u8" where
  "fat32_disk_to_ata disk =
     (if disk = 0 then (ATA_PRIMARY, ATA_MASTER) else if disk = 1 then (ATA_PRIMARY, ATA_SLAVE)
      else if disk = 2 then (ATA_SECONDARY, ATA_MASTER) else (ATA_SECONDARY, ATA_SLAVE))"

text \<open>The two sector operations on the disk of the mounted file system.\<close>

definition fs_read :: "'w blkdev \<Rightarrow> fat32 \<Rightarrow> u32 \<Rightarrow> u16 \<Rightarrow> 'w \<Rightarrow> int \<times> bytes \<times> 'w" where
  "fs_read dev f = (case fat32_disk_to_ata (fs_disk (current_fs f)) of (channel, drive) \<Rightarrow> blk_read dev channel drive)"

definition fs_write :: "'w blkdev \<Rightarrow> fat32 \<Rightarrow> u32 \<Rightarrow> u16 \<Rightarrow> bytes \<Rightarrow> 'w \<Rightarrow> int \<times> 'w" where
  "fs_write dev f = (case fat32_disk_to_ata (fs_disk (current_fs f)) of (channel, drive) \<Rightarrow> blk_write dev channel drive)"

definition fat32_cluster_to_lba :: "fat32 \<Rightarrow> u32 \<Rightarrow> u32" where
  "fat32_cluster_to_lba f cluster =
     data_start (current_fs f) + (cluster - 2) * ucast (sectors_per_cluster (current_fs f))"

definition fat32_is_end_of_chain :: "u32 \<Rightarrow> bool" where
  "fat32_is_end_of_chain cluster \<longleftrightarrow> 0x0FFFFFF8 \<le> cluster"

definition fat32_is_valid_cluster :: "u32 \<Rightarrow> bool" where
  "fat32_is_valid_cluster cluster \<longleftrightarrow> 2 \<le> cluster \<and> cluster < 0x0FFFFFF8"

text \<open>The size of a cluster in bytes, and the number of directory entries in it.\<close>

definition cluster_size :: "fat32 \<Rightarrow> nat" where
  "cluster_size f = unat (sectors_per_cluster (current_fs f)) * 512"

definition max_entries :: "fat32 \<Rightarrow> nat" where
  "max_entries f = unat (sectors_per_cluster (current_fs f)) * 512 div 32"

subsection \<open>Directory entries\<close>

text \<open>An entry is its 32 bytes.\<close>

definition de_name :: "bytes \<Rightarrow> bytes" where "de_name e = take 11 e"
definition de_attributes :: "bytes \<Rightarrow> u8" where "de_attributes e = e ! 11"
definition de_file_size :: "bytes \<Rightarrow> u32" where "de_file_size e = get_le32 e 28"

definition de_first_cluster :: "bytes \<Rightarrow> u32" where
  "de_first_cluster e = push_bit 16 (ucast (get_le16 e 20)) OR ucast (get_le16 e 26)"

definition de_set_cluster :: "u32 \<Rightarrow> bytes \<Rightarrow> bytes" where
  "de_set_cluster c e =
     blit 26 (le16 (ucast (c AND 0xFFFF))) (blit 20 (le16 (ucast (drop_bit 16 c AND 0xFFFF))) e)"

definition de_set_size :: "u32 \<Rightarrow> bytes \<Rightarrow> bytes" where
  "de_set_size n e = blit 28 (le32 n) e"

text \<open>A fresh entry: all bytes zero but the name and the attributes.\<close>

definition de_new :: "bytes \<Rightarrow> u8 \<Rightarrow> bytes" where
  "de_new name83 attr = (blit 0 name83 (replicate 32 0))[11 := attr]"

definition de_free :: "bytes \<Rightarrow> bool" where
  "de_free e \<longleftrightarrow> e ! 0 = 0xE5 \<or> de_attributes e = ATTR_LFN"

definition dir_entry :: "bytes \<Rightarrow> nat \<Rightarrow> bytes" where
  "dir_entry buf i = seg (i * 32) 32 buf"

definition dir_put :: "nat \<Rightarrow> bytes \<Rightarrow> bytes \<Rightarrow> bytes" where
  "dir_put i e buf = blit (i * 32) e buf"

text \<open>
  The search loop shared by the operations: it stops at the first entry with a zero name,
  skips deleted and long-name entries, and ends at the first entry that satisfies the
  test. The result \<open>None\<close> is a read past the end of the buffer, \<open>Some None\<close> not found.
\<close>

fun dir_search :: "(bytes \<Rightarrow> bool) \<Rightarrow> bytes \<Rightarrow> nat \<Rightarrow> nat \<Rightarrow> nat option option" where
  "dir_search test buf i 0 = Some None"
| "dir_search test buf i (Suc n) =
     (if length buf < i * 32 + 32 then None
      else let e = dir_entry buf i in
        if e ! 0 = 0 then Some None
        else if de_free e then dir_search test buf (i + 1) n
        else if test e then Some (Some i)
        else dir_search test buf (i + 1) n)"

text \<open>The state as it is before the first mount.\<close>

definition fat32_boot :: fat32 where
  "fat32_boot = \<lparr>current_fs = \<lparr>fs_disk = 0, fs_partition = 0, fs_start_lba = 0, fat_start = 0, data_start = 0,
      root_dir_cluster = 0, sectors_per_fat = 0, num_fats = 0, bytes_per_sector = 0, sectors_per_cluster = 0,
      total_clusters = 0, current_dir_cluster = 0, current_path = replicate 256 0\<rparr>,
    fs_mounted = False, root_dir_buffer = replicate 16384 0,
    root_dir_handle = \<lparr>dir_first_cluster = 0, dir_current_cluster = 0, dir_entry_index = 0, dir_disk = 0,
      dir_partition = 0\<rparr>,
    fat_sector_cache = replicate 512 0, fat_cache_sector = 0xFFFFFFFF,
    open_file = \<lparr>file_first_cluster = 0, file_current_cluster = 0, file_position = 0, file_size = 0,
      file_sector_offset = 0, file_disk = 0, file_partition = 0, file_attributes = 0\<rparr>,
    file_cluster_buf = replicate 4096 0\<rparr>"

subsection \<open>Laws of the entry fields\<close>

lemma join_halves: "push_bit 16 (ucast (ucast (drop_bit 16 c AND 0xFFFF) :: u16)) OR ucast (ucast (c AND 0xFFFF) :: u16) = (c :: u32)"
proof (rule bit_word_eqI)
  have m: "(0xFFFF :: u32) = mask 16" by (simp add: mask_eq_exp_minus_1)
  fix n assume n: "n < LENGTH(32)"
  consider "n < 16" | "16 \<le> n" by linarith
  then show "bit (push_bit 16 (ucast (ucast (drop_bit 16 c AND 0xFFFF) :: u16))
      OR ucast (ucast (c AND 0xFFFF) :: u16) :: u32) n \<longleftrightarrow> bit c n"
    unfolding m by cases (use n in \<open>auto simp: bit_simps\<close>)
qed

lemma length_set_cluster [simp]: "length e = 32 \<Longrightarrow> length (de_set_cluster c e) = 32"
  by (simp add: de_set_cluster_def)

lemma length_set_size [simp]: "length e = 32 \<Longrightarrow> length (de_set_size c e) = 32"
  by (simp add: de_set_size_def)

lemma length_de_new [simp]: "length (de_new n a) = 32"
  by (simp add: de_new_def)

lemma first_cluster_set [simp]: "length e = 32 \<Longrightarrow> de_first_cluster (de_set_cluster c e) = c"
  by (simp add: de_first_cluster_def de_set_cluster_def get_le16_blit get_le16_blit_other join_halves)

lemma first_cluster_set_size [simp]: "length e = 32 \<Longrightarrow> de_first_cluster (de_set_size n e) = de_first_cluster e"
  by (simp add: de_first_cluster_def de_set_size_def get_le16_blit_other)

lemma file_size_set [simp]: "length e = 32 \<Longrightarrow> de_file_size (de_set_size n e) = n"
  by (simp add: de_file_size_def de_set_size_def get_le32_blit)

lemma nth_set_cluster: "length e = 32 \<Longrightarrow> i < 20 \<Longrightarrow> de_set_cluster c e ! i = e ! i"
  by (simp add: de_set_cluster_def nth_blit)

lemma nth_set_size: "length e = 32 \<Longrightarrow> i < 28 \<Longrightarrow> de_set_size c e ! i = e ! i"
  by (simp add: de_set_size_def nth_blit)

lemma name_set_cluster [simp]: "length e = 32 \<Longrightarrow> de_name (de_set_cluster c e) = de_name e"
  by (rule nth_equalityI) (simp_all add: de_name_def nth_set_cluster)

lemma name_set_size [simp]: "length e = 32 \<Longrightarrow> de_name (de_set_size c e) = de_name e"
  by (rule nth_equalityI) (simp_all add: de_name_def nth_set_size)

lemma attr_set_cluster [simp]: "length e = 32 \<Longrightarrow> de_attributes (de_set_cluster c e) = de_attributes e"
  by (simp add: de_attributes_def nth_set_cluster)

lemma attr_set_size [simp]: "length e = 32 \<Longrightarrow> de_attributes (de_set_size c e) = de_attributes e"
  by (simp add: de_attributes_def nth_set_size)

lemma name_new [simp]: "length n = 11 \<Longrightarrow> de_name (de_new n a) = n"
  by (rule nth_equalityI) (simp_all add: de_name_def de_new_def nth_blit)

lemma attr_new [simp]: "length n = 11 \<Longrightarrow> de_attributes (de_new n a) = a"
  by (simp add: de_attributes_def de_new_def)

text \<open>Entries of a directory buffer.\<close>

lemma length_dir_entry: "i * 32 + 32 \<le> length buf \<Longrightarrow> length (dir_entry buf i) = 32"
  by (simp add: dir_entry_def)

lemma length_dir_put [simp]: "i * 32 \<le> length buf \<Longrightarrow> length (dir_put i e buf) = length buf"
  by (simp add: dir_put_def)

lemma dir_entry_put [simp]:
  "length e = 32 \<Longrightarrow> i * 32 + 32 \<le> length buf \<Longrightarrow> dir_entry (dir_put i e buf) i = e"
  using seg_blit_same [of "i * 32" e buf] by (simp add: dir_entry_def dir_put_def)

lemma dir_entry_put_other:
  assumes "length e = 32" "i * 32 + 32 \<le> length buf" "j * 32 + 32 \<le> length buf" "i \<noteq> j"
  shows "dir_entry (dir_put i e buf) j = dir_entry buf j"
proof -
  have "j * 32 + 32 \<le> i * 32 \<or> i * 32 + 32 \<le> j * 32" using assms(4) by linarith
  with assms show ?thesis by (simp add: dir_entry_def dir_put_def seg_blit_other)
qed

end
