(* ===== verification/Fat_Table.thy ===== *)
theory Fat_Table
  imports Fat_State "HOL-Library.Monad_Syntax"
begin

text \<open>
  The file allocation table (\<open>fs/fat32.c\<close>): reading an entry through the one-sector cache,
  writing it to every copy, and finding, allocating and freeing clusters. The operations
  return their C result, the driver's state and the world.
\<close>

definition fat32_next_cluster :: "'w blkdev \<Rightarrow> u32 \<Rightarrow> fat32 \<Rightarrow> 'w \<Rightarrow> u32 \<times> fat32 \<times> 'w" where
  "fat32_next_cluster dev cluster f w =
     (let fat_offset = cluster * 4;
          fat_sector = fat_start (current_fs f) + fat_offset div 512;
          entry_offset = unat (fat_offset mod 512);
          (hit, f, w) =
            (if fat_sector \<noteq> fat_cache_sector f then
               let (r, bs, w) = fs_read dev f fat_sector 1 w;
                   f = f\<lparr>fat_sector_cache := blit 0 bs (fat_sector_cache f)\<rparr>
               in if r \<noteq> 1 then (False, f, w) else (True, f\<lparr>fat_cache_sector := fat_sector\<rparr>, w)
             else (True, f, w))
      in if \<not> hit then (0, f, w)
         else (get_le32 (fat_sector_cache f) entry_offset AND 0x0FFFFFFF, f, w))"

text \<open>The loop over the FAT copies; the result says whether every transfer succeeded.\<close>

fun set_entry_loop :: "'w blkdev \<Rightarrow> fat32 \<Rightarrow> u32 \<Rightarrow> nat \<Rightarrow> u32 \<Rightarrow> nat list \<Rightarrow> 'w \<Rightarrow> bool \<times> 'w" where
  "set_entry_loop dev f sector_index entry_offset val [] w = (True, w)"
| "set_entry_loop dev f sector_index entry_offset val (fat # fats) w =
     (let abs_sector = fat_start (current_fs f) + of_nat fat * sectors_per_fat (current_fs f) + sector_index;
          (r, sector_buf, w) = fs_read dev f abs_sector 1 w
      in if r \<noteq> 1 then (False, w)
         else let (r, w) = fs_write dev f abs_sector 1 (blit entry_offset (le32 val) sector_buf) w
              in if r \<noteq> 1 then (False, w)
                 else set_entry_loop dev f sector_index entry_offset val fats w)"

definition fat32_set_fat_entry :: "'w blkdev \<Rightarrow> u32 \<Rightarrow> u32 \<Rightarrow> fat32 \<Rightarrow> 'w \<Rightarrow> int \<times> fat32 \<times> 'w" where
  "fat32_set_fat_entry dev cluster val f w =
     (let fat_offset = cluster * 4;
          sector_index = fat_offset div 512;
          entry_offset = unat (fat_offset mod 512);
          (done, w) = set_entry_loop dev f sector_index entry_offset val [0..<unat (num_fats (current_fs f))] w
      in if \<not> done then (-1, f, w)
         else (0, if fat_cache_sector f = fat_start (current_fs f) + sector_index
                  then f\<lparr>fat_sector_cache := blit entry_offset (le32 val) (fat_sector_cache f)\<rparr> else f, w))"

fun find_free_loop :: "'w blkdev \<Rightarrow> nat list \<Rightarrow> fat32 \<Rightarrow> 'w \<Rightarrow> u32 option \<times> fat32 \<times> 'w" where
  "find_free_loop dev [] f w = (None, f, w)"
| "find_free_loop dev (c # cs) f w =
     (let (next, f, w) = fat32_next_cluster dev (of_nat c) f w
      in if next = 0 then (Some (of_nat c), f, w) else find_free_loop dev cs f w)"

definition fat32_find_free_cluster :: "'w blkdev \<Rightarrow> fat32 \<Rightarrow> 'w \<Rightarrow> u32 option \<times> fat32 \<times> 'w" where
  "fat32_find_free_cluster dev f w = find_free_loop dev [2..<unat (total_clusters (current_fs f) + 2)] f w"

text \<open>The loop that frees a chain; not to return is \<open>None\<close>.\<close>

partial_function (option) fat32_free_cluster_chain ::
    "'w blkdev \<Rightarrow> u32 \<Rightarrow> fat32 \<Rightarrow> 'w \<Rightarrow> (int \<times> fat32 \<times> 'w) option" where
  "fat32_free_cluster_chain dev cluster f w =
     (if \<not> fat32_is_valid_cluster cluster then Some (0, f, w)
      else let (next, f, w) = fat32_next_cluster dev cluster f w;
               (r, f, w) = fat32_set_fat_entry dev cluster 0 f w
           in if r \<noteq> 0 then Some (-1, f, w)
              else if fat32_is_end_of_chain next \<or> next = 0 then Some (0, f, w)
              else fat32_free_cluster_chain dev next f w)"

text \<open>The allocation loop; the result is \<open>first\<close> and \<open>prev\<close>, or the error return.\<close>

fun alloc_loop :: "'w blkdev \<Rightarrow> nat \<Rightarrow> u32 \<Rightarrow> u32 \<Rightarrow> fat32 \<Rightarrow> 'w \<Rightarrow> (u32 \<times> u32) option \<times> fat32 \<times> 'w" where
  "alloc_loop dev 0 first prev f w = (Some (first, prev), f, w)"
| "alloc_loop dev (Suc n) first prev f w =
     (case fat32_find_free_cluster dev f w of
        (None, f, w) \<Rightarrow> (None, f, w)
      | (Some cluster, f, w) \<Rightarrow>
          let first = (if first = 0 then cluster else first);
              (r, f, w) = (if prev \<noteq> 0 then fat32_set_fat_entry dev prev cluster f w else (0, f, w))
          in if r \<noteq> 0 then (None, f, w) else alloc_loop dev n first cluster f w)"

definition fat32_allocate_cluster_chain :: "'w blkdev \<Rightarrow> nat \<Rightarrow> fat32 \<Rightarrow> 'w \<Rightarrow> u32 option \<times> fat32 \<times> 'w" where
  "fat32_allocate_cluster_chain dev count f w =
     (case alloc_loop dev count 0 0 f w of
        (None, f, w) \<Rightarrow> (None, f, w)
      | (Some (first, prev), f, w) \<Rightarrow>
          let (r, f, w) = (if prev \<noteq> 0 then fat32_set_fat_entry dev prev 0x0FFFFFFF f w else (0, f, w))
          in (if r \<noteq> 0 then None else Some first, f, w))"

subsection \<open>The table on disk\<close>

text \<open>
  A volume that fits a disk of \<open>cap\<close> sectors: clusters of one to eight sectors, the FAT
  copies right before the data region, an entry for every data cluster.
\<close>

definition vol_ok :: "nat \<Rightarrow> fat_fs \<Rightarrow> bool" where
  "vol_ok cap v \<longleftrightarrow> 0 < num_fats v \<and> 0 < sectors_per_cluster v \<and> unat (sectors_per_cluster v) \<le> 8
     \<and> unat (fat_start v) + unat (num_fats v) * unat (sectors_per_fat v) = unat (data_start v)
     \<and> unat (total_clusters v) + 2 \<le> unat (sectors_per_fat v) * 128
     \<and> unat (total_clusters v) + 2 \<le> 0x0FFFFFF8
     \<and> unat (data_start v) + unat (total_clusters v) * unat (sectors_per_cluster v) \<le> cap \<and> cap < 2 ^ 32"

definition data_cluster :: "fat_fs \<Rightarrow> u32 \<Rightarrow> bool" where
  "data_cluster v c \<longleftrightarrow> 2 \<le> unat c \<and> unat c < unat (total_clusters v) + 2"

text \<open>The sector and the value of an entry in copy \<open>i\<close>; the chain follows copy 0.\<close>

definition entry_sector :: "fat_fs \<Rightarrow> nat \<Rightarrow> u32 \<Rightarrow> nat" where
  "entry_sector v i c = unat (fat_start v) + i * unat (sectors_per_fat v) + unat c div 128"

definition fat_val :: "fat_fs \<Rightarrow> disk \<Rightarrow> nat \<Rightarrow> u32 \<Rightarrow> u32" where
  "fat_val v d i c = get_le32 (d (entry_sector v i c)) (unat c mod 128 * 4)"

definition fat_next :: "fat_fs \<Rightarrow> disk \<Rightarrow> u32 \<Rightarrow> u32" where
  "fat_next v d c = fat_val v d 0 c AND 0x0FFFFFFF"

definition fat_put :: "fat_fs \<Rightarrow> u32 \<Rightarrow> u32 \<Rightarrow> disk \<Rightarrow> disk" where
  "fat_put v c x d = (\<lambda>k. if k \<in> (\<lambda>i. entry_sector v i c) ` {..<unat (num_fats v)}
     then blit (unat c mod 128 * 4) (le32 x) (d k) else d k)"

text \<open>The cached sector is a sector of the first copy, as it is on disk.\<close>

definition cache_ok :: "fat32 \<Rightarrow> disk \<Rightarrow> bool" where
  "cache_ok f d \<longleftrightarrow> length (fat_sector_cache f) = 512 \<and>
     (fat_cache_sector f = 0xFFFFFFFF \<or>
       unat (fat_start (current_fs f)) \<le> unat (fat_cache_sector f)
       \<and> unat (fat_cache_sector f) < unat (fat_start (current_fs f)) + unat (sectors_per_fat (current_fs f))
       \<and> fat_sector_cache f = d (unat (fat_cache_sector f)))"

text \<open>Two states that differ in the FAT cache only.\<close>

definition but_cache :: "fat32 \<Rightarrow> fat32 \<Rightarrow> bool" where
  "but_cache f f' \<longleftrightarrow> (\<exists>bs s. f' = f\<lparr>fat_sector_cache := bs, fat_cache_sector := s\<rparr>)"

lemma but_cache_refl [simp]: "but_cache f f"
  unfolding but_cache_def by (rule exI [of _ "fat_sector_cache f"], rule exI [of _ "fat_cache_sector f"]) simp

lemma but_cache_sector_cache [simp]: "but_cache f (f\<lparr>fat_sector_cache := bs\<rparr>)"
  unfolding but_cache_def by (rule exI [of _ bs], rule exI [of _ "fat_cache_sector f"]) simp

lemma but_cache_trans [trans]: "but_cache f g \<Longrightarrow> but_cache g h \<Longrightarrow> but_cache f h"
  unfolding but_cache_def by (metis fat32.surjective fat32.update_convs(5,6))

lemma but_cache_same:
  assumes "but_cache f f'"
  shows "current_fs f' = current_fs f" "fs_mounted f' = fs_mounted f" "root_dir_buffer f' = root_dir_buffer f"
    "root_dir_handle f' = root_dir_handle f" "open_file f' = open_file f" "file_cluster_buf f' = file_cluster_buf f"
    "fs_read dev f' = fs_read dev f" "fs_write dev f' = fs_write dev f"
    "cluster_size f' = cluster_size f" "max_entries f' = max_entries f"
    "fat32_cluster_to_lba f' = fat32_cluster_to_lba f"
  using assms by (auto simp: but_cache_def fs_read_def fs_write_def cluster_size_def max_entries_def
      fat32_cluster_to_lba_def fun_eq_iff)

lemma entry_offset_nat:
  assumes "unat c < 2 ^ 28"
  shows "unat ((c :: u32) * 4 div 512) = unat c div 128" "unat (c * 4 mod 512) = unat c mod 128 * 4"
proof -
  have u: "unat (c * 4) = unat c * 4" using assms by (simp add: unat_word_ariths)
  show "unat (c * 4 div 512) = unat c div 128" using u by (simp add: unat_div)
  have "unat (c * 4 mod 512) = unat c * 4 mod 512" using u by (simp add: unat_mod)
  also have "\<dots> = unat c mod 128 * 4" using mult_mod_left [of "unat c" 128 4] by simp
  finally show "unat (c * 4 mod 512) = unat c mod 128 * 4" .
qed

lemma entry_bound: "unat c mod 128 * 4 + 4 \<le> 512"
  by simp

lemma vol_num_fats: "vol_ok cap v \<Longrightarrow> 0 < unat (num_fats v)"
  by (simp add: vol_ok_def word_gt_0 unat_gt_0)

lemma vol_bounds:
  assumes vol: "vol_ok cap v" and c: "data_cluster v c"
  shows "unat c < 2 ^ 28" "unat c div 128 < unat (sectors_per_fat v)"
    "i < unat (num_fats v) \<Longrightarrow> entry_sector v i c < unat (data_start v)" "unat (data_start v) \<le> cap"
    "entry_sector v 0 c < unat (fat_start v) + unat (sectors_per_fat v)"
proof -
  show "unat c < 2 ^ 28" using assms by (simp add: data_cluster_def vol_ok_def)
  show s: "unat c div 128 < unat (sectors_per_fat v)"
    using assms by (auto simp: data_cluster_def vol_ok_def less_mult_imp_div_less)
  show "unat (data_start v) \<le> cap" using vol by (simp add: vol_ok_def)
  show "entry_sector v 0 c < unat (fat_start v) + unat (sectors_per_fat v)"
    using s by (simp add: entry_sector_def)
  assume "i < unat (num_fats v)"
  then have "Suc i * unat (sectors_per_fat v) \<le> unat (num_fats v) * unat (sectors_per_fat v)"
    by (intro mult_le_mono1) simp
  with s vol show "entry_sector v i c < unat (data_start v)" by (simp add: entry_sector_def vol_ok_def)
qed

lemma entry_sector_inj:
  assumes "vol_ok cap v" "data_cluster v c" "data_cluster v c'"
  shows "entry_sector v i c = entry_sector v j c' \<longleftrightarrow> i = j \<and> unat c div 128 = unat c' div 128"
proof
  let ?n = "unat (sectors_per_fat v)"
  note b = vol_bounds(2) [OF assms(1,2)] vol_bounds(2) [OF assms(1,3)]
  assume "entry_sector v i c = entry_sector v j c'"
  then have e: "i * ?n + unat c div 128 = j * ?n + unat c' div 128" by (simp add: entry_sector_def)
  have "(i * ?n + unat c div 128) div ?n = i" "(j * ?n + unat c' div 128) div ?n = j" using b by auto
  with e show "i = j \<and> unat c div 128 = unat c' div 128" by simp
qed (simp add: entry_sector_def)

lemma sector_word:
  assumes vol: "vol_ok cap v" and c: "data_cluster v c" and i: "i < unat (num_fats v)"
  shows "unat (fat_start v + of_nat i * sectors_per_fat v + c * 4 div 512) = entry_sector v i c"
proof -
  let ?f = "unat (fat_start v)" and ?n = "unat (sectors_per_fat v)"
  have lt: "?f + i * ?n + unat c div 128 < 2 ^ 32"
    using vol_bounds(3) [OF vol c i] vol_bounds(4) [OF vol c] vol by (simp add: entry_sector_def vol_ok_def)
  have "unat (num_fats v) < 2 ^ LENGTH(8)" by (rule unsigned_less)
  with i have i': "unat (of_nat i :: u32) = i" by (intro unat_of_nat_small) simp
  have m: "unat (of_nat i * sectors_per_fat v) = i * ?n" using lt i' by (simp add: unat_word_ariths)
  have a: "unat (fat_start v + of_nat i * sectors_per_fat v) = ?f + i * ?n" using m lt by (simp add: unat_word_ariths)
  show ?thesis
    using a lt entry_offset_nat(1) [OF vol_bounds(1) [OF vol c]] by (simp add: unat_word_ariths entry_sector_def)
qed

lemma fat_val_put:
  assumes "vol_ok cap v" "data_cluster v c" "data_cluster v c'" "disk_ok d" "i < unat (num_fats v)"
  shows "fat_val v (fat_put v c x d) i c' = (if c' = c then x else fat_val v d i c')"
proof (cases "unat c div 128 = unat c' div 128")
  case True
  then have "entry_sector v i c' = entry_sector v i c" by (simp add: entry_sector_def)
  then have p: "fat_put v c x d (entry_sector v i c') = blit (unat c mod 128 * 4) (le32 x) (d (entry_sector v i c'))"
    using assms(5) by (auto simp: fat_put_def)
  have l: "length (d (entry_sector v i c')) = 512" using assms(4) by (simp add: disk_ok_def)
  have "unat c = unat c' \<longleftrightarrow> unat c mod 128 = unat c' mod 128"
    using True by (metis div_mult_mod_eq)
  then have "unat c mod 128 * 4 + 4 \<le> unat c' mod 128 * 4 \<or> unat c' mod 128 * 4 + 4 \<le> unat c mod 128 * 4 \<or> c = c'"
    by (auto simp: word_unat_eq_iff)
  moreover have "get_le32 (blit (unat c mod 128 * 4) (le32 x) (d (entry_sector v i c'))) (unat c' mod 128 * 4)
      = get_le32 (d (entry_sector v i c')) (unat c' mod 128 * 4)" if "c' \<noteq> c"
    using that calculation l entry_bound [of c] entry_bound [of c'] by (intro get_le32_blit_other) auto
  ultimately show ?thesis using p l entry_bound [of c] by (auto simp: fat_val_def get_le32_blit)
next
  case False
  then have "entry_sector v i c' \<notin> (\<lambda>i. entry_sector v i c) ` {..<unat (num_fats v)}"
    by (auto simp: entry_sector_inj [OF assms(1,2,3)] entry_sector_inj [OF assms(1,3,2)])
  with False show ?thesis by (auto simp: fat_val_def fat_put_def)
qed

lemma fat_next_put:
  "vol_ok cap v \<Longrightarrow> data_cluster v c \<Longrightarrow> data_cluster v c' \<Longrightarrow> disk_ok d \<Longrightarrow>
    fat_next v (fat_put v c x d) c' = (if c' = c then x AND 0x0FFFFFFF else fat_next v d c')"
  by (simp add: fat_next_def fat_val_put [where i = 0] vol_num_fats)

lemma fat_put_ok: "disk_ok d \<Longrightarrow> disk_ok (fat_put v c x d)"
  by (simp add: disk_ok_def fat_put_def)

subsection \<open>The operations on a working disk\<close>

text \<open>The file system's view of its disk: the laws of the block device and what follows from them.\<close>

locale fat_disk = block_device rd wr disk ready cap
  for rd :: "u32 \<Rightarrow> u16 \<Rightarrow> 'w \<Rightarrow> int \<times> bytes \<times> 'w" and wr disk ready cap
begin

text \<open>The mounted volume lies on this disk, and the cache agrees with it.\<close>

definition good :: "'w blkdev \<Rightarrow> fat32 \<Rightarrow> 'w \<Rightarrow> bool" where
  "good dev f w \<longleftrightarrow> ready w \<and> fs_read dev f = rd \<and> fs_write dev f = wr
     \<and> vol_ok cap (current_fs f) \<and> cache_ok f (disk w)"

lemma goodD:
  assumes "good dev f w"
  shows "ready w" "fs_read dev f = rd" "fs_write dev f = wr" "vol_ok cap (current_fs f)" "cache_ok f (disk w)"
    "disk_ok (disk w)"
  using assms by (simp_all add: good_def disk_len)

lemma good_but_cache:
  "good dev f w \<Longrightarrow> but_cache f f' \<Longrightarrow> ready w' \<Longrightarrow> cache_ok f' (disk w') \<Longrightarrow> good dev f' w'"
  by (simp add: good_def but_cache_same)

lemma rd_one:
  assumes "good dev f w" "unat l + 1 \<le> cap"
  shows "\<exists>w'. rd l 1 w = (1, disk w (unat l), w') \<and> ready w' \<and> disk w' = disk w"
  using read_ok [of w 1 l] assms by (simp add: good_def)

lemma wr_one:
  assumes "good dev f w" "unat l + 1 \<le> cap" "length bs = 512"
  shows "\<exists>w'. wr l 1 bs w = (1, w') \<and> ready w' \<and> disk w' = (disk w)(unat l := bs)"
  using write_ok [of w 1 l bs] assms by (auto simp: good_def disk_put_one)

lemma next_ok:
  assumes "good dev f w" "data_cluster (current_fs f) c"
  shows "\<exists>f' w'. fat32_next_cluster dev c f w = (fat_next (current_fs f) (disk w) c, f', w')
    \<and> but_cache f f' \<and> good dev f' w' \<and> disk w' = disk w"
proof -
  let ?v = "current_fs f" let ?s = "fat_start ?v + c * 4 div 512"
  note g = goodD [OF assms(1)]
  note b = vol_bounds [OF g(4) assms(2)]
  have s: "unat ?s = entry_sector ?v 0 c"
    using sector_word [OF g(4) assms(2), of 0] vol_num_fats [OF g(4)] by simp
  have cap: "unat ?s + 1 \<le> cap" using s b(3) [of 0] b(4) vol_num_fats [OF g(4)] by simp
  have off: "unat (c * 4 mod 512) = unat c mod 128 * 4" by (rule entry_offset_nat(2) [OF b(1)])
  have ns: "?s \<noteq> 0xFFFFFFFF" using cap g(4) by (auto simp: vol_ok_def)
  have len: "length (disk w k) = 512" for k using g(6) by (simp add: disk_ok_def)
  show ?thesis
  proof (cases "?s = fat_cache_sector f")
    case True
    with ns g(5) s have "fat_sector_cache f = disk w (entry_sector ?v 0 c)" by (auto simp: cache_ok_def)
    with True off have "fat32_next_cluster dev c f w = (fat_next ?v (disk w) c, f, w)"
      by (simp add: fat32_next_cluster_def Let_def fat_next_def fat_val_def)
    with assms(1) show ?thesis by auto
  next
    case False
    from rd_one [OF assms(1) cap] obtain w' where r: "rd ?s 1 w = (1, disk w (unat ?s), w')" "ready w'" "disk w' = disk w"
      by blast
    let ?f = "f\<lparr>fat_sector_cache := disk w (unat ?s), fat_cache_sector := ?s\<rparr>"
    have "blit 0 (disk w (unat ?s)) (fat_sector_cache f) = disk w (unat ?s)"
      using g(5) len by (simp add: blit_def cache_ok_def)
    with False off s r(1) g(2) have "fat32_next_cluster dev c f w = (fat_next ?v (disk w) c, ?f, w')"
      by (simp add: fat32_next_cluster_def Let_def fat_next_def fat_val_def)
    moreover have "but_cache f ?f" by (auto simp: but_cache_def)
    moreover have "cache_ok ?f (disk w')"
      using r(3) len s b(5) by (simp add: cache_ok_def) (simp add: entry_sector_def)
    ultimately show ?thesis using r(2,3) good_but_cache [OF assms(1)] by blast
  qed
qed

lemma set_loop_ok:
  assumes "good dev f w" "data_cluster (current_fs f) c" "set fats \<subseteq> {..<unat (num_fats (current_fs f))}"
    "distinct fats" "ready w1" "disk_ok (disk w1)"
  shows "\<exists>w'. set_entry_loop dev f (c * 4 div 512) (unat (c * 4 mod 512)) x fats w1 = (True, w') \<and> ready w'
    \<and> disk w' = (\<lambda>k. if k \<in> (\<lambda>i. entry_sector (current_fs f) i c) ` set fats
         then blit (unat c mod 128 * 4) (le32 x) (disk w1 k) else disk w1 k)"
  using assms(3-)
proof (induction fats arbitrary: w1)
  case (Cons i fats)
  let ?v = "current_fs f" let ?s = "fat_start ?v + of_nat i * sectors_per_fat ?v + c * 4 div 512"
  note g = goodD [OF assms(1)]
  note b = vol_bounds [OF g(4) assms(2)]
  have i: "i < unat (num_fats ?v)" using Cons.prems(1) by simp
  have s: "unat ?s = entry_sector ?v i c" by (rule sector_word [OF g(4) assms(2) i])
  have cap: "unat ?s + 1 \<le> cap" using s b(3) [OF i] b(4) by simp
  have off: "unat (c * 4 mod 512) = unat c mod 128 * 4" by (rule entry_offset_nat(2) [OF b(1)])
  from read_ok [OF Cons.prems(3), of 1 ?s] cap obtain w2 where
    r: "rd ?s 1 w1 = (1, disk w1 (unat ?s), w2)" "ready w2" "disk w2 = disk w1" by auto
  let ?bs = "blit (unat c mod 128 * 4) (le32 x) (disk w1 (unat ?s))"
  have len: "length ?bs = 512" using Cons.prems(4) entry_bound [of c] by (simp add: disk_ok_def)
  from write_ok [OF r(2), of 1 ?s ?bs] cap len obtain w3 where
    w: "wr ?s 1 ?bs w2 = (1, w3)" "ready w3" "disk w3 = (disk w1)(unat ?s := ?bs)"
    using r(3) by (auto simp: disk_put_one)
  have "disk_ok (disk w3)" using w(2) by (rule disk_len)
  from Cons.IH [OF _ _ w(2) this] Cons.prems(1,2) obtain w' where
    l: "set_entry_loop dev f (c * 4 div 512) (unat (c * 4 mod 512)) x fats w3 = (True, w')" "ready w'"
    "disk w' = (\<lambda>k. if k \<in> (\<lambda>i. entry_sector ?v i c) ` set fats
      then blit (unat c mod 128 * 4) (le32 x) (disk w3 k) else disk w3 k)" by auto
  have "entry_sector ?v i c \<notin> (\<lambda>i. entry_sector ?v i c) ` set fats"
    using Cons.prems(2) by (auto simp: entry_sector_inj [OF g(4) assms(2) assms(2)])
  then have "disk w' = (\<lambda>k. if k \<in> (\<lambda>i. entry_sector ?v i c) ` set (i # fats)
      then blit (unat c mod 128 * 4) (le32 x) (disk w1 k) else disk w1 k)"
    using l(3) w(3) s by (auto simp: fun_eq_iff)
  then show ?case using l(1,2) r(1) w(1) g(2,3) off by simp
qed simp

lemma set_ok:
  assumes "good dev f w" "data_cluster (current_fs f) c"
  shows "\<exists>f' w'. fat32_set_fat_entry dev c x f w = (0, f', w')
    \<and> but_cache f f' \<and> good dev f' w' \<and> disk w' = fat_put (current_fs f) c x (disk w)"
proof -
  let ?v = "current_fs f" let ?s = "fat_start ?v + c * 4 div 512"
  note g = goodD [OF assms(1)]
  note b = vol_bounds [OF g(4) assms(2)]
  have off: "unat (c * 4 mod 512) = unat c mod 128 * 4" by (rule entry_offset_nat(2) [OF b(1)])
  have s: "unat ?s = entry_sector ?v 0 c"
    using sector_word [OF g(4) assms(2), of 0] vol_num_fats [OF g(4)] by simp
  from set_loop_ok [OF assms, of "[0..<unat (num_fats ?v)]" w x] g(1,6) obtain w' where
    l: "set_entry_loop dev f (c * 4 div 512) (unat (c * 4 mod 512)) x [0..<unat (num_fats ?v)] w = (True, w')" "ready w'"
    "disk w' = fat_put ?v c x (disk w)" by (auto simp: fat_put_def atLeast0LessThan)
  define f' where "f' = (if fat_cache_sector f = ?s
    then f\<lparr>fat_sector_cache := blit (unat c mod 128 * 4) (le32 x) (fat_sector_cache f)\<rparr> else f)"
  have "but_cache f f'" by (simp add: f'_def)
  moreover have "cache_ok f' (disk w')"
  proof (cases "fat_cache_sector f = ?s")
    case True
    have "entry_sector ?v 0 c \<in> (\<lambda>i. entry_sector ?v i c) ` {..<unat (num_fats ?v)}"
      using vol_num_fats [OF g(4)] by blast
    then have p: "fat_put ?v c x (disk w) (unat ?s) = blit (unat c mod 128 * 4) (le32 x) (disk w (unat ?s))"
      using s by (simp add: fat_put_def)
    have "?s \<noteq> 0xFFFFFFFF" using s b(3) [OF vol_num_fats [OF g(4)]] b(4) g(4) by (auto simp: vol_ok_def)
    with g(5) True have c: "length (fat_sector_cache f) = 512" "fat_sector_cache f = disk w (unat ?s)"
      "unat (fat_start ?v) \<le> unat ?s" "unat ?s < unat (fat_start ?v) + unat (sectors_per_fat ?v)"
      unfolding cache_ok_def by metis+
    have "length (blit (unat c mod 128 * 4) (le32 x) (fat_sector_cache f)) = 512" using c(1) entry_bound [of c] by simp
    then show ?thesis using True c(2-4) p by (simp add: f'_def cache_ok_def l(3) del: le32_def)
  next
    case False
    have "unat (fat_cache_sector f) \<noteq> entry_sector ?v i c"
      if "unat (fat_cache_sector f) < unat (fat_start ?v) + unat (sectors_per_fat ?v)" for i
    proof
      assume e: "unat (fat_cache_sector f) = entry_sector ?v i c"
      with that have "i * unat (sectors_per_fat ?v) < unat (sectors_per_fat ?v)"
        unfolding entry_sector_def by linarith
      then have "i = 0" by (cases i) auto
      with e s False show False by (simp add: word_unat_eq_iff)
    qed
    with False g(5) l(3) show ?thesis by (auto simp: f'_def cache_ok_def fat_put_def)
  qed
  moreover have "fat32_set_fat_entry dev c x f w = (0, f', w')"
    unfolding fat32_set_fat_entry_def Let_def l(1) using off by (simp add: f'_def)
  ultimately show ?thesis using l(2,3) good_but_cache [OF assms(1)] by blast
qed

end

end
