(* ===== verification/Fat_Chains.thy ===== *)
theory Fat_Chains
  imports Fat_Table
begin

text \<open>
  Cluster chains on a working disk: which cluster the allocator takes, the chain it links,
  and what freeing a chain does.
\<close>

subsection \<open>Free clusters and links\<close>

definition all_clusters :: "fat_fs \<Rightarrow> u32 list" where
  "all_clusters v = map of_nat [2..<unat (total_clusters v) + 2]"

definition free_list :: "fat_fs \<Rightarrow> disk \<Rightarrow> u32 list" where
  "free_list v d = filter (\<lambda>c. fat_next v d c = 0) (all_clusters v)"

lemma total_small: "vol_ok cap v \<Longrightarrow> unat (total_clusters v) + 2 < 2 ^ 28"
  by (simp add: vol_ok_def)

lemma set_all_clusters: "vol_ok cap v \<Longrightarrow> c \<in> set (all_clusters v) \<longleftrightarrow> data_cluster v c"
proof
  assume v: "vol_ok cap v" and "c \<in> set (all_clusters v)"
  then obtain n where n: "2 \<le> n" "n < unat (total_clusters v) + 2" "c = of_nat n"
    unfolding all_clusters_def set_map set_upt by (auto simp del: add_2_eq_Suc')
  with total_small [OF v] have "unat c = n" by (simp add: unat_of_nat_small)
  with n show "data_cluster v c" by (simp add: data_cluster_def)
next
  assume "data_cluster v c"
  then have "c = of_nat (unat c)" "unat c \<in> set [2..<unat (total_clusters v) + 2]" by (auto simp: data_cluster_def)
  then show "c \<in> set (all_clusters v)" unfolding all_clusters_def set_map by blast
qed

lemma distinct_all_clusters: "vol_ok cap v \<Longrightarrow> distinct (all_clusters v)"
proof -
  assume v: "vol_ok cap v"
  have "inj_on (of_nat :: nat \<Rightarrow> u32) (set [2..<unat (total_clusters v) + 2])"
  proof (rule inj_onI)
    fix x y assume "x \<in> set [2..<unat (total_clusters v) + 2]" "y \<in> set [2..<unat (total_clusters v) + 2]"
      "(of_nat x :: u32) = of_nat y"
    then show "x = y" using total_small [OF v] of_nat_inj_small [of x y, where 'a = 32] by (auto simp del: add_2_eq_Suc')
  qed
  then show ?thesis unfolding all_clusters_def distinct_map by (simp only: distinct_upt simp_thms)
qed

lemma free_listD: "vol_ok cap v \<Longrightarrow> c \<in> set (free_list v d) \<Longrightarrow> data_cluster v c \<and> fat_next v d c = 0"
  by (auto simp: free_list_def set_all_clusters)

lemma distinct_free_list: "vol_ok cap v \<Longrightarrow> distinct (free_list v d)"
  by (simp add: free_list_def distinct_all_clusters)

lemma data_cluster_mask:
  assumes "vol_ok cap v" "data_cluster v c"
  shows "c AND 0x0FFFFFFF = c" "c \<noteq> 0" "fat32_is_valid_cluster c" "\<not> fat32_is_end_of_chain c"
proof -
  have m: "(0x0FFFFFFF :: u32) = mask 28" by (simp add: mask_eq_exp_minus_1)
  have "unat c < 2 ^ 28" by (rule vol_bounds(1) [OF assms])
  then have "unat (take_bit 28 c) = unat c" by (simp only: unsigned_take_bit_eq take_bit_nat_eq_self)
  then have "take_bit 28 c = c" by (simp only: word_unat_eq_iff)
  then show "c AND 0x0FFFFFFF = c" unfolding m by (simp only: take_bit_eq_mask)
  show "c \<noteq> 0" using assms(2) by (auto simp: data_cluster_def)
  have "2 \<le> unat c" "unat c < 0x0FFFFFF8" using assms by (auto simp: data_cluster_def vol_ok_def)
  then show "fat32_is_valid_cluster c" "\<not> fat32_is_end_of_chain c"
    by (simp_all add: fat32_is_valid_cluster_def fat32_is_end_of_chain_def word_le_nat_alt word_less_nat_alt)
qed

lemma free_list_put:
  assumes "vol_ok cap v" "data_cluster v c" "disk_ok d" "x AND 0x0FFFFFFF \<noteq> 0"
  shows "free_list v (fat_put v c x d) = filter (\<lambda>y. y \<noteq> c) (free_list v d)"
  unfolding free_list_def filter_filter
  by (rule filter_cong [OF refl]) (use assms in \<open>auto simp: set_all_clusters fat_next_put\<close>)

text \<open>The successor of a cluster in a chain given as a list.\<close>

fun chain_succ :: "u32 list \<Rightarrow> u32 \<Rightarrow> u32 option" where
  "chain_succ (a # b # cs) c = (if c = a then Some b else chain_succ (b # cs) c)"
| "chain_succ _ c = None"

lemma chain_succ_None: "c \<notin> set cs \<Longrightarrow> chain_succ cs c = None"
  by (induction cs c rule: chain_succ.induct) auto

text \<open>Two disks with the same sectors outside the table.\<close>

definition same_data :: "fat_fs \<Rightarrow> disk \<Rightarrow> disk \<Rightarrow> bool" where
  "same_data v d d' \<longleftrightarrow> (\<forall>k. k < unat (fat_start v) \<or> unat (data_start v) \<le> k \<longrightarrow> d' k = d k)"

lemma same_data_refl [simp]: "same_data v d d"
  by (simp add: same_data_def)

lemma same_data_trans: "same_data v d e \<Longrightarrow> same_data v e g \<Longrightarrow> same_data v d g"
  by (simp add: same_data_def)

lemma same_data_put: "vol_ok cap v \<Longrightarrow> data_cluster v c \<Longrightarrow> same_data v d (fat_put v c x d)"
proof -
  assume a: "vol_ok cap v" "data_cluster v c"
  have "entry_sector v i c < unat (data_start v)" "unat (fat_start v) \<le> entry_sector v i c"
    if "i < unat (num_fats v)" for i
    using vol_bounds(3) [OF a that] by (simp_all add: entry_sector_def)
  then have "k \<notin> (\<lambda>i. entry_sector v i c) ` {..<unat (num_fats v)}"
    if "k < unat (fat_start v) \<or> unat (data_start v) \<le> k" for k
    using that by fastforce
  then show ?thesis by (simp add: same_data_def fat_put_def)
qed

text \<open>All copies of the table hold the same entries.\<close>

definition mirrored :: "fat_fs \<Rightarrow> disk \<Rightarrow> bool" where
  "mirrored v d \<longleftrightarrow> (\<forall>i c. i < unat (num_fats v) \<longrightarrow> data_cluster v c \<longrightarrow> fat_val v d i c = fat_val v d 0 c)"

lemma mirrored_put:
  assumes "vol_ok cap v" "data_cluster v c" "disk_ok d" "mirrored v d"
  shows "mirrored v (fat_put v c x d)"
  unfolding mirrored_def
proof (intro allI impI)
  fix i c' assume i: "i < unat (num_fats v)" and c': "data_cluster v c'"
  note put = fat_val_put [OF assms(1,2) c' assms(3)]
  from assms(4) i c' have "fat_val v d i c' = fat_val v d 0 c'" unfolding mirrored_def by blast
  then show "fat_val v (fat_put v c x d) i c' = fat_val v (fat_put v c x d) 0 c'"
    unfolding put [OF i] put [OF vol_num_fats [OF assms(1)]] by (rule arg_cong)
qed

text \<open>An entry is free, an end mark, or another data cluster.\<close>

definition fat_closed :: "fat_fs \<Rightarrow> disk \<Rightarrow> bool" where
  "fat_closed v d \<longleftrightarrow> (\<forall>c. data_cluster v c \<longrightarrow> fat_next v d c = 0 \<or> fat32_is_end_of_chain (fat_next v d c)
     \<or> data_cluster v (fat_next v d c))"

text \<open>The clusters met when the chain is followed.\<close>

inductive chain_reach :: "fat_fs \<Rightarrow> disk \<Rightarrow> u32 \<Rightarrow> u32 \<Rightarrow> bool" for v d a where
  reach_start: "chain_reach v d a a"
| reach_step: "chain_reach v d a b \<Longrightarrow> fat_next v d b \<noteq> 0 \<Longrightarrow> \<not> fat32_is_end_of_chain (fat_next v d b) \<Longrightarrow>
    chain_reach v d a (fat_next v d b)"

lemma reach_stop: "chain_reach v d a c \<Longrightarrow> fat_next v d a = 0 \<or> fat32_is_end_of_chain (fat_next v d a) \<Longrightarrow> c = a"
  by (induction rule: chain_reach.induct) auto

lemma reach_head:
  assumes "chain_reach v d (fat_next v d a) c" "fat_next v d a \<noteq> 0" "\<not> fat32_is_end_of_chain (fat_next v d a)"
  shows "chain_reach v d a c"
  using assms by (induction rule: chain_reach.induct) (auto intro: chain_reach.intros)

lemma reach_data:
  "chain_reach v d a c \<Longrightarrow> fat_closed v d \<Longrightarrow> data_cluster v a \<Longrightarrow> data_cluster v c"
  by (induction rule: chain_reach.induct) (auto simp: fat_closed_def)

text \<open>Clearing the first entry of a chain cuts it off and leaves the rest to be followed.\<close>

lemma reach_cut:
  assumes v: "vol_ok cap v" and a: "data_cluster v a" and d: "disk_ok d" and cl: "fat_closed v d"
    and n: "fat_next v d a \<noteq> 0" "\<not> fat32_is_end_of_chain (fat_next v d a)"
  shows "chain_reach v d a c \<longleftrightarrow> c = a \<or> chain_reach v (fat_put v a 0 d) (fat_next v d a) c"
proof
  let ?d = "fat_put v a 0 d" let ?n = "fat_next v d a"
  have nd: "data_cluster v ?n" using cl a n by (auto simp: fat_closed_def)
  have put: "fat_next v ?d b = (if b = a then 0 else fat_next v d b)" if "data_cluster v b" for b
    using fat_next_put [OF v a that d] by simp
  show "c = a \<or> chain_reach v ?d ?n c" if "chain_reach v d a c"
    using that
  proof (induction rule: chain_reach.induct)
    case (reach_step b)
    then have "data_cluster v b" using reach_data cl a by blast
    with reach_step put [of b] show ?case by (cases "b = a") (metis chain_reach.intros)+
  qed simp
  have "chain_reach v d ?n x" if "chain_reach v ?d ?n x" for x
    using that
  proof (induction rule: chain_reach.induct)
    case (reach_step b)
    then have "data_cluster v b" using reach_data [OF reach_step.IH cl nd] by simp
    with reach_step put [of b] show ?case by (metis chain_reach.reach_step)
  qed (rule reach_start)
  then show "chain_reach v d a c" if "c = a \<or> chain_reach v ?d ?n c"
    using that n reach_head [of v d a c] reach_start by blast
qed

lemma find_filter: "find P xs = (case filter P xs of [] \<Rightarrow> None | x # _ \<Rightarrow> Some x)"
  by (induction xs) auto

subsection \<open>The operations\<close>

context fat_disk
begin

lemma find_loop_ok:
  assumes "good dev f w" "list_all (\<lambda>c. data_cluster (current_fs f) (of_nat c)) cs"
  shows "\<exists>f' w'. find_free_loop dev cs f w = (find (\<lambda>c. fat_next (current_fs f) (disk w) c = 0) (map of_nat cs), f', w')
    \<and> but_cache f f' \<and> good dev f' w' \<and> disk w' = disk w"
  using assms
proof (induction cs arbitrary: f w)
  case (Cons c cs)
  from next_ok [OF Cons.prems(1), of "of_nat c"] Cons.prems(2) obtain f1 w1 where
    n: "fat32_next_cluster dev (of_nat c) f w = (fat_next (current_fs f) (disk w) (of_nat c), f1, w1)"
    "but_cache f f1" "good dev f1 w1" "disk w1 = disk w" by auto
  show ?case
  proof (cases "fat_next (current_fs f) (disk w) (of_nat c) = 0")
    case True
    with n show ?thesis by auto
  next
    case False
    have "list_all (\<lambda>c. data_cluster (current_fs f1) (of_nat c)) cs"
      using Cons.prems(2) but_cache_same(1) [OF n(2)] by simp
    from Cons.IH [OF n(3) this] obtain f2 w2 where
      "find_free_loop dev cs f1 w1 = (find (\<lambda>c. fat_next (current_fs f) (disk w) c = 0) (map of_nat cs), f2, w2)"
      "but_cache f1 f2" "good dev f2 w2" "disk w2 = disk w"
      using but_cache_same(1) [OF n(2)] n(4) by auto
    with False n but_cache_trans [OF n(2), of f2] show ?thesis by auto
  qed
qed auto

lemma find_ok:
  assumes "good dev f w"
  shows "\<exists>f' w'. fat32_find_free_cluster dev f w =
      (case free_list (current_fs f) (disk w) of [] \<Rightarrow> None | c # _ \<Rightarrow> Some c, f', w')
    \<and> but_cache f f' \<and> good dev f' w' \<and> disk w' = disk w"
proof -
  let ?v = "current_fs f"
  note v = goodD(4) [OF assms]
  have t: "unat (total_clusters ?v + 2) = unat (total_clusters ?v) + 2"
    using total_small [OF v] by (simp add: unat_word_ariths)
  have "list_all (\<lambda>c. data_cluster ?v (of_nat c)) [2..<unat (total_clusters ?v) + 2]"
    using set_all_clusters [OF v] by (auto simp: list_all_iff all_clusters_def)
  from find_loop_ok [OF assms this] show ?thesis
    unfolding fat32_find_free_cluster_def t find_filter free_list_def all_clusters_def .
qed

text \<open>Freeing returns, whatever the chain looks like, and clears the clusters it meets.\<close>

definition used_clusters :: "fat_fs \<Rightarrow> disk \<Rightarrow> u32 set" where
  "used_clusters v d = {c. data_cluster v c \<and> fat_next v d c \<noteq> 0}"

lemma free_chain_ok:
  assumes "good dev f w" "fat_closed (current_fs f) (disk w)" "data_cluster (current_fs f) a"
  shows "\<exists>f' w'. fat32_free_cluster_chain dev a f w = Some (0, f', w')
    \<and> but_cache f f' \<and> good dev f' w' \<and> same_data (current_fs f) (disk w) (disk w')
    \<and> (mirrored (current_fs f) (disk w) \<longrightarrow> mirrored (current_fs f) (disk w'))
    \<and> (\<forall>c. data_cluster (current_fs f) c \<longrightarrow> fat_next (current_fs f) (disk w') c =
        (if chain_reach (current_fs f) (disk w) a c then 0 else fat_next (current_fs f) (disk w) c))"
  using assms
proof (induction "card (used_clusters (current_fs f) (disk w))" arbitrary: f w a rule: less_induct)
  case less
  let ?v = "current_fs f" let ?d = "disk w" let ?n = "fat_next ?v ?d a"
  note g = goodD [OF less.prems(1)]
  note v = g(4) and a = less.prems(3) and cl = less.prems(2)
  from next_ok [OF less.prems(1) a] obtain f1 w1 where
    n: "fat32_next_cluster dev a f w = (?n, f1, w1)" "but_cache f f1" "good dev f1 w1" "disk w1 = ?d" by blast
  from set_ok [OF n(3), of a 0] a but_cache_same(1) [OF n(2)] n(4) obtain f2 w2 where
    s: "fat32_set_fat_entry dev a 0 f1 w1 = (0, f2, w2)" "but_cache f1 f2" "good dev f2 w2"
    "disk w2 = fat_put ?v a 0 ?d" by auto
  have fs: "current_fs f2 = ?v" using n(2) s(2) by (simp add: but_cache_same)
  note bc = but_cache_trans [OF n(2) s(2)]
  have put: "fat_next ?v (disk w2) c = (if c = a then 0 else fat_next ?v ?d c)" if "data_cluster ?v c" for c
    using fat_next_put [OF v a that g(6)] s(4) by simp
  have sd: "same_data ?v ?d (disk w2)" using same_data_put [OF v a] s(4) by simp
  have mir: "mirrored ?v ?d \<Longrightarrow> mirrored ?v (disk w2)" using mirrored_put [OF v a g(6)] s(4) by simp
  have unfold: "fat32_free_cluster_chain dev a f w = (if fat32_is_end_of_chain ?n \<or> ?n = 0 then Some (0, f2, w2)
      else fat32_free_cluster_chain dev ?n f2 w2)"
    by (subst fat32_free_cluster_chain.simps) (simp add: data_cluster_mask(3) [OF v a] n(1) s(1) Let_def)
  show ?case
  proof (cases "?n = 0 \<or> fat32_is_end_of_chain ?n")
    case True
    then have "chain_reach ?v ?d a c \<longleftrightarrow> c = a" for c using reach_stop [of ?v ?d a c] reach_start by blast
    with True unfold bc s(3) sd mir put show ?thesis by auto
  next
    case False
    then have nn: "?n \<noteq> 0" "\<not> fat32_is_end_of_chain ?n" by auto
    have nd: "data_cluster ?v ?n" using cl a nn by (auto simp: fat_closed_def)
    have cl2: "fat_closed ?v (disk w2)" using cl put by (auto simp: fat_closed_def)
    have "finite (used_clusters ?v ?d)" by simp
    moreover have "used_clusters ?v (disk w2) \<subset> used_clusters ?v ?d"
    proof -
      have "used_clusters ?v (disk w2) = used_clusters ?v ?d - {a}" using put
        by (auto simp: used_clusters_def split: if_splits)
      moreover have "a \<in> used_clusters ?v ?d" using a nn by (simp add: used_clusters_def)
      ultimately show ?thesis by blast
    qed
    ultimately have "card (used_clusters ?v (disk w2)) < card (used_clusters ?v ?d)" by (rule psubset_card_mono)
    from less.hyps [of f2 w2 ?n, unfolded fs, OF this s(3) cl2 nd] obtain f' w' where
      r: "fat32_free_cluster_chain dev ?n f2 w2 = Some (0, f', w')" "but_cache f2 f'" "good dev f' w'"
      "same_data ?v (disk w2) (disk w')" "mirrored ?v (disk w2) \<longrightarrow> mirrored ?v (disk w')"
      "\<And>c. data_cluster ?v c \<Longrightarrow> fat_next ?v (disk w') c =
        (if chain_reach ?v (disk w2) ?n c then 0 else fat_next ?v (disk w2) c)" by blast
    have "fat_next ?v (disk w') c = (if chain_reach ?v ?d a c then 0 else fat_next ?v ?d c)" if "data_cluster ?v c" for c
      using r(6) [OF that] put [OF that] reach_cut [OF v a g(6) cl nn, of c] s(4) by auto
    with unfold nn r(1-5) but_cache_trans [OF bc r(2)] same_data_trans [OF sd r(4)] mir show ?thesis by auto
  qed
qed

text \<open>
  The allocation loop. Its search returns the cluster it linked last as long as that is
  still free, so that every other round links a cluster to itself: \<open>n\<close> further rounds from
  a free \<open>prev\<close> append only \<open>n div 2\<close> clusters.
\<close>

lemma alloc_loop_ok:
  assumes "good dev f w" "first \<noteq> 0" "free_list (current_fs f) (disk w) = prev # fl" "n div 2 \<le> length fl"
  shows "\<exists>f' w' . alloc_loop dev n first prev f w = (Some (first, last (prev # take (n div 2) fl)), f', w')
    \<and> but_cache f f' \<and> good dev f' w' \<and> same_data (current_fs f) (disk w) (disk w')
    \<and> (mirrored (current_fs f) (disk w) \<longrightarrow> mirrored (current_fs f) (disk w'))
    \<and> (\<forall>c. data_cluster (current_fs f) c \<longrightarrow> c \<noteq> last (prev # take (n div 2) fl) \<longrightarrow>
        fat_next (current_fs f) (disk w') c = (case chain_succ (prev # take (n div 2) fl) c of
          Some b \<Rightarrow> b | None \<Rightarrow> fat_next (current_fs f) (disk w) c))"
  using assms
proof (induction n arbitrary: f w prev fl rule: induct_nat_012)
  case 0
  then show ?case by auto
next
  case 1
  let ?v = "current_fs f" let ?d = "disk w"
  note g = goodD [OF 1(1)]
  have p: "data_cluster ?v prev" using free_listD [OF g(4), of prev ?d] 1(3) by simp
  note pm = data_cluster_mask [OF g(4) p]
  from find_ok [OF 1(1)] 1(3) obtain f1 w1 where
    n: "fat32_find_free_cluster dev f w = (Some prev, f1, w1)" "but_cache f f1" "good dev f1 w1" "disk w1 = ?d" by auto
  from set_ok [OF n(3), of prev prev] p but_cache_same(1) [OF n(2)] n(4) obtain f2 w2 where
    s: "fat32_set_fat_entry dev prev prev f1 w1 = (0, f2, w2)" "but_cache f1 f2" "good dev f2 w2"
    "disk w2 = fat_put ?v prev prev ?d" by auto
  have "alloc_loop dev (Suc 0) first prev f w = (Some (first, prev), f2, w2)"
    using 1(2) pm(2) by (simp add: n(1) s(1) Let_def)
  moreover have "but_cache f f2" using but_cache_trans [OF n(2) s(2)] .
  ultimately show ?case using s(3,4) same_data_put [OF g(4) p] mirrored_put [OF g(4) p g(6)] fat_next_put [OF g(4) p _ g(6)]
    by (simp del: alloc_loop.simps)
next
  case (ge2 n)
  let ?v = "current_fs f" let ?d = "disk w"
  note g = goodD [OF ge2(3)]
  have p: "data_cluster ?v prev" using free_listD [OF g(4), of prev ?d] ge2(5) by simp
  note pm = data_cluster_mask [OF g(4) p]
  from ge2(6) obtain c fl' where fl: "fl = c # fl'" "n div 2 \<le> length fl'" by (cases fl) auto
  have dist: "distinct (prev # c # fl')" using distinct_free_list [OF g(4), of ?d] ge2(5) fl(1) by simp
  from find_ok [OF ge2(3)] ge2(5) obtain f1 w1 where
    n: "fat32_find_free_cluster dev f w = (Some prev, f1, w1)" "but_cache f f1" "good dev f1 w1" "disk w1 = ?d" by auto
  from set_ok [OF n(3), of prev prev] p but_cache_same(1) [OF n(2)] n(4) obtain f2 w2 where
    s: "fat32_set_fat_entry dev prev prev f1 w1 = (0, f2, w2)" "but_cache f1 f2" "good dev f2 w2"
    "disk w2 = fat_put ?v prev prev ?d" by auto
  have fs2: "current_fs f2 = ?v" using n(2) s(2) by (simp add: but_cache_same)
  have drop: "filter (\<lambda>y. y \<noteq> prev) (prev # c # fl') = c # fl'"
    using dist by (auto simp: filter_id_conv)
  have fl2: "free_list ?v (disk w2) = c # fl'"
    using free_list_put [OF g(4) p g(6), of prev] pm ge2(5) fl(1) s(4) drop by simp
  from find_ok [OF s(3)] fl2 fs2 obtain f3 w3 where
    n3: "fat32_find_free_cluster dev f2 w2 = (Some c, f3, w3)" "but_cache f2 f3" "good dev f3 w3" "disk w3 = disk w2" by auto
  have fs3: "current_fs f3 = ?v" using fs2 but_cache_same(1) [OF n3(2)] by simp
  from set_ok [OF n3(3), of prev c] p fs3 n3(4) obtain f4 w4 where
    s4: "fat32_set_fat_entry dev prev c f3 w3 = (0, f4, w4)" "but_cache f3 f4" "good dev f4 w4"
    "disk w4 = fat_put ?v prev c (disk w2)" by auto
  have fs4: "current_fs f4 = ?v" using fs3 but_cache_same(1) [OF s4(2)] by simp
  note ok2 = goodD(6) [OF s(3)]
  have c: "data_cluster ?v c" using free_listD [OF g(4), of c ?d] ge2(5) fl(1) by simp
  note cm = data_cluster_mask [OF g(4) c]
  have "prev \<notin> set (c # fl')" using dist by auto
  then have "filter (\<lambda>y. y \<noteq> prev) (c # fl') = c # fl'" by (auto simp: filter_id_conv)
  then have fl4: "free_list (current_fs f4) (disk w4) = c # fl'"
    using free_list_put [OF g(4) p ok2, of c] cm fl2 s4(4) fs4 by simp
  have put4: "fat_next ?v (disk w4) x = (if x = prev then c else fat_next ?v ?d x)" if "data_cluster ?v x" for x
    using fat_next_put [OF g(4) p that ok2] fat_next_put [OF g(4) p that g(6)] cm s4(4) s(4) by simp
  have sd4: "same_data ?v ?d (disk w4)"
    using same_data_trans [OF same_data_put [OF g(4) p] same_data_put [OF g(4) p]] s(4) s4(4) by metis
  have mir4: "mirrored ?v ?d \<Longrightarrow> mirrored ?v (disk w4)"
    using mirrored_put [OF g(4) p g(6), of prev] mirrored_put [OF g(4) p ok2, of c] s(4) s4(4) by simp
  have bc4: "but_cache f f4" using but_cache_trans [OF but_cache_trans [OF n(2) s(2)] but_cache_trans [OF n3(2) s4(2)]] .
  let ?ch = "c # take (n div 2) fl'"
  from ge2(1) [OF s4(3) ge2(4) fl4 fl(2)] obtain f' w' where
    r: "alloc_loop dev n first c f4 w4 = (Some (first, last ?ch), f', w')" "but_cache f4 f'" "good dev f' w'"
    "same_data ?v (disk w4) (disk w')" "mirrored ?v (disk w4) \<longrightarrow> mirrored ?v (disk w')"
    "\<And>x. data_cluster ?v x \<Longrightarrow> x \<noteq> last ?ch \<Longrightarrow> fat_next ?v (disk w') x =
      (case chain_succ ?ch x of Some b \<Rightarrow> b | None \<Rightarrow> fat_next ?v (disk w4) x)" unfolding fs4 by blast
  have "alloc_loop dev (Suc (Suc n)) first prev f w = alloc_loop dev n first c f4 w4"
    using ge2(4) pm(2) cm(2) by (simp add: n(1) s(1) n3(1) s4(1) Let_def)
  moreover have t: "take (Suc (Suc n) div 2) fl = ?ch" using fl(1) by simp
  moreover have "prev \<notin> set ?ch" using dist by (auto dest: in_set_takeD)
  then have "fat_next ?v (disk w') x = (case chain_succ (prev # ?ch) x of Some b \<Rightarrow> b | None \<Rightarrow> fat_next ?v ?d x)"
    if "data_cluster ?v x" "x \<noteq> last ?ch" for x
    using r(6) [OF that] put4 [OF that(1)] chain_succ_None [of prev ?ch]
    by (cases "x = prev") (auto split: option.splits)
  moreover have "last (prev # ?ch) = last ?ch" by simp
  ultimately show ?case using r(1-5) but_cache_trans [OF bc4 r(2)] same_data_trans [OF sd4 r(4)] mir4
    unfolding t by (simp del: alloc_loop.simps)
qed

lemma alloc_ok:
  fixes n dev f w
  defines "ch \<equiv> take (Suc n div 2) (free_list (current_fs f) (disk w))"
  assumes "good dev f w" "0 < n" "Suc n div 2 \<le> length (free_list (current_fs f) (disk w))"
  shows "\<exists>f' w'. fat32_allocate_cluster_chain dev n f w = (Some (hd ch), f', w')
    \<and> but_cache f f' \<and> good dev f' w' \<and> same_data (current_fs f) (disk w) (disk w')
    \<and> (mirrored (current_fs f) (disk w) \<longrightarrow> mirrored (current_fs f) (disk w'))
    \<and> (\<forall>c. data_cluster (current_fs f) c \<longrightarrow> fat_next (current_fs f) (disk w') c =
        (if c = last ch then 0x0FFFFFFF else
         case chain_succ ch c of Some b \<Rightarrow> b | None \<Rightarrow> fat_next (current_fs f) (disk w) c))"
proof -
  let ?v = "current_fs f" let ?d = "disk w"
  note g = goodD [OF assms(2)]
  from assms(3) obtain m where m: "n = Suc m" by (cases n) auto
  with assms(4) obtain c fl where fl: "free_list ?v ?d = c # fl" "m div 2 \<le> length fl"
    by (cases "free_list ?v ?d") auto
  have ch: "ch = c # take (m div 2) fl" using fl(1) m by (simp add: ch_def)
  have cl: "data_cluster ?v x" if "x \<in> set ch" for x
    using free_listD [OF g(4), of x ?d] that by (auto simp: ch_def dest: in_set_takeD)
  have c: "c \<noteq> 0" using data_cluster_mask(2) [OF g(4) cl [of c]] ch by simp
  from find_ok [OF assms(2)] fl obtain f1 w1 where
    n1: "fat32_find_free_cluster dev f w = (Some c, f1, w1)" "but_cache f f1" "good dev f1 w1" "disk w1 = ?d" by auto
  note fs1 = but_cache_same(1) [OF n1(2)]
  have fl1: "free_list (current_fs f1) (disk w1) = c # fl" using fl(1) fs1 n1(4) by simp
  from alloc_loop_ok [OF n1(3) c fl1 fl(2), folded ch, unfolded fs1 n1(4)] obtain f2 w2 where
    a: "alloc_loop dev m c c f1 w1 = (Some (c, last ch), f2, w2)" "but_cache f1 f2" "good dev f2 w2"
    "same_data ?v ?d (disk w2)" "mirrored ?v ?d \<longrightarrow> mirrored ?v (disk w2)"
    "\<And>x. data_cluster ?v x \<Longrightarrow> x \<noteq> last ch \<Longrightarrow> fat_next ?v (disk w2) x =
      (case chain_succ ch x of Some b \<Rightarrow> b | None \<Rightarrow> fat_next ?v ?d x)" by blast
  have l: "data_cluster ?v (last ch)" using cl ch by (metis last_in_set list.distinct(1))
  note lm = data_cluster_mask(2) [OF g(4) l]
  have fs2: "current_fs f2 = ?v" using but_cache_same(1) [OF a(2)] fs1 by simp
  from set_ok [OF a(3), of "last ch" "0x0FFFFFFF"] l fs2 obtain f3 w3 where
    s: "fat32_set_fat_entry dev (last ch) 0x0FFFFFFF f2 w2 = (0, f3, w3)" "but_cache f2 f3" "good dev f3 w3"
    "disk w3 = fat_put ?v (last ch) 0x0FFFFFFF (disk w2)" by auto
  have "fat32_allocate_cluster_chain dev n f w = (Some (hd ch), f3, w3)"
    using a(1) s(1) lm c n1(1) unfolding m fat32_allocate_cluster_chain_def by (simp add: Let_def ch)
  moreover have "fat_next ?v (disk w3) x = (if x = last ch then 0x0FFFFFFF else
      case chain_succ ch x of Some b \<Rightarrow> b | None \<Rightarrow> fat_next ?v ?d x)" if "data_cluster ?v x" for x
    using fat_next_put [OF g(4) l that goodD(6) [OF a(3)]] a(6) [OF that] s(4) by simp
  moreover have "same_data ?v ?d (disk w3)"
    using same_data_trans [OF a(4) same_data_put [OF g(4) l]] s(4) by simp
  moreover have "mirrored ?v ?d \<longrightarrow> mirrored ?v (disk w3)"
    using a(5) mirrored_put [OF g(4) l goodD(6) [OF a(3)]] s(4) by simp
  moreover have "but_cache f f3" using but_cache_trans [OF n1(2) but_cache_trans [OF a(2) s(2)]] .
  ultimately show ?thesis using s(3) by blast
qed

end

end
