(* ===== verification/Fat_Dir.thy ===== *)
theory Fat_Dir
  imports Fat_Table
begin

text \<open>
  Directories of the FAT32 driver (\<open>fs/fat32.c\<close>): loading, saving, searching and listing
  them, walking a path, the directory handles, and changing and creating directories. An
  outer \<open>None\<close> stands for behaviour the C language leaves undefined (a read past a buffer,
  a use of a variable that was never set) or a loop that does not end. Console messages are
  left out; what \<open>fat32_list_directory\<close> prints is its second result.
\<close>

definition dir_sectors :: "fat32 \<Rightarrow> nat \<Rightarrow> nat" where
  "dir_sectors f buffer_size =
     (let sectors = unat (sectors_per_cluster (current_fs f))
      in if buffer_size < sectors * 512 then buffer_size div 512 else sectors)"

definition fat32_save_root_directory :: "'w blkdev \<Rightarrow> fat32 \<Rightarrow> 'w \<Rightarrow> int \<times> 'w" where
  "fat32_save_root_directory dev f w =
     (let sectors = dir_sectors f 16384;
          (r, w) = fs_write dev f (fat32_cluster_to_lba f (root_dir_cluster (current_fs f))) (of_nat sectors)
                     (root_dir_buffer f) w
      in (if r \<noteq> int sectors then -1 else 0, w))"

definition fat32_load_root_directory :: "'w blkdev \<Rightarrow> fat32 \<Rightarrow> 'w \<Rightarrow> int \<times> fat32 \<times> 'w" where
  "fat32_load_root_directory dev f w =
     (let v = current_fs f;
          sectors = dir_sectors f 16384;
          (r, bs, w) = fs_read dev f (fat32_cluster_to_lba f (root_dir_cluster v)) (of_nat sectors) w;
          f = f\<lparr>root_dir_buffer := blit 0 bs (root_dir_buffer f)\<rparr>
      in if r \<noteq> int sectors then (-1, f, w)
         else (0, f\<lparr>root_dir_handle := \<lparr>dir_first_cluster = root_dir_cluster v,
                dir_current_cluster = root_dir_cluster v, dir_entry_index = 0,
                dir_disk = ucast (fs_disk v), dir_partition = fs_partition v\<rparr>\<rparr>, w))"

text \<open>The bytes stored to the caller's buffer are the second result.\<close>

definition fat32_load_directory_cluster :: "'w blkdev \<Rightarrow> u32 \<Rightarrow> nat \<Rightarrow> fat32 \<Rightarrow> 'w \<Rightarrow> int \<times> bytes \<times> 'w" where
  "fat32_load_directory_cluster dev cluster buffer_size f w =
     (let sectors = dir_sectors f buffer_size;
          (r, bs, w) = fs_read dev f (fat32_cluster_to_lba f cluster) (of_nat sectors) w
      in (if r \<noteq> int sectors then -1 else 0, bs, w))"

definition fat32_find_in_root :: "'w blkdev \<Rightarrow> bytes \<Rightarrow> fat32 \<Rightarrow> 'w \<Rightarrow> (bytes option \<times> fat32 \<times> 'w) option" where
  "fat32_find_in_root dev name f w =
     (let (r, f, w) = fat32_load_root_directory dev f w
      in if r \<noteq> 0 then Some (None, f, w)
         else do {
           i \<leftarrow> dir_search (\<lambda>e. fat32_name_match (de_name e) name) (root_dir_buffer f) 0 (max_entries f);
           Some (map_option (dir_entry (root_dir_buffer f)) i, f, w)
         })"

definition fat32_find_in_directory :: "'w blkdev \<Rightarrow> u32 \<Rightarrow> bytes \<Rightarrow> fat32 \<Rightarrow> 'w \<Rightarrow> (bytes option \<times> 'w) option" where
  "fat32_find_in_directory dev dir_cluster name f w =
     (let (r, buf, w) = fat32_load_directory_cluster dev dir_cluster 16384 f w
      in if r \<noteq> 0 then Some (None, w)
         else do {
           i \<leftarrow> dir_search (\<lambda>e. fat32_name_match (de_name e) name) buf 0 (max_entries f);
           Some (map_option (dir_entry buf) i, w)
         })"

subsection \<open>Listing\<close>

text \<open>A printed line: whether it is a directory, the name, the size (of a file).\<close>

type_synonym listing = "(bool \<times> bytes \<times> u32) list"

fun list_loop :: "bytes \<Rightarrow> nat \<Rightarrow> nat \<Rightarrow> listing option" where
  "list_loop buf i 0 = Some []"
| "list_loop buf i (Suc n) =
     (if length buf < i * 32 + 32 then None
      else let e = dir_entry buf i in
        if e ! 0 = 0 then Some []
        else if de_free e then list_loop buf (i + 1) n
        else map_option (Cons (de_attributes e AND ATTR_DIRECTORY \<noteq> 0,
               fat32_format_name (de_name e) 32, de_file_size e)) (list_loop buf (i + 1) n))"

text \<open>The path is \<open>None\<close> for NULL.\<close>

definition fat32_list_directory :: "'w blkdev \<Rightarrow> bytes option \<Rightarrow> fat32 \<Rightarrow> 'w \<Rightarrow> (int \<times> listing \<times> 'w) option" where
  "fat32_list_directory dev path f w =
     (let v = current_fs f;
          start = (case path of
             None \<Rightarrow> Some (if current_dir_cluster v = 0 then root_dir_cluster v else current_dir_cluster v)
           | Some p \<Rightarrow> if p = [] then Some (if current_dir_cluster v = 0 then root_dir_cluster v else current_dir_cluster v)
                       else if p = [47] then Some (root_dir_cluster v) else None)
      in if \<not> fs_mounted f then Some (-1, [], w)
         else case start of
             None \<Rightarrow> Some (-1, [], w)
           | Some dir_cluster \<Rightarrow>
               (let (r, buf, w) = fat32_load_directory_cluster dev dir_cluster 16384 f w
                in if r \<noteq> 0 then Some (-1, [], w)
                   else map_option (\<lambda>l. (0, l, w)) (list_loop buf 0 (max_entries f))))"

definition fat32_list_root :: "'w blkdev \<Rightarrow> fat32 \<Rightarrow> 'w \<Rightarrow> (int \<times> listing \<times> 'w) option" where
  "fat32_list_root dev f w = fat32_list_directory dev (Some [47]) f w"

subsection \<open>Paths\<close>

text \<open>
  What \<open>fat32_navigate_path\<close> hands back: its return value and the variables it was given
  to fill in, \<open>None\<close> where it leaves them unset.
\<close>

record nav =
  nav_result :: int
  nav_parent :: "u32 option"
  nav_entry :: "bytes option"
  nav_name :: "bytes option"

text \<open>
  The walk over the characters; the result is the cluster and the last component, or
  \<open>None\<close> inside for the return of -1.
\<close>

fun nav_walk :: "'w blkdev \<Rightarrow> fat32 \<Rightarrow> bytes \<Rightarrow> bytes \<Rightarrow> u32 \<Rightarrow> 'w \<Rightarrow> ((u32 \<times> bytes) option \<times> 'w) option" where
  "nav_walk dev f [] component cluster w = Some (Some (cluster, component), w)"
| "nav_walk dev f (c # cs) component cluster w =
     (if c = 47 then
        (if component \<noteq> [] then
           do {
             (found, w) \<leftarrow> fat32_find_in_directory dev cluster component f w;
             case found of
               None \<Rightarrow> Some (None, w)
             | Some ent \<Rightarrow>
                 if de_attributes ent AND ATTR_DIRECTORY = 0 then Some (None, w)
                 else nav_walk dev f cs [] (de_first_cluster ent) w
           }
         else nav_walk dev f cs component cluster w)
      else nav_walk dev f cs (if length component < 255 then component @ [c] else component) cluster w)"

definition fat32_navigate_path :: "'w blkdev \<Rightarrow> bytes \<Rightarrow> fat32 \<Rightarrow> 'w \<Rightarrow> (nav \<times> 'w) option" where
  "fat32_navigate_path dev path f w =
     (let v = current_fs f;
          abs_path = (path \<noteq> [] \<and> hd path = 47);
          cluster = (if abs_path then root_dir_cluster v else current_dir_cluster v);
          p = (if abs_path then tl path else path)
      in do {
        (walk, w) \<leftarrow> nav_walk dev f p [] cluster w;
        case walk of
          None \<Rightarrow> Some (\<lparr>nav_result = -1, nav_parent = None, nav_entry = None, nav_name = None\<rparr>, w)
        | Some (cluster, component) \<Rightarrow>
            if component = []
            then Some (\<lparr>nav_result = 0, nav_parent = Some cluster, nav_entry = None, nav_name = None\<rparr>, w)
            else do {
              (found, w) \<leftarrow> fat32_find_in_directory dev cluster component f w;
              Some (\<lparr>nav_result = (if found = None then 0 else 1), nav_parent = Some cluster, nav_entry = found,
                     nav_name = Some component\<rparr>, w)
            }
      })"

subsection \<open>Directory handles\<close>

text \<open>The only handle there is points to \<open>root_dir_handle\<close>; NULL is \<open>None\<close>.\<close>

type_synonym dir_ptr = "unit option"

definition fat32_opendir :: "'w blkdev \<Rightarrow> bytes option \<Rightarrow> fat32 \<Rightarrow> 'w \<Rightarrow> dir_ptr \<times> fat32 \<times> 'w" where
  "fat32_opendir dev path f w =
     (if \<not> fs_mounted f then (None, f, w)
      else if path = None \<or> path = Some [] \<or> path = Some [47] then
        (let (r, f, w) = fat32_load_root_directory dev f w
         in if r \<noteq> 0 then (None, f, w) else (Some (), f, w))
      else (None, f, w))"

text \<open>The loop of \<open>fat32_readdir\<close>: the new index, and the entry it stopped at.\<close>

fun readdir_loop :: "bytes \<Rightarrow> nat \<Rightarrow> nat \<Rightarrow> (nat \<times> bytes option) option" where
  "readdir_loop buf i 0 = Some (i, None)"
| "readdir_loop buf i (Suc n) =
     (if length buf < i * 32 + 32 then None
      else let e = dir_entry buf i in
        if e ! 0 = 0 then Some (i + 1, None)
        else if de_free e then readdir_loop buf (i + 1) n
        else Some (i + 1, Some e))"

text \<open>The third result is what is stored through \<open>entry\<close>; \<open>entry_ptr\<close> says if that is not NULL.\<close>

definition fat32_readdir :: "dir_ptr \<Rightarrow> bool \<Rightarrow> fat32 \<Rightarrow> (int \<times> fat32 \<times> bytes option) option" where
  "fat32_readdir dir entry_ptr f =
     (if \<not> fs_mounted f then Some (-1, f, None)
      else if dir = None \<or> \<not> entry_ptr then Some (-1, f, None)
      else do {
        let i = unat (dir_entry_index (root_dir_handle f));
        (i', found) \<leftarrow> readdir_loop (root_dir_buffer f) i (max_entries f - i);
        let f = f\<lparr>root_dir_handle := (root_dir_handle f)\<lparr>dir_entry_index := of_nat i'\<rparr>\<rparr>;
        Some (if found = None then 0 else 1, f, found)
      })"

definition fat32_closedir :: "dir_ptr \<Rightarrow> fat32 \<Rightarrow> fat32" where
  "fat32_closedir dir f = f"

definition fat32_stat :: "bytes \<Rightarrow> fat32 \<Rightarrow> int" where
  "fat32_stat path f = (if \<not> fs_mounted f then -1 else -1)"

subsection \<open>The working directory\<close>

text \<open>
  The path string is kept with its NUL at the start of the 256-byte buffer; a string of 256
  characters does not fit.
\<close>

definition set_path :: "bytes \<Rightarrow> fat_fs \<Rightarrow> fat_fs option" where
  "set_path s v = (if 256 \<le> length s then None else Some (v\<lparr>current_path := blit 0 (s @ [0]) (current_path v)\<rparr>))"

text \<open>The search for the last slash, from position \<open>len\<close> down.\<close>

fun last_slash :: "bytes \<Rightarrow> nat \<Rightarrow> nat" where
  "last_slash s 0 = 0"
| "last_slash s (Suc n) = (if (s @ [0]) ! Suc n \<noteq> 47 then last_slash s n else Suc n)"

definition path_up :: "bytes \<Rightarrow> bytes" where
  "path_up s =
     (let len = length s;
          len = (if 1 < len \<and> s ! (len - 1) = 47 then len - 1 else len);
          len = last_slash s len;
          len = (if len = 0 then 1 else len)
      in take len s)"

text \<open>The loop that appends the name stops at 255 characters.\<close>

fun append_name :: "bytes \<Rightarrow> bytes \<Rightarrow> bytes" where
  "append_name [] s = s"
| "append_name (c # cs) s = (if length s < 255 then append_name cs (s @ [c]) else s)"

definition path_append :: "bytes \<Rightarrow> bytes \<Rightarrow> bytes" where
  "path_append s dirname =
     (let s = (if 1 < length s \<or> length s = 1 \<and> s ! 0 \<noteq> 47 then (if s ! (length s - 1) \<noteq> 47 then s @ [47] else s)
               else if length s = 0 then [47] else s)
      in append_name dirname s)"

definition fat32_chdir :: "'w blkdev \<Rightarrow> bytes \<Rightarrow> fat32 \<Rightarrow> 'w \<Rightarrow> (int \<times> fat32 \<times> 'w) option" where
  "fat32_chdir dev path f w =
     (if \<not> fs_mounted f then Some (-1, f, w)
      else do {
        (nav, w) \<leftarrow> fat32_navigate_path dev path f w;
        if nav_result nav \<noteq> 1 then Some (-1, f, w)
        else do {
          entry \<leftarrow> nav_entry nav;
          dirname \<leftarrow> nav_name nav;
          if de_attributes entry AND ATTR_DIRECTORY = 0 then Some (-1, f, w)
          else do {
            let v = (current_fs f)\<lparr>current_dir_cluster := de_first_cluster entry\<rparr>;
            let s = c_str (current_path v);
            v \<leftarrow> (if path \<noteq> [] \<and> hd path = 47 then set_path (take 255 path) v
                  else if dirname = [46] then Some v
                  else if dirname = [46, 46] then set_path (path_up s) v
                  else set_path (path_append s dirname) v);
            Some (0, f\<lparr>current_fs := v\<rparr>, w)
          }
        }
      })"

text \<open>NULL is \<open>None\<close>.\<close>

definition fat32_getcwd :: "fat32 \<Rightarrow> bytes option" where
  "fat32_getcwd f =
     (if \<not> fs_mounted f then None
      else if current_path (current_fs f) ! 0 \<noteq> 0 then Some (c_str (current_path (current_fs f))) else Some [47])"

subsection \<open>New directories\<close>

text \<open>The search for a slot in the parent: the first with a zero or deleted name.\<close>

fun mkdir_slot :: "bytes \<Rightarrow> nat \<Rightarrow> nat \<Rightarrow> nat option option" where
  "mkdir_slot buf i 0 = Some None"
| "mkdir_slot buf i (Suc n) =
     (if length buf < i * 32 + 32 then None
      else if dir_entry buf i ! 0 = 0 \<or> dir_entry buf i ! 0 = 0xE5 then Some (Some i)
      else mkdir_slot buf (i + 1) n)"

definition dot_name :: bytes where "dot_name = 46 # replicate 10 32"
definition dotdot_name :: bytes where "dotdot_name = 46 # 46 # replicate 9 32"

text \<open>The error exits after the allocation, which free the new cluster.\<close>

definition mkdir_fail :: "'w blkdev \<Rightarrow> u32 \<Rightarrow> fat32 \<Rightarrow> 'w \<Rightarrow> (int \<times> fat32 \<times> 'w) option" where
  "mkdir_fail dev new_cluster f w =
     do { (r, f, w) \<leftarrow> fat32_free_cluster_chain dev new_cluster f w; Some (-1, f, w) }"

definition fat32_mkdir :: "'w blkdev \<Rightarrow> bytes \<Rightarrow> fat32 \<Rightarrow> 'w \<Rightarrow> (int \<times> fat32 \<times> 'w) option" where
  "fat32_mkdir dev path f w =
     (let spc = sectors_per_cluster (current_fs f) in
      if \<not> fs_mounted f then Some (-1, f, w)
      else do {
        (nav, w) \<leftarrow> fat32_navigate_path dev path f w;
        if nav_result nav = 1 then Some (-1, f, w)
        else case fat32_allocate_cluster_chain dev 1 f w of
            (None, f, w) \<Rightarrow> Some (-1, f, w)
          | (Some new_cluster, f, w) \<Rightarrow> do {
              parent_cluster \<leftarrow> nav_parent nav;
              let dir_buffer = dir_put 1 (de_set_cluster parent_cluster (de_new dotdot_name ATTR_DIRECTORY))
                    (dir_put 0 (de_set_cluster new_cluster (de_new dot_name ATTR_DIRECTORY)) (replicate 16384 0));
              if 32 < unat spc then None
              else let (r, w) = fs_write dev f (fat32_cluster_to_lba f new_cluster) (ucast spc) dir_buffer w in
              if r \<noteq> int (unat spc) then mkdir_fail dev new_cluster f w
              else let (r, parent_buffer, w) = fat32_load_directory_cluster dev parent_cluster 16384 f w in
              if r \<noteq> 0 then mkdir_fail dev new_cluster f w
              else do {
                dirname \<leftarrow> nav_name nav;
                case fat32_make_name83 dirname of
                  None \<Rightarrow> mkdir_fail dev new_cluster f w
                | Some name83 \<Rightarrow> do {
                    slot \<leftarrow> mkdir_slot parent_buffer 0 (max_entries f);
                    case slot of
                      None \<Rightarrow> mkdir_fail dev new_cluster f w
                    | Some i \<Rightarrow>
                        let parent_buffer = dir_put i (de_set_cluster new_cluster (de_new name83 ATTR_DIRECTORY)) parent_buffer;
                            (r, w) = fs_write dev f (fat32_cluster_to_lba f parent_cluster) (ucast spc) parent_buffer w
                        in if r \<noteq> int (unat spc) then mkdir_fail dev new_cluster f w
                           else if parent_cluster = root_dir_cluster (current_fs f)
                           then let (_, f, w) = fat32_load_root_directory dev f w in Some (0, f, w)
                           else Some (0, f, w)
                  }
              }
            }
      })"

end
