(* ===== verification/Fat_File.thy ===== *)
theory Fat_File
  imports Fat_Dir
begin

text \<open>
  Mounting a FAT32 volume and the operations on files (\<open>fs/fat32.c\<close>): open, read, write,
  create, delete, close. An outer \<open>None\<close> stands for a division by zero, a buffer overrun
  or a loop that does not end. Console messages are left out.
\<close>

definition PART_TYPE_FAT32 :: u8 where "PART_TYPE_FAT32 = 0x0b"
definition PART_TYPE_FAT32_LBA :: u8 where "PART_TYPE_FAT32_LBA = 0x0c"

text \<open>The fields of the boot sector that the code uses.\<close>

record boot_sector =
  boot_bytes_per_sector :: u16
  boot_sectors_per_cluster :: u8
  boot_reserved_sectors :: u16
  boot_num_fats :: u8
  boot_total_sectors_32 :: u32
  boot_sectors_per_fat :: u32
  boot_root_cluster :: u32

definition boot_fields :: "bytes \<Rightarrow> boot_sector" where
  "boot_fields b = \<lparr>boot_bytes_per_sector = get_le16 b 11, boot_sectors_per_cluster = b ! 13,
     boot_reserved_sectors = get_le16 b 14, boot_num_fats = b ! 16, boot_total_sectors_32 = get_le32 b 32,
     boot_sectors_per_fat = get_le32 b 36, boot_root_cluster = get_le32 b 44\<rparr>"

text \<open>The file system of a boot sector; its cluster count divides by the cluster size.\<close>

definition boot_fs :: "u8 \<Rightarrow> u8 \<Rightarrow> u32 \<Rightarrow> boot_sector \<Rightarrow> fat_fs \<Rightarrow> fat_fs" where
  "boot_fs disk part start boot v =
     (let fat_area_size = ucast (boot_num_fats boot) * boot_sectors_per_fat boot;
          first_fat = start + ucast (boot_reserved_sectors boot);
          data_sectors = boot_total_sectors_32 boot - (ucast (boot_reserved_sectors boot) + fat_area_size)
      in \<lparr>fs_disk = disk, fs_partition = part, fs_start_lba = start, fat_start = first_fat,
          data_start = first_fat + fat_area_size, root_dir_cluster = boot_root_cluster boot,
          sectors_per_fat = boot_sectors_per_fat boot, num_fats = boot_num_fats boot,
          bytes_per_sector = boot_bytes_per_sector boot, sectors_per_cluster = boot_sectors_per_cluster boot,
          total_clusters = data_sectors div ucast (boot_sectors_per_cluster boot),
          current_dir_cluster = boot_root_cluster boot,
          current_path = (current_path v)[0 := 47, 1 := 0]\<rparr>)"

definition fat32_mount :: "'w blkdev \<Rightarrow> u8 \<Rightarrow> u8 \<Rightarrow> part_table \<Rightarrow> fat32 \<Rightarrow> 'w \<Rightarrow> (int \<times> fat32 \<times> 'w) option" where
  "fat32_mount dev disk part t f w =
     (case partition_get_info disk part t of
        None \<Rightarrow> Some (-1, f, w)
      | Some info \<Rightarrow>
          if part_type info \<noteq> PART_TYPE_FAT32 \<and> part_type info \<noteq> PART_TYPE_FAT32_LBA then Some (-1, f, w)
          else let (channel, drive) = fat32_disk_to_ata disk;
                   (r, boot_raw, w) = blk_read dev channel drive (start_lba info) 1 w
               in if r \<noteq> 1 then Some (-1, f, w)
                  else if get_le16 boot_raw 510 \<noteq> 0xAA55 then Some (-1, f, w)
                  else let boot = boot_fields boot_raw in
                    if boot_sectors_per_cluster boot = 0 then None
                    else Some (0, f\<lparr>current_fs := boot_fs disk part (start_lba info) boot (current_fs f),
                           fs_mounted := True\<rparr>, w))"

subsection \<open>Open, read, close\<close>

text \<open>The only file handle points to \<open>open_file\<close>; NULL is \<open>None\<close>.\<close>

type_synonym file_ptr = "unit option"

definition file_of_entry :: "fat_fs \<Rightarrow> bytes \<Rightarrow> fat_file" where
  "file_of_entry v e =
     \<lparr>file_first_cluster = de_first_cluster e, file_current_cluster = de_first_cluster e, file_position = 0,
      file_size = de_file_size e, file_sector_offset = 0, file_disk = ucast (fs_disk v),
      file_partition = fs_partition v, file_attributes = de_attributes e\<rparr>"

definition fat32_open :: "'w blkdev \<Rightarrow> bytes \<Rightarrow> fat32 \<Rightarrow> 'w \<Rightarrow> (file_ptr \<times> fat32 \<times> 'w) option" where
  "fat32_open dev path f w =
     (if \<not> fs_mounted f then Some (None, f, w)
      else
        let v = current_fs f;
            abs_path = (path \<noteq> [] \<and> hd path = 47);
            name = (if abs_path then tl path else path);
            dir_cluster = (if abs_path then root_dir_cluster v
                           else if current_dir_cluster v = 0 \<or> current_dir_cluster v < 2 then root_dir_cluster v
                           else current_dir_cluster v);
            sectors = dir_sectors f 16384;
            (r, dir_buffer, w) = fs_read dev f (fat32_cluster_to_lba f dir_cluster) (of_nat sectors) w
        in if r \<noteq> int sectors then Some (None, f, w)
           else case fat32_make_name83 name of
               None \<Rightarrow> Some (None, f, w)
             | Some name83 \<Rightarrow> do {
                 i \<leftarrow> dir_search (\<lambda>e. de_name e = name83) dir_buffer 0 (max_entries f);
                 case i of
                   None \<Rightarrow> Some (None, f, w)
                 | Some i \<Rightarrow>
                     let e = dir_entry dir_buffer i in
                     if de_attributes e AND ATTR_DIRECTORY \<noteq> 0 then Some (None, f, w)
                     else Some (Some (), f\<lparr>open_file := file_of_entry v e\<rparr>, w)
               })"

lemma copy_progress:
  "0 < cs \<Longrightarrow> n < count \<Longrightarrow> count - (n + cs - p mod cs) < count - (n :: nat)"
  using mod_less_divisor [of cs p] by linarith

text \<open>The loop of \<open>fat32_read\<close>, with the bytes read so far; each round reads a whole cluster.\<close>

function read_loop :: "'w blkdev \<Rightarrow> nat \<Rightarrow> nat \<Rightarrow> bytes \<Rightarrow> fat32 \<Rightarrow> 'w \<Rightarrow> (nat \<times> bytes \<times> fat32 \<times> 'w) option" where
  "read_loop dev count bytes_read out f w =
     (let file = open_file f; spc = sectors_per_cluster (current_fs f); cs = cluster_size f in
      if count \<le> bytes_read then Some (bytes_read, out, f, w)
      else if \<not> fat32_is_valid_cluster (file_current_cluster file) then Some (bytes_read, out, f, w)
      else if cs = 0 \<or> 4096 < cs then None
      else
        let (channel, drive) = fat32_disk_to_ata (ucast (file_disk file));
            (r, bs, w) = blk_read dev channel drive (fat32_cluster_to_lba f (file_current_cluster file)) (ucast spc) w;
            f = f\<lparr>file_cluster_buf := blit 0 bs (file_cluster_buf f)\<rparr>
        in if r \<noteq> int (unat spc) then Some (bytes_read, out, f, w)
           else
             let cluster_offset = unat (file_position file) mod cs;
                 available = cs - cluster_offset;
                 to_copy = (if available < count - bytes_read then available else count - bytes_read);
                 out = out @ seg cluster_offset to_copy (file_cluster_buf f);
                 position = file_position file + of_nat to_copy;
                 f = f\<lparr>open_file := file\<lparr>file_position := position\<rparr>\<rparr>
             in if unat position mod cs = 0
                then let (next, f, w) = fat32_next_cluster dev (file_current_cluster file) f w
                     in if fat32_is_end_of_chain next \<or> next = 0 then Some (bytes_read + to_copy, out, f, w)
                        else read_loop dev count (bytes_read + to_copy) out
                               (f\<lparr>open_file := (open_file f)\<lparr>file_current_cluster := next\<rparr>\<rparr>) w
                else read_loop dev count (bytes_read + to_copy) out f w)"
  by pat_completeness auto
termination
  by (relation "measure (\<lambda>(dev, count, bytes_read, out, f, w). count - bytes_read)")
    (auto simp: Let_def copy_progress split: if_splits)

declare read_loop.simps [simp del]

text \<open>The bytes stored to the buffer are the second result; \<open>have_buf\<close> says that it is not NULL.\<close>

definition fat32_read :: "'w blkdev \<Rightarrow> file_ptr \<Rightarrow> bool \<Rightarrow> nat \<Rightarrow> fat32 \<Rightarrow> 'w \<Rightarrow> (int \<times> bytes \<times> fat32 \<times> 'w) option" where
  "fat32_read dev file have_buf count f w =
     (if \<not> fs_mounted f then Some (-1, [], f, w)
      else if file = None \<or> \<not> have_buf then Some (-1, [], f, w)
      else
        let remaining = unat (file_size (open_file f) - file_position (open_file f));
            count = (if remaining < count then remaining else count)
        in if count = 0 then Some (0, [], f, w)
           else do { (n, out, f, w) \<leftarrow> read_loop dev count 0 [] f w; Some (int n, out, f, w) })"

definition fat32_close :: "file_ptr \<Rightarrow> fat32 \<Rightarrow> fat32" where
  "fat32_close file f =
     (if file = None then f
      else f\<lparr>open_file := (open_file f)\<lparr>file_first_cluster := 0, file_current_cluster := 0, file_position := 0,
        file_size := 0\<rparr>\<rparr>)"

subsection \<open>Write, create, delete\<close>

text \<open>
  The search for an entry to overwrite or a free one: \<open>free\<close> is the first free slot so far.
  A zero name ends the search only while no free slot is known.
\<close>

fun write_slot :: "bytes \<Rightarrow> bytes \<Rightarrow> nat option \<Rightarrow> nat \<Rightarrow> nat \<Rightarrow> nat option option" where
  "write_slot name83 buf free i 0 = Some free"
| "write_slot name83 buf free i (Suc n) =
     (if length buf < i * 32 + 32 then None
      else let e = dir_entry buf i in
        if e ! 0 = 0 \<and> free = None then Some (Some i)
        else if de_free e then write_slot name83 buf (if free = None then Some i else free) (i + 1) n
        else if de_name e = name83 then Some (Some i)
        else write_slot name83 buf free (i + 1) n)"

text \<open>The loop that writes the data, cluster by cluster; -1 after a failed transfer.\<close>

function write_loop ::
    "'w blkdev \<Rightarrow> u32 \<Rightarrow> nat \<Rightarrow> bytes \<Rightarrow> u32 \<Rightarrow> fat32 \<Rightarrow> 'w \<Rightarrow> (int \<times> fat32 \<times> 'w) option" where
  "write_loop dev first_cluster remaining src cluster f w =
     (let spc = sectors_per_cluster (current_fs f); cs = cluster_size f in
      if \<not> (0 < remaining \<and> fat32_is_valid_cluster cluster) then Some (0, f, w)
      else if cs = 0 \<or> 4096 < cs then None
      else
        let chunk = (if cs < remaining then cs else remaining) in
        if length src < chunk then None
        else
          let f = f\<lparr>file_cluster_buf := blit 0 (take chunk src) (blit 0 (replicate cs 0) (file_cluster_buf f))\<rparr>;
              (r, w) = fs_write dev f (fat32_cluster_to_lba f cluster) (ucast spc) (file_cluster_buf f) w
          in if r \<noteq> int (unat spc)
             then do { (r, f, w) \<leftarrow> fat32_free_cluster_chain dev first_cluster f w; Some (-1, f, w) }
             else
               let (next, f, w) = fat32_next_cluster dev cluster f w
               in if fat32_is_end_of_chain next \<or> next = 0 then Some (0, f, w)
                  else write_loop dev first_cluster (remaining - chunk) (drop chunk src) next f w)"
  by pat_completeness auto
termination
  by (relation "measure (\<lambda>(dev, first, remaining, src, cluster, f, w). remaining)")
    (auto simp: Let_def split: if_splits)

declare write_loop.simps [simp del]

text \<open>The parent directory is written back from a buffer of 16384 bytes.\<close>

definition write_parent :: "'w blkdev \<Rightarrow> u32 \<Rightarrow> bytes \<Rightarrow> fat32 \<Rightarrow> 'w \<Rightarrow> (bool \<times> 'w) option" where
  "write_parent dev parent_cluster parent_buffer f w =
     (let spc = sectors_per_cluster (current_fs f) in
      if 32 < unat spc then None
      else let (r, w) = fs_write dev f (fat32_cluster_to_lba f parent_cluster) (ucast spc) parent_buffer w
           in Some (r = int (unat spc), w))"

text \<open>The tail of \<open>fat32_write\<close> once a slot is known, its old chain freed first.\<close>

definition write_file_entry :: "'w blkdev \<Rightarrow> u32 \<Rightarrow> bytes \<Rightarrow> nat \<Rightarrow> bytes \<Rightarrow> bytes \<Rightarrow> nat \<Rightarrow> fat32 \<Rightarrow> 'w
    \<Rightarrow> (int \<times> fat32 \<times> 'w) option" where
  "write_file_entry dev parent_cluster parent_buffer slot name83 buffer count f w =
     do {
       let old_first_cluster = de_first_cluster (dir_entry parent_buffer slot);
       (r, f, w) \<leftarrow> (if 2 \<le> old_first_cluster then fat32_free_cluster_chain dev old_first_cluster f w
                      else Some (0, f, w));
       let entry = de_new name83 ATTR_ARCHIVE;
       if count = 0 then do {
         (wrote, w) \<leftarrow> write_parent dev parent_cluster (dir_put slot entry parent_buffer) f w;
         if \<not> wrote then Some (-1, f, w)
         else if parent_cluster = root_dir_cluster (current_fs f)
         then let (_, f, w) = fat32_load_root_directory dev f w in Some (0, f, w)
         else Some (0, f, w)
       }
       else if cluster_size f = 0 then None
       else
         let clusters_needed = (count + cluster_size f - 1) div cluster_size f mod 2 ^ 32 in
         case fat32_allocate_cluster_chain dev clusters_needed f w of
           (None, f, w) \<Rightarrow> Some (-1, f, w)
         | (Some first_cluster, f, w) \<Rightarrow> do {
             (r, f, w) \<leftarrow> write_loop dev first_cluster (count mod 2 ^ 32) buffer first_cluster f w;
             if r \<noteq> 0 then Some (-1, f, w)
             else do {
               let entry = de_set_size (of_nat count) (de_set_cluster first_cluster entry);
               (wrote, w) \<leftarrow> write_parent dev parent_cluster (dir_put slot entry parent_buffer) f w;
               if \<not> wrote then do {
                 (r, f, w) \<leftarrow> fat32_free_cluster_chain dev first_cluster f w;
                 Some (-1, f, w)
               }
               else if parent_cluster = root_dir_cluster (current_fs f)
               then let (r, f, w) = fat32_load_root_directory dev f w
                    in if r \<noteq> 0 then do {
                         (r, f, w) \<leftarrow> fat32_free_cluster_chain dev first_cluster f w;
                         Some (-1, f, w)
                       }
                       else Some (0, f, w)
               else Some (0, f, w)
             }
           }
     }"

text \<open>\<open>path\<close> and \<open>buffer\<close> are \<open>None\<close> for NULL.\<close>

definition fat32_write :: "'w blkdev \<Rightarrow> bytes option \<Rightarrow> bytes option \<Rightarrow> nat \<Rightarrow> fat32 \<Rightarrow> 'w \<Rightarrow> (int \<times> fat32 \<times> 'w) option" where
  "fat32_write dev path buffer count f w =
     (if \<not> fs_mounted f then Some (-1, f, w)
      else case (path, buffer) of
        (Some path, Some buffer) \<Rightarrow> do {
          (nav, w) \<leftarrow> fat32_navigate_path dev path f w;
          if nav_result nav < 0 then Some (-1, f, w)
          else do {
            name \<leftarrow> nav_name nav;
            parent_cluster \<leftarrow> nav_parent nav;
            case fat32_make_name83 name of
              None \<Rightarrow> Some (-1, f, w)
            | Some name83 \<Rightarrow>
                let (r, parent_buffer, w) = fat32_load_directory_cluster dev parent_cluster 16384 f w
                in if r \<noteq> 0 then Some (-1, f, w)
                   else do {
                     slot \<leftarrow> write_slot name83 parent_buffer None 0 (max_entries f);
                     case slot of
                       None \<Rightarrow> Some (-1, f, w)
                     | Some i \<Rightarrow> write_file_entry dev parent_cluster parent_buffer i name83 buffer count f w
                   }
          }
        }
      | _ \<Rightarrow> Some (-1, f, w))"

definition fat32_create :: "'w blkdev \<Rightarrow> bytes option \<Rightarrow> fat32 \<Rightarrow> 'w \<Rightarrow> (int \<times> fat32 \<times> 'w) option" where
  "fat32_create dev path f w = fat32_write dev path (Some []) 0 f w"

text \<open>The entry as \<open>fat32_delete\<close> leaves it.\<close>

definition deleted_entry :: "bytes \<Rightarrow> bytes" where
  "deleted_entry e = de_set_size 0 (de_set_cluster 0 (e[0 := 0xE5, 11 := 0]))"

definition fat32_delete :: "'w blkdev \<Rightarrow> bytes option \<Rightarrow> fat32 \<Rightarrow> 'w \<Rightarrow> (int \<times> fat32 \<times> 'w) option" where
  "fat32_delete dev path f w =
     (if \<not> fs_mounted f then Some (-1, f, w)
      else case path of
        None \<Rightarrow> Some (-1, f, w)
      | Some path \<Rightarrow>
          let (r, f, w) = fat32_load_root_directory dev f w in
          if r \<noteq> 0 then Some (-1, f, w)
          else case fat32_make_name83 (if path \<noteq> [] \<and> hd path = 47 then tl path else path) of
              None \<Rightarrow> Some (-1, f, w)
            | Some name83 \<Rightarrow> do {
                i \<leftarrow> dir_search (\<lambda>e. de_name e = name83) (root_dir_buffer f) 0 (max_entries f);
                case i of
                  None \<Rightarrow> Some (-1, f, w)
                | Some i \<Rightarrow> do {
                    let e = dir_entry (root_dir_buffer f) i;
                    (r, f, w) \<leftarrow> (if 2 \<le> de_first_cluster e then fat32_free_cluster_chain dev (de_first_cluster e) f w
                                   else Some (0, f, w));
                    let f = f\<lparr>root_dir_buffer := dir_put i (deleted_entry e) (root_dir_buffer f)\<rparr>;
                    let (r, w) = fat32_save_root_directory dev f w;
                    Some (if r \<noteq> 0 then -1 else 0, f, w)
                  }
              })"

end
