(* ===== verification/Fat_Clusters.thy ===== *)
theory Fat_Clusters
  imports Fat_Chains Fat_File
begin

text \<open>
  Whole clusters on a working disk: what a read or a write of one does to the data and to
  the table, and what the searches through a directory cluster find.
\<close>

subsection \<open>Runs of sectors\<close>

lemma disk_run_cong: "(\<And>k. l \<le> k \<Longrightarrow> k < l + n \<Longrightarrow> d k = e k) \<Longrightarrow> disk_run d l n = disk_run e l n"
  by (auto simp: disk_run_def intro: arg_cong [of _ _ concat])

lemma disk_run_put_other:
  "l + n \<le> k \<or> k + m \<le> l \<Longrightarrow> disk_run (disk_put d l n bs) k m = disk_run d k m"
  by (rule disk_run_cong) (auto simp: disk_put_def)

lemma disk_run_put_same: "n * 512 \<le> length bs \<Longrightarrow> disk_run (disk_put d l n bs) l n = take (n * 512) bs"
proof (induction n arbitrary: d l bs)
  case (Suc n)
  have "n * 512 \<le> length (drop 512 bs)" using Suc.prems by simp
  note ih = Suc.IH [OF this]
  have "disk_put (d(l := take 512 bs)) (Suc l) n (drop 512 bs) l = take 512 bs" by (simp add: disk_put_def)
  then have "disk_run (disk_put d l (Suc n) bs) l (Suc n) = take 512 bs @ take (n * 512) (drop 512 bs)"
    by (simp only: disk_put_Suc [OF Suc.prems] disk_run_Suc ih)
  also have "\<dots> = take (Suc n * 512) bs" by (simp add: take_add)
  finally show ?case .
qed simp

definition cluster_sector :: "fat_fs \<Rightarrow> u32 \<Rightarrow> nat" where
  "cluster_sector v c = unat (data_start v) + (unat c - 2) * unat (sectors_per_cluster v)"

definition cluster_data :: "fat_fs \<Rightarrow> disk \<Rightarrow> u32 \<Rightarrow> bytes" where
  "cluster_data v d c = disk_run d (cluster_sector v c) (unat (sectors_per_cluster v))"

definition put_cluster :: "fat_fs \<Rightarrow> u32 \<Rightarrow> bytes \<Rightarrow> disk \<Rightarrow> disk" where
  "put_cluster v c bs d = disk_put d (cluster_sector v c) (unat (sectors_per_cluster v)) bs"

lemma cluster_sector_bounds:
  assumes "vol_ok cap v" "data_cluster v c"
  shows "unat (data_start v) \<le> cluster_sector v c" "cluster_sector v c + unat (sectors_per_cluster v) \<le> cap"
proof -
  show "unat (data_start v) \<le> cluster_sector v c" by (simp add: cluster_sector_def)
  have "Suc (unat c - 2) * unat (sectors_per_cluster v) \<le> unat (total_clusters v) * unat (sectors_per_cluster v)"
    using assms(2) by (intro mult_le_mono1) (auto simp: data_cluster_def)
  with assms(1) show "cluster_sector v c + unat (sectors_per_cluster v) \<le> cap"
    unfolding cluster_sector_def vol_ok_def mult_Suc by linarith
qed

lemma cluster_sectors_apart:
  assumes "data_cluster v c" "data_cluster v c'" "c \<noteq> c'"
  shows "cluster_sector v c + unat (sectors_per_cluster v) \<le> cluster_sector v c'
    \<or> cluster_sector v c' + unat (sectors_per_cluster v) \<le> cluster_sector v c"
proof -
  let ?s = "unat (sectors_per_cluster v)"
  have "unat c \<noteq> unat c'" using assms(3) by (simp add: word_unat_eq_iff)
  then consider "Suc (unat c - 2) \<le> unat c' - 2" | "Suc (unat c' - 2) \<le> unat c - 2"
    using assms(1,2) unfolding data_cluster_def by linarith
  then show ?thesis
  proof cases
    case 1
    from mult_le_mono1 [OF this, of ?s] show ?thesis by (simp add: cluster_sector_def)
  next
    case 2
    from mult_le_mono1 [OF this, of ?s] show ?thesis by (simp add: cluster_sector_def)
  qed
qed

lemma cluster_lba:
  assumes "vol_ok cap (current_fs f)" "data_cluster (current_fs f) c"
  shows "unat (fat32_cluster_to_lba f c) = cluster_sector (current_fs f) c"
proof -
  let ?v = "current_fs f"
  have b: "cluster_sector ?v c < 2 ^ 32"
    using cluster_sector_bounds(2) [OF assms] assms(1) by (simp add: vol_ok_def)
  have "(2 :: u32) \<le> c" using assms(2) by (simp add: data_cluster_def word_le_nat_alt)
  then have "unat (c - 2) = unat c - 2" by (simp add: unat_sub_small)
  moreover have "unat (ucast (sectors_per_cluster ?v) :: u32) = unat (sectors_per_cluster ?v)" by (simp add: unat_ucast_up)
  ultimately have "unat ((c - 2) * ucast (sectors_per_cluster ?v)) = (unat c - 2) * unat (sectors_per_cluster ?v)"
    using b by (simp add: unat_word_ariths cluster_sector_def)
  with b show ?thesis by (simp add: fat32_cluster_to_lba_def unat_word_ariths cluster_sector_def)
qed

lemma length_cluster_data [simp]:
  "disk_ok d \<Longrightarrow> length (cluster_data v d c) = unat (sectors_per_cluster v) * 512"
  by (simp add: cluster_data_def)

lemma cluster_data_put:
  assumes "data_cluster v c" "data_cluster v c'" "unat (sectors_per_cluster v) * 512 \<le> length bs"
  shows "cluster_data v (put_cluster v c bs d) c' =
    (if c' = c then take (unat (sectors_per_cluster v) * 512) bs else cluster_data v d c')"
  using disk_run_put_same [OF assms(3)] disk_run_put_other cluster_sectors_apart [OF assms(1,2)]
  by (auto simp: cluster_data_def put_cluster_def)

lemma fat_next_put_cluster:
  assumes "vol_ok cap v" "data_cluster v c"
  shows "fat_next v (put_cluster v c' bs d) c = fat_next v d c"
proof -
  have "entry_sector v 0 c < cluster_sector v c'"
    using vol_bounds(3) [OF assms vol_num_fats [OF assms(1)]] by (simp add: cluster_sector_def)
  then show ?thesis by (simp add: fat_next_def fat_val_def put_cluster_def disk_put_def)
qed

lemma cluster_data_same:
  assumes "vol_ok cap v" "same_data v d d'"
  shows "cluster_data v d' c = cluster_data v d c"
  unfolding cluster_data_def
  by (rule disk_run_cong) (use assms in \<open>simp add: same_data_def cluster_sector_def\<close>)

text \<open>The cache does not care about data clusters.\<close>

lemma cache_put_cluster:
  assumes "vol_ok cap (current_fs f)" "cache_ok f d"
  shows "cache_ok f (put_cluster (current_fs f) c bs d)"
proof -
  let ?v = "current_fs f"
  have "unat (fat_start ?v) + unat (sectors_per_fat ?v) \<le> unat (data_start ?v)"
    using assms(1) vol_num_fats [OF assms(1)] by (cases "unat (num_fats ?v)") (auto simp: vol_ok_def)
  then have "put_cluster ?v c bs d k = d k" if "k < unat (fat_start ?v) + unat (sectors_per_fat ?v)" for k
    using that by (simp add: put_cluster_def disk_put_def cluster_sector_def)
  with assms(2) show ?thesis by (auto simp: cache_ok_def)
qed

subsection \<open>Cluster transfers\<close>

lemma dir_sectors_vol: "vol_ok cap (current_fs f) \<Longrightarrow> dir_sectors f 16384 = unat (sectors_per_cluster (current_fs f))"
  by (auto simp: dir_sectors_def vol_ok_def Let_def)

lemma spc_word: "(of_nat (unat (s :: u8)) :: u16) = ucast s" "unat (ucast s :: u16) = unat s"
  by (simp_all add: unat_ucast_up)

context fat_disk
begin

lemma cluster_read:
  assumes "good dev f w" "data_cluster (current_fs f) c"
  shows "\<exists>w'. rd (fat32_cluster_to_lba f c) (ucast (sectors_per_cluster (current_fs f))) w =
      (int (unat (sectors_per_cluster (current_fs f))), cluster_data (current_fs f) (disk w) c, w')
    \<and> ready w' \<and> disk w' = disk w"
proof -
  note g = goodD [OF assms(1)]
  have n: "0 < (ucast (sectors_per_cluster (current_fs f)) :: u16)"
    "unat (ucast (sectors_per_cluster (current_fs f)) :: u16) \<le> 255"
    using g(4) spc_word(2) [of "sectors_per_cluster (current_fs f)"] by (auto simp: vol_ok_def word_gt_0 unat_gt_0 unat_eq_0)
  show ?thesis
    using read_ok [OF g(1) n, of "fat32_cluster_to_lba f c"] cluster_sector_bounds(2) [OF g(4) assms(2)]
    unfolding spc_word cluster_lba [OF g(4) assms(2)] cluster_data_def by blast
qed

lemma cluster_write:
  assumes "good dev f w" "data_cluster (current_fs f) c" "cluster_size f \<le> length bs"
  shows "\<exists>w'. wr (fat32_cluster_to_lba f c) (ucast (sectors_per_cluster (current_fs f))) bs w =
      (int (unat (sectors_per_cluster (current_fs f))), w')
    \<and> good dev f w' \<and> disk w' = put_cluster (current_fs f) c bs (disk w)"
proof -
  note g = goodD [OF assms(1)]
  have n: "0 < (ucast (sectors_per_cluster (current_fs f)) :: u16)"
    "unat (ucast (sectors_per_cluster (current_fs f)) :: u16) \<le> 255"
    using g(4) spc_word(2) [of "sectors_per_cluster (current_fs f)"] by (auto simp: vol_ok_def word_gt_0 unat_gt_0 unat_eq_0)
  have "\<exists>w'. wr (fat32_cluster_to_lba f c) (ucast (sectors_per_cluster (current_fs f))) bs w =
      (int (unat (sectors_per_cluster (current_fs f))), w')
    \<and> ready w' \<and> disk w' = put_cluster (current_fs f) c bs (disk w)"
    using write_ok [OF g(1) n, of "fat32_cluster_to_lba f c" bs] cluster_sector_bounds(2) [OF g(4) assms(2)] assms(3)
    unfolding spc_word cluster_lba [OF g(4) assms(2)] put_cluster_def cluster_size_def by blast
  then show ?thesis using g cache_put_cluster [OF g(4,5)] by (auto simp: good_def)
qed

lemma load_dir:
  assumes "good dev f w" "data_cluster (current_fs f) c"
  shows "\<exists>w'. fat32_load_directory_cluster dev c 16384 f w = (0, cluster_data (current_fs f) (disk w) c, w')
    \<and> good dev f w' \<and> disk w' = disk w"
  using cluster_read [OF assms] goodD [OF assms(1)] dir_sectors_vol [of cap f]
  by (auto simp: fat32_load_directory_cluster_def Let_def good_def spc_word)

lemma load_root:
  assumes "good dev f w" "data_cluster (current_fs f) (root_dir_cluster (current_fs f))"
  shows "\<exists>f' w'. fat32_load_root_directory dev f w = (0, f', w') \<and> good dev f' w' \<and> disk w' = disk w
    \<and> current_fs f' = current_fs f \<and> fs_mounted f' = fs_mounted f \<and> file_cluster_buf f' = file_cluster_buf f
    \<and> root_dir_buffer f' = blit 0 (cluster_data (current_fs f) (disk w) (root_dir_cluster (current_fs f))) (root_dir_buffer f)
    \<and> fat_sector_cache f' = fat_sector_cache f \<and> fat_cache_sector f' = fat_cache_sector f"
  using cluster_read [OF assms] goodD [OF assms(1)] dir_sectors_vol [of cap f]
  by (auto simp: fat32_load_root_directory_def Let_def good_def spc_word cache_ok_def fs_read_def fs_write_def)

end

subsection \<open>Searches\<close>

text \<open>After an entry with a zero name all are.\<close>

definition zero_tail :: "bytes \<Rightarrow> nat \<Rightarrow> bool" where
  "zero_tail buf n \<longleftrightarrow> (\<forall>i j. i \<le> j \<longrightarrow> j < n \<longrightarrow> dir_entry buf i ! 0 = 0 \<longrightarrow> dir_entry buf j ! 0 = 0)"

definition passes :: "(bytes \<Rightarrow> bool) \<Rightarrow> bytes \<Rightarrow> bool" where
  "passes test e \<longleftrightarrow> e ! 0 \<noteq> 0 \<and> (de_free e \<or> \<not> test e)"

lemma dir_search_found:
  assumes "(i + n) * 32 \<le> length buf" "i \<le> s" "s < i + n" "\<And>k. i \<le> k \<Longrightarrow> k < s \<Longrightarrow> passes test (dir_entry buf k)"
    "dir_entry buf s ! 0 \<noteq> 0" "\<not> de_free (dir_entry buf s)" "test (dir_entry buf s)"
  shows "dir_search test buf i n = Some (Some s)"
  using assms
proof (induction n arbitrary: i)
  case (Suc n)
  show ?case
  proof (cases "i = s")
    case True
    with Suc.prems show ?thesis by (simp add: Let_def)
  next
    case False
    with Suc.prems have "passes test (dir_entry buf i)" by simp
    moreover have "dir_search test buf (i + 1) n = Some (Some s)"
      using Suc.prems False by (intro Suc.IH) auto
    ultimately show ?thesis using Suc.prems(1) by (auto simp: Let_def passes_def)
  qed
qed simp

lemma dir_search_Some:
  assumes "dir_search test buf i n = Some (Some s)"
  shows "i \<le> s \<and> s < i + n \<and> s * 32 + 32 \<le> length buf \<and> (\<forall>k. i \<le> k \<longrightarrow> k < s \<longrightarrow> passes test (dir_entry buf k))
    \<and> dir_entry buf s ! 0 \<noteq> 0 \<and> \<not> de_free (dir_entry buf s) \<and> test (dir_entry buf s)"
  using assms
proof (induction n arbitrary: i)
  case (Suc n)
  have skip: ?case if "dir_search test buf (i + 1) n = Some (Some s)" "passes test (dir_entry buf i)"
    using Suc.IH [OF that(1)] that(2) by (auto simp: le_Suc_eq Suc_le_eq dest: le_neq_implies_less)
  from Suc.prems skip show ?case by (auto simp: Let_def passes_def split: if_splits)
qed simp

lemma dir_search_defined: "(i + n) * 32 \<le> length buf \<Longrightarrow> \<exists>r. dir_search test buf i n = Some r"
  by (induction n arbitrary: i) (auto simp: Let_def)

lemma dir_search_None:
  assumes "(i + n) * 32 \<le> length buf"
    "\<And>k. i \<le> k \<Longrightarrow> k < i + n \<Longrightarrow> dir_entry buf k ! 0 = 0 \<or> de_free (dir_entry buf k) \<or> \<not> test (dir_entry buf k)"
  shows "dir_search test buf i n = Some None"
  using assms
proof (induction n arbitrary: i)
  case (Suc n)
  have "dir_search test buf (i + 1) n = Some None" using Suc.prems by (intro Suc.IH) auto
  with Suc.prems(1) Suc.prems(2) [of i] show ?case by (auto simp: Let_def)
qed simp

text \<open>The slot search: with a free slot known it ends there or at a live entry of that name.\<close>

lemma write_slot_free:
  assumes "write_slot nm buf (Some j) i n = Some r"
  shows "r = Some j \<or> (\<exists>s. r = Some s \<and> i \<le> s \<and> s < i + n \<and> \<not> de_free (dir_entry buf s) \<and> de_name (dir_entry buf s) = nm
    \<and> (\<forall>k. i \<le> k \<longrightarrow> k < s \<longrightarrow> de_free (dir_entry buf k) \<or> de_name (dir_entry buf k) \<noteq> nm))"
  using assms
proof (induction n arbitrary: i)
  case (Suc n)
  have skip: ?case if "write_slot nm buf (Some j) (i + 1) n = Some r"
      "de_free (dir_entry buf i) \<or> de_name (dir_entry buf i) \<noteq> nm"
    using Suc.IH [OF that(1)]
  proof (elim disjE exE conjE)
    fix s assume s: "r = Some s" "i + 1 \<le> s" "s < i + 1 + n" "\<not> de_free (dir_entry buf s)" "de_name (dir_entry buf s) = nm"
      and k: "\<forall>k. i + 1 \<le> k \<longrightarrow> k < s \<longrightarrow> de_free (dir_entry buf k) \<or> de_name (dir_entry buf k) \<noteq> nm"
    have "de_free (dir_entry buf k) \<or> de_name (dir_entry buf k) \<noteq> nm" if "i \<le> k" "k < s" for k
      using k that \<open>de_free (dir_entry buf i) \<or> _\<close> by (cases "k = i") auto
    with s show ?thesis by auto
  qed simp
  from Suc.prems skip show ?case by (auto simp: Let_def split: if_splits)
qed simp

lemma write_slot_start:
  assumes "write_slot nm buf None i n = Some (Some s)" "zero_tail buf (i + n)" "nm \<noteq> []" "hd nm \<noteq> 0"
    "(i + n) * 32 \<le> length buf"
  shows "i \<le> s \<and> s < i + n \<and> (\<forall>k. i \<le> k \<longrightarrow> k < s \<longrightarrow> passes (\<lambda>e. de_name e = nm) (dir_entry buf k))
    \<and> (dir_entry buf s ! 0 = 0 \<or> de_free (dir_entry buf s) \<or> de_name (dir_entry buf s) = nm)"
  using assms
proof (induction n arbitrary: i)
  case (Suc n)
  have nz: "dir_entry buf k ! 0 \<noteq> 0" if "de_name (dir_entry buf k) = nm" "k < i + Suc n" for k
  proof -
    have "length (dir_entry buf k) = 32"
      using that(2) Suc.prems(5) by (intro length_dir_entry) simp
    then have "hd nm = dir_entry buf k ! 0"
      using that(1) by (cases "dir_entry buf k") (auto simp: de_name_def)
    with Suc.prems(4) show ?thesis by simp
  qed
  consider (zero) "dir_entry buf i ! 0 = 0" | (free) "dir_entry buf i ! 0 \<noteq> 0" "de_free (dir_entry buf i)"
    | (same) "\<not> de_free (dir_entry buf i)" "de_name (dir_entry buf i) = nm"
    | (other) "dir_entry buf i ! 0 \<noteq> 0" "\<not> de_free (dir_entry buf i)" "de_name (dir_entry buf i) \<noteq> nm" by blast
  then show ?case
  proof cases
    case zero
    with Suc.prems(1,5) have "s = i" by (auto simp: Let_def)
    with zero show ?thesis by simp
  next
    case free
    with Suc.prems(1,5) have "write_slot nm buf (Some i) (i + 1) n = Some (Some s)" by (auto simp: Let_def)
    from write_slot_free [OF this] consider "s = i" | "i + 1 \<le> s" "s < i + Suc n" "de_name (dir_entry buf s) = nm"
        "\<And>k. i + 1 \<le> k \<Longrightarrow> k < s \<Longrightarrow> de_free (dir_entry buf k) \<or> de_name (dir_entry buf k) \<noteq> nm" by auto
    then show ?thesis
    proof cases
      case 2
      have "passes (\<lambda>e. de_name e = nm) (dir_entry buf k)" if "i \<le> k" "k < s" for k
      proof -
        have "dir_entry buf k ! 0 \<noteq> 0"
          using Suc.prems(2) nz [OF 2(3,2)] that 2(2) unfolding zero_tail_def by (metis less_imp_le)
        with 2(4) [of k] free that show ?thesis by (cases "k = i") (auto simp: passes_def)
      qed
      with 2 show ?thesis by auto
    qed (use free in auto)
  next
    case same
    with Suc.prems(1,5) nz [OF same(2)] have "s = i" by (auto simp: Let_def)
    with same show ?thesis by simp
  next
    case other
    with Suc.prems(1,5) have "write_slot nm buf None (i + 1) n = Some (Some s)" by (auto simp: Let_def)
    from Suc.IH [OF this] Suc.prems(2-5) other show ?thesis
      by (auto simp: passes_def le_Suc_eq Suc_le_eq dest: le_neq_implies_less)
  qed
qed simp

text \<open>A free slot is taken only when no live entry has the name.\<close>

lemma write_slot_kept:
  assumes "write_slot nm buf (Some j) i n = Some (Some j)" "j < i" "i \<le> k" "k < i + n"
  shows "de_free (dir_entry buf k) \<or> de_name (dir_entry buf k) \<noteq> nm"
  using assms
proof (induction n arbitrary: i)
  case (Suc n)
  then have "de_free (dir_entry buf i) \<or> de_name (dir_entry buf i) \<noteq> nm"
    and r: "write_slot nm buf (Some j) (i + 1) n = Some (Some j)" by (auto simp: Let_def split: if_splits)
  with Suc.IH [OF r] Suc.prems(2-4) show ?case by (cases "k = i") auto
qed simp

lemma write_slot_absent:
  assumes "write_slot nm buf None i n = Some (Some s)" "dir_entry buf s ! 0 \<noteq> 0" "de_free (dir_entry buf s)"
    "(i + n) * 32 \<le> length buf" "i \<le> k" "k < i + n"
  shows "de_free (dir_entry buf k) \<or> de_name (dir_entry buf k) \<noteq> nm"
  using assms
proof (induction n arbitrary: i)
  case (Suc n)
  show ?case
  proof (cases "de_free (dir_entry buf i)")
    case free: True
    show ?thesis
    proof (cases "dir_entry buf i ! 0 = 0")
      case True
      with Suc.prems show ?thesis by (auto simp: Let_def)
    next
      case False
      with free Suc.prems(1,4) have w: "write_slot nm buf (Some i) (i + 1) n = Some (Some s)" by (auto simp: Let_def)
      from write_slot_free [OF w] Suc.prems(3) have "s = i" by auto
      with write_slot_kept [of nm buf i "i + 1" n k] w free Suc.prems(5,6) show ?thesis by (cases "k = i") auto
    qed
  next
    case False
    with Suc.prems(1-4) have "de_name (dir_entry buf i) \<noteq> nm" "write_slot nm buf None (i + 1) n = Some (Some s)"
      by (auto simp: Let_def split: if_splits)
    with Suc.IH [of "i + 1"] Suc.prems show ?thesis by (cases "k = i") auto
  qed
qed simp

lemma write_slot_first:
  assumes "write_slot nm buf None i n = Some (Some s)" "de_free (dir_entry buf s) \<or> de_name (dir_entry buf s) \<noteq> nm"
    "i \<le> k" "k < s"
  shows "dir_entry buf k ! 0 \<noteq> 0 \<and> \<not> de_free (dir_entry buf k)"
  using assms
proof (induction n arbitrary: i)
  case (Suc n)
  show ?case
  proof (cases "dir_entry buf i ! 0 = 0 \<or> de_free (dir_entry buf i)")
    case True
    with Suc.prems(1) have "s = i \<or> write_slot nm buf (Some i) (i + 1) n = Some (Some s)"
      by (auto simp: Let_def split: if_splits)
    with write_slot_free [of nm buf i "i + 1" n "Some s"] Suc.prems(2) have "s = i" by auto
    with Suc.prems(3,4) show ?thesis by simp
  next
    case False
    with Suc.prems(1) have "s = i \<or> write_slot nm buf None (i + 1) n = Some (Some s)"
      by (auto simp: Let_def split: if_splits)
    with Suc.IH [of "i + 1"] Suc.prems False show ?thesis by (cases "k = i") auto
  qed
qed simp

lemma write_slot_exists:
  assumes "(i + n) * 32 \<le> length buf" "i \<le> k" "k < i + n"
    "dir_entry buf k ! 0 = 0 \<or> de_free (dir_entry buf k) \<or> de_name (dir_entry buf k) = nm"
  shows "\<exists>s. write_slot nm buf None i n = Some (Some s)"
  using assms
proof (induction n arbitrary: i)
  case (Suc n)
  have free: "\<exists>s. write_slot nm buf (Some j) m i' = Some (Some s)" if "(m + i') * 32 \<le> length buf" for j m i'
    using that by (induction i' arbitrary: m) (auto simp: Let_def)
  show ?case
  proof (cases "i = k")
    case True
    with Suc.prems free [of "i + 1" n i] show ?thesis by (auto simp: Let_def)
  next
    case False
    with Suc.prems have "\<exists>s. write_slot nm buf None (i + 1) n = Some (Some s)" by (intro Suc.IH) auto
    with Suc.prems(1) free [of "i + 1" n i] show ?thesis by (auto simp: Let_def)
  qed
qed simp

end
