(* ===== verification/Fat_Files.thy ===== *)
theory Fat_Files
  imports Fat_Clusters
begin

text \<open>
  Files on a working disk: writing a file of at most two clusters into a directory, opening
  it, reading it back, and deleting it, as equations on the disk's contents.
\<close>

text \<open>What the operations on files keep of the driver's state.\<close>

definition keeps :: "fat32 \<Rightarrow> fat32 \<Rightarrow> bool" where
  "keeps f f' \<longleftrightarrow> current_fs f' = current_fs f \<and> fs_mounted f' = fs_mounted f
     \<and> length (file_cluster_buf f') = length (file_cluster_buf f)"

lemma keeps_refl [simp]: "keeps f f"
  by (simp add: keeps_def)

lemma keeps_trans: "keeps f g \<Longrightarrow> keeps g h \<Longrightarrow> keeps f h"
  by (simp add: keeps_def)

lemma but_cache_keeps: "but_cache f g \<Longrightarrow> keeps f g"
  by (simp add: keeps_def but_cache_same)

lemma keeps_sizes:
  "keeps f f' \<Longrightarrow> cluster_size f' = cluster_size f \<and> max_entries f' = max_entries f
    \<and> fat32_cluster_to_lba f' c = fat32_cluster_to_lba f c"
  by (simp add: keeps_def cluster_size_def max_entries_def fat32_cluster_to_lba_def)

lemma entries_fit: "cluster_size f = max_entries f * 32"
  by (simp add: cluster_size_def max_entries_def)

lemma vol_cluster_size: "vol_ok cap (current_fs f) \<Longrightarrow> 0 < cluster_size f \<and> cluster_size f \<le> 4096"
  by (auto simp: vol_ok_def cluster_size_def word_gt_0 unat_gt_0 unat_eq_0)

lemma name83_no_slash:
  assumes "plain_name name" "fat32_make_name83 name = Some n"
  shows "47 \<notin> set name" "name \<noteq> []" "length name \<le> 12" "hd name \<noteq> 47"
proof -
  from assms(1) have s: "(case name of c # r \<Rightarrow> if c = 47 then r else name | [] \<Rightarrow> []) = name" "name \<noteq> []"
    by (auto simp: plain_name_def split: list.splits)
  from assms(2) s obtain b e where l: "name83_loop name [] [] False = Some (b, e)"
    by (auto simp: fat32_make_name83_def Let_def split: option.splits)
  from loop_before_dot [OF l] show "47 \<notin> set name" by simp
  from name83_parts [OF assms] show "length name \<le> 12" by auto
  show "name \<noteq> []" "hd name \<noteq> 47" using assms(1) by (auto simp: plain_name_def)
qed

lemma name83_head:
  assumes "plain_name name" "fat32_make_name83 name = Some n"
  shows "length n = 11" "n \<noteq> []" "hd n \<noteq> 0" "hd name \<noteq> 0xE5 \<Longrightarrow> hd n \<noteq> 0xE5"
proof -
  show l: "length n = 11" by (rule format_make_name83(2) [OF assms])
  then show "n \<noteq> []" by auto
  from name83_parts [OF assms] obtain b e where p: "n = pad_to 8 (map upper b) @ pad_to 3 (map upper e)"
    "name = (if e = [] then b else b @ 46 # e)" by blast
  have hd: "hd n = (if b = [] then 32 else upper (hd name))"
    using p by (cases b) (auto simp: pad_to_def numeral_eq_Suc)
  have "0 \<notin> set name" "name \<noteq> []" using assms(1) by (auto simp: plain_name_def)
  then have "hd name \<noteq> 0" by (cases name) auto
  with hd show "hd n \<noteq> 0" by simp
  have "c - 32 = 0xE5 \<Longrightarrow> c = 5" for c :: u8 by (simp add: diff_eq_eq)
  then have "upper c = 0xE5 \<Longrightarrow> c = 0xE5" for c by (auto simp: upper_def word_le_nat_alt split: if_splits)
  with hd show "hd name \<noteq> 0xE5 \<Longrightarrow> hd n \<noteq> 0xE5" by auto
qed

lemma nav_walk_plain:
  "47 \<notin> set s \<Longrightarrow> length pre + length s \<le> 255 \<Longrightarrow>
    nav_walk dev f s pre cluster w = Some (Some (cluster, pre @ s), w)"
  by (induction s arbitrary: pre) auto

lemma take_blit: "k \<le> length s \<Longrightarrow> k \<le> length dst \<Longrightarrow> take k (blit 0 s dst) = take k s"
  by (simp add: blit_def)

text \<open>The entry of a file after a write.\<close>

definition file_entry :: "bytes \<Rightarrow> u32 \<Rightarrow> nat \<Rightarrow> bytes" where
  "file_entry name83 c n = de_set_size (of_nat n) (de_set_cluster c (de_new name83 ATTR_ARCHIVE))"

lemma clusters_needed:
  assumes "0 < cs" "0 < n" "n \<le> 2 * cs"
  shows "(n + cs - 1) div cs mod 2 ^ 32 = 1 \<or> (n + cs - 1) div cs mod 2 ^ 32 = (2 :: nat)"
proof (cases "n \<le> cs")
  case True
  with assms have "(n + cs - 1) div cs = 1" by (intro div_nat_eqI) auto
  then show ?thesis by simp
next
  case False
  with assms have "(n + cs - 1) div cs = 2" by (intro div_nat_eqI) auto
  then show ?thesis by simp
qed

text \<open>The last round of the data loop.\<close>

lemma write_loop_last:
  assumes "f1 = f\<lparr>file_cluster_buf := blit 0 (take (min n (cluster_size f)) src)
        (blit 0 (replicate (cluster_size f) 0) (file_cluster_buf f))\<rparr>"
    and "fs_write dev f1 (fat32_cluster_to_lba f1 c) (ucast (sectors_per_cluster (current_fs f))) (file_cluster_buf f1) w
      = (int (unat (sectors_per_cluster (current_fs f))), w1)"
    and "fat32_next_cluster dev c f1 w1 = (nx, f2, w2)" "fat32_is_end_of_chain nx \<or> nx = 0"
    and "0 < n" "fat32_is_valid_cluster c" "0 < cluster_size f" "cluster_size f \<le> 4096"
      "min n (cluster_size f) \<le> length src"
  shows "write_loop dev first n src c f w = Some (0, f2, w2)"
proof -
  have k: "(if cluster_size f < n then cluster_size f else n) = min n (cluster_size f)" by (simp add: min_def)
  have "length src < n \<longrightarrow> \<not> length src < cluster_size f" using assms(9) by linarith
  then show ?thesis
    unfolding write_loop.simps [of dev first n] Let_def k assms(1) [symmetric] using assms(2-8)
    by (simp only: prod.case not_less if_True if_False simp_thms HOL.conj_assoc) auto
qed

text \<open>The first round of the read loop on a cluster that ends its chain.\<close>

lemma read_loop_once:
  assumes "file_current_cluster (open_file f) = c" "file_position (open_file f) = 0" "fat32_is_valid_cluster c"
    and "0 < cluster_size f" "cluster_size f \<le> 4096" "0 < m"
    and "fat32_disk_to_ata (ucast (file_disk (open_file f))) = (ch, dr)"
    and "blk_read dev ch dr (fat32_cluster_to_lba f c) (ucast (sectors_per_cluster (current_fs f))) w
      = (int (unat (sectors_per_cluster (current_fs f))), bs, w1)"
    and "k = min m (cluster_size f)" "unat (of_nat k :: u32) = k"
    and "f1 = f\<lparr>file_cluster_buf := blit 0 bs (file_cluster_buf f), open_file := (open_file f)\<lparr>file_position := of_nat k\<rparr>\<rparr>"
    and "fat32_next_cluster dev c f1 w1 = (nx, f2, w2)" "fat32_is_end_of_chain nx"
  shows "read_loop dev m 0 [] f w = (if k mod cluster_size f = 0 then Some (k, seg 0 k (file_cluster_buf f1), f2, w2)
      else read_loop dev m k (seg 0 k (file_cluster_buf f1)) f1 w1)"
proof -
  have c: "(if cluster_size f < m then cluster_size f else m) = k" using assms(9) by (simp add: min_def)
  note nx = assms(12) [unfolded assms(11)]
  show ?thesis unfolding assms(11)
    by (subst read_loop.simps) (use assms(1-8,10,13) nx in \<open>simp add: Let_def c cong: if_cong split del: if_split\<close>)
qed

context fat_disk
begin

lemma good_keeps:
  "good dev f w \<Longrightarrow> current_fs f' = current_fs f \<Longrightarrow> fat_sector_cache f' = fat_sector_cache f \<Longrightarrow>
    fat_cache_sector f' = fat_cache_sector f \<Longrightarrow> good dev f' w"
  by (simp add: good_def fs_read_def fs_write_def cache_ok_def)

lemma find_total:
  assumes "good dev f w" "data_cluster (current_fs f) c"
  shows "\<exists>r w'. fat32_find_in_directory dev c name f w = Some (r, w') \<and> good dev f w' \<and> disk w' = disk w"
proof -
  from load_dir [OF assms] obtain w' where
    l: "fat32_load_directory_cluster dev c 16384 f w = (0, cluster_data (current_fs f) (disk w) c, w')"
    "good dev f w'" "disk w' = disk w" by blast
  have "(0 + max_entries f) * 32 \<le> length (cluster_data (current_fs f) (disk w) c)"
    using goodD(6) [OF assms(1)] entries_fit [of f] by (simp add: cluster_size_def)
  from dir_search_defined [OF this] obtain i where
    "dir_search (\<lambda>e. fat32_name_match (de_name e) name) (cluster_data (current_fs f) (disk w) c) 0 (max_entries f) = Some i"
    by blast
  with l show ?thesis by (auto simp: fat32_find_in_directory_def)
qed

lemma navigate_plain:
  assumes "good dev f w" "data_cluster (current_fs f) (current_dir_cluster (current_fs f))"
    "47 \<notin> set name" "name \<noteq> []" "length name \<le> 255"
  shows "\<exists>nav w'. fat32_navigate_path dev name f w = Some (nav, w') \<and> 0 \<le> nav_result nav
    \<and> nav_parent nav = Some (current_dir_cluster (current_fs f)) \<and> nav_name nav = Some name
    \<and> good dev f w' \<and> disk w' = disk w"
proof -
  have h: "hd name \<noteq> 47" using assms(3,4) by (cases name) auto
  from find_total [OF assms(1,2), of name] obtain r w' where
    "fat32_find_in_directory dev (current_dir_cluster (current_fs f)) name f w = Some (r, w')" "good dev f w'" "disk w' = disk w"
    by blast
  with nav_walk_plain [OF assms(3), of "[]" dev f "current_dir_cluster (current_fs f)" w] assms(4,5) h show ?thesis
    by (simp add: fat32_navigate_path_def Let_def)
qed

lemma write_parent_ok:
  assumes "good dev f w" "data_cluster (current_fs f) p" "cluster_size f \<le> length bs"
  shows "\<exists>w'. write_parent dev p bs f w = Some (True, w') \<and> good dev f w'
    \<and> disk w' = put_cluster (current_fs f) p bs (disk w)"
proof -
  have "\<not> 32 < unat (sectors_per_cluster (current_fs f))" using goodD(4) [OF assms(1)] by (simp add: vol_ok_def)
  with cluster_write [OF assms] goodD(3) [OF assms(1)] show ?thesis
    by (auto simp: write_parent_def Let_def)
qed

text \<open>The data loop on a chain of one cluster writes that cluster and ends.\<close>

lemma write_loop_one:
  assumes "good dev f w" "data_cluster (current_fs f) c" "fat32_is_end_of_chain (fat_next (current_fs f) (disk w) c)"
    "0 < n" "min n (cluster_size f) \<le> length src" "length (file_cluster_buf f) = 4096"
  shows "\<exists>f' w' bs. write_loop dev first n src c f w = Some (0, f', w') \<and> keeps f f' \<and> good dev f' w'
    \<and> disk w' = put_cluster (current_fs f) c bs (disk w) \<and> cluster_size f \<le> length bs
    \<and> take (min n (cluster_size f)) bs = take (min n (cluster_size f)) src"
proof -
  let ?v = "current_fs f" let ?cs = "cluster_size f" let ?k = "min n ?cs"
  note g = goodD [OF assms(1)]
  note cs = vol_cluster_size [OF g(4)]
  define bs where "bs = blit 0 (take ?k src) (blit 0 (replicate ?cs 0) (file_cluster_buf f))"
  have lb: "length bs = 4096" using assms(6) by (simp add: bs_def)
  have "?k \<le> 4096" using cs by linarith
  then have ts: "take ?k bs = take ?k src"
    using take_blit [of ?k "take ?k src" "blit 0 (replicate ?cs 0) (file_cluster_buf f)"] assms(5,6) cs
    by (simp add: bs_def)
  define f1 where "f1 = f\<lparr>file_cluster_buf := bs\<rparr>"
  have f1: "current_fs f1 = ?v" "cluster_size f1 = ?cs" "file_cluster_buf f1 = bs"
    "fat32_cluster_to_lba f1 c = fat32_cluster_to_lba f c"
    by (simp_all add: f1_def cluster_size_def fat32_cluster_to_lba_def)
  have g1: "good dev f1 w" by (rule good_keeps [OF assms(1)]) (simp_all add: f1_def)
  from cluster_write [OF g1, of c bs] assms(2) f1 lb cs obtain w1 where
    w1: "wr (fat32_cluster_to_lba f c) (ucast (sectors_per_cluster ?v)) bs w = (int (unat (sectors_per_cluster ?v)), w1)"
    "good dev f1 w1" "disk w1 = put_cluster ?v c bs (disk w)" by auto
  from next_ok [OF w1(2), of c] assms(2) f1 obtain f2 w2 where
    n: "fat32_next_cluster dev c f1 w1 = (fat_next ?v (disk w1) c, f2, w2)" "but_cache f1 f2" "good dev f2 w2"
    "disk w2 = disk w1" by auto
  have nx: "fat_next ?v (disk w1) c = fat_next ?v (disk w) c"
    using fat_next_put_cluster [OF g(4) assms(2)] w1(3) by simp
  have "write_loop dev first n src c f w = Some (0, f2, w2)"
  proof (rule write_loop_last [where nx = "fat_next ?v (disk w1) c"])
    show "f1 = f\<lparr>file_cluster_buf := blit 0 (take ?k src) (blit 0 (replicate ?cs 0) (file_cluster_buf f))\<rparr>"
      by (simp add: f1_def bs_def)
    show "fs_write dev f1 (fat32_cluster_to_lba f1 c) (ucast (sectors_per_cluster (current_fs f))) (file_cluster_buf f1) w
        = (int (unat (sectors_per_cluster (current_fs f))), w1)"
      using w1(1) f1 goodD(3) [OF g1] by simp
    show "fat32_is_end_of_chain (fat_next ?v (disk w1) c) \<or> fat_next ?v (disk w1) c = 0" using assms(3) nx by simp
  qed (use assms(4,5) cs data_cluster_mask(3) [OF g(4) assms(2)] n(1) in auto)
  moreover have "keeps f f2"
    using but_cache_keeps [OF n(2)] assms(6) lb by (simp add: keeps_def f1_def)
  ultimately show ?thesis using n(3,4) w1(3) lb cs ts by auto
qed

lemma free_old:
  assumes "good dev f w" "fat_closed (current_fs f) (disk w)"
    "old < 2 \<or> data_cluster (current_fs f) old"
  shows "\<exists>r f' w'. (if 2 \<le> old then fat32_free_cluster_chain dev old f w else Some (0, f, w)) = Some (r, f', w')
    \<and> keeps f f' \<and> good dev f' w' \<and> same_data (current_fs f) (disk w) (disk w')
    \<and> root_dir_buffer f' = root_dir_buffer f
    \<and> (\<forall>c. data_cluster (current_fs f) c \<longrightarrow> fat_next (current_fs f) (disk w') c =
        (if 2 \<le> old \<and> chain_reach (current_fs f) (disk w) old c then 0 else fat_next (current_fs f) (disk w) c))"
proof (cases "2 \<le> old")
  case True
  with assms(3) have "data_cluster (current_fs f) old" by (auto simp: not_less)
  from free_chain_ok [OF assms(1,2) this] obtain f' w' where
    "fat32_free_cluster_chain dev old f w = Some (0, f', w')" "but_cache f f'" "good dev f' w'"
    "same_data (current_fs f) (disk w) (disk w')"
    "\<forall>c. data_cluster (current_fs f) c \<longrightarrow> fat_next (current_fs f) (disk w') c =
      (if chain_reach (current_fs f) (disk w) old c then 0 else fat_next (current_fs f) (disk w) c)" by blast
  with True but_cache_keeps [of f f'] but_cache_same(3) [of f f'] show ?thesis by simp
qed (use assms(1) in simp)

lemma alloc_one:
  assumes "good dev f w" "k = 1 \<or> k = 2" "free_list (current_fs f) (disk w) \<noteq> []"
  shows "\<exists>c f' w'. fat32_allocate_cluster_chain dev k f w = (Some c, f', w') \<and> data_cluster (current_fs f) c
    \<and> fat_next (current_fs f) (disk w) c = 0 \<and> keeps f f' \<and> good dev f' w'
    \<and> same_data (current_fs f) (disk w) (disk w')
    \<and> (\<forall>x. data_cluster (current_fs f) x \<longrightarrow> fat_next (current_fs f) (disk w') x =
        (if x = c then 0x0FFFFFFF else fat_next (current_fs f) (disk w) x))"
proof -
  from assms(3) obtain c fl where fl: "free_list (current_fs f) (disk w) = c # fl"
    by (cases "free_list (current_fs f) (disk w)") auto
  have k: "0 < k" "Suc k div 2 = 1" using assms(2) by auto
  from alloc_ok [OF assms(1) k(1)] fl k(2) obtain f' w' where
    "fat32_allocate_cluster_chain dev k f w = (Some c, f', w')" "but_cache f f'" "good dev f' w'"
    "same_data (current_fs f) (disk w) (disk w')"
    "\<forall>x. data_cluster (current_fs f) x \<longrightarrow> fat_next (current_fs f) (disk w') x =
      (if x = c then 0x0FFFFFFF else fat_next (current_fs f) (disk w) x)" by auto
  moreover have "data_cluster (current_fs f) c \<and> fat_next (current_fs f) (disk w) c = 0"
    using free_listD [OF goodD(4) [OF assms(1)], of c "disk w"] fl by simp
  ultimately show ?thesis using but_cache_keeps by blast
qed

lemma finish_parent:
  assumes "good dev f w" "data_cluster (current_fs f) (root_dir_cluster (current_fs f))"
  shows "\<exists>f' w'. (if p = root_dir_cluster (current_fs f) then fat32_load_root_directory dev f w else (0, f, w)) = (0, f', w')
    \<and> keeps f f' \<and> good dev f' w' \<and> disk w' = disk w"
  using load_root [OF assms] assms(1) by (auto simp: keeps_def)

text \<open>Data goes to one new cluster, whether one or two were asked for.\<close>

lemma store_data:
  assumes "good dev f w" "free_list (current_fs f) (disk w) \<noteq> []" "0 < n" "n \<le> 2 * cluster_size f"
    "min n (cluster_size f) \<le> length buffer" "length (file_cluster_buf f) = 4096"
  shows "\<exists>c f2 w2 f3 w3 bs.
      fat32_allocate_cluster_chain dev ((n + cluster_size f - 1) div cluster_size f mod 2 ^ 32) f w = (Some c, f2, w2)
    \<and> write_loop dev c n buffer c f2 w2 = Some (0, f3, w3) \<and> keeps f f2 \<and> keeps f f3 \<and> good dev f3 w3
    \<and> data_cluster (current_fs f) c \<and> fat_next (current_fs f) (disk w) c = 0
    \<and> same_data (current_fs f) (disk w) (disk w2) \<and> disk w3 = put_cluster (current_fs f) c bs (disk w2)
    \<and> cluster_size f \<le> length bs \<and> take (min n (cluster_size f)) bs = take (min n (cluster_size f)) buffer
    \<and> (\<forall>x. data_cluster (current_fs f) x \<longrightarrow> fat_next (current_fs f) (disk w2) x =
        (if x = c then 0x0FFFFFFF else fat_next (current_fs f) (disk w) x))"
proof -
  let ?v = "current_fs f" let ?cs = "cluster_size f"
  have "0 < ?cs" using vol_cluster_size [OF goodD(4) [OF assms(1)]] by simp
  from alloc_one [OF assms(1) clusters_needed [OF this assms(3,4)] assms(2)] obtain c f2 w2 where
    f2: "fat32_allocate_cluster_chain dev ((n + ?cs - 1) div ?cs mod 2 ^ 32) f w = (Some c, f2, w2)" "data_cluster ?v c"
    "fat_next ?v (disk w) c = 0" "keeps f f2" "good dev f2 w2" "same_data ?v (disk w) (disk w2)"
    "\<And>x. data_cluster ?v x \<Longrightarrow> fat_next ?v (disk w2) x = (if x = c then 0x0FFFFFFF else fat_next ?v (disk w) x)" by blast
  have v2: "current_fs f2 = ?v" "cluster_size f2 = ?cs" "length (file_cluster_buf f2) = 4096"
    using keeps_sizes [OF f2(4)] f2(4) assms(6) by (simp_all add: keeps_def)
  have "fat32_is_end_of_chain (fat_next ?v (disk w2) c)" using f2(7) [OF f2(2)] by (simp add: fat32_is_end_of_chain_def)
  from write_loop_one [OF f2(5), of c n buffer c, unfolded v2, OF f2(2) this assms(3,5) refl] obtain f3 w3 bs where
    "write_loop dev c n buffer c f2 w2 = Some (0, f3, w3)" "keeps f2 f3" "good dev f3 w3"
    "disk w3 = put_cluster ?v c bs (disk w2)" "?cs \<le> length bs" "take (min n ?cs) bs = take (min n ?cs) buffer" by blast
  with f2 keeps_trans [OF f2(4)] show ?thesis by blast
qed

lemma write_file_entry_ok:
  fixes f w dev p s
  defines "v \<equiv> current_fs f" and "d \<equiv> disk w"
  defines "pb \<equiv> cluster_data v d p"
  defines "old \<equiv> de_first_cluster (dir_entry pb s)"
  assumes g: "good dev f w" and p: "data_cluster v p" "fat_next v d p \<noteq> 0" and root: "data_cluster v (root_dir_cluster v)"
    and cl: "fat_closed v d" and s: "s * 32 + 32 \<le> cluster_size f"
    and old: "old < 2 \<or> data_cluster v old \<and> \<not> chain_reach v d old p"
    and fl: "free_list v d \<noteq> []" and n: "0 < n" "n \<le> 2 * cluster_size f" "min n (cluster_size f) \<le> length buffer"
    and buf: "length (file_cluster_buf f) = 4096"
  shows "\<exists>f' w' c. write_file_entry dev p pb s name83 buffer n f w = Some (0, f', w') \<and> keeps f f' \<and> good dev f' w'
    \<and> data_cluster v c \<and> c \<noteq> p \<and> (fat_next v d c = 0 \<or> 2 \<le> old \<and> chain_reach v d old c)
    \<and> cluster_data v (disk w') p = dir_put s (file_entry name83 c n) pb
    \<and> take (min n (cluster_size f)) (cluster_data v (disk w') c) = take (min n (cluster_size f)) buffer
    \<and> fat_next v (disk w') c = 0x0FFFFFFF
    \<and> (\<forall>x. data_cluster v x \<longrightarrow> x \<noteq> c \<longrightarrow> (x \<noteq> p \<longrightarrow> cluster_data v (disk w') x = cluster_data v d x)
        \<and> fat_next v (disk w') x = (if 2 \<le> old \<and> chain_reach v d old x then 0 else fat_next v d x))"
proof -
  let ?cs = "cluster_size f"
  have vol: "vol_ok cap v" using goodD(4) [OF g] by (simp add: v_def)
  have cs: "0 < ?cs" "?cs \<le> 4096" using vol_cluster_size [of cap f] vol by (simp_all add: v_def)
  have fv: "current_fs f = v" by (simp add: v_def)
  have dok: "disk_ok d" using goodD(6) [OF g] by (simp add: d_def)
  have spc: "unat (sectors_per_cluster v) * 512 = ?cs" by (simp add: cluster_size_def v_def)
  have "old < 2 \<or> data_cluster v old" using old by blast
  from free_old [OF g, of old, unfolded fv, folded d_def, OF cl this] obtain r f1 w1 where
    f1: "(if 2 \<le> old then fat32_free_cluster_chain dev old f w else Some (0, f, w)) = Some (r, f1, w1)"
    "keeps f f1" "good dev f1 w1" "same_data v d (disk w1)"
    "\<And>c. data_cluster v c \<Longrightarrow> fat_next v (disk w1) c = (if 2 \<le> old \<and> chain_reach v d old c then 0 else fat_next v d c)"
    by blast
  have v1: "current_fs f1 = v" "cluster_size f1 = ?cs" using keeps_sizes [OF f1(2)] f1(2) by (simp_all add: keeps_def fv)
  from fl obtain c0 where "c0 \<in> set (free_list v d)" by (cases "free_list v d") auto
  then have "data_cluster v c0" "fat_next v (disk w1) c0 = 0" using free_listD [OF vol] f1(5) by auto
  then have fl1: "free_list v (disk w1) \<noteq> []"
    using set_all_clusters [OF vol, of c0] by (auto simp: free_list_def filter_empty_conv)
  from store_data [OF f1(3), of n buffer, unfolded v1, OF fl1 n] f1(2) buf obtain c f2 w2 f3 w3 bs where
    f3: "fat32_allocate_cluster_chain dev ((n + ?cs - 1) div ?cs mod 2 ^ 32) f1 w1 = (Some c, f2, w2)"
    "write_loop dev c n buffer c f2 w2 = Some (0, f3, w3)" "keeps f1 f3" "good dev f3 w3" "data_cluster v c"
    "fat_next v (disk w1) c = 0" "same_data v (disk w1) (disk w2)" "disk w3 = put_cluster v c bs (disk w2)"
    "?cs \<le> length bs" "take (min n ?cs) bs = take (min n ?cs) buffer"
    "\<And>x. data_cluster v x \<Longrightarrow> fat_next v (disk w2) x = (if x = c then 0x0FFFFFFF else fat_next v (disk w1) x)"
    by (auto simp: keeps_def)
  have kf3: "keeps f f3" using keeps_trans [OF f1(2) f3(3)] .
  have v3: "current_fs f3 = v" "cluster_size f3 = ?cs" using keeps_sizes [OF kf3] kf3 by (simp_all add: keeps_def fv)
  have cp: "c \<noteq> p" using f3(6) f1(5) [OF p(1)] p(2) old by (auto simp: not_le split: if_splits)
  let ?e = "file_entry name83 c n" let ?pb = "dir_put s ?e pb"
  have lpb: "length pb = ?cs" using dok spc by (simp add: pb_def)
  then have lpb': "length ?pb = ?cs" using s by simp
  from write_parent_ok [OF f3(4), of p ?pb, unfolded v3] p(1) lpb' obtain w4 where
    w4: "write_parent dev p ?pb f3 w3 = Some (True, w4)" "good dev f3 w4" "disk w4 = put_cluster v p ?pb (disk w3)" by auto
  from finish_parent [OF w4(2), of p, unfolded v3, OF root] obtain f5 w5 where
    f5: "(if p = root_dir_cluster v then fat32_load_root_directory dev f3 w4 else (0, f3, w4)) = (0, f5, w5)"
    "keeps f3 f5" "good dev f5 w5" "disk w5 = disk w4" by blast
  have nm: "n mod 4294967296 = n" using n(2) cs(2) by simp
  have "write_file_entry dev p pb s name83 buffer n f w = Some (0, f5, w5)"
    using f1(1) f3(1,2) w4(1) f5(1) n(1) cs(1) v1 v3 nm
    unfolding write_file_entry_def old_def [symmetric] file_entry_def
    by (cases "p = root_dir_cluster v") (simp_all add: Let_def)
  moreover have "keeps f f5" using keeps_trans [OF kf3 f5(2)] .
  moreover have dp: "cluster_data v (disk w5) x = (if x = p then ?pb else if x = c then take ?cs bs else cluster_data v d x)"
    if "data_cluster v x" for x
  proof -
    have "cluster_data v (disk w5) x = (if x = p then take ?cs ?pb else cluster_data v (disk w3) x)"
      using cluster_data_put [OF p(1) that, of ?pb "disk w3"] spc lpb' w4(3) f5(4) by simp
    moreover have "cluster_data v (disk w3) x = (if x = c then take ?cs bs else cluster_data v (disk w2) x)"
      using cluster_data_put [OF f3(5) that, of bs "disk w2"] spc f3(8,9) by simp
    moreover have "cluster_data v (disk w2) x = cluster_data v d x"
      using cluster_data_same [OF vol f3(7)] cluster_data_same [OF vol f1(4)] by simp
    ultimately show ?thesis using lpb' by simp
  qed
  moreover have fp: "fat_next v (disk w5) x = fat_next v (disk w2) x" if "data_cluster v x" for x
    using fat_next_put_cluster [OF vol that] w4(3) f3(8) f5(4) by simp
  moreover have "take (min n ?cs) (take ?cs bs) = take (min n ?cs) buffer" using f3(10) by (simp only: take_take min.right_idem)
  moreover have "fat_next v d c = 0 \<or> 2 \<le> old \<and> chain_reach v d old c"
    using f1(5) [OF f3(5)] f3(6) by (auto split: if_splits)
  ultimately show ?thesis using f5(3) f3(5,11) cp f1(5) p(1)
    by (intro exI [of _ f5] exI [of _ w5] exI [of _ c]) simp
qed

end

subsection \<open>A write by name\<close>

definition replaceable :: "bytes \<Rightarrow> bytes \<Rightarrow> bool" where
  "replaceable name83 e \<longleftrightarrow> e ! 0 = 0 \<or> de_free e \<or> de_name e = name83"

text \<open>The slot a file of that name is to be written to: its own entry when it has one, otherwise the
  first that is free.\<close>

definition slot_for :: "bytes \<Rightarrow> nat \<Rightarrow> bytes \<Rightarrow> nat \<Rightarrow> bool" where
  "slot_for name83 n buf s \<longleftrightarrow> s < n \<and>
     (case dir_search (\<lambda>e. de_name e = name83) buf 0 n of
        Some (Some j) \<Rightarrow> s = j
      | Some None \<Rightarrow> (dir_entry buf s ! 0 = 0 \<or> de_free (dir_entry buf s))
          \<and> (\<forall>k < s. dir_entry buf k ! 0 \<noteq> 0 \<and> \<not> de_free (dir_entry buf k))
      | None \<Rightarrow> False)"

lemma length_file_entry [simp]: "length (file_entry n c k) = 32"
  by (simp add: file_entry_def)

lemma file_entry_fields:
  assumes "length n = 11"
  shows "de_name (file_entry n c k) = n" "de_attributes (file_entry n c k) = ATTR_ARCHIVE"
    "de_first_cluster (file_entry n c k) = c" "de_file_size (file_entry n c k) = of_nat k"
  using assms by (simp_all add: file_entry_def)

lemma file_entry_live:
  assumes "length n = 11" "hd n \<noteq> 0" "hd n \<noteq> 0xE5"
  shows "file_entry n c k ! 0 \<noteq> 0" "\<not> de_free (file_entry n c k)"
proof -
  have "file_entry n c k ! 0 = de_name (file_entry n c k) ! 0" by (simp add: de_name_def)
  also have "\<dots> = hd n" using assms(1) by (cases n) (simp_all add: file_entry_fields)
  finally show "file_entry n c k ! 0 \<noteq> 0" "\<not> de_free (file_entry n c k)"
    using assms by (simp_all add: de_free_def file_entry_fields ATTR_ARCHIVE_def ATTR_LFN_def)
qed

lemma write_slot_for:
  assumes "write_slot nm buf None 0 n = Some (Some s)" "zero_tail buf n" "length nm = 11" "hd nm \<noteq> 0" "n * 32 \<le> length buf"
  shows "slot_for nm n buf s"
proof -
  have "nm \<noteq> []" using assms(3) by auto
  from write_slot_start [OF assms(1), simplified, OF assms(2) this assms(4,5)]
  have st: "s < n \<and> (\<forall>k < s. passes (\<lambda>e. de_name e = nm) (dir_entry buf k))
    \<and> (dir_entry buf s ! 0 = 0 \<or> de_free (dir_entry buf s) \<or> de_name (dir_entry buf s) = nm)" .
  then have s: "s < n" "\<And>k. k < s \<Longrightarrow> passes (\<lambda>e. de_name e = nm) (dir_entry buf k)" using assms(3) by auto
  have l: "length (dir_entry buf s) = 32" using s(1) assms(5) by (intro length_dir_entry) simp
  show ?thesis
  proof (cases "dir_entry buf s ! 0 = 0 \<or> de_free (dir_entry buf s)")
    case True
    have nm: "dir_entry buf s ! 0 \<noteq> 0" if "de_name (dir_entry buf s) = nm"
      using that assms(4) l by (cases "dir_entry buf s") (auto simp: de_name_def)
    have tail: "dir_entry buf k ! 0 = 0" if "dir_entry buf s ! 0 = 0" "\<not> k < s" "k < n" for k
      using assms(2) that by (metis zero_tail_def not_less)
    have "dir_search (\<lambda>e. de_name e = nm) buf 0 n = Some None"
    proof (rule dir_search_None)
      fix k assume "k < 0 + n"
      then show "dir_entry buf k ! 0 = 0 \<or> de_free (dir_entry buf k) \<or> de_name (dir_entry buf k) \<noteq> nm"
        using s(2) [of k] True tail [of k] write_slot_absent [OF assms(1), of k] assms(5)
        by (cases "k < s") (auto simp: passes_def)
    qed (use assms(5) in simp)
    with s(1) True write_slot_first [OF assms(1)] nm show ?thesis by (auto simp: slot_for_def)
  next
    case False
    with st assms(3) have "de_name (dir_entry buf s) = nm" by auto
    with False s assms(5) dir_search_found [of 0 n buf s "\<lambda>e. de_name e = nm"] show ?thesis by (auto simp: slot_for_def)
  qed
qed

text \<open>A directory the code can write the name to without harm to itself.\<close>

definition dir_writable :: "fat_fs \<Rightarrow> disk \<Rightarrow> u32 \<Rightarrow> bytes \<Rightarrow> bool" where
  "dir_writable v d p name83 \<longleftrightarrow>
     (let buf = cluster_data v d p; n = unat (sectors_per_cluster v) * 16 in
      zero_tail buf n \<and> (\<exists>i < n. replaceable name83 (dir_entry buf i))
      \<and> (\<forall>i < n. replaceable name83 (dir_entry buf i) \<longrightarrow> de_first_cluster (dir_entry buf i) < 2
           \<or> data_cluster v (de_first_cluster (dir_entry buf i))
             \<and> \<not> chain_reach v d (de_first_cluster (dir_entry buf i)) p))"

definition volume_ready :: "fat_fs \<Rightarrow> disk \<Rightarrow> bool" where
  "volume_ready v d \<longleftrightarrow> data_cluster v (root_dir_cluster v) \<and> data_cluster v (current_dir_cluster v)
     \<and> fat_next v d (current_dir_cluster v) \<noteq> 0 \<and> fat_closed v d \<and> free_list v d \<noteq> []"

lemma max_entries_spc: "max_entries f = unat (sectors_per_cluster (current_fs f)) * 16"
  by (simp add: max_entries_def)

context fat_disk
begin

lemma write_ok_plain:
  fixes f w dev name83 n
  defines "v \<equiv> current_fs f" and "d \<equiv> disk w"
  defines "p \<equiv> current_dir_cluster v"
  defines "pb \<equiv> cluster_data v d p"
  assumes g: "good dev f w" "fs_mounted f" "length (file_cluster_buf f) = 4096" and r: "volume_ready v d"
    and nm: "plain_name name" "fat32_make_name83 name = Some name83" and dw: "dir_writable v d p name83"
    and n: "0 < n" "n \<le> 2 * cluster_size f" "min n (cluster_size f) \<le> length buffer"
  shows "\<exists>f' w' c s. fat32_write dev (Some name) (Some buffer) n f w = Some (0, f', w') \<and> keeps f f' \<and> good dev f' w'
    \<and> s < max_entries f \<and> (\<forall>k < s. passes (\<lambda>e. de_name e = name83) (dir_entry pb k)) \<and> slot_for name83 (max_entries f) pb s
    \<and> data_cluster v c \<and> c \<noteq> p \<and> cluster_data v (disk w') p = dir_put s (file_entry name83 c n) pb
    \<and> take (min n (cluster_size f)) (cluster_data v (disk w') c) = take (min n (cluster_size f)) buffer
    \<and> fat_next v (disk w') c = 0x0FFFFFFF
    \<and> (let old = de_first_cluster (dir_entry pb s) in (fat_next v d c = 0 \<or> 2 \<le> old \<and> chain_reach v d old c)
      \<and> (\<forall>x. data_cluster v x \<longrightarrow> x \<noteq> c \<longrightarrow> (x \<noteq> p \<longrightarrow> cluster_data v (disk w') x = cluster_data v d x)
        \<and> fat_next v (disk w') x = (if 2 \<le> old \<and> chain_reach v d old x then 0 else fat_next v d x)))"
proof -
  note ns = name83_no_slash [OF nm]
  have vd: "data_cluster v p" "data_cluster v (root_dir_cluster v)" "fat_next v d p \<noteq> 0" "fat_closed v d" "free_list v d \<noteq> []"
    using r by (simp_all add: volume_ready_def p_def)
  have l255: "length name \<le> 255" using ns(3) by simp
  from navigate_plain [OF g(1) _ ns(1,2) l255] vd(1) obtain nav w1 where
    nav: "fat32_navigate_path dev name f w = Some (nav, w1)" "0 \<le> nav_result nav" "nav_parent nav = Some p"
    "nav_name nav = Some name" "good dev f w1" "disk w1 = d" by (auto simp: v_def p_def d_def)
  from load_dir [OF nav(5), of p] vd(1) nav(6) obtain w2 where
    ld: "fat32_load_directory_cluster dev p 16384 f w1 = (0, pb, w2)" "good dev f w2" "disk w2 = d"
    by (auto simp: v_def pb_def)
  have me: "max_entries f = unat (sectors_per_cluster v) * 16" by (simp add: max_entries_spc v_def)
  have lpb: "length pb = max_entries f * 32" 
    using goodD(6) [OF g(1)] entries_fit [of f] by (simp add: pb_def d_def v_def cluster_size_def)
  from dw have dw': "zero_tail pb (max_entries f)" "\<exists>i < max_entries f. replaceable name83 (dir_entry pb i)"
    "\<And>i. i < max_entries f \<Longrightarrow> replaceable name83 (dir_entry pb i) \<Longrightarrow> de_first_cluster (dir_entry pb i) < 2
       \<or> data_cluster v (de_first_cluster (dir_entry pb i)) \<and> \<not> chain_reach v d (de_first_cluster (dir_entry pb i)) p"
    by (simp_all add: dir_writable_def Let_def pb_def me)
  from dw'(2) obtain k where "k < max_entries f" "replaceable name83 (dir_entry pb k)" by blast
  with write_slot_exists [of 0 "max_entries f" pb k name83] lpb obtain s where
    s: "write_slot name83 pb None 0 (max_entries f) = Some (Some s)" by (auto simp: replaceable_def)
  note h = name83_head [OF nm]
  from write_slot_start [OF s _ h(2,3)] dw'(1) lpb have
    s': "s < max_entries f" "\<And>k. k < s \<Longrightarrow> passes (\<lambda>e. de_name e = name83) (dir_entry pb k)" "replaceable name83 (dir_entry pb s)"
    by (auto simp: replaceable_def)
  have sb: "s * 32 + 32 \<le> cluster_size f" using s'(1) entries_fit [of f] by simp
  note we = write_file_entry_ok [OF ld(2), where p = p and s = s, unfolded ld(3), folded v_def,
      folded pb_def, OF vd(1,3,2,4) sb dw'(3) [OF s'(1,3)] vd(5) n g(3)]
  have eq: "fat32_write dev (Some name) (Some buffer) n f w = write_file_entry dev p pb s name83 buffer n f w2"
    using g(2) nav(1-4) nm(2) ld(1) s by (simp add: fat32_write_def Let_def)
  have "\<forall>k < s. passes (\<lambda>e. de_name e = name83) (dir_entry pb k)" using s'(2) by blast
  moreover have "slot_for name83 (max_entries f) pb s"
    using write_slot_for [OF s dw'(1) h(1,3)] lpb by simp
  ultimately show ?thesis using we [where ?name83.0 = name83] s'(1)
    unfolding eq Let_def by (elim exE) (intro exI conjI; (elim conjE)?; assumption)
qed

text \<open>Opening by name, by the outcome of the search.\<close>

lemma open_result:
  assumes g: "good dev f w" "fs_mounted f" and cwd: "data_cluster (current_fs f) (current_dir_cluster (current_fs f))"
    and nm: "name \<noteq> []" "hd name \<noteq> 47" "fat32_make_name83 name = Some name83"
    and s: "dir_search (\<lambda>e. de_name e = name83)
        (cluster_data (current_fs f) (disk w) (current_dir_cluster (current_fs f))) 0 (max_entries f) = Some i"
  shows "\<exists>w'. good dev f w' \<and> disk w' = disk w \<and> fat32_open dev name f w =
    (case i of None \<Rightarrow> Some (None, f, w')
     | Some j \<Rightarrow> let e = dir_entry (cluster_data (current_fs f) (disk w) (current_dir_cluster (current_fs f))) j
         in if de_attributes e AND ATTR_DIRECTORY \<noteq> 0 then Some (None, f, w')
            else Some (Some (), f\<lparr>open_file := file_of_entry (current_fs f) e\<rparr>, w'))"
proof -
  let ?v = "current_fs f" let ?p = "current_dir_cluster ?v"
  have p2: "?p \<noteq> 0" "\<not> ?p < 2" using cwd by (auto simp: data_cluster_def word_less_nat_alt)
  from cluster_read [OF g(1) cwd] obtain w' where
    rd: "rd (fat32_cluster_to_lba f ?p) (ucast (sectors_per_cluster ?v)) w
      = (int (unat (sectors_per_cluster ?v)), cluster_data ?v (disk w) ?p, w')" "ready w'" "disk w' = disk w" by blast
  have "good dev f w'" using g(1) rd(2,3) by (simp add: good_def)
  moreover have "dir_sectors f 16384 = unat (sectors_per_cluster ?v)"
    using dir_sectors_vol goodD(4) [OF g(1)] by blast
  ultimately show ?thesis
    using g(2) p2 nm s rd goodD(2) [OF g(1)]
    by (auto simp: fat32_open_def Let_def spc_word split: option.splits)
qed

text \<open>Reading a file of one cluster from its start: at most the cluster, whatever the size says.\<close>

lemma read_one:
  assumes g: "good dev f w" "fs_mounted f" "length (file_cluster_buf f) = 4096"
    and c: "data_cluster (current_fs f) c" "fat32_is_end_of_chain (fat_next (current_fs f) (disk w) c)"
    and o: "file_current_cluster (open_file f) = c" "file_position (open_file f) = 0"
      "file_disk (open_file f) = ucast (fs_disk (current_fs f))"
    and m: "0 < m" "m = min count (unat (file_size (open_file f)))"
  shows "\<exists>f' w'. fat32_read dev (Some ()) True count f w =
    Some (int (min m (cluster_size f)), take (min m (cluster_size f)) (cluster_data (current_fs f) (disk w) c), f', w')"
proof -
  let ?v = "current_fs f" let ?cs = "cluster_size f" let ?k = "min m ?cs"
  note vol = goodD(4) [OF g(1)]
  note cs = vol_cluster_size [OF vol]
  define bs where "bs = cluster_data ?v (disk w) c"
  have lbs: "length bs = ?cs" using goodD(6) [OF g(1)] by (simp add: bs_def cluster_size_def)
  from cluster_read [OF g(1) c(1)] obtain w1 where
    rd: "rd (fat32_cluster_to_lba f c) (ucast (sectors_per_cluster ?v)) w = (int (unat (sectors_per_cluster ?v)), bs, w1)"
    "ready w1" "disk w1 = disk w" by (auto simp: bs_def)
  define f1 where "f1 = f\<lparr>file_cluster_buf := blit 0 bs (file_cluster_buf f),
    open_file := (open_file f)\<lparr>file_position := of_nat ?k\<rparr>\<rparr>"
  have f1: "current_fs f1 = ?v" "open_file f1 = (open_file f)\<lparr>file_position := of_nat ?k\<rparr>"
    by (simp_all add: f1_def)
  have g1: "good dev f1 w1"
    using good_keeps [OF g(1), of f1] rd(2,3) by (simp add: f1_def good_def)
  from next_ok [OF g1, of c] c(1) f1 obtain f2 w2 where
    n: "fat32_next_cluster dev c f1 w1 = (fat_next ?v (disk w) c, f2, w2)" using rd(3) by auto
  have k: "0 < ?k" "?k \<le> ?cs" "unat (of_nat ?k :: u32) = ?k"
    using m(1) cs by (auto simp: unat_of_nat_small)
  have seg: "seg 0 ?k (blit 0 bs (file_cluster_buf f)) = take ?k bs"
    using take_blit [of ?k bs "file_cluster_buf f"] k(2) lbs cs g(3) by (simp add: seg_def)
  have disk: "(ucast (ucast (fs_disk ?v) :: u32) :: u8) = fs_disk ?v"
    by (rule bit_word_eqI) (simp add: bit_simps)
  obtain ch dr where dev: "fat32_disk_to_ata (fs_disk ?v) = (ch, dr)" "blk_read dev ch dr = rd"
    using goodD(2) [OF g(1)] by (cases "fat32_disk_to_ata (fs_disk ?v)") (simp add: fs_read_def)
  have step: "read_loop dev m 0 [] f w = (if ?k mod ?cs = 0 then Some (?k, seg 0 ?k (file_cluster_buf f1), f2, w2)
      else read_loop dev m ?k (seg 0 ?k (file_cluster_buf f1)) f1 w1)"
    by (rule read_loop_once [where c = c and ch = ch and dr = dr and bs = bs and nx = "fat_next ?v (disk w) c"])
      (use o m(1) cs c(2) rd(1) n data_cluster_mask(3) [OF vol c(1)] k(3) dev disk in \<open>simp_all add: f1_def\<close>)
  have seg1: "seg 0 ?k (file_cluster_buf f1) = take ?k bs" using seg by (simp add: f1_def)
  have stop: "read_loop dev m ?k (take ?k bs) f1 w1 = Some (?k, take ?k bs, f1, w1)" if "?k mod ?cs \<noteq> 0"
  proof -
    have "?k = m" using that by (auto simp: min_def split: if_splits)
    then show ?thesis by (subst read_loop.simps) (simp add: Let_def)
  qed
  have "\<exists>f' w'. read_loop dev m 0 [] f w = Some (?k, take ?k bs, f', w')"
    using step stop unfolding seg1 by auto
  moreover have "(if unat (file_size (open_file f) - file_position (open_file f)) < count
      then unat (file_size (open_file f) - file_position (open_file f)) else count) = m"
    using m(2) o(2) by auto
  ultimately show ?thesis using g(2) m(1) by (auto simp: fat32_read_def Let_def bs_def)
qed

end

end
