(* ===== verification/Fat_Delete.thy ===== *)
theory Fat_Delete
  imports Fat_Files
begin

text \<open>Deleting a file from the root directory, and the chain a list of clusters makes.\<close>

subsection \<open>The root directory in its buffer\<close>

lemma dir_entry_buffer:
  assumes "length bs = n * 32" "n * 32 \<le> length b" "i < n"
  shows "dir_entry (blit 0 bs b) i = dir_entry bs i"
proof -
  have "i * 32 + 32 \<le> n * 32" using assms(3) by linarith
  with assms show ?thesis by (simp add: dir_entry_def seg_def blit_def min_def)
qed

lemma dir_search_buffer:
  assumes "length bs = n * 32" "n * 32 \<le> length b" "i + m \<le> n"
  shows "dir_search test (blit 0 bs b) i m = dir_search test bs i m"
  using assms(3)
proof (induction m arbitrary: i)
  case (Suc m)
  have "i * 32 + 32 \<le> n * 32" using Suc.prems by linarith
  with assms have "\<not> length (blit 0 bs b) < i * 32 + 32" "\<not> length bs < i * 32 + 32" by simp_all
  with Suc dir_entry_buffer [OF assms(1,2), of i] show ?case by (simp add: Let_def)
qed simp

lemma take_dir_put:
  assumes "length bs = n * 32" "n * 32 \<le> length b" "i < n" "length e = 32"
  shows "take (n * 32) (dir_put i e (blit 0 bs b)) = dir_put i e bs"
proof -
  have "i * 32 + 32 \<le> n * 32" using assms(3) by linarith
  with assms show ?thesis by (simp add: dir_put_def blit_def min_def)
qed

lemma length_deleted [simp]: "length e = 32 \<Longrightarrow> length (deleted_entry e) = 32"
  by (simp add: deleted_entry_def)

lemma deleted_is_free: "length e = 32 \<Longrightarrow> de_free (deleted_entry e) \<and> deleted_entry e ! 0 = 0xE5"
  by (simp add: deleted_entry_def de_free_def nth_set_cluster nth_set_size)

text \<open>No live entry has the name.\<close>

definition dir_lacks :: "bytes \<Rightarrow> nat \<Rightarrow> bytes \<Rightarrow> bool" where
  "dir_lacks name83 n buf \<longleftrightarrow> (\<forall>k < n. dir_entry buf k ! 0 = 0 \<or> de_free (dir_entry buf k) \<or> de_name (dir_entry buf k) \<noteq> name83)"

text \<open>The name of the entry at \<open>i\<close> occurs once.\<close>

definition dir_once :: "bytes \<Rightarrow> nat \<Rightarrow> nat \<Rightarrow> bytes \<Rightarrow> bool" where
  "dir_once name83 i n buf \<longleftrightarrow> i < n \<and> dir_search (\<lambda>e. de_name e = name83) buf 0 n = Some (Some i)
     \<and> (\<forall>k < n. k \<noteq> i \<longrightarrow> dir_entry buf k ! 0 = 0 \<or> de_free (dir_entry buf k) \<or> de_name (dir_entry buf k) \<noteq> name83)"

lemma once_deleted:
  assumes "dir_once name83 i n buf" "length buf = n * 32" "length e = 32"
  shows "dir_lacks name83 n (dir_put i (deleted_entry e) buf)"
  unfolding dir_lacks_def
proof (intro allI impI)
  fix k assume k: "k < n"
  have b: "j * 32 + 32 \<le> length buf" if "j < n" for j using that assms(2) by linarith
  show "dir_entry (dir_put i (deleted_entry e) buf) k ! 0 = 0 \<or> de_free (dir_entry (dir_put i (deleted_entry e) buf) k)
    \<or> de_name (dir_entry (dir_put i (deleted_entry e) buf) k) \<noteq> name83"
  proof (cases "k = i")
    case True
    with assms(3) deleted_is_free [OF assms(3)] b [OF k] show ?thesis by simp
  next
    case False
    with assms(1,3) b k dir_entry_put_other [of "deleted_entry e" i buf k] show ?thesis
      by (auto simp: dir_once_def)
  qed
qed

lemma lacks_search:
  "dir_lacks name83 n buf \<Longrightarrow> n * 32 \<le> length buf \<Longrightarrow> dir_search (\<lambda>e. de_name e = name83) buf 0 n = Some None"
  by (rule dir_search_None) (auto simp: dir_lacks_def)

subsection \<open>Deletion on a working disk\<close>

context fat_disk
begin

lemma save_root_ok:
  assumes "good dev f w" "data_cluster (current_fs f) (root_dir_cluster (current_fs f))" "cluster_size f \<le> length (root_dir_buffer f)"
  shows "\<exists>w'. fat32_save_root_directory dev f w = (0, w') \<and> good dev f w'
    \<and> disk w' = put_cluster (current_fs f) (root_dir_cluster (current_fs f)) (root_dir_buffer f) (disk w)"
  using cluster_write [OF assms] goodD [OF assms(1)] dir_sectors_vol [of cap f]
  by (auto simp: fat32_save_root_directory_def Let_def spc_word)

lemma delete_ok:
  fixes f w dev name name83 i
  defines "v \<equiv> current_fs f" and "d \<equiv> disk w"
  defines "p \<equiv> root_dir_cluster v"
  defines "pb \<equiv> cluster_data v d p"
  defines "e \<equiv> dir_entry pb i"
  assumes g: "good dev f w" "fs_mounted f" "length (root_dir_buffer f) = 16384"
    and nm: "hd name \<noteq> 47" "name \<noteq> []" "fat32_make_name83 name = Some name83"
    and root: "data_cluster v p" and cl: "fat_closed v d"
    and s: "dir_search (\<lambda>e. de_name e = name83) pb 0 (max_entries f) = Some (Some i)"
    and old: "de_first_cluster e < 2 \<or> data_cluster v (de_first_cluster e)"
  shows "\<exists>f' w'. fat32_delete dev (Some name) f w = Some (0, f', w') \<and> keeps f f' \<and> good dev f' w'
    \<and> (\<forall>x. data_cluster v x \<longrightarrow>
        cluster_data v (disk w') x = (if x = p then dir_put i (deleted_entry e) pb else cluster_data v d x)
        \<and> fat_next v (disk w') x = (if 2 \<le> de_first_cluster e \<and> chain_reach v d (de_first_cluster e) x then 0 else fat_next v d x))"
proof -
  note vol = goodD(4) [OF g(1), folded v_def]
  have spc: "unat (sectors_per_cluster v) * 512 = cluster_size f" by (simp add: v_def cluster_size_def)
  have me: "cluster_size f = max_entries f * 32" by (rule entries_fit)
  have lpb: "length pb = max_entries f * 32"
    using goodD(6) [OF g(1)] spc me by (simp add: pb_def d_def)
  have cs: "max_entries f * 32 \<le> 4096" using vol_cluster_size [of cap f] vol me by (simp add: v_def)
  have i: "i < max_entries f" "i * 32 + 32 \<le> length pb" using dir_search_Some [OF s] by simp_all
  have le: "length e = 32" using length_dir_entry [OF i(2)] by (simp add: e_def)
  from load_root [OF g(1)] root obtain f1 w1 where
    l: "fat32_load_root_directory dev f w = (0, f1, w1)" "good dev f1 w1" "disk w1 = d" "current_fs f1 = v"
    "fs_mounted f1 = fs_mounted f" "file_cluster_buf f1 = file_cluster_buf f" "root_dir_buffer f1 = blit 0 pb (root_dir_buffer f)"
    by (auto simp: v_def d_def p_def pb_def)
  have me1: "max_entries f1 = max_entries f" "cluster_size f1 = cluster_size f"
    using l(4) by (simp_all add: max_entries_def cluster_size_def v_def)
  have buf: "max_entries f * 32 \<le> length (root_dir_buffer f)" using cs g(3) by simp
  have s1: "dir_search (\<lambda>e. de_name e = name83) (root_dir_buffer f1) 0 (max_entries f1) = Some (Some i)"
    using dir_search_buffer [OF lpb buf, of 0 "max_entries f" "\<lambda>e. de_name e = name83"] s l(7) me1 by simp
  have e1: "dir_entry (root_dir_buffer f1) i = e"
    using dir_entry_buffer [OF lpb buf i(1)] l(7) by (simp add: e_def)
  from free_old [OF l(2), of "de_first_cluster e"] cl old l(3,4) obtain r f2 w2 where
    f2: "(if 2 \<le> de_first_cluster e then fat32_free_cluster_chain dev (de_first_cluster e) f1 w1 else Some (0, f1, w1)) = Some (r, f2, w2)"
    "keeps f1 f2" "good dev f2 w2" "same_data v d (disk w2)" "root_dir_buffer f2 = root_dir_buffer f1"
    "\<And>x. data_cluster v x \<Longrightarrow> fat_next v (disk w2) x =
      (if 2 \<le> de_first_cluster e \<and> chain_reach v d (de_first_cluster e) x then 0 else fat_next v d x)" by auto
  let ?b = "dir_put i (deleted_entry e) (root_dir_buffer f1)"
  define f3 where "f3 = f2\<lparr>root_dir_buffer := ?b\<rparr>"
  have f3: "current_fs f3 = v" "root_dir_buffer f3 = ?b" "keeps f f3" "cluster_size f3 = cluster_size f"
    using f2(2) l(4-6) me1 by (auto simp: f3_def keeps_def v_def cluster_size_def)
  have g3: "good dev f3 w2" by (rule good_keeps [OF f2(3)]) (simp_all add: f3_def)
  have lb: "length ?b = 16384"
    using g(3) l(7) i(2) lpb buf by (simp add: dir_put_def)
  from save_root_ok [OF g3] f3 root lb cs me obtain w3 where
    w3: "fat32_save_root_directory dev f3 w2 = (0, w3)" "good dev f3 w3" "disk w3 = put_cluster v p ?b (disk w2)"
    by (auto simp: p_def)
  have "fat32_delete dev (Some name) f w = Some (0, f3, w3)"
    using g(2) nm l(1) s1 e1 f2(1,5) w3(1) by (cases "2 \<le> de_first_cluster e") (simp_all add: fat32_delete_def Let_def f3_def)
  moreover have "cluster_data v (disk w3) x = (if x = p then dir_put i (deleted_entry e) pb else cluster_data v d x)"
    if "data_cluster v x" for x
  proof -
    have "take (max_entries f * 32) ?b = dir_put i (deleted_entry e) pb"
      using take_dir_put [OF lpb buf i(1), of "deleted_entry e"] le l(7) by simp
    moreover have "cluster_data v (disk w3) x = (if x = p then take (max_entries f * 32) ?b else cluster_data v (disk w2) x)"
      using cluster_data_put [OF root that, of ?b "disk w2", unfolded spc me] cs lb w3(3) by simp
    ultimately show ?thesis using cluster_data_same [OF vol f2(4)] by simp
  qed
  moreover have "fat_next v (disk w3) x = fat_next v (disk w2) x" if "data_cluster v x" for x
    using fat_next_put_cluster [OF vol that] w3(3) by simp
  ultimately show ?thesis using f3(3) w3(2) f2(6) by (intro exI [of _ f3] exI [of _ w3]) simp
qed

end

subsection \<open>The chain of a list\<close>

lemma chain_succ_next: "distinct ch \<Longrightarrow> Suc i < length ch \<Longrightarrow> chain_succ ch (ch ! i) = Some (ch ! Suc i)"
proof (induction ch "ch ! i" arbitrary: i rule: chain_succ.induct)
  case (1 a b cs)
  then show ?case by (cases i) (auto simp: nth_Cons')
qed auto

lemma chain_succ_mem: "chain_succ ch c = Some b \<Longrightarrow> b \<in> set ch"
  by (induction ch c rule: chain_succ.induct) (auto split: if_splits)

lemma chain_succ_inner:
  assumes "distinct ch" "x \<in> set ch" "x \<noteq> last ch"
  shows "chain_succ ch x \<noteq> None"
proof -
  from assms(2) obtain i where i: "i < length ch" "x = ch ! i" by (auto simp: in_set_conv_nth)
  have "last ch = ch ! (length ch - 1)" using i(1) by (intro last_conv_nth) auto
  with assms(3) i have "i \<noteq> length ch - 1" by auto
  with i(1) have "Suc i < length ch" by linarith
  with chain_succ_next [OF assms(1) this] i show ?thesis by simp
qed

lemma chain_of_list:
  assumes "distinct ch" "ch \<noteq> []"
    and "\<And>x. x \<in> set ch \<Longrightarrow> x \<noteq> 0 \<and> \<not> fat32_is_end_of_chain x"
    and "fat32_is_end_of_chain (fat_next v d (last ch))"
    and "\<And>x. x \<in> set ch \<Longrightarrow> x \<noteq> last ch \<Longrightarrow> chain_succ ch x = Some (fat_next v d x)"
  shows "chain_reach v d (hd ch) x \<longleftrightarrow> x \<in> set ch"
proof
  assume "chain_reach v d (hd ch) x"
  then show "x \<in> set ch"
  proof induction
    case (reach_step b)
    then have "b \<noteq> last ch" using assms(4) by auto
    with reach_step assms(5) show ?case by (auto dest: chain_succ_mem)
  qed (use assms(2) in simp)
next
  have "chain_reach v d (hd ch) (ch ! i)" if "i < length ch" for i
    using that
  proof (induction i)
    case 0
    then show ?case using assms(2) reach_start [of v d "hd ch"] by (simp add: hd_conv_nth)
  next
    case (Suc i)
    have "ch ! i \<noteq> last ch"
      using Suc.prems assms(1,2) nth_eq_iff_index_eq [of ch i "length ch - 1"] by (auto simp: last_conv_nth)
    with assms(5) [of "ch ! i"] chain_succ_next [OF assms(1) Suc.prems] Suc.prems
    have n: "fat_next v d (ch ! i) = ch ! Suc i" by simp
    have "chain_reach v d (hd ch) (ch ! i)" using Suc by simp
    from reach_step [OF this] n assms(3) [of "ch ! Suc i"] Suc.prems show ?case by simp
  qed
  then show "x \<in> set ch \<Longrightarrow> chain_reach v d (hd ch) x" by (auto simp: in_set_conv_nth)
qed

end
