(* ===== verification/Fat_Read.thy ===== *)
theory Fat_Read
  imports Fat_Files
begin

text \<open>
  Reading a file of any length: \<open>fat32_read\<close> implements reads from a byte sequence at a
  position. The file is a chain of clusters whose data, cut to the size in the directory
  entry, is the content.
\<close>

subsection \<open>Chains and their data\<close>

definition chain_links :: "fat_fs \<Rightarrow> disk \<Rightarrow> u32 list \<Rightarrow> bool" where
  "chain_links v d ch \<longleftrightarrow> ch \<noteq> [] \<and> (\<forall>c \<in> set ch. data_cluster v c)
     \<and> (\<forall>i. Suc i < length ch \<longrightarrow> fat_next v d (ch ! i) = ch ! Suc i)
     \<and> (fat32_is_end_of_chain (fat_next v d (last ch)) \<or> fat_next v d (last ch) = 0)"

definition chain_data :: "fat_fs \<Rightarrow> disk \<Rightarrow> u32 list \<Rightarrow> bytes" where
  "chain_data v d ch = concat (map (cluster_data v d) ch)"

lemma seg_concat:
  assumes "\<And>x. x \<in> set xs \<Longrightarrow> length (g x) = cs" "i < length xs" "off + k \<le> cs"
  shows "seg (i * cs + off) k (concat (map g xs)) = seg off k (g (xs ! i))"
  using assms
proof (induction xs arbitrary: i)
  case (Cons x xs)
  have x: "length (g x) = cs" using Cons.prems(1) by simp
  show ?case
  proof (cases i)
    case 0
    then show ?thesis using x Cons.prems(3) by (simp add: seg_def)
  next
    case (Suc j)
    have "seg (i * cs + off) k (concat (map g (x # xs))) = seg (j * cs + off) k (concat (map g xs))"
      using x Suc by (simp add: seg_def algebra_simps)
    also have "\<dots> = seg off k (g (xs ! j))" using Cons.prems Suc by (intro Cons.IH) auto
    finally show ?thesis using Suc by simp
  qed
qed simp

lemma seg_take: "p + k \<le> n \<Longrightarrow> seg p k (take n xs) = seg p k xs"
  by (simp add: seg_def drop_take take_take min_def)

text \<open>The open file is at position \<open>p\<close> of the content \<open>c\<close>.\<close>

definition file_at :: "fat32 \<Rightarrow> disk \<Rightarrow> u32 list \<Rightarrow> bytes \<Rightarrow> nat \<Rightarrow> bool" where
  "file_at f d ch c p \<longleftrightarrow> chain_links (current_fs f) d ch \<and> c = take (length c) (chain_data (current_fs f) d ch)
     \<and> length c \<le> length ch * cluster_size f \<and> length c < 2 ^ 32 \<and> p \<le> length c
     \<and> file_size (open_file f) = of_nat (length c) \<and> file_position (open_file f) = of_nat p
     \<and> file_current_cluster (open_file f) = ch ! min (p div cluster_size f) (length ch - 1)
     \<and> file_disk (open_file f) = ucast (fs_disk (current_fs f))"

lemma file_at_move:
  assumes "file_at f d ch c p" "q \<le> length c" "current_fs f' = current_fs f"
    "open_file f' = (open_file f)\<lparr>file_position := of_nat q, file_current_cluster := ch ! min (q div cluster_size f) (length ch - 1)\<rparr>"
  shows "file_at f' d ch c q"
  using assms by (simp add: file_at_def cluster_size_def)

text \<open>One round of the read loop.\<close>

lemma read_loop_round:
  assumes "file_current_cluster (open_file f) = c" "unat (file_position (open_file f)) mod cluster_size f = off"
    and "fat32_is_valid_cluster c" "0 < cluster_size f" "cluster_size f \<le> 4096" "br < count"
    and "fat32_disk_to_ata (ucast (file_disk (open_file f))) = (ch, dr)"
    and "blk_read dev ch dr (fat32_cluster_to_lba f c) (ucast (sectors_per_cluster (current_fs f))) w
      = (int (unat (sectors_per_cluster (current_fs f))), bs, w1)"
    and "k = min (cluster_size f - off) (count - br)"
    and "f1 = f\<lparr>file_cluster_buf := blit 0 bs (file_cluster_buf f),
      open_file := (open_file f)\<lparr>file_position := file_position (open_file f) + of_nat k\<rparr>\<rparr>"
    and "fat32_next_cluster dev c f1 w1 = (nx, f2, w2)"
  shows "read_loop dev count br out f w =
    (if unat (file_position (open_file f) + of_nat k) mod cluster_size f = 0
     then if fat32_is_end_of_chain nx \<or> nx = 0 then Some (br + k, out @ seg off k (file_cluster_buf f1), f2, w2)
          else read_loop dev count (br + k) (out @ seg off k (file_cluster_buf f1))
                 (f2\<lparr>open_file := (open_file f2)\<lparr>file_current_cluster := nx\<rparr>\<rparr>) w2
     else read_loop dev count (br + k) (out @ seg off k (file_cluster_buf f1)) f1 w1)"
proof -
  have k: "(if cluster_size f - off < count - br then cluster_size f - off else count - br) = k"
    using assms(9) by (simp add: min_def)
  note nx = assms(11) [unfolded assms(10)]
  show ?thesis unfolding assms(10)
    by (subst read_loop.simps) (use assms(1-8) nx in \<open>simp add: Let_def k cong: if_cong split del: if_split\<close>)
qed

lemma same_disk_word: "(ucast (ucast x :: u32) :: u8) = (x :: u8)"
  by (rule bit_word_eqI) (simp add: bit_simps)

context fat_disk
begin

lemma read_loop_file:
  assumes "good dev f w" "length (file_cluster_buf f) = 4096" "file_at f (disk w) ch c p" "br \<le> count" "count - br \<le> length c - p"
  shows "\<exists>f' w'. read_loop dev count br out f w = Some (count, out @ seg p (count - br) c, f', w')
    \<and> good dev f' w' \<and> disk w' = disk w \<and> keeps f f' \<and> file_at f' (disk w) ch c (p + (count - br))"
  using assms
proof (induction "count - br" arbitrary: br f w p out rule: less_induct)
  case less
  note g = goodD [OF less.prems(1)]
  note cs = vol_cluster_size [OF g(4)]
  let ?v = "current_fs f" let ?cs = "cluster_size f"
  have at: "chain_links ?v (disk w) ch" "c = take (length c) (chain_data ?v (disk w) ch)" "length c \<le> length ch * ?cs"
    "length c < 2 ^ 32" "p \<le> length c" "file_size (open_file f) = of_nat (length c)" "file_position (open_file f) = of_nat p"
    "file_current_cluster (open_file f) = ch ! min (p div ?cs) (length ch - 1)" "file_disk (open_file f) = ucast (fs_disk ?v)"
    using less.prems(3) by (simp_all add: file_at_def)
  show ?case
  proof (cases "count = br")
    case True
    then have "read_loop dev count br out f w = Some (br, out, f, w)" by (subst read_loop.simps) (simp add: Let_def)
    with True less.prems(1,3) show ?thesis by (auto simp: seg_def)
  next
    case False
    then have br: "br < count" using less.prems(4) by simp
    have pl: "p < length c" using br less.prems(5) by linarith
    define i where "i = p div ?cs"
    define off where "off = p mod ?cs"
    have p: "p = i * ?cs + off" "off < ?cs" using cs by (simp_all add: i_def off_def)
    have i: "i < length ch" using pl at(3) by (simp add: i_def less_mult_imp_div_less)
    have cur: "file_current_cluster (open_file f) = ch ! i" using at(8) i by (simp add: i_def min_def)
    have dc: "data_cluster ?v (ch ! i)" using at(1) i by (simp add: chain_links_def)
    define k where "k = min (?cs - off) (count - br)"
    have k: "0 < k" "off + k \<le> ?cs" "k \<le> count - br" "p + k \<le> length c" using p(2) br less.prems(5) pl by (auto simp: k_def)
    have up: "unat (of_nat p :: u32) = p" "unat (of_nat p + of_nat k :: u32) = p + k"
      using at(4) pl k(4) by (simp_all add: unat_word_ariths unat_of_nat)
    obtain chn dr where dev: "fat32_disk_to_ata (fs_disk ?v) = (chn, dr)" "blk_read dev chn dr = rd"
      using g(2) by (cases "fat32_disk_to_ata (fs_disk ?v)") (simp add: fs_read_def)
    let ?bs = "cluster_data ?v (disk w) (ch ! i)"
    from cluster_read [OF less.prems(1) dc] obtain w1 where
      rd: "rd (fat32_cluster_to_lba f (ch ! i)) (ucast (sectors_per_cluster ?v)) w = (int (unat (sectors_per_cluster ?v)), ?bs, w1)"
      "ready w1" "disk w1 = disk w" by auto
    define f1 where "f1 = f\<lparr>file_cluster_buf := blit 0 ?bs (file_cluster_buf f),
      open_file := (open_file f)\<lparr>file_position := file_position (open_file f) + of_nat k\<rparr>\<rparr>"
    have f1: "current_fs f1 = ?v" "cluster_size f1 = ?cs" "open_file f1 = (open_file f)\<lparr>file_position := of_nat (p + k)\<rparr>"
      "fs_mounted f1 = fs_mounted f" "length (file_cluster_buf f1) = length (file_cluster_buf f)"
      using at(7) by (simp_all add: f1_def cluster_size_def)
    have g1: "good dev f1 w1" using good_keeps [OF less.prems(1), of f1] rd(2,3) by (simp add: f1_def good_def)
    from next_ok [OF g1, of "ch ! i"] dc f1(1) rd(3) obtain f2 w2 where
      n: "fat32_next_cluster dev (ch ! i) f1 w1 = (fat_next ?v (disk w) (ch ! i), f2, w2)" "but_cache f1 f2" "good dev f2 w2"
      "disk w2 = disk w" by auto
    have lbs: "length ?bs = ?cs" using g(6) by (simp add: cluster_size_def)
    have "seg off k (file_cluster_buf f1) = seg off k ?bs"
      using lbs cs less.prems(2) k(2) by (simp add: f1_def seg_def blit_def)
    also have "\<dots> = seg p k (chain_data ?v (disk w) ch)"
      unfolding chain_data_def p(1) by (rule seg_concat [symmetric]) (use g(6) i k(2) in \<open>simp_all add: cluster_size_def\<close>)
    also have "\<dots> = seg p k c" using seg_take [OF k(4), of "chain_data ?v (disk w) ch"] at(2) by simp
    finally have seg: "seg off k (file_cluster_buf f1) = seg p k c" .
    have out: "(out @ seg p k c) @ seg (p + k) (count - (br + k)) c = out @ seg p (count - br) c"
    proof -
      have "k + (count - (br + k)) = count - br" using k(3) by linarith
      then show ?thesis using seg_append [of p k c "count - (br + k)"] by simp
    qed
    have off: "unat (file_position (open_file f)) mod ?cs = off" by (simp add: at(7) up(1) off_def)
    have round: "read_loop dev count br out f w =
      (if (p + k) mod ?cs = 0
       then if fat32_is_end_of_chain (fat_next ?v (disk w) (ch ! i)) \<or> fat_next ?v (disk w) (ch ! i) = 0
            then Some (br + k, out @ seg p k c, f2, w2)
            else read_loop dev count (br + k) (out @ seg p k c)
                   (f2\<lparr>open_file := (open_file f2)\<lparr>file_current_cluster := fat_next ?v (disk w) (ch ! i)\<rparr>\<rparr>) w2
       else read_loop dev count (br + k) (out @ seg p k c) f1 w1)"
      using read_loop_round [OF cur off data_cluster_mask(3) [OF g(4) dc] _ _ br _ _ k_def f1_def n(1), where ch = chn and dr = dr and out = out]
        cs dev rd(1) unfolding at(7,9) up seg same_disk_word by simp
    have rest: "count - (br + k) < count - br" "br + k \<le> count" "count - (br + k) \<le> length c - (p + k)"
      using k br less.prems(5) by linarith+
    have sum: "p + k + (count - (br + k)) = p + (count - br)" using k(3) by linarith
    have f2: "current_fs f2 = ?v" "open_file f2 = open_file f1" "file_cluster_buf f2 = file_cluster_buf f1" "keeps f f2"
      using but_cache_same [OF n(2)] f1 by (simp_all add: keeps_def)
    have cont: ?thesis
      if st: "read_loop dev count br out f w = read_loop dev count (br + k) (out @ seg p k c) f3 w3" "good dev f3 w3"
        "disk w3 = disk w" "keeps f f3" "file_at f3 (disk w) ch c (p + k)" for f3 w3
    proof -
      have "length (file_cluster_buf f3) = 4096" using st(4) less.prems(2) by (simp add: keeps_def)
      from less.hyps [OF rest(1) st(2) this _ rest(2,3), where out = "out @ seg p k c"] st(3,5) obtain f' w' where
        r: "read_loop dev count (br + k) (out @ seg p k c) f3 w3 = Some (count, (out @ seg p k c) @ seg (p + k) (count - (br + k)) c, f', w')"
        "good dev f' w'" "disk w' = disk w3" "keeps f3 f'" "file_at f' (disk w) ch c (p + k + (count - (br + k)))" by auto
      have "file_at f' (disk w) ch c (p + (count - br))" using r(5) unfolding sum .
      with r(1-4) st(1,3) keeps_trans [OF st(4)] out show ?thesis by auto
    qed
    have pk: "(p + k) mod ?cs = (off + k) mod ?cs" using p(1) by (simp add: add.assoc)
    show ?thesis
    proof (cases "off + k = ?cs")
      case True
      then have m: "(p + k) mod ?cs = 0" "(p + k) div ?cs = Suc i" using pk p(1) cs by (simp, simp add: add.assoc)
      show ?thesis
      proof (cases "Suc i < length ch")
        case True
        then have nx: "fat_next ?v (disk w) (ch ! i) = ch ! Suc i" "data_cluster ?v (ch ! Suc i)"
          using at(1) by (simp_all add: chain_links_def)
        note mk = data_cluster_mask [OF g(4) nx(2)]
        let ?f3 = "f2\<lparr>open_file := (open_file f2)\<lparr>file_current_cluster := ch ! Suc i\<rparr>\<rparr>"
        have "read_loop dev count br out f w = read_loop dev count (br + k) (out @ seg p k c) ?f3 w2"
          using round m(1) nx(1) mk(2,4) by simp
        moreover have "good dev ?f3 w2" by (rule good_keeps [OF n(3)]) simp_all
        moreover have "keeps f ?f3" using f2(4) by (simp add: keeps_def)
        moreover have "file_at ?f3 (disk w) ch c (p + k)"
          by (rule file_at_move [OF less.prems(3) k(4)]) (use f2 f1(3) m(2) True in \<open>simp_all add: min_def\<close>)
        ultimately show ?thesis using n(4) by (intro cont)
      next
        case False
        then have l: "length ch = Suc i" using i by simp
        have "fat32_is_end_of_chain (fat_next ?v (disk w) (ch ! i)) \<or> fat_next ?v (disk w) (ch ! i) = 0"
          using at(1) l by (auto simp: chain_links_def last_conv_nth)
        then have r: "read_loop dev count br out f w = Some (br + k, out @ seg p k c, f2, w2)" using round m(1) by simp
        have "p + k = length ch * ?cs" using m p(1) True l by simp
        then have "count - br = k" using at(3) k(3,4) less.prems(5) by linarith
        then have e: "count = br + k" using br by linarith
        have "file_at f2 (disk w) ch c (p + k)"
          by (rule file_at_move [OF less.prems(3) k(4)]) (use f2 f1(3) m(2) l cur in \<open>simp_all add: min_def\<close>)
        with r e n(3,4) f2(4) show ?thesis by auto
      qed
    next
      case False
      then have lt: "off + k < ?cs" using k(2) by linarith
      then have m: "(p + k) mod ?cs \<noteq> 0" "(p + k) div ?cs = i"
        using pk p(1) k(1) by (simp, simp add: add.assoc)
      have "read_loop dev count br out f w = read_loop dev count (br + k) (out @ seg p k c) f1 w1" using round m(1) by simp
      moreover have "file_at f1 (disk w) ch c (p + k)"
        by (rule file_at_move [OF less.prems(3) k(4)]) (use f1 m(2) i cur in \<open>simp_all add: min_def\<close>)
      moreover have "keeps f f1" using f1 by (simp add: keeps_def)
      ultimately show ?thesis using g1 rd(3) by (intro cont)
    qed
  qed
qed

text \<open>\<open>fat32_read\<close> against its specification: the next bytes of the content, as many as asked for.\<close>

lemma read_file_ok:
  assumes "good dev f w" "fs_mounted f" "length (file_cluster_buf f) = 4096" "file_at f (disk w) ch c p"
  shows "\<exists>f' w'. fat32_read dev (Some ()) True n f w
      = Some (int (min n (length c - p)), seg p (min n (length c - p)) c, f', w')
    \<and> good dev f' w' \<and> disk w' = disk w \<and> keeps f f' \<and> file_at f' (disk w) ch c (p + min n (length c - p))"
proof -
  have at: "length c < 2 ^ 32" "p \<le> length c" "file_size (open_file f) = of_nat (length c)" "file_position (open_file f) = of_nat p"
    using assms(4) by (simp_all add: file_at_def)
  have "(of_nat p :: u32) \<le> of_nat (length c)" using at(1,2) by (simp add: word_le_nat_alt unat_of_nat)
  then have "unat (of_nat (length c) - of_nat p :: u32) = length c - p"
    using at(1,2) by (simp add: unat_sub unat_of_nat)
  then have rem: "(if unat (file_size (open_file f) - file_position (open_file f)) < n
      then unat (file_size (open_file f) - file_position (open_file f)) else n) = min n (length c - p)"
    using at(3,4) by (simp add: min_def)
  show ?thesis
  proof (cases "min n (length c - p) = 0")
    case True
    then have "fat32_read dev (Some ()) True n f w = Some (0, [], f, w)"
      using assms(2) by (simp only: fat32_read_def Let_def rem) simp
    with True assms(1,4) show ?thesis by (simp only: seg_def True) (intro exI [of _ f] exI [of _ w], simp)
  next
    case False
    from read_loop_file [OF assms(1,3,4), of 0 "min n (length c - p)" "[]"] obtain f' w' where
      "read_loop dev (min n (length c - p)) 0 [] f w = Some (min n (length c - p), seg p (min n (length c - p)) c, f', w')"
      "good dev f' w'" "disk w' = disk w" "keeps f f'" "file_at f' (disk w) ch c (p + min n (length c - p))" by auto
    with False assms(2) show ?thesis by (simp only: fat32_read_def Let_def rem) simp
  qed
qed

end

subsection \<open>Files by path\<close>

definition path_name :: "bytes \<Rightarrow> bytes" where
  "path_name path = (if path \<noteq> [] \<and> hd path = 47 then tl path else path)"

definition path_dir :: "fat_fs \<Rightarrow> bytes \<Rightarrow> u32" where
  "path_dir v path = (if path \<noteq> [] \<and> hd path = 47 then root_dir_cluster v else current_dir_cluster v)"

text \<open>The path names a file with the content \<open>c\<close> in the chain \<open>ch\<close>.\<close>

definition holds_file :: "bytes \<Rightarrow> u32 list \<Rightarrow> bytes \<Rightarrow> fat32 \<Rightarrow> disk \<Rightarrow> bool" where
  "holds_file path ch c f d \<longleftrightarrow>
     (let v = current_fs f; buf = cluster_data v d (path_dir v path) in
      path_name path \<noteq> [] \<and> data_cluster v (path_dir v path)
      \<and> (\<exists>nm i. fat32_make_name83 (path_name path) = Some nm
          \<and> dir_search (\<lambda>e. de_name e = nm) buf 0 (max_entries f) = Some (Some i)
          \<and> de_attributes (dir_entry buf i) AND ATTR_DIRECTORY = 0
          \<and> de_first_cluster (dir_entry buf i) = hd ch \<and> unat (de_file_size (dir_entry buf i)) = length c)
      \<and> chain_links v d ch \<and> c = take (length c) (chain_data v d ch) \<and> length c \<le> length ch * cluster_size f)"

lemma holds_file_keeps: "holds_file path ch c f d \<Longrightarrow> current_fs f' = current_fs f \<Longrightarrow> holds_file path ch c f' d"
  by (simp add: holds_file_def max_entries_def cluster_size_def)

context fat_disk
begin

lemma open_holds:
  assumes g: "good dev f w" "fs_mounted f" and h: "holds_file path ch c f (disk w)"
  shows "\<exists>f' w'. fat32_open dev path f w = Some (Some (), f', w') \<and> good dev f' w' \<and> disk w' = disk w \<and> keeps f f'
    \<and> file_at f' (disk w) ch c 0"
proof -
  let ?v = "current_fs f" let ?p = "path_dir ?v path" let ?b = "cluster_data ?v (disk w) ?p"
  from h obtain nm i where
    nm: "path_name path \<noteq> []" "data_cluster ?v ?p" "fat32_make_name83 (path_name path) = Some nm"
    "dir_search (\<lambda>e. de_name e = nm) ?b 0 (max_entries f) = Some (Some i)" "de_attributes (dir_entry ?b i) AND ATTR_DIRECTORY = 0"
    "de_first_cluster (dir_entry ?b i) = hd ch" "unat (de_file_size (dir_entry ?b i)) = length c"
    and l: "chain_links ?v (disk w) ch" "c = take (length c) (chain_data ?v (disk w) ch)" "length c \<le> length ch * cluster_size f"
    by (auto simp: holds_file_def Let_def)
  have p2: "?p \<noteq> 0" "\<not> ?p < 2" using nm(2) by (auto simp: data_cluster_def word_less_nat_alt)
  from cluster_read [OF g(1) nm(2)] obtain w' where
    rd: "rd (fat32_cluster_to_lba f ?p) (ucast (sectors_per_cluster ?v)) w = (int (unat (sectors_per_cluster ?v)), ?b, w')"
    "ready w'" "disk w' = disk w" by blast
  have dir: "(if path \<noteq> [] \<and> hd path = 47 then root_dir_cluster ?v
      else if current_dir_cluster ?v = 0 \<or> current_dir_cluster ?v < 2 then root_dir_cluster ?v else current_dir_cluster ?v) = ?p"
    using p2 by (auto simp: path_dir_def)
  have ds: "dir_sectors f 16384 = unat (sectors_per_cluster ?v)" using dir_sectors_vol goodD(4) [OF g(1)] by blast
  let ?f = "f\<lparr>open_file := file_of_entry ?v (dir_entry ?b i)\<rparr>"
  have "fat32_open dev path f w = Some (Some (), ?f, w')"
    unfolding fat32_open_def Let_def dir using g(2) nm rd(1) goodD(2) [OF g(1)] ds
    by (auto simp: path_name_def spc_word)
  moreover have "good dev ?f w'" using good_keeps [OF g(1), of ?f] rd(2,3) by (simp add: good_def)
  moreover have lc: "length c < 2 ^ 32"
    using nm(7) unsigned_less [of "de_file_size (dir_entry ?b i)", where 'a = nat] by simp
  then have "de_file_size (dir_entry ?b i) = of_nat (length c)"
    using nm(7) by (simp add: word_unat_eq_iff unat_of_nat)
  then have "file_at ?f (disk w) ch c 0"
    using l nm(6) lc by (simp add: file_at_def file_of_entry_def cluster_size_def chain_links_def hd_conv_nth)
  ultimately show ?thesis using rd(3) by (intro exI [of _ ?f] exI [of _ w']) (simp add: keeps_def)
qed

end

end
