(* ===== verification/Fat_Props.thy ===== *)
theory Fat_Props
  imports Fat_Delete Fat_Read Ata_Pio
begin

text \<open>
  What the file system promises to its callers, stated over the driver on the PIO drive: the
  interpretation of the block device there gives the laws of the files their disk.
\<close>

context fat_disk
begin

lemma written_entry:
  assumes g: "good dev f w" "fs_mounted f" "length (file_cluster_buf f) = 4096"
    and r: "volume_ready (current_fs f) (disk w)"
    and nm: "plain_name name" "fat32_make_name83 name = Some name83" "hd name \<noteq> 0xE5"
    and dw: "dir_writable (current_fs f) (disk w) (current_dir_cluster (current_fs f)) name83"
    and n: "0 < n" "n \<le> 2 * cluster_size f" "min n (cluster_size f) \<le> length buffer"
  shows "\<exists>f1 w1 c s. fat32_write dev (Some name) (Some buffer) n f w = Some (0, f1, w1) \<and> keeps f f1 \<and> good dev f1 w1
    \<and> data_cluster (current_fs f) c
    \<and> dir_search (\<lambda>e. de_name e = name83) (cluster_data (current_fs f) (disk w1) (current_dir_cluster (current_fs f))) 0
        (max_entries f) = Some (Some s)
    \<and> dir_entry (cluster_data (current_fs f) (disk w1) (current_dir_cluster (current_fs f))) s = file_entry name83 c n
    \<and> take (min n (cluster_size f)) (cluster_data (current_fs f) (disk w1) c) = take (min n (cluster_size f)) buffer
    \<and> fat_next (current_fs f) (disk w1) c = 0x0FFFFFFF"
proof -
  let ?v = "current_fs f" let ?p = "current_dir_cluster ?v" let ?cs = "cluster_size f"
  from write_ok_plain [OF g r nm(1,2) dw n] obtain f1 w1 c s where
    w: "fat32_write dev (Some name) (Some buffer) n f w = Some (0, f1, w1)" "keeps f f1" "good dev f1 w1"
      "s < max_entries f" "\<forall>k < s. passes (\<lambda>e. de_name e = name83) (dir_entry (cluster_data ?v (disk w) ?p) k)"
      "data_cluster ?v c" "cluster_data ?v (disk w1) ?p = dir_put s (file_entry name83 c n) (cluster_data ?v (disk w) ?p)"
      "take (min n ?cs) (cluster_data ?v (disk w1) c) = take (min n ?cs) buffer"
      "fat_next ?v (disk w1) c = 0x0FFFFFFF" by blast
  let ?b = "cluster_data ?v (disk w) ?p" let ?e = "file_entry name83 c n" let ?b1 = "dir_put s ?e ?b"
  have lb: "length ?b = max_entries f * 32"
    using goodD(6) [OF g(1)] entries_fit [of f] by (simp add: cluster_size_def)
  have sb: "s * 32 + 32 \<le> length ?b" using lb w(4) by simp
  note h = name83_head [OF nm(1,2)]
  note live = file_entry_live [OF h(1,3) h(4) [OF nm(3)]] and fields = file_entry_fields [OF h(1)]
  have "dir_search (\<lambda>e. de_name e = name83) ?b1 0 (max_entries f) = Some (Some s)"
  proof (rule dir_search_found)
    fix k assume "0 \<le> k" "k < s"
    with w(5) show "passes (\<lambda>e. de_name e = name83) (dir_entry ?b1 k)"
      using dir_entry_put_other [of ?e s ?b k] sb by simp
  qed (use lb sb w(4) live fields in simp_all)
  moreover have "dir_entry ?b1 s = ?e" using sb by simp
  ultimately show ?thesis using w by (intro exI [of _ f1] exI [of _ w1] exI [of _ c] exI [of _ s]) simp
qed

lemma write_open:
  assumes g: "good dev f w" "fs_mounted f" "length (file_cluster_buf f) = 4096"
    and r: "volume_ready (current_fs f) (disk w)"
    and nm: "plain_name name" "fat32_make_name83 name = Some name83" "hd name \<noteq> 0xE5"
    and dw: "dir_writable (current_fs f) (disk w) (current_dir_cluster (current_fs f)) name83"
    and n: "0 < n" "n \<le> 2 * cluster_size f" "min n (cluster_size f) \<le> length buffer"
  shows "\<exists>f1 w1 f2 w2 c. fat32_write dev (Some name) (Some buffer) n f w = Some (0, f1, w1)
    \<and> fat32_open dev name f1 w1 = Some (Some (), f2, w2) \<and> good dev f2 w2 \<and> fs_mounted f2
    \<and> length (file_cluster_buf f2) = 4096 \<and> cluster_size f2 = cluster_size f \<and> data_cluster (current_fs f2) c
    \<and> fat32_is_end_of_chain (fat_next (current_fs f2) (disk w2) c)
    \<and> file_current_cluster (open_file f2) = c \<and> file_position (open_file f2) = 0
    \<and> file_disk (open_file f2) = ucast (fs_disk (current_fs f2)) \<and> file_size (open_file f2) = of_nat n
    \<and> take (min n (cluster_size f)) (cluster_data (current_fs f2) (disk w2) c) = take (min n (cluster_size f)) buffer"
proof -
  let ?v = "current_fs f" let ?cs = "cluster_size f"
  from written_entry [OF g r nm dw n] obtain f1 w1 c s where
    w: "fat32_write dev (Some name) (Some buffer) n f w = Some (0, f1, w1)" "keeps f f1" "good dev f1 w1" "data_cluster ?v c"
      "dir_search (\<lambda>e. de_name e = name83) (cluster_data ?v (disk w1) (current_dir_cluster ?v)) 0 (max_entries f) = Some (Some s)"
      "dir_entry (cluster_data ?v (disk w1) (current_dir_cluster ?v)) s = file_entry name83 c n"
      "take (min n ?cs) (cluster_data ?v (disk w1) c) = take (min n ?cs) buffer"
      "fat_next ?v (disk w1) c = 0x0FFFFFFF" by blast
  have v1: "current_fs f1 = ?v" "cluster_size f1 = ?cs" "max_entries f1 = max_entries f" "fs_mounted f1"
    "length (file_cluster_buf f1) = 4096"
    using keeps_sizes [OF w(2)] w(2) g(2,3) by (auto simp: keeps_def)
  note fields = file_entry_fields [OF name83_head(1) [OF nm(1,2)]]
  have cwd: "data_cluster (current_fs f1) (current_dir_cluster (current_fs f1))"
    using r v1(1) by (simp add: volume_ready_def)
  have hn: "name \<noteq> []" "hd name \<noteq> 47" using nm(1) by (auto simp: plain_name_def)
  have sr: "dir_search (\<lambda>e. de_name e = name83)
      (cluster_data (current_fs f1) (disk w1) (current_dir_cluster (current_fs f1))) 0 (max_entries f1) = Some (Some s)"
    using w(5) by (simp only: v1)
  from open_result [OF w(3) v1(4) cwd hn nm(2) sr] obtain w2 where
    o: "good dev f1 w2" "disk w2 = disk w1"
      "fat32_open dev name f1 w1 = Some (Some (), f1\<lparr>open_file := file_of_entry ?v (file_entry name83 c n)\<rparr>, w2)"
    using w(6) v1(1) by (auto simp: fields ATTR_ARCHIVE_def ATTR_DIRECTORY_def Let_def)
  let ?f2 = "f1\<lparr>open_file := file_of_entry ?v (file_entry name83 c n)\<rparr>"
  have "good dev ?f2 w2" by (rule good_keeps [OF o(1)]) simp_all
  moreover have "cluster_size ?f2 = ?cs" using v1(2) by (simp add: cluster_size_def)
  moreover have "fat32_is_end_of_chain (fat_next ?v (disk w2) c)"
    using w(8) o(2) by (simp add: fat32_is_end_of_chain_def)
  ultimately show ?thesis using w(1,4,7) o(2,3) v1 fields
    by (intro exI [of _ f1] exI [of _ w1] exI [of _ ?f2] exI [of _ w2] exI [of _ c]) (simp add: file_of_entry_def)
qed

text \<open>After a write of up to one cluster the path names a file with what was written.\<close>

lemma write_holds:
  assumes g: "good dev f w" "fs_mounted f" "length (file_cluster_buf f) = 4096"
    and r: "volume_ready (current_fs f) (disk w)"
    and nm: "plain_name name" "fat32_make_name83 name = Some name83" "hd name \<noteq> 0xE5"
    and dw: "dir_writable (current_fs f) (disk w) (current_dir_cluster (current_fs f)) name83"
    and n: "content \<noteq> []" "length content \<le> cluster_size f"
  shows "\<exists>f1 w1 ch. fat32_write dev (Some name) (Some content) (length content) f w = Some (0, f1, w1) \<and> keeps f f1
    \<and> good dev f1 w1 \<and> holds_file name ch content f1 (disk w1)"
proof -
  let ?v = "current_fs f" let ?n = "length content"
  have "0 < ?n" "?n \<le> 2 * cluster_size f" "min ?n (cluster_size f) \<le> length content" using n by simp_all
  from written_entry [OF g r nm dw this] n(2) obtain f1 w1 c s where
    w: "fat32_write dev (Some name) (Some content) ?n f w = Some (0, f1, w1)" "keeps f f1" "good dev f1 w1" "data_cluster ?v c"
      "dir_search (\<lambda>e. de_name e = name83) (cluster_data ?v (disk w1) (current_dir_cluster ?v)) 0 (max_entries f) = Some (Some s)"
      "dir_entry (cluster_data ?v (disk w1) (current_dir_cluster ?v)) s = file_entry name83 c ?n"
      "take ?n (cluster_data ?v (disk w1) c) = content" "fat_next ?v (disk w1) c = 0x0FFFFFFF" by (auto simp: min_def)
  have v1: "current_fs f1 = ?v" "cluster_size f1 = cluster_size f" "max_entries f1 = max_entries f"
    using keeps_sizes [OF w(2)] w(2) by (auto simp: keeps_def)
  note fields = file_entry_fields [OF name83_head(1) [OF nm(1,2)]]
  have hn: "name \<noteq> []" "hd name \<noteq> 47" using nm(1) by (auto simp: plain_name_def)
  have "?n < 2 ^ 32" using n(2) vol_cluster_size [OF goodD(4) [OF g(1)]] by simp
  then have sz: "unat (of_nat ?n :: u32) = ?n" by (simp add: unat_of_nat_small)
  have "data_cluster ?v (current_dir_cluster ?v)" using r by (simp add: volume_ready_def)
  then have "holds_file name [c] content f1 (disk w1)"
    using w(4-8) v1 n(2) hn nm(2) fields sz
    by (simp add: holds_file_def Let_def path_name_def path_dir_def chain_links_def chain_data_def fat32_is_end_of_chain_def
      ATTR_ARCHIVE_def ATTR_DIRECTORY_def)
  with w(1-3) show ?thesis by blast
qed

lemma write_open_read:
  assumes g: "good dev f w" "fs_mounted f" "length (file_cluster_buf f) = 4096"
    and r: "volume_ready (current_fs f) (disk w)"
    and nm: "plain_name name" "fat32_make_name83 name = Some name83" "hd name \<noteq> 0xE5"
    and dw: "dir_writable (current_fs f) (disk w) (current_dir_cluster (current_fs f)) name83"
    and n: "0 < n" "n \<le> 2 * cluster_size f" "min n (cluster_size f) \<le> length buffer" "n \<le> count"
  shows "\<exists>f1 w1 f2 w2 f3 w3. fat32_write dev (Some name) (Some buffer) n f w = Some (0, f1, w1)
    \<and> fat32_open dev name f1 w1 = Some (Some (), f2, w2)
    \<and> fat32_read dev (Some ()) True count f2 w2 = Some (int (min n (cluster_size f)), take (min n (cluster_size f)) buffer, f3, w3)"
proof -
  from write_open [OF g r nm dw n(1-3)] obtain f1 w1 f2 w2 c where
    o: "fat32_write dev (Some name) (Some buffer) n f w = Some (0, f1, w1)" "fat32_open dev name f1 w1 = Some (Some (), f2, w2)"
    "good dev f2 w2" "fs_mounted f2" "length (file_cluster_buf f2) = 4096" "cluster_size f2 = cluster_size f"
    "data_cluster (current_fs f2) c" "fat32_is_end_of_chain (fat_next (current_fs f2) (disk w2) c)"
    "file_current_cluster (open_file f2) = c" "file_position (open_file f2) = 0"
    "file_disk (open_file f2) = ucast (fs_disk (current_fs f2))" "file_size (open_file f2) = of_nat n"
    "take (min n (cluster_size f)) (cluster_data (current_fs f2) (disk w2) c) = take (min n (cluster_size f)) buffer" by blast
  have "n < 2 ^ 32" using n(2) vol_cluster_size [OF goodD(4) [OF g(1)]] by simp
  then have "n = min count (unat (file_size (open_file f2)))" using n(4) o(12) by (simp add: unat_of_nat_small)
  from read_one [OF o(3-5,7-11) n(1) this] o(6,13) obtain f3 w3 where
    "fat32_read dev (Some ()) True count f2 w2 = Some (int (min n (cluster_size f)), take (min n (cluster_size f)) buffer, f3, w3)"
    by auto
  with o(1,2) show ?thesis by blast
qed

end

text \<open>The driver on the PIO drive is a disk for the file system.\<close>

interpretation vol: fat_disk "ata_read_sectors pio_ports ATA_PRIMARY drive"
  "ata_write_sectors pio_ports ATA_PRIMARY drive" pio_disk "pio_ready drive" "2 ^ 28" for drive
  by unfold_locales

text \<open>The position of the drive the file system is on.\<close>

definition fat_drive :: "fat32 \<Rightarrow> u8" where
  "fat_drive f = snd (fat32_disk_to_ata (fs_disk (current_fs f)))"

text \<open>A mounted file system on the first or second disk, with its driver's buffers.\<close>

definition fat_on_disk :: "fat32 \<Rightarrow> pio \<Rightarrow> bool" where
  "fat_on_disk f d \<longleftrightarrow> pio_ready (fat_drive f) d \<and> fs_disk (current_fs f) \<le> 1 \<and> vol_ok (2 ^ 28) (current_fs f)
     \<and> cache_ok f (pio_disk d) \<and> fs_mounted f \<and> length (file_cluster_buf f) = 4096 \<and> length (root_dir_buffer f) = 16384"

lemma primary_disk: "fs_disk v \<le> 1 \<Longrightarrow> fst (fat32_disk_to_ata (fs_disk v)) = ATA_PRIMARY"
proof -
  assume "fs_disk v \<le> 1"
  then have "fs_disk v = 0 \<or> fs_disk v = 1" by (auto simp: word_le_nat_alt word_unat_eq_iff)
  then show ?thesis by (auto simp: fat32_disk_to_ata_def)
qed

lemma fat_disk_good: "fat_on_disk f d \<Longrightarrow> vol.good (fat_drive f) (ata_dev pio_ports) f d"
  unfolding vol.good_def using primary_disk [of "current_fs f"]
  by (simp add: fat_on_disk_def fat_drive_def fs_read_def fs_write_def ata_dev_def split_beta)

lemma fat_diskD:
  assumes "fat_on_disk f d"
  shows "vol.good (fat_drive f) (ata_dev pio_ports) f d" "fs_mounted f" "length (file_cluster_buf f) = 4096"
    "length (root_dir_buffer f) = 16384" "disk_ok (pio_disk d)" "vol_ok (2 ^ 28) (current_fs f)"
  using fat_disk_good [OF assms] assms by (auto simp: fat_on_disk_def dest: pio_readyD)

subsection \<open>A small volume\<close>

text \<open>Eight clusters of one sector, two copies of the table, an empty root directory.\<close>

definition sample_fs :: fat_fs where
  "sample_fs = \<lparr>fs_disk = 1, fs_partition = 0, fs_start_lba = 0, fat_start = 1, data_start = 3, root_dir_cluster = 2,
     sectors_per_fat = 1, num_fats = 2, bytes_per_sector = 512, sectors_per_cluster = 1, total_clusters = 8,
     current_dir_cluster = 2, current_path = 47 # replicate 255 0\<rparr>"

definition sample_fat :: fat32 where
  "sample_fat = fat32_boot\<lparr>current_fs := sample_fs, fs_mounted := True\<rparr>"

definition sample_volume :: pio where
  "sample_volume = sample_drive\<lparr>pio_disk := fat_put sample_fs 2 0x0FFFFFFF (\<lambda>_. replicate 512 0)\<rparr>"

lemma sample_vol: "vol_ok (2 ^ 28) sample_fs"
  by (simp add: vol_ok_def sample_fs_def)

lemma sample_zero_ok: "disk_ok (\<lambda>_. replicate 512 0)"
  by (simp add: disk_ok_def)

lemma sample_data: "data_cluster sample_fs c \<longleftrightarrow> 2 \<le> unat c \<and> unat c < 10"
  by (simp add: data_cluster_def sample_fs_def)

lemma sample_root_data: "data_cluster sample_fs 2"
  by (simp add: sample_data)

lemma sample_next:
  assumes "data_cluster sample_fs c"
  shows "fat_next sample_fs (pio_disk sample_volume) c = (if c = 2 then 0x0FFFFFFF else 0)"
proof -
  have "fat_next sample_fs (\<lambda>_. replicate 512 0) c = 0"
    using assms by (simp add: fat_next_def fat_val_def get_le32_def join32_def join16_def sample_data)
  then show ?thesis
    using fat_next_put [OF sample_vol sample_root_data assms sample_zero_ok, of "0x0FFFFFFF"]
    by (simp add: sample_volume_def)
qed

lemma sample_free: "c \<in> set (free_list sample_fs (pio_disk sample_volume)) \<longleftrightarrow> data_cluster sample_fs c \<and> c \<noteq> 2"
  using set_all_clusters [OF sample_vol] sample_next by (auto simp: free_list_def)

lemma sample_drive_of: "fat_drive sample_fat = 1"
  by (simp add: fat_drive_def sample_fat_def sample_fs_def fat32_disk_to_ata_def ATA_SLAVE_def)

text \<open>The drive with any contents.\<close>

lemma sample_on_drive: "disk_ok D \<Longrightarrow> fat_on_disk sample_fat (sample_drive\<lparr>pio_disk := D\<rparr>)"
  using pio_ready_disk [OF sample_drive_ready(1), of D] sample_vol
  by (simp add: fat_on_disk_def sample_drive_of) (simp add: sample_fat_def fat32_boot_def cache_ok_def sample_fs_def)

lemma sample_on_disk: "fat_on_disk sample_fat sample_volume"
  unfolding sample_volume_def by (rule sample_on_drive) (rule fat_put_ok [OF sample_zero_ok])

lemma sample_ready: "volume_ready sample_fs (pio_disk sample_volume)"
proof -
  have "3 \<in> set (free_list sample_fs (pio_disk sample_volume))" by (simp add: sample_free sample_data)
  then have "free_list sample_fs (pio_disk sample_volume) \<noteq> []" by auto
  moreover have "fat_closed sample_fs (pio_disk sample_volume)"
    by (simp add: fat_closed_def sample_next fat32_is_end_of_chain_def)
  ultimately show ?thesis
    using sample_root_data sample_next [OF sample_root_data] by (simp add: volume_ready_def sample_fs_def)
qed

lemma sample_root: "cluster_data sample_fs (pio_disk sample_volume) 2 = replicate 512 0"
  by (simp add: cluster_data_def cluster_sector_def sample_volume_def fat_put_def entry_sector_def image_iff)
    (simp add: sample_fs_def)

lemma sample_entry: "i < 16 \<Longrightarrow> dir_entry (replicate 512 0) i = replicate 32 0"
  by (simp add: dir_entry_def seg_def min_def)

lemma sample_writable: "dir_writable sample_fs (pio_disk sample_volume) 2 name83"
  by (simp add: dir_writable_def Let_def sample_root sample_fs_def [THEN arg_cong, of sectors_per_cluster] zero_tail_def
      sample_entry replaceable_def de_first_cluster_def get_le16_def join16_def exI [of _ 0])

text \<open>The name A.B.\<close>

definition sample_name :: bytes where
  "sample_name = [65, 46, 66]"

lemma sample_name: "plain_name sample_name" "fat32_make_name83 sample_name \<noteq> None" "hd sample_name = 65"
  by (simp_all add: sample_name_def plain_name_def fat32_make_name83_def Let_def)

lemma sample_fields: "current_fs sample_fat = sample_fs" "current_dir_cluster sample_fs = 2"
  "root_dir_cluster sample_fs = 2" "cluster_size sample_fat = 512" "num_fats sample_fs = 2"
  by (simp_all add: sample_fat_def sample_fs_def cluster_size_def)

subsection \<open>Properties\<close>

text \<open>C1: what is written to a file is what is read back. On a mounted volume with a free
  cluster, for a plain 8.3 name and 1 byte up to one cluster of data, \<open>fat32_write\<close> into the
  working directory succeeds, \<open>fat32_open\<close> then finds the file under the same name, and
  \<open>fat32_read\<close> returns the number of bytes written and exactly these bytes. The
  directory must have a slot, and the entries the search may reuse must not own the
  directory's own cluster.\<close>

theorem fat_write_then_read:
  assumes "fat_on_disk f d" "volume_ready (current_fs f) (pio_disk d)"
    and "plain_name name" "fat32_make_name83 name = Some name83" "hd name \<noteq> 0xE5"
    and "dir_writable (current_fs f) (pio_disk d) (current_dir_cluster (current_fs f)) name83"
    and "content \<noteq> []" "length content \<le> cluster_size f" "length content \<le> count"
  shows "\<exists>f1 d1 f2 d2 f3 d3.
      fat32_write (ata_dev pio_ports) (Some name) (Some content) (length content) f d = Some (0, f1, d1)
    \<and> fat32_open (ata_dev pio_ports) name f1 d1 = Some (Some (), f2, d2)
    \<and> fat32_read (ata_dev pio_ports) (Some ()) True count f2 d2 = Some (int (length content), content, f3, d3)"
  using vol.write_open_read [OF fat_diskD(1-3) [OF assms(1)] assms(2-6), of "length content" content count] assms(1,7-9)
  by simp

theorem fat_write_then_read_witness:
  "\<exists>f1 d1 f2 d2 f3 d3.
      fat32_write (ata_dev pio_ports) (Some sample_name) (Some [1, 2, 3]) 3 sample_fat sample_volume = Some (0, f1, d1)
    \<and> fat32_open (ata_dev pio_ports) sample_name f1 d1 = Some (Some (), f2, d2)
    \<and> fat32_read (ata_dev pio_ports) (Some ()) True 512 f2 d2 = Some (3, [1, 2, 3], f3, d3)"
proof -
  obtain nm where "fat32_make_name83 sample_name = Some nm" using sample_name(2) by auto
  from fat_write_then_read [OF sample_on_disk _ sample_name(1) this, of "[1, 2, 3]" 512] show ?thesis
    by (simp add: sample_fields sample_ready sample_writable sample_name numeral_3_eq_3)
qed



text \<open>C13: a write touches its own entry and its own clusters, nothing else. Writing a file of at
  most two clusters succeeds and takes one slot of the working directory: the entry of that
  name when there is one, otherwise the first free slot. The directory changes in that slot
  only, which then holds the name, the size and the new first cluster; that cluster holds the
  content up to its size and ends a chain, and it was free before or belonged to the chain the
  slot led to. No other cluster's data changes, and of the table only that cluster's entry and
  those of the chain the slot led to, which is freed.\<close>

theorem fat_write_frame:
  fixes f d
  defines "v \<equiv> current_fs f"
  defines "p \<equiv> current_dir_cluster v"
  defines "dir \<equiv> cluster_data v (pio_disk d) p"
  assumes "fat_on_disk f d" "volume_ready v (pio_disk d)"
    and "plain_name name" "fat32_make_name83 name = Some name83"
    and "dir_writable v (pio_disk d) p name83"
    and "content \<noteq> []" "length content \<le> 2 * cluster_size f"
  shows "\<exists>f' d' c s. let old = de_first_cluster (dir_entry dir s) in
      fat32_write (ata_dev pio_ports) (Some name) (Some content) (length content) f d = Some (0, f', d')
    \<and> slot_for name83 (max_entries f) dir s
    \<and> cluster_data v (pio_disk d') p = dir_put s (file_entry name83 c (length content)) dir
    \<and> data_cluster v c \<and> c \<noteq> p \<and> (fat_next v (pio_disk d) c = 0 \<or> 2 \<le> old \<and> chain_reach v (pio_disk d) old c)
    \<and> take (min (length content) (cluster_size f)) (cluster_data v (pio_disk d') c) = take (cluster_size f) content
    \<and> fat_next v (pio_disk d') c = 0x0FFFFFFF
    \<and> (\<forall>x. data_cluster v x \<and> x \<noteq> c \<longrightarrow>
        (x = p \<or> cluster_data v (pio_disk d') x = cluster_data v (pio_disk d) x)
        \<and> fat_next v (pio_disk d') x = (if 2 \<le> old \<and> chain_reach v (pio_disk d) old x then 0 else fat_next v (pio_disk d) x))"
proof -
  have n: "min (length content) (cluster_size f) \<le> length content" "0 < length content" using assms(9) by simp_all
  have t: "take (min (length content) (cluster_size f)) content = take (cluster_size f) content" by (simp add: min_def)
  note w = vol.write_ok_plain [OF fat_diskD(1-3) [OF assms(4)] assms(5) [unfolded v_def] assms(6,7)
      assms(8) [unfolded p_def v_def] n(2) assms(10) n(1), folded v_def, folded p_def, folded dir_def, unfolded t Let_def]
  then show ?thesis unfolding Let_def
    by (elim exE) (intro exI conjI allI impI; (elim conjE)?; (assumption | blast))
qed

text \<open>C14: an entry of the allocation table that was written is read back, through the cache and
  from every copy. After \<open>fat32_set_fat_entry\<close> on a data cluster \<open>fat32_next_cluster\<close> gives the
  low 28 bits of the new value for that cluster and the old one for every other; copies that
  agreed agree again, and no data changes.\<close>

theorem fat_entry_update:
  assumes "fat_on_disk f d" "data_cluster (current_fs f) c" "data_cluster (current_fs f) c'"
  shows "\<exists>f1 d1 f2 d2. fat32_set_fat_entry (ata_dev pio_ports) c x f d = (0, f1, d1) \<and> fat_on_disk f1 d1
    \<and> fat32_next_cluster (ata_dev pio_ports) c' f1 d1
        = (if c' = c then x AND 0x0FFFFFFF else fat_next (current_fs f) (pio_disk d) c', f2, d2)
    \<and> same_data (current_fs f) (pio_disk d) (pio_disk d1)
    \<and> (mirrored (current_fs f) (pio_disk d) \<longrightarrow> mirrored (current_fs f) (pio_disk d1))"
proof -
  note D = fat_diskD [OF assms(1)]
  from vol.set_ok [OF D(1) assms(2), of x] obtain f1 d1 where
    s: "fat32_set_fat_entry (ata_dev pio_ports) c x f d = (0, f1, d1)" "but_cache f f1"
    "vol.good (fat_drive f) (ata_dev pio_ports) f1 d1" "pio_disk d1 = fat_put (current_fs f) c x (pio_disk d)" by blast
  note b = but_cache_same [OF s(2)]
  have "data_cluster (current_fs f1) c'" using assms(3) b by simp
  from vol.next_ok [OF s(3) this] obtain f2 d2 where
    "fat32_next_cluster (ata_dev pio_ports) c' f1 d1 = (fat_next (current_fs f1) (pio_disk d1) c', f2, d2)" by blast
  moreover have "fat_next (current_fs f1) (pio_disk d1) c'
      = (if c' = c then x AND 0x0FFFFFFF else fat_next (current_fs f) (pio_disk d) c')"
    unfolding b(1) s(4) by (rule fat_next_put [OF D(6) assms(2,3) D(5)])
  moreover have "fat_on_disk f1 d1"
    using assms(1) b vol.goodD [OF s(3)] by (simp add: fat_on_disk_def fat_drive_def)
  ultimately show ?thesis
    using s(1,4) same_data_put [OF D(6) assms(2)] mirrored_put [OF D(6) assms(2) D(5)] by simp
qed

theorem fat_entry_update_witness:
  "\<exists>f1 d1 f2 d2. fat32_set_fat_entry (ata_dev pio_ports) 5 0xF0000006 sample_fat sample_volume = (0, f1, d1)
    \<and> fat32_next_cluster (ata_dev pio_ports) 5 f1 d1 = (6, f2, d2)"
  using fat_entry_update [OF sample_on_disk, of 5 5 "0xF0000006"] by (auto simp: sample_fields sample_data)

text \<open>C15: freeing a chain returns, and frees exactly the chain. On a table whose entries are free,
  end marks or data clusters, \<open>fat32_free_cluster_chain\<close> comes back with 0 even when the
  chain runs into itself; the clusters met from the first one are free afterwards, no other
  entry and no data changes, and the copies of the table stay equal.\<close>

theorem fat_free_returns:
  assumes "fat_on_disk f d" "fat_closed (current_fs f) (pio_disk d)" "data_cluster (current_fs f) a"
  shows "\<exists>f' d'. fat32_free_cluster_chain (ata_dev pio_ports) a f d = Some (0, f', d')
    \<and> (\<forall>c. data_cluster (current_fs f) c \<longrightarrow> fat_next (current_fs f) (pio_disk d') c =
        (if chain_reach (current_fs f) (pio_disk d) a c then 0 else fat_next (current_fs f) (pio_disk d) c))
    \<and> same_data (current_fs f) (pio_disk d) (pio_disk d')
    \<and> (mirrored (current_fs f) (pio_disk d) \<longrightarrow> mirrored (current_fs f) (pio_disk d'))"
  using vol.free_chain_ok [OF fat_diskD(1) [OF assms(1)] assms(2,3)] by blast

theorem fat_free_returns_witness:
  "\<exists>f' d'. fat32_free_cluster_chain (ata_dev pio_ports) 2 sample_fat sample_volume = Some (0, f', d')
    \<and> fat_next sample_fs (pio_disk d') 2 = 0"
  using fat_free_returns [OF sample_on_disk, of 2] sample_ready reach_start [of sample_fs "pio_disk sample_volume" 2]
  by (auto simp: sample_fields sample_data volume_ready_def)

text \<open>only half of the clusters asked for are linked. A request for \<open>n\<close> clusters, with enough
  free ones, reports success, but the chain it returns consists of the first \<open>n div 2\<close>
  rounded up: every second search finds the cluster that was linked last, which stays
  marked free until the round after.\<close>

theorem fat_allocates_half:
  assumes "fat_on_disk f d" "0 < n" "Suc n div 2 \<le> length (free_list (current_fs f) (pio_disk d))"
  shows "\<exists>f' d' c. fat32_allocate_cluster_chain (ata_dev pio_ports) n f d = (Some c, f', d')
    \<and> (\<forall>x. chain_reach (current_fs f) (pio_disk d') c x \<longleftrightarrow> x \<in> set (take (Suc n div 2) (free_list (current_fs f) (pio_disk d))))
    \<and> card {x. chain_reach (current_fs f) (pio_disk d') c x} = Suc n div 2"
proof -
  note D = fat_diskD [OF assms(1)]
  let ?v = "current_fs f" let ?ch = "take (Suc n div 2) (free_list ?v (pio_disk d))"
  from vol.alloc_ok [OF D(1) assms(2,3)] obtain f' d' where
    a: "fat32_allocate_cluster_chain (ata_dev pio_ports) n f d = (Some (hd ?ch), f', d')"
    "\<And>c. data_cluster ?v c \<Longrightarrow> fat_next ?v (pio_disk d') c =
        (if c = last ?ch then 0x0FFFFFFF else case chain_succ ?ch c of Some b \<Rightarrow> b | None \<Rightarrow> fat_next ?v (pio_disk d) c)"
    by blast
  have ne: "?ch \<noteq> []" "distinct ?ch" using assms(2,3) distinct_free_list [OF D(6)] by auto
  have mem: "data_cluster ?v x \<and> fat_next ?v (pio_disk d) x = 0" if "x \<in> set ?ch" for x
    using free_listD [OF D(6) in_set_takeD [OF that]] .
  have reach: "chain_reach ?v (pio_disk d') (hd ?ch) x \<longleftrightarrow> x \<in> set ?ch" for x
  proof (rule chain_of_list [OF ne(2,1)])
    show "fat32_is_end_of_chain (fat_next ?v (pio_disk d') (last ?ch))"
      using a(2) [of "last ?ch"] mem [OF last_in_set [OF ne(1)]] by (simp add: fat32_is_end_of_chain_def)
    show "chain_succ ?ch y = Some (fat_next ?v (pio_disk d') y)" if "y \<in> set ?ch" "y \<noteq> last ?ch" for y
      using a(2) [of y] mem [OF that(1)] chain_succ_inner [OF ne(2) that] that(2) by (auto split: option.splits)
  qed (use mem data_cluster_mask [OF D(6)] in blast)
  moreover have "card (set ?ch) = Suc n div 2" using distinct_card [OF ne(2)] assms(3) by simp
  moreover have "{x. chain_reach ?v (pio_disk d') (hd ?ch) x} = set ?ch" using reach by blast
  ultimately show ?thesis using a(1) by (intro exI [of _ f'] exI [of _ d'] exI [of _ "hd ?ch"]) simp
qed

theorem fat_allocates_half_witness:
  "\<exists>f' d' c. fat32_allocate_cluster_chain (ata_dev pio_ports) 4 sample_fat sample_volume = (Some c, f', d')
    \<and> card {x. chain_reach sample_fs (pio_disk d') c x} = 2"
proof -
  have "{3, 4} \<subseteq> set (free_list sample_fs (pio_disk sample_volume))" by (simp add: sample_free sample_data)
  from card_mono [OF _ this] have "2 \<le> length (free_list sample_fs (pio_disk sample_volume))"
    using card_length [of "free_list sample_fs (pio_disk sample_volume)"] by simp
  with fat_allocates_half [OF sample_on_disk, of 4] show ?thesis
    by (simp add: sample_fields) blast
qed

text \<open>C23: a deleted file is gone, and nothing else is. If the working directory is the root and
  the name occurs there once, \<open>fat32_delete\<close> succeeds, \<open>fat32_open\<close> no longer finds the name, only
  the entry of the file changes in the directory, the data of every other cluster stays,
  and of the table exactly the entries on the file's chain become free.\<close>

theorem fat_delete_then_open:
  fixes f d i
  defines "v \<equiv> current_fs f"
  defines "p \<equiv> root_dir_cluster v"
  defines "first \<equiv> de_first_cluster (dir_entry (cluster_data v (pio_disk d) p) i)"
  assumes "fat_on_disk f d" "current_dir_cluster v = p" "data_cluster v p" "fat_closed v (pio_disk d)"
    and "plain_name name" "fat32_make_name83 name = Some name83"
    and "dir_once name83 i (max_entries f) (cluster_data v (pio_disk d) p)" "first < 2 \<or> data_cluster v first"
  shows "\<exists>f1 d1 f2 d2. fat32_delete (ata_dev pio_ports) (Some name) f d = Some (0, f1, d1)
    \<and> fat32_open (ata_dev pio_ports) name f1 d1 = Some (None, f2, d2)
    \<and> (\<forall>x. data_cluster v x \<longrightarrow>
        cluster_data v (pio_disk d1) x =
          (if x = p then dir_put i (deleted_entry (dir_entry (cluster_data v (pio_disk d) p) i)) (cluster_data v (pio_disk d) p)
           else cluster_data v (pio_disk d) x)
        \<and> fat_next v (pio_disk d1) x = (if 2 \<le> first \<and> chain_reach v (pio_disk d) first x then 0 else fat_next v (pio_disk d) x))"
proof -
  note D = fat_diskD [OF assms(4)]
  let ?b = "cluster_data v (pio_disk d) p"
  have n: "hd name \<noteq> 47" "name \<noteq> []" using assms(8) by (auto simp: plain_name_def)
  have s: "dir_search (\<lambda>e. de_name e = name83) ?b 0 (max_entries f) = Some (Some i)"
    using assms(10) by (simp add: dir_once_def)
  note vol.delete_ok [OF D(1,2,4) n assms(9), folded v_def, folded p_def, OF assms(6,7) s]
  from this [folded first_def, OF assms(11)] obtain f1 d1 where
    r: "fat32_delete (ata_dev pio_ports) (Some name) f d = Some (0, f1, d1)" "keeps f f1"
    "vol.good (fat_drive f) (ata_dev pio_ports) f1 d1"
    "\<forall>x. data_cluster v x \<longrightarrow>
        cluster_data v (pio_disk d1) x = (if x = p then dir_put i (deleted_entry (dir_entry ?b i)) ?b else cluster_data v (pio_disk d) x)
        \<and> fat_next v (pio_disk d1) x = (if 2 \<le> first \<and> chain_reach v (pio_disk d) first x then 0 else fat_next v (pio_disk d) x)"
    by blast
  have k: "current_fs f1 = v" "fs_mounted f1" "max_entries f1 = max_entries f"
    using r(2) D(2) keeps_sizes [OF r(2)] by (auto simp: keeps_def v_def)
  have lb: "length ?b = max_entries f * 32"
    using D(5) entries_fit [of f] by (simp add: cluster_size_def v_def)
  have "i * 32 + 32 \<le> length ?b" using dir_search_Some [OF s] by simp
  then have "length (dir_entry ?b i) = 32" by (rule length_dir_entry)
  from lacks_search [OF once_deleted [OF assms(10) lb this]] lb
  have s1: "dir_search (\<lambda>e. de_name e = name83) (cluster_data (current_fs f1) (pio_disk d1) (current_dir_cluster (current_fs f1)))
      0 (max_entries f1) = Some None"
    using r(4) assms(5,6) k \<open>i * 32 + 32 \<le> length ?b\<close> by simp
  have c1: "data_cluster (current_fs f1) (current_dir_cluster (current_fs f1))" using assms(5,6) k(1) by simp
  from vol.open_result [OF r(3) k(2) c1 n(2,1) assms(9) s1] obtain d2 where
    "fat32_open (ata_dev pio_ports) name f1 d1 = Some (None, f1, d2)" by auto
  with r(1,4) show ?thesis by blast
qed

text \<open>The small volume with a file A.B of one cluster.\<close>

definition sample_name83 :: bytes where
  "sample_name83 = [65, 32, 32, 32, 32, 32, 32, 32, 66, 32, 32]"

definition sample_dir :: bytes where
  "sample_dir = dir_put 0 (file_entry sample_name83 3 5) (replicate 512 0)"

definition sample_with_file :: pio where
  "sample_with_file = sample_drive\<lparr>pio_disk :=
     put_cluster sample_fs 2 sample_dir (fat_put sample_fs 3 0x0FFFFFFF (pio_disk sample_volume))\<rparr>"

lemma sample_name83: "fat32_make_name83 sample_name = Some sample_name83"
  by code_simp

lemma sample_dir_data: "cluster_data sample_fs (pio_disk sample_with_file) 2 = sample_dir"
  using cluster_data_put [OF sample_root_data sample_root_data, of sample_dir]
  by (simp add: sample_with_file_def) (simp add: sample_fs_def sample_dir_def)

lemma sample_volume_ok: "disk_ok (pio_disk sample_volume)"
  using fat_put_ok [OF sample_zero_ok] by (simp add: sample_volume_def)

lemma sample_file_next:
  assumes "data_cluster sample_fs c"
  shows "fat_next sample_fs (pio_disk sample_with_file) c = (if c = 2 \<or> c = 3 then 0x0FFFFFFF else 0)"
proof -
  have c: "data_cluster sample_fs 3" by (simp add: sample_data)
  have "fat_next sample_fs (pio_disk sample_with_file) c
      = fat_next sample_fs (fat_put sample_fs 3 0x0FFFFFFF (pio_disk sample_volume)) c"
    using fat_next_put_cluster [OF sample_vol assms] by (simp add: sample_with_file_def)
  also have "\<dots> = (if c = 3 then 0x0FFFFFFF AND 0x0FFFFFFF else fat_next sample_fs (pio_disk sample_volume) c)"
    by (rule fat_next_put [OF sample_vol c assms sample_volume_ok])
  finally show ?thesis using sample_next [OF assms] by (cases "c = 2") simp_all
qed

lemma sample_file_on_disk: "fat_on_disk sample_fat sample_with_file"
proof -
  show ?thesis unfolding sample_with_file_def put_cluster_def
    by (rule sample_on_drive) (intro disk_put_ok fat_put_ok sample_volume_ok, simp add: sample_fs_def sample_dir_def)
qed

lemma sample_once: "dir_once sample_name83 0 16 sample_dir"
proof -
  have e: "length (file_entry sample_name83 3 5) = 32" "length sample_name83 = 11" by (simp_all add: sample_name83_def)
  have h: "hd sample_name83 \<noteq> 0" "hd sample_name83 \<noteq> 0xE5" by (simp_all add: sample_name83_def)
  have "dir_entry sample_dir k = replicate 32 0" if "k < 16" "k \<noteq> 0" for k
    using that e(1) by (simp add: sample_dir_def dir_entry_put_other sample_entry)
  moreover have "dir_search (\<lambda>e. de_name e = sample_name83) sample_dir 0 16 = Some (Some 0)"
    by (rule dir_search_found) (use e file_entry_live [OF e(2) h] file_entry_fields [OF e(2)] in \<open>simp_all add: sample_dir_def\<close>)
  ultimately show ?thesis by (simp add: dir_once_def)
qed

lemma sample_dir_entry:
  assumes "k < 16"
  shows "dir_entry sample_dir k = (if k = 0 then file_entry sample_name83 3 5 else replicate 32 0)"
  using assms by (simp add: sample_dir_def dir_entry_put_other sample_entry sample_name83_def)

lemma sample_file_writable:
  "dir_writable sample_fs (pio_disk sample_with_file) 2 sample_name83" "volume_ready sample_fs (pio_disk sample_with_file)"
proof -
  have n: "unat (sectors_per_cluster sample_fs) * 16 = 16" by (simp add: sample_fs_def)
  have e: "length sample_name83 = 11" by (simp add: sample_name83_def)
  note fe = file_entry_fields [OF e, of 3 5] file_entry_live [OF e, of 3 5]
  have live: "file_entry sample_name83 3 5 ! 0 \<noteq> 0" by (rule file_entry_live [OF e]) (simp_all add: sample_name83_def)
  have x: "dir_entry sample_dir k ! 0 = 0 \<longleftrightarrow> k \<noteq> 0" if "k < 16" for k using live that by (simp add: sample_dir_entry)
  have "zero_tail sample_dir 16" using x by (auto simp: zero_tail_def)
  moreover have "\<not> chain_reach sample_fs (pio_disk sample_with_file) 3 2"
    using reach_stop [of sample_fs "pio_disk sample_with_file" 3 2] sample_file_next [of 3]
    by (auto simp: sample_data fat32_is_end_of_chain_def)
  moreover have "de_first_cluster (replicate 32 0) < 2" by (simp add: de_first_cluster_def get_le16_def join16_def)
  ultimately show "dir_writable sample_fs (pio_disk sample_with_file) 2 sample_name83"
    using fe(3-) by (auto simp: dir_writable_def Let_def n sample_dir_data sample_dir_entry sample_data replaceable_def fe intro: exI [of _ 0])
  have "3 \<in> set (free_list sample_fs (pio_disk sample_with_file)) \<or> 4 \<in> set (free_list sample_fs (pio_disk sample_with_file))"
    using set_all_clusters [OF sample_vol] sample_file_next by (auto simp: free_list_def sample_data)
  then have "free_list sample_fs (pio_disk sample_with_file) \<noteq> []" by auto
  moreover have "fat_closed sample_fs (pio_disk sample_with_file)"
    by (simp add: fat_closed_def sample_file_next fat32_is_end_of_chain_def)
  ultimately show "volume_ready sample_fs (pio_disk sample_with_file)"
    using sample_root_data sample_file_next [OF sample_root_data] by (simp add: volume_ready_def sample_fields)
qed

theorem fat_write_frame_witness:
  "\<exists>f' d' c. fat32_write (ata_dev pio_ports) (Some sample_name) (Some [1, 2, 3]) 3 sample_fat sample_with_file = Some (0, f', d')
    \<and> cluster_data sample_fs (pio_disk d') 2 = dir_put 0 (file_entry sample_name83 c 3) sample_dir
    \<and> take 3 (cluster_data sample_fs (pio_disk d') c) = [1, 2, 3]"
proof -
  have m: "max_entries sample_fat = 16" by (simp add: max_entries_def sample_fields) (simp add: sample_fs_def)
  have s: "slot_for sample_name83 16 sample_dir s \<Longrightarrow> s = 0" for s
    using sample_once by (simp add: slot_for_def dir_once_def)
  from fat_write_frame [OF sample_file_on_disk _ sample_name(1) sample_name83, of "[1, 2, 3]"]
  obtain f' d' c s where r:
    "fat32_write (ata_dev pio_ports) (Some sample_name) (Some [1, 2, 3]) 3 sample_fat sample_with_file = Some (0, f', d')"
    "slot_for sample_name83 16 sample_dir s"
    "cluster_data sample_fs (pio_disk d') 2 = dir_put s (file_entry sample_name83 c 3) sample_dir"
    "take 3 (cluster_data sample_fs (pio_disk d') c) = [1, 2, 3]"
    by (auto simp: sample_fields sample_file_writable sample_dir_data m Let_def numeral_3_eq_3)
  with s [OF r(2)] show ?thesis by blast
qed

text \<open>The small volume with a file A.B of given content in cluster 3.\<close>

definition sample_holding :: "bytes \<Rightarrow> pio" where
  "sample_holding c = sample_drive\<lparr>pio_disk :=
     put_cluster sample_fs 3 (blit 0 c (replicate 512 0))
       (put_cluster sample_fs 2 (dir_put 0 (file_entry sample_name83 3 (length c)) (replicate 512 0))
         (fat_put sample_fs 3 0x0FFFFFFF (pio_disk sample_volume)))\<rparr>"

theorem fat_delete_then_open_witness:
  "\<exists>f1 d1 f2 d2. fat32_delete (ata_dev pio_ports) (Some sample_name) sample_fat sample_with_file = Some (0, f1, d1)
    \<and> fat32_open (ata_dev pio_ports) sample_name f1 d1 = Some (None, f2, d2) \<and> fat_next sample_fs (pio_disk d1) 3 = 0"
proof -
  have e: "dir_entry sample_dir 0 = file_entry sample_name83 3 5" by (simp add: sample_dir_def)
  have f: "de_first_cluster (file_entry sample_name83 3 5) = 3" by (simp add: file_entry_fields sample_name83_def)
  have m: "max_entries sample_fat = 16" by (simp add: max_entries_def sample_fields) (simp add: sample_fs_def)
  have "fat_closed sample_fs (pio_disk sample_with_file)"
    by (simp add: fat_closed_def sample_file_next fat32_is_end_of_chain_def)
  with fat_delete_then_open [OF sample_file_on_disk _ _ _ sample_name(1) sample_name83, of 0]
    reach_start [of sample_fs "pio_disk sample_with_file" 3]
  show ?thesis by (auto simp: sample_fields sample_dir_data sample_once sample_root_data e f m sample_data)
qed

lemma sample_spc: "unat (sectors_per_cluster sample_fs) = 1"
  by (simp add: sample_fs_def)

lemma sample_holding_data:
  assumes "length c \<le> 512"
  shows "cluster_data sample_fs (pio_disk (sample_holding c)) 3 = blit 0 c (replicate 512 0)"
    "cluster_data sample_fs (pio_disk (sample_holding c)) 2 = dir_put 0 (file_entry sample_name83 3 (length c)) (replicate 512 0)"
  using cluster_data_put [of sample_fs 3 3 "blit 0 c (replicate 512 0)"] cluster_data_put [of sample_fs 3 2 "blit 0 c (replicate 512 0)"]
    cluster_data_put [of sample_fs 2 2 "dir_put 0 (file_entry sample_name83 3 (length c)) (replicate 512 0)"]
  by (simp_all add: sample_holding_def sample_data sample_spc)

lemma sample_holding_next: "fat_next sample_fs (pio_disk (sample_holding c)) 3 = 0x0FFFFFFF"
proof -
  have d: "data_cluster sample_fs 3" by (simp add: sample_data)
  have "fat_next sample_fs (pio_disk (sample_holding c)) 3 = fat_next sample_fs (fat_put sample_fs 3 0x0FFFFFFF (pio_disk sample_volume)) 3"
    using fat_next_put_cluster [OF sample_vol d] by (simp add: sample_holding_def)
  also have "\<dots> = 0x0FFFFFFF" using fat_next_put [OF sample_vol d d sample_volume_ok, of "0x0FFFFFFF"] by simp
  finally show ?thesis .
qed

lemma sample_holding_on_disk: "fat_on_disk sample_fat (sample_holding c)"
proof -
  show ?thesis unfolding sample_holding_def put_cluster_def sample_spc
    by (rule sample_on_drive) (intro disk_put_ok fat_put_ok sample_volume_ok; simp)
qed

lemma sample_holds:
  assumes "length c \<le> 512"
  shows "holds_file sample_name [3] c sample_fat (pio_disk (sample_holding c))"
proof -
  let ?e = "file_entry sample_name83 3 (length c)"
  have n: "length sample_name83 = 11" "hd sample_name83 \<noteq> 0" "hd sample_name83 \<noteq> 0xE5" by (simp_all add: sample_name83_def)
  have m: "max_entries sample_fat = 16" by (simp add: max_entries_def sample_fields sample_spc)
  have path: "path_name sample_name = sample_name" "path_dir sample_fs sample_name = 2"
    by (simp_all add: path_name_def path_dir_def sample_name sample_fields)
  have "dir_search (\<lambda>e. de_name e = sample_name83) (dir_put 0 ?e (replicate 512 0)) 0 16 = Some (Some 0)"
    by (rule dir_search_found) (use file_entry_live [OF n] file_entry_fields [OF n(1)] in simp_all)
  moreover have "length c < 2 ^ 32" using assms by simp
  moreover have "c = take (length c) (blit 0 c (replicate 512 0))" using assms by (simp add: blit_def)
  moreover have "fat32_is_end_of_chain 0x0FFFFFFF" by (simp add: fat32_is_end_of_chain_def)
  moreover have "sample_name \<noteq> []" by (simp add: sample_name_def)
  ultimately show ?thesis
    using assms sample_holding_next
    by (simp add: holds_file_def Let_def sample_fields path sample_root_data sample_name83 m sample_holding_data
        file_entry_fields [OF n(1)] chain_links_def sample_data chain_data_def unat_of_nat ATTR_ARCHIVE_def ATTR_DIRECTORY_def)
qed

text \<open>A series of reads, and what they deliver.\<close>

fun read_series :: "'w blkdev \<Rightarrow> nat list \<Rightarrow> fat32 \<Rightarrow> 'w \<Rightarrow> (bytes list \<times> fat32 \<times> 'w) option" where
  "read_series dev [] f w = Some ([], f, w)"
| "read_series dev (n # ns) f w = do {
     (r, bs, f, w) \<leftarrow> fat32_read dev (Some ()) True n f w;
     if r \<noteq> int (length bs) then None
     else do { (bss, f, w) \<leftarrow> read_series dev ns f w; Some (bs # bss, f, w) } }"

lemma read_series_ok:
  assumes "vol.good drive dev f w" "fs_mounted f" "length (file_cluster_buf f) = 4096" "file_at f (pio_disk w) ch c p"
  shows "\<exists>bss f' w'. read_series dev ns f w = Some (bss, f', w') \<and> concat bss = seg p (sum_list ns) c \<and> pio_disk w' = pio_disk w"
  using assms
proof (induction ns arbitrary: f w p)
  case Nil
  then show ?case by (simp add: seg_def)
next
  case (Cons n ns)
  let ?k = "min n (length c - p)"
  have p: "p \<le> length c" using Cons.prems(4) by (simp add: file_at_def)
  from vol.read_file_ok [OF Cons.prems, of n] obtain f1 w1 where
    r: "fat32_read dev (Some ()) True n f w = Some (int ?k, seg p ?k c, f1, w1)" "vol.good drive dev f1 w1" "pio_disk w1 = pio_disk w"
    "keeps f f1" "file_at f1 (pio_disk w) ch c (p + ?k)" by blast
  have k: "fs_mounted f1" "length (file_cluster_buf f1) = 4096" using r(4) Cons.prems(2,3) by (simp_all add: keeps_def)
  have "file_at f1 (pio_disk w1) ch c (p + ?k)" using r(3,5) by simp
  from Cons.IH [OF r(2) k this] obtain bss f' w' where
    s: "read_series dev ns f1 w1 = Some (bss, f', w')" "concat bss = seg (p + ?k) (sum_list ns) c" "pio_disk w' = pio_disk w1" by blast
  have "length (seg p ?k c) = ?k" using p by (intro seg_exact) simp
  moreover have "seg p ?k c @ seg (p + ?k) (sum_list ns) c = seg p (n + sum_list ns) c"
  proof (cases "n \<le> length c - p")
    case True
    then show ?thesis using seg_append [of p n c "sum_list ns"] by simp
  next
    case False
    then have "?k = length c - p" by simp
    with p False show ?thesis by (simp add: seg_def)
  qed
  ultimately show ?case using r(1,3) s by simp
qed

text \<open>C3: a file on disk is read as the sequence of its bytes. If a path names a file whose
  clusters, cut to its size, hold the content \<open>c\<close>, then \<open>fat32_open\<close> finds it, and reads of any
  sizes deliver, one after the other, exactly the bytes of \<open>c\<close> until it ends, across cluster
  borders and without changing the disk; each returns the number of bytes it stored.\<close>

theorem fat_reads_content:
  assumes "fat_on_disk f d" "holds_file path ch c f (pio_disk d)"
  shows "\<exists>f1 d1 bss f2 d2. fat32_open (ata_dev pio_ports) path f d = Some (Some (), f1, d1)
    \<and> read_series (ata_dev pio_ports) ns f1 d1 = Some (bss, f2, d2)
    \<and> concat bss = take (sum_list ns) c \<and> pio_disk d2 = pio_disk d"
proof -
  note D = fat_diskD [OF assms(1)]
  from vol.open_holds [OF D(1,2) assms(2)] obtain f1 d1 where
    o: "fat32_open (ata_dev pio_ports) path f d = Some (Some (), f1, d1)" "vol.good (fat_drive f) (ata_dev pio_ports) f1 d1"
    "pio_disk d1 = pio_disk d" "keeps f f1" "file_at f1 (pio_disk d) ch c 0" by blast
  have k: "fs_mounted f1" "length (file_cluster_buf f1) = 4096" using o(4) D(2,3) by (simp_all add: keeps_def)
  have "file_at f1 (pio_disk d1) ch c 0" using o(3,5) by simp
  from read_series_ok [OF o(2) k this, of ns] o(1,3) show ?thesis by (auto simp: seg_def)
qed

theorem fat_reads_content_witness:
  "\<exists>f1 d1 bss f2 d2. fat32_open (ata_dev pio_ports) sample_name sample_fat (sample_holding [1, 2, 3]) = Some (Some (), f1, d1)
    \<and> read_series (ata_dev pio_ports) [2, 0, 5] f1 d1 = Some (bss, f2, d2) \<and> concat bss = [1, 2, 3]"
  using fat_reads_content [OF sample_holding_on_disk sample_holds, of "[1, 2, 3]" "[2, 0, 5]"] by fastforce

end
