(* ===== verification/Fat_Mount.thy ===== *)
theory Fat_Mount
  imports Fat_File
begin

text \<open>Mounting a second volume, and the string that tracks the working directory.\<close>

subsection \<open>The path string\<close>

lemma append_name_fits: "length s + length cs \<le> 255 \<Longrightarrow> append_name cs s = s @ cs"
  by (induction cs arbitrary: s) auto

lemma last_slash_stops:
  assumes "k \<le> n" "(s @ [0]) ! k = 47" "\<And>j. k < j \<Longrightarrow> j \<le> n \<Longrightarrow> (s @ [0]) ! j \<noteq> 47"
  shows "last_slash s n = k"
  using assms(1,3)
proof (induction n)
  case (Suc n)
  show ?case
  proof (cases "k = Suc n")
    case False
    with Suc.prems have "k \<le> n" by simp
    from Suc.IH [OF this] Suc.prems have "last_slash s n = k" by simp
    with Suc.prems(2) [of "Suc n"] False Suc.prems(1) show ?thesis by simp
  qed (use assms(2) in simp)
qed simp

lemma path_up_component:
  assumes "name \<noteq> []" "47 \<notin> set name"
  shows "path_up (pre @ 47 # name) = (if pre = [] then [47] else pre)"
proof -
  let ?s = "pre @ 47 # name"
  have l: "?s ! (length ?s - 1) \<noteq> 47"
    using assms by (metis last_appendR last_conv_nth last_in_set list.distinct(1) last.simps append_is_Nil_conv)
  have "last_slash ?s (length ?s) = length pre"
  proof (rule last_slash_stops)
    fix j assume j: "length pre < j" "j \<le> length ?s"
    then obtain i where i: "j = length pre + Suc i" by (metis less_imp_Suc_add add_Suc_right)
    with j have "(?s @ [0]) ! j = (name @ [0]) ! i" by (simp add: nth_append)
    also have "\<dots> \<noteq> 47"
    proof (cases "i < length name")
      case True
      with assms(2) have "name ! i \<noteq> 47" by (metis nth_mem)
      with True show ?thesis by (simp add: nth_append)
    qed (use i j in \<open>simp add: nth_append\<close>)
    finally show "(?s @ [0]) ! j \<noteq> 47" .
  qed (simp_all add: nth_append)
  with l show ?thesis by (simp add: path_up_def Let_def)
qed

text \<open>A path as the driver keeps it: the root, or components without a slash at the end.\<close>

definition tracked_path :: "bytes \<Rightarrow> bool" where
  "tracked_path s \<longleftrightarrow> 0 \<notin> set s \<and> (s = [47] \<or> 1 < length s \<and> last s \<noteq> 47)"

lemma path_append_component:
  assumes "tracked_path s" "length s + 1 + length name \<le> 255"
  shows "path_append s name = (if s = [47] then [] else s) @ 47 # name"
proof (cases "s = [47]")
  case True
  with assms(2) show ?thesis by (simp add: path_append_def append_name_fits)
next
  case False
  with assms(1) have s: "1 < length s" "s ! (length s - 1) \<noteq> 47"
    using last_conv_nth [of s] by (fastforce simp: tracked_path_def)+
  then have "path_append s name = append_name name (s @ [47])" by (simp add: path_append_def)
  with assms(2) False show ?thesis by (simp add: append_name_fits)
qed

lemma c_str_stored: "length s < length b \<Longrightarrow> 0 \<notin> set s \<Longrightarrow> c_str (blit 0 (s @ [0]) b) = s"
proof -
  assume a: "length s < length b" "0 \<notin> set s"
  then have "blit 0 (s @ [0]) b = s @ 0 # drop (Suc (length s)) b" by (simp add: blit_def)
  moreover have "\<forall>x \<in> set s. x \<noteq> 0" using a(2) by metis
  ultimately show ?thesis by (simp add: c_str_def takeWhile_tail)
qed

lemma set_path_stores:
  "length s \<le> 255 \<Longrightarrow> 0 \<notin> set s \<Longrightarrow> length (current_path v) = 256 \<Longrightarrow>
    \<exists>v'. set_path s v = Some v' \<and> c_str (current_path v') = s \<and> length (current_path v') = 256"
  by (auto simp: set_path_def c_str_stored)

subsection \<open>Properties\<close>

text \<open>going into a directory and back up restores the tracked path. From any path the driver
  keeps, appending a component and then taking the path one level up, each stored in the
  256-byte buffer as \<open>fat32_chdir\<close> does, gives the path from before, as long as it all fits
  255 characters.\<close>

theorem chdir_path_round_trip:
  assumes "length (current_path v) = 256" "tracked_path s" "name \<noteq> []" "0 \<notin> set name" "47 \<notin> set name"
    and "length s + 1 + length name \<le> 255"
  shows "\<exists>v1 v2. set_path (path_append s name) v = Some v1 \<and> tracked_path (c_str (current_path v1))
    \<and> set_path (path_up (c_str (current_path v1))) v1 = Some v2 \<and> c_str (current_path v2) = s"
proof -
  let ?pre = "if s = [47] then [] else s"
  have s0: "0 \<notin> set s" "s \<noteq> []" using assms(2) by (auto simp: tracked_path_def)
  have app: "path_append s name = ?pre @ 47 # name" by (rule path_append_component [OF assms(2,6)])
  have len: "length (?pre @ 47 # name) \<le> 255" "0 \<notin> set (?pre @ 47 # name)" using assms(4,6) s0(1) by auto
  from set_path_stores [OF len assms(1)] obtain v1 where
    v1: "set_path (?pre @ 47 # name) v = Some v1" "c_str (current_path v1) = ?pre @ 47 # name" "length (current_path v1) = 256"
    by blast
  have up: "path_up (?pre @ 47 # name) = s" using path_up_component [OF assms(3,5), of ?pre] s0(2) by auto
  have "length s \<le> 255" using assms(6) by simp
  from set_path_stores [OF this s0(1) v1(3)] obtain v2 where
    v2: "set_path s v1 = Some v2" "c_str (current_path v2) = s" by blast
  have "last name \<noteq> 47" using assms(3,5) by (metis last_in_set)
  then have "last (?pre @ 47 # name) \<noteq> 47" using assms(3) by simp
  then have "tracked_path (?pre @ 47 # name)" using len(2) assms(3) by (auto simp: tracked_path_def)
  with v1 v2 up app show ?thesis by auto
qed

theorem chdir_path_round_trip_witness:
  "\<exists>v1 v2. set_path (path_append [47, 65] [66, 67]) (current_fs fat32_boot) = Some v1
    \<and> set_path (path_up (c_str (current_path v1))) v1 = Some v2 \<and> c_str (current_path v2) = [47, 65]"
  using chdir_path_round_trip [of "current_fs fat32_boot" "[47, 65]" "[66, 67]"]
  by (auto simp: tracked_path_def fat32_boot_def)

text \<open>a mount does not drop the cached sector of the allocation table. If the table of the
  newly mounted volume has an entry in the sector of that number, the first look-up of the
  entry does not touch the new disk and answers from the sector of the volume mounted
  before.\<close>

theorem fat_mount_keeps_cache:
  assumes "fat32_mount dev disk part t f w = Some (0, f1, w1)"
    and "fat_start (current_fs f1) + c * 4 div 512 = fat_cache_sector f"
  shows "fat32_next_cluster dev c f1 w1 = (get_le32 (fat_sector_cache f) (unat (c * 4 mod 512)) AND 0x0FFFFFFF, f1, w1)"
proof -
  from assms(1) have "fat_cache_sector f1 = fat_cache_sector f" "fat_sector_cache f1 = fat_sector_cache f"
    by (auto simp: fat32_mount_def Let_def split: option.splits prod.splits if_splits)
  with assms(2) show ?thesis by (simp add: fat32_next_cluster_def Let_def)
qed

text \<open>A drive of one sector that is the boot sector of the volume at 99.\<close>

definition boot_dev :: "bytes blkdev" where
  "boot_dev = \<lparr>blk_read = (\<lambda>c d l n w. if l = 99 then (1, w, w) else (-1, [], w)),
     blk_write = (\<lambda>c d l n bs w. (-1, w))\<rparr>"

definition tiny_boot :: bytes where
  "tiny_boot = replicate 13 0 @ [1, 1, 0] @ replicate 494 0 @ [0x55, 0xAA]"

definition stale_fat :: fat32 where
  "stale_fat = fat32_boot\<lparr>fat_cache_sector := 100, fat_sector_cache := replicate 20 0 @ [9] @ replicate 491 0\<rparr>"

definition tiny_table :: part_table where
  "tiny_table = \<lparr>partitions = [\<lparr>start_lba = 99, size_sectors = 100, part_type = 0x0C, bootable = 0,
     part_disk = 1, partition_index = 0\<rparr>], partition_count = 1\<rparr>"

lemma tiny_mounts:
  "\<exists>f1. fat32_mount boot_dev 1 0 tiny_table stale_fat tiny_boot = Some (0, f1, tiny_boot) \<and> fat_start (current_fs f1) = 100"
proof -
  have "get_le16 tiny_boot 510 = 0xAA55" "boot_sectors_per_cluster (boot_fields tiny_boot) = 1"
    "boot_reserved_sectors (boot_fields tiny_boot) = 1"
    by (simp_all add: tiny_boot_def get_le16_def boot_fields_def nth_append join16_def)
  then show ?thesis
    by (simp add: fat32_mount_def partition_get_info_def tiny_table_def PART_TYPE_FAT32_def PART_TYPE_FAT32_LBA_def
        fat32_disk_to_ata_def boot_dev_def boot_fs_def Let_def)
qed

theorem fat_mount_keeps_cache_witness:
  "\<exists>f1. fat32_mount boot_dev 1 0 tiny_table stale_fat tiny_boot = Some (0, f1, tiny_boot)
    \<and> fat32_next_cluster boot_dev 5 f1 tiny_boot = (9, f1, tiny_boot)"
proof -
  from tiny_mounts obtain f1 where
    m: "fat32_mount boot_dev 1 0 tiny_table stale_fat tiny_boot = Some (0, f1, tiny_boot)" "fat_start (current_fs f1) = 100" by blast
  have "get_le32 (fat_sector_cache stale_fat) 20 = 9"
    by (simp add: stale_fat_def get_le32_def join32_def nth_append)
  with fat_mount_keeps_cache [OF m(1), of 5] m show ?thesis by (auto simp: stale_fat_def)
qed

end
