(* ===== verification/Interrupts.thy ===== *)
theory Interrupts
  imports Scheduler Serial Keyboard
begin

text \<open>
  Interrupts (\<open>idt.c\<close>), the timer (\<open>drivers/timer/pit.c\<close>) and system calls
  (\<open>arch/syscall.c\<close>), over the scheduler, the serial driver and the keyboard they call. The
  functions the code registers as handlers are the constructors of \<open>isr\<close>; the addresses of
  the assembly stubs and of the table are link-time constants, parameters here. A tick inside
  a handler may move the CPU to another task: the handler's outcome is then \<open>Switched\<close>, and
  what is left of it runs when the task is resumed. Debug messages are left out; what
  system calls and fault handlers print is recorded in \<open>printed\<close>.
\<close>

record idt_entry =
  offset_low :: u16
  gate_selector :: u16
  gate_ist :: u8
  gate_flags :: u8
  offset_mid :: u16
  offset_high :: u32
  gate_zero :: u32

record registers =
  regs_r15 :: u64
  regs_r14 :: u64
  regs_r13 :: u64
  regs_r12 :: u64
  regs_r11 :: u64
  regs_r10 :: u64
  regs_r9 :: u64
  regs_r8 :: u64
  regs_rbp :: u64
  regs_rdi :: u64
  regs_rsi :: u64
  regs_rdx :: u64
  regs_rcx :: u64
  regs_rbx :: u64
  regs_rax :: u64
  int_no :: u64
  err_code :: u64
  regs_rip :: u64
  regs_cs :: u64
  regs_rflags :: u64
  regs_rsp :: u64
  regs_ss :: u64

datatype isr = Page_Fault_Handler | Gp_Fault_Handler | Pit_Irq_Handler | Keyboard_Callback | Syscall_Handler

datatype message =
    Print_String u64
  | Print_Exit int
  | Print_Unknown_Syscall int
  | Print_Page_Fault u64 u64 "u64 list" "u64 list"
  | Print_Gp_Fault u64 "u64 list"

record kernel =
  idt :: "idt_entry list"
  idtr_limit :: u16
  idtr_base :: u64
  idt_loaded :: bool
  interrupt_handlers :: "isr option list"
  pit_ticks :: u64
  pit_frequency :: u32
  k_sched :: sched
  k_serial :: serial
  k_kbd :: kbd
  cr2 :: u64
  printed :: "message list"

datatype outcome = Returned | Switched | Halted

subsection \<open>The descriptor table\<close>

definition set_idt_gate :: "nat \<Rightarrow> u64 \<Rightarrow> idt_entry list \<Rightarrow> idt_entry list" where
  "set_idt_gate n addr t =
     t[n := \<lparr>offset_low = ucast (addr AND 0xFFFF), gate_selector = 0x08, gate_ist = 0, gate_flags = 0x8E,
             offset_mid = ucast (drop_bit 16 addr AND 0xFFFF), offset_high = ucast (drop_bit 32 addr AND 0xFFFFFFFF),
             gate_zero = 0\<rparr>]"

definition set_idt_gate_user :: "nat \<Rightarrow> u64 \<Rightarrow> idt_entry list \<Rightarrow> idt_entry list" where
  "set_idt_gate_user n addr t =
     t[n := \<lparr>offset_low = ucast (addr AND 0xFFFF), gate_selector = 0x08, gate_ist = 0, gate_flags = 0xEE,
             offset_mid = ucast (drop_bit 16 addr AND 0xFFFF), offset_high = ucast (drop_bit 32 addr AND 0xFFFFFFFF),
             gate_zero = 0\<rparr>]"

definition register_interrupt_handler :: "u8 \<Rightarrow> isr \<Rightarrow> kernel \<Rightarrow> kernel" where
  "register_interrupt_handler n h k = k\<lparr>interrupt_handlers := (interrupt_handlers k)[unat n := Some h]\<rparr>"

text \<open>Each write to the interrupt controller is followed by a write to the unused port 0x80.\<close>

definition pic_writes :: "(u16 \<times> u8) list \<Rightarrow> (u16 \<times> u8) list" where
  "pic_writes ws = concat (map (\<lambda>pv. [pv, (0x80, 0)]) ws)"

definition pic_setup :: "(u16 \<times> u8) list" where
  "pic_setup = pic_writes
     [(0x20, 0x11), (0xA0, 0x11), (0x21, 0x20), (0xA1, 0x28), (0x21, 0x04), (0xA1, 0x02), (0x21, 0x01), (0xA1, 0x01),
      (0x21, 0xEC), (0xA1, 0xFF)]"

text \<open>\<open>stub n\<close> is the address of the assembly stub for vector \<open>n\<close>, \<open>base\<close> that of the table.\<close>

definition idt_init :: "(nat \<Rightarrow> u64) \<Rightarrow> u64 \<Rightarrow> 'w ports \<Rightarrow> kernel \<Rightarrow> 'w \<Rightarrow> kernel \<times> 'w" where
  "idt_init stub base io k w =
     (let k = k\<lparr>idtr_base := base, idtr_limit := 16 * 256 - 1, interrupt_handlers := replicate 256 None\<rparr>;
          t = fold (\<lambda>n. set_idt_gate n (stub n)) ([0..<32] @ [32..<48]) (idt k);
          w = outb_all io pic_setup w;
          k = k\<lparr>idt := set_idt_gate_user 0x80 (stub 0x80) t\<rparr>;
          k = register_interrupt_handler 14 Page_Fault_Handler k;
          k = register_interrupt_handler 13 Gp_Fault_Handler k
      in (k\<lparr>idt_loaded := True, k_sched := (k_sched k)\<lparr>int_flag := True\<rparr>\<rparr>, w))"

subsection \<open>Handlers\<close>

definition flush_serial :: "'w ports \<Rightarrow> kernel \<Rightarrow> 'w \<Rightarrow> kernel \<times> 'w" where
  "flush_serial io k w = (case serial_flush io (k_serial k) w of (s, w) \<Rightarrow> (k\<lparr>k_serial := s\<rparr>, w))"

definition print_msg :: "message \<Rightarrow> kernel \<Rightarrow> kernel" where
  "print_msg m k = k\<lparr>printed := printed k @ [m]\<rparr>"

definition page_fault_handler :: "'w ports \<Rightarrow> registers \<Rightarrow> kernel \<Rightarrow> 'w \<Rightarrow> outcome \<times> kernel \<times> 'w" where
  "page_fault_handler io regs k w =
     (let e = err_code regs;
          k = print_msg (Print_Page_Fault (cr2 k) e
                [e AND 1, drop_bit 1 e AND 1, drop_bit 2 e AND 1, drop_bit 3 e AND 1, drop_bit 4 e AND 1]
                [regs_rip regs, regs_cs regs, regs_rsp regs, regs_ss regs]) k;
          (k, w) = flush_serial io k w
      in (Halted, k, w))"

definition gp_fault_handler :: "'w ports \<Rightarrow> registers \<Rightarrow> kernel \<Rightarrow> 'w \<Rightarrow> outcome \<times> kernel \<times> 'w" where
  "gp_fault_handler io regs k w =
     (let k = print_msg (Print_Gp_Fault (err_code regs) [regs_rip regs, regs_cs regs, regs_rsp regs, regs_ss regs]) k;
          (k, w) = flush_serial io k w
      in (Halted, k, w))"

definition tick_outcome :: "bool \<Rightarrow> outcome" where
  "tick_outcome switched = (if switched then Switched else Returned)"

definition pit_irq_handler :: "'w ports \<Rightarrow> kernel \<Rightarrow> 'w \<Rightarrow> outcome \<times> kernel \<times> 'w" where
  "pit_irq_handler io k w =
     (let k = k\<lparr>pit_ticks := pit_ticks k + 1\<rparr>;
          (k, w) = flush_serial io k w;
          (switched, s) = scheduler_tick (k_sched k)
      in (tick_outcome switched, k\<lparr>k_sched := s\<rparr>, w))"

definition SYS_WRITE :: u64 where "SYS_WRITE = 0"
definition SYS_YIELD :: u64 where "SYS_YIELD = 1"
definition SYS_EXIT :: u64 where "SYS_EXIT = 2"

text \<open>\<open>scheduler_yield\<close>, with the outcome of its tick.\<close>

definition yield_outcome :: "kernel \<Rightarrow> outcome \<times> kernel" where
  "yield_outcome k =
     (tick_outcome (fst (scheduler_tick ((k_sched k)\<lparr>int_flag := False\<rparr>))), k\<lparr>k_sched := scheduler_yield (k_sched k)\<rparr>)"

definition c_int :: "u64 \<Rightarrow> int" where
  "c_int x = sint (ucast x :: u32)"

definition syscall_handler :: "registers \<Rightarrow> kernel \<Rightarrow> outcome \<times> registers \<times> kernel" where
  "syscall_handler regs k =
     (if regs_rax regs = SYS_WRITE
      then (Returned, regs\<lparr>regs_rax := 0\<rparr>,
            if regs_rdi regs \<noteq> 0 \<and> 0x1000 < regs_rdi regs then print_msg (Print_String (regs_rdi regs)) k else k)
      else if regs_rax regs = SYS_YIELD
      then (case yield_outcome k of (r, k) \<Rightarrow> (r, if r = Returned then regs\<lparr>regs_rax := 0\<rparr> else regs, k))
      else if regs_rax regs = SYS_EXIT
      then (case yield_outcome (print_msg (Print_Exit (c_int (regs_rdi regs))) k) of
              (r, k) \<Rightarrow> (r, if r = Returned then regs\<lparr>regs_rax := 0\<rparr> else regs, k))
      else (Returned, regs\<lparr>regs_rax := -1\<rparr>, print_msg (Print_Unknown_Syscall (c_int (regs_rax regs))) k))"

definition syscall_init :: "kernel \<Rightarrow> kernel" where
  "syscall_init k = register_interrupt_handler 0x80 Syscall_Handler k"

definition run_handler :: "'w ports \<Rightarrow> isr \<Rightarrow> registers \<Rightarrow> kernel \<Rightarrow> 'w \<Rightarrow> outcome \<times> registers \<times> kernel \<times> 'w" where
  "run_handler io h regs k w =
     (case h of
        Page_Fault_Handler \<Rightarrow> (case page_fault_handler io regs k w of (r, k, w) \<Rightarrow> (r, regs, k, w))
      | Gp_Fault_Handler \<Rightarrow> (case gp_fault_handler io regs k w of (r, k, w) \<Rightarrow> (r, regs, k, w))
      | Pit_Irq_Handler \<Rightarrow> (case pit_irq_handler io k w of (r, k, w) \<Rightarrow> (r, regs, k, w))
      | Keyboard_Callback \<Rightarrow>
          (case keyboard_callback io (k_kbd k) w of (kb, w) \<Rightarrow> (Returned, regs, k\<lparr>k_kbd := kb\<rparr>, w))
      | Syscall_Handler \<Rightarrow> (case syscall_handler regs k of (r, regs, k) \<Rightarrow> (r, regs, k, w)))"

subsection \<open>Dispatch\<close>

definition fault_text :: "nat \<Rightarrow> bytes" where
  "fault_text n = ascii ''FAULT '' @ (if n < 10 then [48 + of_nat n] else [48 + of_nat (n div 10), 48 + of_nat (n mod 10)]) @ [10]"

definition send_eoi :: "'w ports \<Rightarrow> u64 \<Rightarrow> 'w \<Rightarrow> 'w" where
  "send_eoi io n w =
     (if 32 \<le> n \<and> n \<le> 47
      then let w = (if 40 \<le> n then outb io 0xA0 0x20 w else w) in outb io 0x20 0x20 w
      else w)"

text \<open>The stubs pass the vectors 0 to 47 and 128, all inside the table of handlers.\<close>

definition interrupt_handler :: "'w ports \<Rightarrow> registers \<Rightarrow> kernel \<Rightarrow> 'w \<Rightarrow> outcome \<times> registers \<times> kernel \<times> 'w" where
  "interrupt_handler io regs k w =
     (case interrupt_handlers k ! unat (int_no regs) of
        Some h \<Rightarrow>
          (case run_handler io h regs k w of (r, regs, k, w) \<Rightarrow>
             (r, regs, k, if r = Returned then send_eoi io (int_no regs) w else w))
      | None \<Rightarrow>
          if int_no regs < 32
          then let w = outb_all io (map (Pair COM1) (fault_text (unat (int_no regs)))) w;
                   (k, w) = flush_serial io k w
               in (Halted, regs, k, w)
          else (Returned, regs, k, send_eoi io (int_no regs) w))"

text \<open>
  What is left of \<open>interrupt_handler\<close> when the task it was switched away from in \<open>h\<close> runs
  again: after a system call the interrupts come on and \<open>rax\<close> is set.
\<close>

definition interrupt_resume :: "'w ports \<Rightarrow> isr \<Rightarrow> registers \<Rightarrow> kernel \<Rightarrow> 'w \<Rightarrow> registers \<times> kernel \<times> 'w" where
  "interrupt_resume io h regs k w =
     (let (regs, k) = (if h = Syscall_Handler
            then (regs\<lparr>regs_rax := 0\<rparr>, k\<lparr>k_sched := (k_sched k)\<lparr>int_flag := True\<rparr>\<rparr>) else (regs, k))
      in (regs, k, send_eoi io (int_no regs) w))"

subsection \<open>The timer\<close>

definition PIT_CHANNEL0 :: u16 where "PIT_CHANNEL0 = 0x40"
definition PIT_COMMAND :: u16 where "PIT_COMMAND = 0x43"
definition PIT_BASE_FREQ :: u32 where "PIT_BASE_FREQ = 1193182"

definition pit_divisor :: "u32 \<Rightarrow> u32" where
  "pit_divisor frequency_hz =
     (let divisor = PIT_BASE_FREQ div frequency_hz;
          divisor = (if 0xFFFF < divisor then 0xFFFF else divisor)
      in if divisor < 1 then 1 else divisor)"

text \<open>A frequency of zero is a division by zero: \<open>None\<close>.\<close>

definition pit_init :: "u32 \<Rightarrow> 'w ports \<Rightarrow> kernel \<Rightarrow> 'w \<Rightarrow> (kernel \<times> 'w) option" where
  "pit_init frequency_hz io k w =
     (if frequency_hz = 0 then None
      else let divisor = pit_divisor frequency_hz;
               w = outb_all io [(PIT_COMMAND, 0x36), (PIT_CHANNEL0, ucast (divisor AND 0xFF)),
                     (PIT_CHANNEL0, ucast (drop_bit 8 divisor AND 0xFF))] w
           in Some (register_interrupt_handler 32 Pit_Irq_Handler (k\<lparr>pit_frequency := frequency_hz\<rparr>), w))"

definition pit_get_ticks :: "kernel \<Rightarrow> u64" where
  "pit_get_ticks k = pit_ticks k"

text \<open>
  The waiting loop: each \<open>hlt\<close> ends with an interrupt, and the list says for each one
  whether it was the timer. \<open>None\<close>: the loop is still waiting when the list ends.
\<close>

fun sleep_loop :: "bool list \<Rightarrow> u64 \<Rightarrow> u64 \<Rightarrow> u64 option" where
  "sleep_loop irqs target ticks =
     (if \<not> ticks < target then Some ticks
      else case irqs of [] \<Rightarrow> None | timer # irqs \<Rightarrow> sleep_loop irqs target (if timer then ticks + 1 else ticks))"

declare sleep_loop.simps [simp del]

definition pit_sleep_ms :: "bool list \<Rightarrow> u32 \<Rightarrow> kernel \<Rightarrow> u64 option" where
  "pit_sleep_ms irqs ms k =
     sleep_loop irqs (pit_ticks k + ucast ms * ucast (pit_frequency k) div 1000) (pit_ticks k)"

end
