(* ===== verification/Interrupt_Props.thy ===== *)
theory Interrupt_Props
  imports Interrupts Scheduler_Guarantees
begin

text \<open>
  Interrupts against the interrupt controller: two cascaded 8259 chips as their data sheet
  describes them, as an instance of the ports (the UART's line status always says ready,
  every other port reads as zero), and what dispatch, the tick and the system calls promise.
\<close>

subsection \<open>The interrupt controller\<close>

text \<open>
  A chip: the levels in service, the mask, the vector offset, and the initialization word
  it waits for (0 when it is ready). The lower the level, the higher its priority.
\<close>

record chip =
  in_service :: "nat set"
  chip_mask :: u8
  chip_offset :: u8
  chip_step :: nat

record pics =
  master :: chip
  slave :: chip

definition chip_command :: "u8 \<Rightarrow> chip \<Rightarrow> chip" where
  "chip_command v c =
     (if v AND 0x10 \<noteq> 0 then c\<lparr>in_service := {}, chip_mask := 0, chip_step := 1\<rparr>
      else if v = 0x20 \<and> in_service c \<noteq> {} then c\<lparr>in_service := in_service c - {Min (in_service c)}\<rparr>
      else c)"

definition chip_data :: "u8 \<Rightarrow> chip \<Rightarrow> chip" where
  "chip_data v c =
     (if chip_step c = 1 then c\<lparr>chip_offset := v AND 0xF8, chip_step := 2\<rparr>
      else if chip_step c = 2 then c\<lparr>chip_step := 3\<rparr>
      else if chip_step c = 3 then c\<lparr>chip_step := 0\<rparr>
      else c\<lparr>chip_mask := v\<rparr>)"

definition pics_outb :: "u16 \<Rightarrow> u8 \<Rightarrow> pics \<Rightarrow> pics" where
  "pics_outb p v w =
     (if p = 0x20 then w\<lparr>master := chip_command v (master w)\<rparr>
      else if p = 0x21 then w\<lparr>master := chip_data v (master w)\<rparr>
      else if p = 0xA0 then w\<lparr>slave := chip_command v (slave w)\<rparr>
      else if p = 0xA1 then w\<lparr>slave := chip_data v (slave w)\<rparr>
      else w)"

definition pics_ports :: "pics ports" where
  "pics_ports = \<lparr>inb = (\<lambda>p w. (if p = 0x3FD then 0x20 else 0, w)), outb = pics_outb,
     inw = (\<lambda>p w. (0, w)), outw = (\<lambda>p v w. w)\<rparr>"

definition chip_accepts :: "nat \<Rightarrow> chip \<Rightarrow> bool" where
  "chip_accepts l c \<longleftrightarrow> chip_step c = 0 \<and> \<not> bit (chip_mask c) l \<and> (\<forall>m \<in> in_service c. l < m)"

text \<open>An interrupt line that would be delivered, the state once it is, and its vector.\<close>

definition pic_accepts :: "nat \<Rightarrow> pics \<Rightarrow> bool" where
  "pic_accepts irq w \<longleftrightarrow>
     (if irq < 8 then chip_accepts irq (master w) else chip_accepts (irq - 8) (slave w) \<and> chip_accepts 2 (master w))"

definition pic_take :: "nat \<Rightarrow> pics \<Rightarrow> pics" where
  "pic_take irq w =
     (if irq < 8 then w\<lparr>master := (master w)\<lparr>in_service := insert irq (in_service (master w))\<rparr>\<rparr>
      else w\<lparr>master := (master w)\<lparr>in_service := insert 2 (in_service (master w))\<rparr>,
             slave := (slave w)\<lparr>in_service := insert (irq - 8) (in_service (slave w))\<rparr>\<rparr>)"

definition pic_vector :: "nat \<Rightarrow> pics \<Rightarrow> nat" where
  "pic_vector irq w = (if irq < 8 then unat (chip_offset (master w)) + irq else unat (chip_offset (slave w)) + (irq - 8))"

definition pic_quiet :: "pics \<Rightarrow> bool" where
  "pic_quiet w \<longleftrightarrow> in_service (master w) = {} \<and> in_service (slave w) = {}"

subsection \<open>Drivers that do not touch it\<close>

lemma drain_pics: "snd (drain_loop n pics_ports s w) = w"
  by (induction n arbitrary: s) (auto simp: pics_ports_def pics_outb_def COM1_def split: option.splits)

lemma flush_pics: "snd (flush_serial pics_ports k w) = w"
  by (simp add: flush_serial_def serial_flush_def serial_drain_def irq_save_disable_def split_beta drain_pics)

lemma flush_pics_eq: "\<exists>s. flush_serial pics_ports k w = (k\<lparr>k_serial := s\<rparr>, w)"
  using flush_pics [of k w] by (auto simp: flush_serial_def split_beta)

lemma keyboard_pics: "snd (keyboard_callback pics_ports kb w) = w"
  by (simp add: keyboard_callback_def pics_ports_def)

lemma handler_pics: "run_handler pics_ports h regs k w = (r, regs', k', w') \<Longrightarrow> w' = w"
proof -
  assume h: "run_handler pics_ports h regs k w = (r, regs', k', w')"
  have f: "flush_serial pics_ports k0 w = (k1, w1) \<Longrightarrow> w1 = w" for k0 k1 w1
    using flush_pics [of k0 w] by simp
  have kb: "keyboard_callback pics_ports kb w = (kb', w1) \<Longrightarrow> w1 = w" for kb kb' w1
    using keyboard_pics [of kb w] by simp
  from h show "w' = w"
    by (auto simp: run_handler_def page_fault_handler_def gp_fault_handler_def pit_irq_handler_def Let_def
        split: isr.splits prod.splits dest: f kb)
qed

lemma eoi_pics:
  assumes "irq < 16" "pic_quiet w" "pic_accepts irq w"
  shows "send_eoi pics_ports (32 + of_nat irq) (pic_take irq w) = w"
proof -
  have "unat (32 + of_nat irq :: u64) = 32 + irq" using assms(1) by (simp add: unat_word_ariths unat_of_nat)
  then have n: "32 \<le> (32 + of_nat irq :: u64)" "(32 + of_nat irq :: u64) \<le> 47" "40 \<le> (32 + of_nat irq :: u64) \<longleftrightarrow> 8 \<le> irq"
    using assms(1) by (auto simp: word_le_nat_alt)
  have q: "in_service (master w) = {}" "in_service (slave w) = {}" using assms(2) by (simp_all add: pic_quiet_def)
  have c: "c\<lparr>in_service := {}\<rparr> = c" if "in_service c = {}" for c :: chip using that by simp
  show ?thesis
    using n q by (auto simp: send_eoi_def pics_ports_def pics_outb_def chip_command_def pic_take_def Let_def)
qed

subsection \<open>Gates\<close>

definition gate_address :: "idt_entry \<Rightarrow> u64" where
  "gate_address e = ucast (offset_low e) OR push_bit 16 (ucast (offset_mid e)) OR push_bit 32 (ucast (offset_high e))"

lemma address_parts:
  "ucast (ucast (a AND 0xFFFF) :: u16) OR push_bit 16 (ucast (ucast (drop_bit 16 a AND 0xFFFF) :: u16))
     OR push_bit 32 (ucast (ucast (drop_bit 32 a AND 0xFFFFFFFF) :: u32)) = (a :: u64)"
proof -
  have m: "(0xFFFF :: u64) = mask 16" "(0xFFFFFFFF :: u64) = mask 32" by (simp_all add: mask_eq_exp_minus_1)
  show ?thesis unfolding m
  proof (rule bit_word_eqI)
    fix n :: nat
    assume "n < LENGTH(64)"
    moreover have "32 \<le> n \<Longrightarrow> 32 + (n - 32) = n" by simp
    ultimately show "bit (ucast (ucast (a AND mask 16) :: u16) OR push_bit 16 (ucast (ucast (drop_bit 16 a AND mask 16) :: u16))
        OR push_bit 32 (ucast (ucast (drop_bit 32 a AND mask 32) :: u32)) :: u64) n \<longleftrightarrow> bit a n"
      by (cases "32 \<le> n") (auto simp: bit_simps)
  qed
qed

lemma set_gate [simp]: "length (set_idt_gate n a t) = length t" "length (set_idt_gate_user n a t) = length t"
  by (simp_all add: set_idt_gate_def set_idt_gate_user_def)

lemma set_gate_nth:
  "m < length t \<Longrightarrow> set_idt_gate n a t ! m = (if m = n then set_idt_gate n a t ! n else t ! m)"
  "m < length t \<Longrightarrow> set_idt_gate_user n a t ! m = (if m = n then set_idt_gate_user n a t ! n else t ! m)"
  by (simp_all add: set_idt_gate_def set_idt_gate_user_def)

lemma set_gate_same:
  "n < length t \<Longrightarrow> gate_address (set_idt_gate n a t ! n) = a \<and> gate_flags (set_idt_gate n a t ! n) = 0x8E
     \<and> gate_selector (set_idt_gate n a t ! n) = 8"
  "n < length t \<Longrightarrow> gate_address (set_idt_gate_user n a t ! n) = a \<and> gate_flags (set_idt_gate_user n a t ! n) = 0xEE
     \<and> gate_selector (set_idt_gate_user n a t ! n) = 8"
  using address_parts [of a] by (simp_all add: set_idt_gate_def set_idt_gate_user_def gate_address_def)

lemma gates_fold:
  assumes "distinct ns" "set ns \<subseteq> {..<length t}" "m < length t"
  shows "length (fold (\<lambda>n. set_idt_gate n (stub n)) ns t) = length t"
    "fold (\<lambda>n. set_idt_gate n (stub n)) ns t ! m = (if m \<in> set ns then set_idt_gate m (stub m) t ! m else t ! m)"
  using assms
proof (induction ns arbitrary: t)
  case (Cons n ns)
  {
    case 1
    then show ?case using Cons.IH(1) [of "set_idt_gate n (stub n) t"] by auto
  next
    case 2
    have "set_idt_gate m (stub m) (set_idt_gate n (stub n) t) ! m = set_idt_gate m (stub m) t ! m" if "m \<noteq> n"
      using that 2 by (simp add: set_idt_gate_def)
    with 2 show ?case using Cons.IH(2) [of "set_idt_gate n (stub n) t"] set_gate_nth(1) [of m t n "stub n"] by auto
  }
qed auto

subsection \<open>Properties\<close>

text \<open>C18: after \<open>idt_init\<close> every unmasked interrupt has somewhere to go. The table holds, for each
  vector below 48, a gate that decodes to the address of its stub and is closed to ring 3, and
  for 0x80 one that ring 3 may use; the other gates are as before. The interrupt controller
  delivers exactly the timer, the keyboard and the serial line, on the vectors 32, 33 and
  36, and the page and protection fault handlers are in place before interrupts go on.\<close>

theorem idt_init_complete:
  assumes "length (idt k) = 256" "idt_init stub base pics_ports k w = (k', w')"
  shows "(\<forall>n < 256. if n < 48 \<or> n = 0x80
      then gate_address (idt k' ! n) = stub n \<and> gate_flags (idt k' ! n) = (if n = 0x80 then 0xEE else 0x8E)
        \<and> gate_selector (idt k' ! n) = 8
      else idt k' ! n = idt k ! n)
    \<and> (\<forall>irq < 16. pic_accepts irq w' \<longleftrightarrow> irq \<in> {0, 1, 4})
    \<and> (\<forall>irq < 16. pic_vector irq w' = 32 + irq)
    \<and> interrupt_handlers k' = (replicate 256 None)[14 := Some Page_Fault_Handler, 13 := Some Gp_Fault_Handler]
    \<and> idt_loaded k' \<and> int_flag (k_sched k') \<and> unat (idtr_limit k') + 1 = 16 * length (idt k')"
proof -
  let ?t = "fold (\<lambda>n. set_idt_gate n (stub n)) ([0..<32] @ [32..<48]) (idt k)"
  have ns: "[0..<32] @ [32..<48] = [0..<48]" using upt_add_eq_append [of 0 32 16] by simp
  note f = gates_fold [of "[0..<48]" "idt k", unfolded assms(1)]
  have "{0..<48} \<subseteq> {..<256 :: nat}" by auto
  then have t: "length ?t = 256" "n < 256 \<Longrightarrow> ?t ! n = (if n < 48 then set_idt_gate n (stub n) (idt k) ! n else idt k ! n)" for n
    unfolding ns using f(1) [of 0 stub] f(2) [of n stub] by auto
  have k': "idt k' = set_idt_gate_user 0x80 (stub 0x80) ?t" "w' = outb_all pics_ports pic_setup w"
    "interrupt_handlers k' = (replicate 256 None)[14 := Some Page_Fault_Handler, 13 := Some Gp_Fault_Handler]"
    "idt_loaded k'" "int_flag (k_sched k')" "idtr_limit k' = 4095"
    using assms(2) by (auto simp: idt_init_def Let_def register_interrupt_handler_def)
  have gates: "if n < 48 \<or> n = 0x80
      then gate_address (idt k' ! n) = stub n \<and> gate_flags (idt k' ! n) = (if n = 0x80 then 0xEE else 0x8E)
        \<and> gate_selector (idt k' ! n) = 8
      else idt k' ! n = idt k ! n" if "n < 256" for n
    using that t set_gate_nth(2) [of n ?t 128 "stub 128"] set_gate_same(2) [of 128 ?t "stub 128"]
      set_gate_same(1) [of n "idt k" "stub n"] assms(1) by (auto simp: k'(1))
  have w': "w' = \<lparr>master = (master w)\<lparr>in_service := {}, chip_mask := 0xEC, chip_offset := 0x20, chip_step := 0\<rparr>,
      slave = (slave w)\<lparr>in_service := {}, chip_mask := 0xFF, chip_offset := 0x28, chip_step := 0\<rparr>\<rparr>"
    by (cases w) (simp add: k'(2) pic_setup_def pic_writes_def pics_ports_def pics_outb_def chip_command_def chip_data_def)
  have "pic_accepts irq w' \<longleftrightarrow> irq \<in> {0, 1, 4}" "pic_vector irq w' = 32 + irq" if "irq < 16" for irq
  proof -
    have "irq \<in> {0, 1, 2, 3, 4, 5, 6, 7, 8, 9, 10, 11, 12, 13, 14, 15}" using that by (simp, presburger)
    then show "pic_accepts irq w' \<longleftrightarrow> irq \<in> {0, 1, 4}" "pic_vector irq w' = 32 + irq"
      by (auto simp: w' pic_accepts_def chip_accepts_def pic_vector_def)
  qed
  moreover have "length (idt k') = 256" unfolding k'(1) set_gate by (rule t(1))
  ultimately show ?thesis using gates k'(3-6) by simp
qed

text \<open>A kernel before \<open>idt_init\<close>, and after the shell has set up the timer.\<close>

definition sample_kernel :: kernel where
  "sample_kernel = \<lparr>idt = replicate 256 \<lparr>offset_low = 0, gate_selector = 0, gate_ist = 0, gate_flags = 0, offset_mid = 0,
       offset_high = 0, gate_zero = 0\<rparr>, idtr_limit = 0, idtr_base = 0, idt_loaded = False,
     interrupt_handlers = replicate 256 None, pit_ticks = 0, pit_frequency = 0, k_sched = started,
     k_serial = serial_boot, k_kbd = kbd_boot, cr2 = 0, printed = []\<rparr>"

definition sample_pics :: pics where
  "sample_pics = \<lparr>master = \<lparr>in_service = {}, chip_mask = 0xEC, chip_offset = 0x20, chip_step = 0\<rparr>,
     slave = \<lparr>in_service = {}, chip_mask = 0xFF, chip_offset = 0x28, chip_step = 0\<rparr>\<rparr>"

definition sample_regs :: "u64 \<Rightarrow> u64 \<Rightarrow> registers" where
  "sample_regs n rax = \<lparr>regs_r15 = 0, regs_r14 = 0, regs_r13 = 0, regs_r12 = 0, regs_r11 = 0, regs_r10 = 0, regs_r9 = 0,
     regs_r8 = 0, regs_rbp = 0, regs_rdi = 0, regs_rsi = 0, regs_rdx = 0, regs_rcx = 0, regs_rbx = 0, regs_rax = rax,
     int_no = n, err_code = 0, regs_rip = 0, regs_cs = 0, regs_rflags = 0, regs_rsp = 0, regs_ss = 0\<rparr>"

theorem idt_init_complete_witness:
  "\<exists>k' w'. idt_init (\<lambda>n. 0xFFFFFFFF80100000 + 16 * of_nat n) 0x200000 pics_ports sample_kernel sample_pics = (k', w')
    \<and> gate_address (idt k' ! 33) = 0xFFFFFFFF80100210 \<and> pic_accepts 1 w' \<and> pic_vector 1 w' = 33"
proof -
  obtain k' w' where e: "idt_init (\<lambda>n. 0xFFFFFFFF80100000 + 16 * of_nat n) 0x200000 pics_ports sample_kernel sample_pics = (k', w')"
    by fastforce
  have "length (idt sample_kernel) = 256" by (simp add: sample_kernel_def)
  note t = idt_init_complete [OF this e]
  have "gate_address (idt k' ! 33) = 0xFFFFFFFF80100210" using t by (elim conjE allE [where x = 33]) simp
  moreover have "pic_accepts 1 w' \<and> pic_vector 1 w' = 33" using t by (elim conjE allE [where x = 1]) simp
  ultimately show ?thesis using e by blast
qed

text \<open>C19: an interrupt that is handled is acknowledged. When the interrupt controller, with
  nothing else in service, delivers a line and the dispatch comes back, whether the handler is
  registered or not, the controller is again as it was before, ready for the next one.\<close>

theorem irq_acknowledged:
  assumes "irq < 16" "pic_quiet w" "pic_accepts irq w" "int_no regs = 32 + of_nat irq"
    and "interrupt_handler pics_ports regs k (pic_take irq w) = (Returned, regs', k', w')" "int_no regs' = int_no regs"
  shows "w' = w"
proof (cases "interrupt_handlers k ! unat (int_no regs)")
  case None
  with assms(5) have "w' = send_eoi pics_ports (int_no regs) (pic_take irq w)"
    by (auto simp: interrupt_handler_def Let_def split: if_splits prod.splits)
  with eoi_pics [OF assms(1-3)] assms(4) show ?thesis by simp
next
  case (Some h)
  obtain r1 regs1 k1 w1 where h: "run_handler pics_ports h regs k (pic_take irq w) = (r1, regs1, k1, w1)"
    by (metis prod_cases4)
  with Some assms(5,6) handler_pics [OF h] have "w' = send_eoi pics_ports (int_no regs) (pic_take irq w)"
    by (auto simp: interrupt_handler_def split: if_splits)
  with eoi_pics [OF assms(1-3)] assms(4) show ?thesis by simp
qed

lemma pics_lines: "pic_quiet sample_pics" "pic_accepts 0 sample_pics" "pic_accepts 4 sample_pics"
  by (simp_all add: pic_quiet_def sample_pics_def pic_accepts_def chip_accepts_def)

theorem irq_acknowledged_witness:
  "\<exists>k'. interrupt_handler pics_ports (sample_regs 36 0) sample_kernel (pic_take 4 sample_pics)
    = (Returned, sample_regs 36 0, k', sample_pics)"
proof -
  have n: "int_no (sample_regs 36 0) = 32 + of_nat 4" by (simp add: sample_regs_def)
  obtain w' where e: "interrupt_handler pics_ports (sample_regs 36 0) sample_kernel (pic_take 4 sample_pics)
      = (Returned, sample_regs 36 0, sample_kernel, w')"
    by (simp add: interrupt_handler_def sample_kernel_def sample_regs_def)
  from irq_acknowledged [OF _ pics_lines(1,3) n e] e show ?thesis by simp
qed

text \<open>
  What can happen on the CPU from a given state of the kernel and the controller, short of
  resuming a task that lost the CPU to a tick: a task computes, yields or is started, which
  changes memory at most; it writes to ports other than the controller's; it makes a system
  call or faults; a task that lost the CPU in a system call is resumed in it; and a line the
  controller lets through is taken and handled.
\<close>

inductive cpu_step :: "kernel \<times> pics \<Rightarrow> kernel \<times> pics \<Rightarrow> bool" where
  computes: "cpu_step (k, w) (k', w)"
| port_written: "p \<notin> {0x20, 0x21, 0xA0, 0xA1} \<Longrightarrow> cpu_step (k, w) (k, outb pics_ports p x w)"
| called: "int_no regs = 0x80 \<or> int_no regs < 32 \<Longrightarrow> interrupt_handler pics_ports regs k w = (r, regs', k', w') \<Longrightarrow>
    cpu_step (k, w) (k', w')"
| call_resumed: "int_no regs = 0x80 \<Longrightarrow> interrupt_resume pics_ports Syscall_Handler regs k w = (regs', k', w') \<Longrightarrow>
    cpu_step (k, w) (k', w')"
| interrupted: "irq < 16 \<Longrightarrow> pic_accepts irq w \<Longrightarrow> int_no regs = 32 + of_nat irq \<Longrightarrow>
    interrupt_handler pics_ports regs k (pic_take irq w) = (r, regs', k', w') \<Longrightarrow> cpu_step (k, w) (k', w')"

lemma eoi_other: "n = 0x80 \<or> n < 32 \<Longrightarrow> send_eoi pics_ports n w = w"
  by (auto simp: send_eoi_def)

lemma syscall_regs: "syscall_handler regs k = (r, regs', k') \<Longrightarrow> int_no regs' = int_no regs"
  by (auto simp: syscall_handler_def split: prod.splits if_splits)

lemma handler_regs:
  "run_handler pics_ports h regs k w = (r, regs', k', w') \<Longrightarrow> int_no regs' = int_no regs"
  by (auto simp: run_handler_def split: isr.splits prod.splits dest: syscall_regs)

lemma call_pics:
  assumes "int_no regs = 0x80 \<or> int_no regs < 32" "interrupt_handler pics_ports regs k w = (r, regs', k', w')"
  shows "w' = w"
proof (cases "interrupt_handlers k ! unat (int_no regs)")
  case None
  have "outb_all pics_ports (map (Pair COM1) bs) w = w" for bs
    by (induction bs) (simp_all add: pics_ports_def pics_outb_def COM1_def)
  with None assms show ?thesis using flush_pics [of k w] eoi_other [OF assms(1)]
    by (auto simp: interrupt_handler_def Let_def split: if_splits prod.splits)
next
  case (Some h)
  obtain r1 regs1 k1 w1 where h: "run_handler pics_ports h regs k w = (r1, regs1, k1, w1)" by (metis prod_cases4)
  with Some assms handler_pics [OF h] handler_regs [OF h] eoi_other [of "int_no regs"] show ?thesis
    by (auto simp: interrupt_handler_def split: if_splits)
qed

lemma taken_blocks: "\<not> pic_accepts irq (pic_take 0 w)"
  by (auto simp: pic_accepts_def pic_take_def chip_accepts_def)

lemma blocked_step:
  assumes "cpu_step s s'" "\<forall>irq < 16. \<not> pic_accepts irq (snd s)"
  shows "snd s' = snd s"
  using assms
proof cases
  case (port_written p k w x)
  then show ?thesis by (simp add: pics_ports_def pics_outb_def)
next
  case (call_resumed regs k w regs' k' w')
  then show ?thesis using eoi_other [where n = "0x80" and w = w] by (auto simp: interrupt_resume_def)
qed (use call_pics in \<open>auto 0 3\<close>)

lemma blocked_steps:
  assumes "cpu_step\<^sup>*\<^sup>* s s'" "\<forall>irq < 16. \<not> pic_accepts irq (snd s)"
  shows "snd s' = snd s"
  using assms(1) by (induction rule: rtranclp_induct) (use assms(2) blocked_step in \<open>auto 0 3\<close>)

text \<open>C9: a tick that hands the CPU to another task leaves all interrupts blocked. The timer
  handler switches before the dispatcher has acknowledged the interrupt, so the next task runs
  with the timer still in service: whatever tasks do from there - compute, yield, make system
  calls, be resumed in one - no line is accepted, until a task that lost the CPU to a tick is
  resumed and its handler acknowledges, which it does then. A new task, which starts at its
  entry, or one that had yielded keeps the CPU for as long as it likes.\<close>

theorem tick_switch_blocks_interrupts:
  assumes "interrupt_handlers k ! 32 = Some Pit_Irq_Handler" "int_no regs = 32" "sched_reach (k_sched k)"
    and "find_next_ready_task (k_sched k) = Some n" "0 \<le> current_task_id (k_sched k)"
    and "pic_quiet w" "pic_accepts 0 w"
  shows "\<exists>k'. interrupt_handler pics_ports regs k (pic_take 0 w) = (Switched, regs, k', pic_take 0 w)
    \<and> current_task_id (k_sched k') = int n \<and> cpu (k_sched k') = load_context (ctx (tasks (k_sched k) ! n))
    \<and> (\<forall>k'' w''. cpu_step\<^sup>*\<^sup>* (k', pic_take 0 w) (k'', w'') \<longrightarrow>
        w'' = pic_take 0 w \<and> (\<forall>irq < 16. \<not> pic_accepts irq w'')
        \<and> (\<forall>regs'. int_no regs' = 32 \<longrightarrow> interrupt_resume pics_ports Pit_Irq_Handler regs' k'' w'' = (regs', k'', w)))"
proof -
  obtain sw s where tick: "scheduler_tick (k_sched k) = (sw, s)" by fastforce
  from tick_Some [OF reach_wf [OF assms(3)] assms(4)] tick assms(5) have s: "sw" "current_task_id s = int n" "cpu s = load_context (ctx (tasks (k_sched k) ! n))"
    by simp_all
  obtain ser where f: "flush_serial pics_ports (k\<lparr>pit_ticks := pit_ticks k + 1\<rparr>) (pic_take 0 w)
      = (k\<lparr>pit_ticks := pit_ticks k + 1\<rparr>\<lparr>k_serial := ser\<rparr>, pic_take 0 w)"
    using flush_pics_eq by blast
  let ?k' = "k\<lparr>pit_ticks := pit_ticks k + 1\<rparr>\<lparr>k_serial := ser\<rparr>\<lparr>k_sched := s\<rparr>"
  have "interrupt_handler pics_ports regs k (pic_take 0 w) = (Switched, regs, ?k', pic_take 0 w)"
    using assms(1,2) f tick s(1) by (simp add: interrupt_handler_def run_handler_def pit_irq_handler_def Let_def tick_outcome_def)
  moreover have "w'' = pic_take 0 w \<and> \<not> pic_accepts irq w''" if "cpu_step\<^sup>*\<^sup>* (?k', pic_take 0 w) (k'', w'')" for k'' w'' irq
    using blocked_steps [OF that] taken_blocks [of _ w] by simp
  moreover have "send_eoi pics_ports 32 (pic_take 0 w) = w" using eoi_pics [OF _ assms(6,7)] by simp
  then have "interrupt_resume pics_ports Pit_Irq_Handler regs' k'' (pic_take 0 w) = (regs', k'', w)" if "int_no regs' = 32" for regs' k''
    using that by (simp add: interrupt_resume_def)
  ultimately show ?thesis using s(2,3) by (intro exI [of _ ?k'] conjI allI impI) (simp, simp, simp, blast+)
qed

lemma started_next: "find_next_ready_task started = Some 1"
  unfolding find_next_ready_Some using started_facts by (intro exI [of _ 0]) (simp add: slot_after_def MAX_TASKS_def)

theorem tick_switch_blocks_interrupts_witness:
  "\<exists>k k'. interrupt_handler pics_ports (sample_regs 32 0) k (pic_take 0 sample_pics)
      = (Switched, sample_regs 32 0, k', pic_take 0 sample_pics)
    \<and> current_task_id (k_sched k') = 1 \<and> \<not> pic_accepts 0 (pic_take 0 sample_pics)
    \<and> (\<exists>r regs k1. interrupt_handler pics_ports (sample_regs 0x80 1) k' (pic_take 0 sample_pics)
        = (r, regs, k1, pic_take 0 sample_pics))"
proof -
  let ?k = "register_interrupt_handler 32 Pit_Irq_Handler sample_kernel"
  have h: "interrupt_handlers ?k ! 32 = Some Pit_Irq_Handler" "k_sched ?k = started"
    by (simp_all add: register_interrupt_handler_def sample_kernel_def)
  have i: "int_no (sample_regs n x) = n" for n x by (simp add: sample_regs_def)
  from tick_switch_blocks_interrupts [OF h(1) i, of 1 sample_pics] h(2) started_facts started_next pics_lines(1,2)
  obtain k' where k: "interrupt_handler pics_ports (sample_regs 32 0) ?k (pic_take 0 sample_pics)
      = (Switched, sample_regs 32 0, k', pic_take 0 sample_pics)" "current_task_id (k_sched k') = 1"
    and b: "\<And>k'' w''. cpu_step\<^sup>*\<^sup>* (k', pic_take 0 sample_pics) (k'', w'') \<Longrightarrow> w'' = pic_take 0 sample_pics
      \<and> (\<forall>irq < 16. \<not> pic_accepts irq w'')"
    by fastforce
  obtain r regs k1 w1 where c: "interrupt_handler pics_ports (sample_regs 0x80 1) k' (pic_take 0 sample_pics) = (r, regs, k1, w1)"
    by (metis prod_cases4)
  from called [OF _ c] i have "cpu_step (k', pic_take 0 sample_pics) (k1, w1)" by simp
  with b [of k1 w1] b [of k' "pic_take 0 sample_pics"] k c show ?thesis by fastforce
qed

lemma yield_result:
  assumes "sched_reach (k_sched k)" "current_task_id (k_sched k) = int i" "i < 8" "yield_outcome k = (r, k')"
  shows "k' = k\<lparr>k_sched := scheduler_yield (k_sched k)\<rparr>
    \<and> (if find_next_ready_task (k_sched k) = None
       then r = Returned \<and> current_task_id (k_sched k') = int i \<and> t_state (tasks (k_sched k') ! i) = TASK_RUNNING
       else r = Switched \<and> is_ready (k_sched k') i)"
proof -
  note wf = reach_wf [OF assms(1)]
  let ?s = "(k_sched k)\<lparr>int_flag := False\<rparr>"
  have wf': "sched_wf ?s" using wf by simp
  have run: "t_state (tasks (k_sched k) ! i) = TASK_RUNNING"
    using wf assms(2,3) by (auto simp: sched_wf_def MAX_TASKS_def)
  have k': "k' = k\<lparr>k_sched := scheduler_yield (k_sched k)\<rparr>" "r = tick_outcome (fst (scheduler_tick ?s))"
    using assms(4) by (auto simp: yield_outcome_def)
  show ?thesis
  proof (cases "find_next_ready_task (k_sched k)")
    case None
    then have t: "scheduler_tick ?s = (False, count_tick ?s)" by (intro tick_None) simp
    with k' None run assms(2) yield_tick [of "k_sched k"] show ?thesis by (simp add: tick_outcome_def)
  next
    case (Some n)
    then have n: "find_next_ready_task ?s = Some n" by simp
    have "n \<noteq> i" using find_next_ready_less [OF Some] run by (auto simp: is_ready_def)
    with tick_Some(2,3) [OF wf' n] assms(2,3) have "fst (scheduler_tick ?s)"
      "t_state (tasks (snd (scheduler_tick ?s)) ! i) = TASK_READY" by (simp_all add: MAX_TASKS_def)
    with k' Some yield_tick [of "k_sched k"] show ?thesis by (simp add: tick_outcome_def is_ready_def)
  qed
qed

text \<open>C29: what a system call returns and does. Writing returns 0 and prints the string whose
  address is above 4096 and nothing otherwise; an unknown number returns -1. Exiting does
  what yielding does and prints a line: if no other task is ready, the call returns 0 to the
  task that asked to end and the task just goes on; if another is, the task stays ready and
  is scheduled again.\<close>

theorem system_calls:
  assumes "sched_reach (k_sched k)" "current_task_id (k_sched k) = int i" "i < 8"
    and "syscall_handler regs k = (r, regs', k')"
  shows "if regs_rax regs = 0
    then r = Returned \<and> regs' = regs\<lparr>regs_rax := 0\<rparr>
      \<and> k' = (if 0x1000 < regs_rdi regs then print_msg (Print_String (regs_rdi regs)) k else k)
    else if regs_rax regs = 1 \<or> regs_rax regs = 2
    then printed k' = printed k @ (if regs_rax regs = 2 then [Print_Exit (c_int (regs_rdi regs))] else [])
      \<and> (if find_next_ready_task (k_sched k) = None
         then r = Returned \<and> regs' = regs\<lparr>regs_rax := 0\<rparr> \<and> current_task_id (k_sched k') = int i
           \<and> t_state (tasks (k_sched k') ! i) = TASK_RUNNING
         else r = Switched \<and> is_ready (k_sched k') i)
    else r = Returned \<and> regs' = regs\<lparr>regs_rax := -1\<rparr> \<and> (\<exists>n. k' = print_msg (Print_Unknown_Syscall n) k)"
proof -
  note d = syscall_handler_def SYS_WRITE_def SYS_YIELD_def SYS_EXIT_def
  have nz: "0x1000 < x \<Longrightarrow> x \<noteq> 0" for x :: u64 by auto
  let ?m = "Print_Exit (c_int (regs_rdi regs))"
  obtain r1 k1 where y1: "yield_outcome k = (r1, k1)" by fastforce
  obtain r2 k2 where y2: "yield_outcome (print_msg ?m k) = (r2, k2)" by fastforce
  have p: "k_sched (print_msg ?m k) = k_sched k" by (simp add: print_msg_def)
  note r1 = yield_result [OF assms(1-3) y1] and r2 = yield_result [of "print_msg ?m k", unfolded p, OF assms(1-3) y2]
  consider "regs_rax regs = 0" | "regs_rax regs = 1" | "regs_rax regs = 2" | "regs_rax regs \<notin> {0, 1, 2}" by blast
  then show ?thesis
  proof cases
    case 1 then show ?thesis using assms(4) nz by (auto simp: d)
  next
    case 2 then show ?thesis using assms(4) r1 y1 by (auto simp: d)
  next
    case 3 then show ?thesis using assms(4) r2 y2 by (auto simp: d print_msg_def)
  next
    case 4 then show ?thesis using assms(4) by (auto simp: d)
  qed
qed

theorem system_calls_witness:
  "\<exists>k'. syscall_handler (sample_regs 0x80 2) sample_kernel = (Switched, sample_regs 0x80 2, k')
    \<and> printed k' = [Print_Exit 0] \<and> is_ready (k_sched k') 0"
proof -
  have k: "k_sched sample_kernel = started" "printed sample_kernel = []" by (simp_all add: sample_kernel_def)
  have rg: "regs_rax (sample_regs 0x80 2) = 2" "regs_rdi (sample_regs 0x80 2) = 0" by (simp_all add: sample_regs_def)
  obtain r regs' k' where e: "syscall_handler (sample_regs 0x80 2) sample_kernel = (r, regs', k')" by (metis prod_cases3)
  have "int 0 = (0 :: int)" "(0 :: nat) < 8" "c_int 0 = 0" by (simp_all add: c_int_def)
  with system_calls [of sample_kernel 0, OF _ _ _ e] started_facts(1,2) started_next
  have f: "r = Switched" "printed k' = [Print_Exit 0]" "is_ready (k_sched k') 0" by (simp_all add: k rg)
  from e f(1) have "regs' = sample_regs 0x80 2"
    by (auto simp: syscall_handler_def rg SYS_WRITE_def SYS_YIELD_def SYS_EXIT_def split: prod.splits)
  with e f show ?thesis by simp
qed

lemma sleep_waits:
  "unat t + n < 2 ^ 64 \<Longrightarrow>
    sleep_loop irqs (t + of_nat n) t = (if n \<le> length (filter (\<lambda>b. b) irqs) then Some (t + of_nat n) else None)"
proof (induction irqs arbitrary: t n)
  case Nil
  then have "unat (t + of_nat n) = unat t + n" by (simp add: unat_word_ariths unat_of_nat)
  then show ?case by (subst sleep_loop.simps) (simp add: word_less_nat_alt)
next
  case (Cons b irqs)
  have u: "unat (t + of_nat n) = unat t + n" using Cons.prems by (simp add: unat_word_ariths unat_of_nat)
  have step: "sleep_loop (b # irqs) (t + of_nat n) t =
      (if n = 0 then Some t else sleep_loop irqs (t + of_nat n) (if b then t + 1 else t))"
    by (subst sleep_loop.simps) (simp add: word_less_nat_alt u)
  show ?case
  proof (cases n)
    case (Suc m)
    have "unat (t + 1) = unat t + 1" using Cons.prems Suc by (simp add: unat_word_ariths)
    then have "sleep_loop irqs (t + 1 + of_nat m) (t + 1) =
        (if m \<le> length (filter (\<lambda>b. b) irqs) then Some (t + 1 + of_nat m) else None)"
      using Cons.prems Suc by (intro Cons.IH) simp
    moreover have "t + 1 + of_nat m = t + of_nat n" using Suc by simp
    ultimately have "sleep_loop irqs (t + of_nat n) (t + 1) =
        (if m \<le> length (filter (\<lambda>b. b) irqs) then Some (t + of_nat n) else None)" by metis
    moreover have "n \<noteq> 0" "n \<le> Suc l \<longleftrightarrow> m \<le> l" for l using Suc by simp_all
    ultimately show ?thesis unfolding step using Cons.IH [OF Cons.prems] by (cases b) simp_all
  qed (use step in simp)
qed

text \<open>sleeping ends exactly with the timer interrupt it waits for. With the timer running
  and the tick count from overflowing far away, \<open>pit_sleep_ms\<close> returns once the interrupts
  that end its \<open>hlt\<close> have included \<open>ms\<close> times the frequency over 1000 timer ticks, whatever
  other interrupts come in between, and not before.\<close>

theorem pit_sleep_returns:
  assumes "unat (pit_ticks k) + unat ms * unat (pit_frequency k) div 1000 < 2 ^ 64"
  shows "pit_sleep_ms irqs ms k =
    (if unat ms * unat (pit_frequency k) div 1000 \<le> length (filter (\<lambda>b. b) irqs)
     then Some (pit_ticks k + of_nat (unat ms * unat (pit_frequency k) div 1000)) else None)"
proof -
  have "unat ms * unat (pit_frequency k) \<le> (2 ^ 32 - 1) * (2 ^ 32 - 1)"
    using unsigned_less [of ms, where 'a = nat] unsigned_less [of "pit_frequency k", where 'a = nat]
    by (intro mult_mono) (simp_all add: less_Suc_eq_le)
  then have "unat (ucast ms * ucast (pit_frequency k) :: u64) = unat ms * unat (pit_frequency k)"
    by (simp add: unat_word_ariths unat_ucast_up)
  then have "(ucast ms * ucast (pit_frequency k) div 1000 :: u64) = of_nat (unat ms * unat (pit_frequency k) div 1000)"
    using assms by (simp add: word_unat_eq_iff unat_div unat_of_nat)
  with sleep_waits [OF assms, of irqs] show ?thesis by (simp add: pit_sleep_ms_def)
qed

theorem pit_sleep_returns_witness:
  "pit_sleep_ms [False, True, True] 20 (sample_kernel\<lparr>pit_frequency := 100\<rparr>) = Some 2
    \<and> pit_sleep_ms [False, True, False] 20 (sample_kernel\<lparr>pit_frequency := 100\<rparr>) = None"
  using pit_sleep_returns [of "sample_kernel\<lparr>pit_frequency := 100\<rparr>" 20 "[False, True, True]"]
    pit_sleep_returns [of "sample_kernel\<lparr>pit_frequency := 100\<rparr>" 20 "[False, True, False]"]
  by (simp add: sample_kernel_def)

end
