(* ===== verification/Elf.thy ===== *)
theory Elf
  imports Fat_Read Memory
begin

text \<open>
  The ELF loader (\<open>arch/elf.c\<close>). It reaches the file system through four operations, the
  record \<open>file_api\<close>; a locale states what a file system promises for a path, and the loader's
  lemmas are proved from it. Memory is a map from addresses to bytes. The result \<open>None\<close> is a
  loop that does not end or undefined behaviour inside the file system. Messages are left out.
\<close>

record 's file_api =
  f_open :: "bytes \<Rightarrow> 's \<Rightarrow> (bool \<times> 's) option"
  f_read :: "nat \<Rightarrow> 's \<Rightarrow> (int \<times> bytes \<times> 's) option"
  f_close :: "'s \<Rightarrow> 's"
  f_position :: "'s \<Rightarrow> u32"

text \<open>The operations of the FAT32 driver; \<open>f_open\<close> says whether the pointer is not NULL.\<close>

definition fat_api :: "'w blkdev \<Rightarrow> (fat32 \<times> 'w) file_api" where
  "fat_api dev = \<lparr>
     f_open = (\<lambda>path (f, w). do { (p, f, w) \<leftarrow> fat32_open dev path f w; Some (p \<noteq> None, f, w) }),
     f_read = (\<lambda>n (f, w). do { (r, bs, f, w) \<leftarrow> fat32_read dev (Some ()) True n f w; Some (r, bs, f, w) }),
     f_close = (\<lambda>(f, w). (fat32_close (Some ()) f, w)),
     f_position = (\<lambda>(f, w). file_position (open_file f))\<rparr>"

definition memset_local :: "u64 \<Rightarrow> u8 \<Rightarrow> u64 \<Rightarrow> memory \<Rightarrow> memory" where
  "memset_local dst v count m = (\<lambda>x. if x - dst < count then v else m x)"

definition ELFCLASS64 :: u8 where "ELFCLASS64 = 2"
definition ELFDATA2LSB :: u8 where "ELFDATA2LSB = 1"
definition ET_EXEC :: u16 where "ET_EXEC = 2"
definition EM_X86_64 :: u16 where "EM_X86_64 = 62"
definition PT_LOAD :: u32 where "PT_LOAD = 1"
definition ELF_MAX_PHDRS :: u16 where "ELF_MAX_PHDRS = 32"
definition ELF_SCRATCH_CHUNK :: nat where "ELF_SCRATCH_CHUNK = 128"
definition USER_LOAD_MIN :: u64 where "USER_LOAD_MIN = 0x00200000"
definition USER_LOAD_MAX :: u64 where "USER_LOAD_MAX = 0x10000000"

record elf64_ehdr =
  e_ident :: bytes
  e_type :: u16
  e_machine :: u16
  e_entry :: u64
  e_phoff :: u64
  e_phentsize :: u16
  e_phnum :: u16

record elf64_phdr =
  p_type :: u32
  p_offset :: u64
  p_vaddr :: u64
  p_filesz :: u64
  p_memsz :: u64

definition ehdr_of :: "bytes \<Rightarrow> elf64_ehdr" where
  "ehdr_of b = \<lparr>e_ident = take 16 b, e_type = get_le16 b 16, e_machine = get_le16 b 18, e_entry = get_le64 b 24,
     e_phoff = get_le64 b 32, e_phentsize = get_le16 b 54, e_phnum = get_le16 b 56\<rparr>"

definition phdr_of :: "bytes \<Rightarrow> elf64_phdr" where
  "phdr_of b = \<lparr>p_type = get_le32 b 0, p_offset = get_le64 b 8, p_vaddr = get_le64 b 16, p_filesz = get_le64 b 32,
     p_memsz = get_le64 b 40\<rparr>"

subsection \<open>Reading\<close>

text \<open>The bytes stored so far are the second result, also when the read fails.\<close>

function read_exact :: "'s file_api \<Rightarrow> nat \<Rightarrow> bytes \<Rightarrow> 's \<Rightarrow> (int \<times> bytes \<times> 's) option" where
  "read_exact api count out s =
     (if count = 0 then Some (0, out, s)
      else case f_read api count s of
          None \<Rightarrow> None
        | Some (n, bs, s) \<Rightarrow>
            if n \<le> 0 then Some (-1, out @ bs, s) else read_exact api (count - nat n) (out @ bs) s)"
  by pat_completeness auto
termination by (relation "measure (\<lambda>(api, count, out, s). count)") auto

function skip_bytes :: "'s file_api \<Rightarrow> nat \<Rightarrow> 's \<Rightarrow> (int \<times> 's) option" where
  "skip_bytes api count s =
     (if count = 0 then Some (0, s)
      else case f_read api (if ELF_SCRATCH_CHUNK < count then ELF_SCRATCH_CHUNK else count) s of
          None \<Rightarrow> None
        | Some (n, bs, s) \<Rightarrow> if n \<le> 0 then Some (-1, s) else skip_bytes api (count - nat n) s)"
  by pat_completeness auto
termination by (relation "measure (\<lambda>(api, count, s). count)") auto

declare read_exact.simps [simp del] skip_bytes.simps [simp del]

text \<open>The loop over the program headers: the headers read, or \<open>None\<close> for a failed read.\<close>

fun read_phdrs :: "'s file_api \<Rightarrow> nat \<Rightarrow> 's \<Rightarrow> (elf64_phdr list option \<times> 's) option" where
  "read_phdrs api 0 s = Some (Some [], s)"
| "read_phdrs api (Suc n) s =
     (case read_exact api 56 [] s of
        None \<Rightarrow> None
      | Some (r, bs, s) \<Rightarrow>
          if r \<noteq> 0 then Some (None, s)
          else case read_phdrs api n s of
              None \<Rightarrow> None
            | Some (ps, s) \<Rightarrow> Some (map_option (Cons (phdr_of bs)) ps, s))"

subsection \<open>Loading\<close>

definition elf_header_ok :: "elf64_ehdr \<Rightarrow> bool" where
  "elf_header_ok eh \<longleftrightarrow>
     e_ident eh ! 0 = 0x7F \<and> e_ident eh ! 1 = 69 \<and> e_ident eh ! 2 = 76 \<and> e_ident eh ! 3 = 70
     \<and> e_ident eh ! 4 = ELFCLASS64 \<and> e_ident eh ! 5 = ELFDATA2LSB
     \<and> e_type eh = ET_EXEC \<and> e_machine eh = EM_X86_64
     \<and> e_phentsize eh = 56 \<and> e_phnum eh \<noteq> 0 \<and> e_phnum eh \<le> ELF_MAX_PHDRS
     \<and> \<not> (e_entry eh < USER_LOAD_MIN \<or> USER_LOAD_MAX \<le> e_entry eh)"

definition segment_in_range :: "elf64_phdr \<Rightarrow> bool" where
  "segment_in_range p \<longleftrightarrow> \<not> p_memsz p < p_filesz p
     \<and> \<not> (p_vaddr p < USER_LOAD_MIN \<or> USER_LOAD_MAX \<le> p_vaddr p + p_memsz p)"

text \<open>
  A failed read leaves what it had stored in memory. Storing to an address that is not mapped
  is a page fault, from which the call does not return.
\<close>

definition load_segment :: "'s file_api \<Rightarrow> bytes \<Rightarrow> elf64_phdr \<Rightarrow> 's \<Rightarrow> memory \<Rightarrow> (int \<times> 's \<times> memory) option" where
  "load_segment api path p s m =
     (if \<not> segment_in_range p then Some (-1, s, m)
      else do {
        (opened, s) \<leftarrow> f_open api path s;
        if \<not> opened then Some (-1, s, m)
        else do {
          (r, s) \<leftarrow> skip_bytes api (unat (p_offset p)) s;
          if r \<noteq> 0 then Some (-1, f_close api s, m)
          else do {
            (r, bs, s) \<leftarrow> read_exact api (unat (p_filesz p)) [] s;
            if \<not> mapped (p_vaddr p) (length bs) then None
            else do {
              let m = mem_write (p_vaddr p) bs m;
              if r \<noteq> 0 then Some (-1, f_close api s, m)
              else if p_filesz p < p_memsz p
              then (if mapped (p_vaddr p + p_filesz p) (unat (p_memsz p - p_filesz p))
                    then Some (0, f_close api s, memset_local (p_vaddr p + p_filesz p) 0 (p_memsz p - p_filesz p) m)
                    else None)
              else Some (0, f_close api s, m)
            }
          }
        }
      })"

fun load_segments :: "'s file_api \<Rightarrow> bytes \<Rightarrow> elf64_phdr list \<Rightarrow> 's \<Rightarrow> memory \<Rightarrow> (int \<times> 's \<times> memory) option" where
  "load_segments api path [] s m = Some (0, s, m)"
| "load_segments api path (p # ps) s m =
     (if p_type p \<noteq> PT_LOAD then load_segments api path ps s m
      else case load_segment api path p s m of
          None \<Rightarrow> None
        | Some (r, s, m) \<Rightarrow> if r \<noteq> 0 then Some (-1, s, m) else load_segments api path ps s m)"

text \<open>The entry point is the second result, \<open>None\<close> where \<open>entry_out\<close> is left as it was.\<close>

definition elf_load_user_program ::
    "'s file_api \<Rightarrow> bytes option \<Rightarrow> bool \<Rightarrow> 's \<Rightarrow> memory \<Rightarrow> (int \<times> u64 option \<times> 's \<times> memory) option" where
  "elf_load_user_program api path have_out s m =
     (case path of
        None \<Rightarrow> Some (-1, None, s, m)
      | Some path \<Rightarrow>
          if \<not> have_out then Some (-1, None, s, m)
          else do {
            (opened, s) \<leftarrow> f_open api path s;
            if \<not> opened then Some (-1, None, s, m)
            else do {
              (r, bs, s) \<leftarrow> read_exact api 64 [] s;
              let eh = ehdr_of bs;
              if r \<noteq> 0 \<or> \<not> elf_header_ok eh \<or> e_phoff eh < ucast (f_position api s)
              then Some (-1, None, f_close api s, m)
              else do {
                (r, s) \<leftarrow> skip_bytes api (unat (e_phoff eh - ucast (f_position api s))) s;
                if r \<noteq> 0 then Some (-1, None, f_close api s, m)
                else do {
                  (phdrs, s) \<leftarrow> read_phdrs api (unat (e_phnum eh)) s;
                  case phdrs of
                    None \<Rightarrow> Some (-1, None, f_close api s, m)
                  | Some phdrs \<Rightarrow> do {
                      (r, s, m) \<leftarrow> load_segments api path phdrs (f_close api s) m;
                      Some (if r \<noteq> 0 then (-1, None, s, m) else (0, Some (e_entry eh), s, m))
                    }
                }
              }
            }
          })"

subsection \<open>The interface\<close>

text \<open>
  What the loader may rely on for a path: as long as the system is idle, opening gives the
  start of the content, a read gives the next bytes and moves on by as many, and closing
  makes it idle again.
\<close>

locale readable_file =
  fixes api :: "'s file_api"
    and path :: bytes
    and c :: bytes
    and idle :: "'s \<Rightarrow> bool"
    and at :: "nat \<Rightarrow> 's \<Rightarrow> bool"
  assumes open_file_ok: "idle s \<Longrightarrow> \<exists>s'. f_open api path s = Some (True, s') \<and> at 0 s'"
    and read_next: "at p s \<Longrightarrow>
      \<exists>s'. f_read api n s = Some (int (min n (length c - p)), seg p (min n (length c - p)) c, s')
        \<and> at (p + min n (length c - p)) s'"
    and close_ok: "at p s \<Longrightarrow> idle (f_close api s)"
    and at_position: "at p s \<Longrightarrow> p \<le> length c \<and> unat (f_position api s) = p"
begin

lemma read_exact_ok:
  assumes "at p s" "p + n \<le> length c"
  shows "\<exists>s'. read_exact api n out s = Some (0, out @ seg p n c, s') \<and> at (p + n) s'"
proof (cases "n = 0")
  case True
  with assms show ?thesis by (subst read_exact.simps) (simp add: seg_def)
next
  case False
  have m: "min n (length c - p) = n" using assms(2) by simp
  from read_next [OF assms(1), of n, unfolded m] obtain s' where
    s': "f_read api n s = Some (int n, seg p n c, s')" "at (p + n) s'" by blast
  have "read_exact api n out s = read_exact api 0 (out @ seg p n c) s'"
    by (subst read_exact.simps) (simp add: s'(1) False)
  moreover have "read_exact api 0 (out @ seg p n c) s' = Some (0, out @ seg p n c, s')"
    by (subst read_exact.simps) simp
  ultimately show ?thesis using s'(2) by simp
qed

text \<open>A read past the end fails.\<close>

lemma read_exact_short:
  assumes "at p s" "length c < p + n"
  shows "\<exists>bs s'. read_exact api n out s = Some (-1, bs, s') \<and> (\<exists>q. at q s')"
proof -
  define m where "m = length c - p"
  have p: "p \<le> length c" "m < n" using at_position [OF assms(1)] assms(2) by (auto simp: m_def)
  then have mm: "min n (length c - p) = m" by (simp add: m_def)
  from read_next [OF assms(1), of n, unfolded mm] obtain s' where
    s': "f_read api n s = Some (int m, seg p m c, s')" "at (p + m) s'" by blast
  show ?thesis
  proof (cases "m = 0")
    case True
    with s' p(2) show ?thesis by (subst read_exact.simps) auto
  next
    case False
    have "min (n - m) (length c - (p + m)) = 0" by (simp add: m_def)
    from read_next [OF s'(2), of "n - m", unfolded this] obtain s'' where
      s'': "f_read api (n - m) s' = Some (0, [], s'')" "at (p + m) s''" by (auto simp: seg_def)
    have "read_exact api n out s = read_exact api (n - m) (out @ seg p m c) s'"
      by (subst read_exact.simps) (use s'(1) p(2) False in simp)
    moreover have "read_exact api (n - m) (out @ seg p m c) s' = Some (-1, out @ seg p m c, s'')"
      by (subst read_exact.simps) (use s''(1) p(2) in simp)
    ultimately show ?thesis using s''(2) by auto
  qed
qed

lemma skip_ok: "at p s \<Longrightarrow> p + n \<le> length c \<Longrightarrow> \<exists>s'. skip_bytes api n s = Some (0, s') \<and> at (p + n) s'"
proof (induction n arbitrary: p s rule: less_induct)
  case (less n)
  show ?case
  proof (cases "n = 0")
    case True
    with less.prems show ?thesis by (subst skip_bytes.simps) simp
  next
    case False
    define k where "k = (if ELF_SCRATCH_CHUNK < n then ELF_SCRATCH_CHUNK else n)"
    have k: "0 < k" "k \<le> n" using False by (auto simp: k_def ELF_SCRATCH_CHUNK_def)
    then have m: "min k (length c - p) = k" using less.prems(2) by simp
    from read_next [OF less.prems(1), of k, unfolded m] obtain s' where
      s': "f_read api k s = Some (int k, seg p k c, s')" "at (p + k) s'" by blast
    have "n - k < n" "p + k + (n - k) \<le> length c" "p + k + (n - k) = p + n" using k less.prems(2) by auto
    with less.IH [OF _ s'(2), of "n - k"] obtain s'' where
      "skip_bytes api (n - k) s' = Some (0, s'')" "at (p + n) s''" by auto
    then show ?thesis
      by (subst skip_bytes.simps) (use s'(1) False k(1) in \<open>simp flip: k_def\<close>)
  qed
qed

lemma read_phdrs_ok:
  "at p s \<Longrightarrow> p + 56 * n \<le> length c \<Longrightarrow>
    \<exists>s'. read_phdrs api n s = Some (Some (map (\<lambda>i. phdr_of (seg (p + 56 * i) 56 c)) [0..<n]), s') \<and> at (p + 56 * n) s'"
proof (induction n arbitrary: p s)
  case (Suc n)
  have "p + 56 \<le> length c" using Suc.prems(2) by simp
  from read_exact_ok [OF Suc.prems(1) this, of "[]"] obtain s1 where
    r: "read_exact api 56 [] s = Some (0, seg p 56 c, s1)" "at (p + 56) s1" by auto
  have "p + 56 + 56 * n \<le> length c" using Suc.prems(2) by simp
  from Suc.IH [OF r(2) this] obtain s' where
    s': "read_phdrs api n s1 = Some (Some (map (\<lambda>i. phdr_of (seg (p + 56 + 56 * i) 56 c)) [0..<n]), s')"
    "at (p + 56 + 56 * n) s'" by blast
  have "map (\<lambda>i. phdr_of (seg (p + 56 * i) 56 c)) [0..<Suc n]
      = phdr_of (seg p 56 c) # map (\<lambda>i. phdr_of (seg (p + 56 + 56 * i) 56 c)) [0..<n]"
    by (simp add: upt_conv_Cons map_Suc_upt [symmetric] add.assoc del: upt_Suc)
  with r s' show ?case by (simp add: add.assoc)
qed simp

end

end
