(* ===== verification/Elf_Props.thy ===== *)
theory Elf_Props
  imports Elf Fat_Props
begin

text \<open>
  What the ELF loader does to memory: the lemmas under the interface, its interpretation by
  the FAT32 driver on the PIO drive, and the properties of loading a program from disk.
\<close>

subsection \<open>Segments in memory\<close>

definition place_segment :: "bytes \<Rightarrow> elf64_phdr \<Rightarrow> memory \<Rightarrow> memory" where
  "place_segment c p m =
     (let m = mem_write (p_vaddr p) (seg (unat (p_offset p)) (unat (p_filesz p)) c) m
      in if p_filesz p < p_memsz p then memset_local (p_vaddr p + p_filesz p) 0 (p_memsz p - p_filesz p) m else m)"

definition elf_phdrs :: "bytes \<Rightarrow> elf64_phdr list" where
  "elf_phdrs c = map (\<lambda>i. phdr_of (seg (unat (e_phoff (ehdr_of (take 64 c))) + 56 * i) 56 c))
     [0..<unat (e_phnum (ehdr_of (take 64 c)))]"

definition elf_segments :: "bytes \<Rightarrow> elf64_phdr list" where
  "elf_segments c = filter (\<lambda>p. p_type p = PT_LOAD) (elf_phdrs c)"

text \<open>The file is a program the loader takes: a valid header, and tables and segments inside the file.\<close>

definition elf_file_ok :: "bytes \<Rightarrow> bool" where
  "elf_file_ok c \<longleftrightarrow> (let eh = ehdr_of (take 64 c) in
     64 \<le> length c \<and> elf_header_ok eh \<and> 64 \<le> unat (e_phoff eh) \<and> unat (e_phoff eh) + 56 * unat (e_phnum eh) \<le> length c
     \<and> (\<forall>p \<in> set (elf_segments c). segment_in_range p \<and> unat (p_offset p) + unat (p_filesz p) \<le> length c))"

text \<open>The range of a segment does not run past the end of the address space.\<close>

definition no_wrap :: "elf64_phdr \<Rightarrow> bool" where
  "no_wrap p \<longleftrightarrow> unat (p_vaddr p) + unat (p_memsz p) < 2 ^ 64"

definition segments_apart :: "elf64_phdr list \<Rightarrow> bool" where
  "segments_apart ps \<longleftrightarrow> (\<forall>i j. i < j \<longrightarrow> j < length ps \<longrightarrow>
     unat (p_vaddr (ps ! i)) + unat (p_memsz (ps ! i)) \<le> unat (p_vaddr (ps ! j))
     \<or> unat (p_vaddr (ps ! j)) + unat (p_memsz (ps ! j)) \<le> unat (p_vaddr (ps ! i)))"

text \<open>Where a segment lies, its bytes are the file's and then zeros; elsewhere nothing changes.\<close>

lemma place_value:
  assumes "segment_in_range p" "no_wrap p" "unat (p_offset p) + unat (p_filesz p) \<le> length c"
  shows "place_segment c p m x =
    (if unat (p_vaddr p) \<le> unat x \<and> unat x < unat (p_vaddr p) + unat (p_memsz p)
     then if unat x < unat (p_vaddr p) + unat (p_filesz p) then c ! (unat (p_offset p) + (unat x - unat (p_vaddr p))) else 0
     else m x)"
proof -
  let ?a = "unat (p_vaddr p)" let ?f = "unat (p_filesz p)" let ?s = "unat (p_memsz p)"
  have fs: "?f \<le> ?s" using assms(1) by (simp add: segment_in_range_def word_less_nat_alt)
  have w: "?a + ?s < 2 ^ 64" using assms(2) by (simp add: no_wrap_def)
  have x: "unat x < 2 ^ 64" using unsigned_less [of x, where 'a = nat] by simp
  have l: "length (seg (unat (p_offset p)) ?f c) = ?f" using assms(3) by simp
  have u: "unat (p_vaddr p + p_filesz p) = ?a + ?f" "unat (p_memsz p - p_filesz p) = ?s - ?f"
    using w fs by (simp_all add: unat_word_ariths unat_sub word_le_nat_alt)
  have data: "unat (x - p_vaddr p) < ?f \<longleftrightarrow> ?a \<le> unat x \<and> unat x < ?a + ?f"
    using x w fs by (auto simp: unat_diff_cases word_le_nat_alt)
  have bss: "x - (p_vaddr p + p_filesz p) < p_memsz p - p_filesz p \<longleftrightarrow> ?a + ?f \<le> unat x \<and> unat x < ?a + ?s"
    using x w fs by (auto simp: word_less_nat_alt unat_diff_cases word_le_nat_alt u)
  have idx: "?a \<le> unat x \<Longrightarrow> unat (x - p_vaddr p) = unat x - ?a" by (simp add: unat_diff_cases word_le_nat_alt)
  show ?thesis
    using data bss idx l fs assms(3)
    by (auto simp: place_segment_def Let_def mem_write_def memset_local_def word_less_nat_alt)
qed

lemma range_window:
  assumes "segment_in_range p" "no_wrap p"
  shows "0x200000 \<le> unat (p_vaddr p)" "unat (p_vaddr p) + unat (p_memsz p) < 0x10000000"
proof -
  have "unat (p_vaddr p + p_memsz p) = unat (p_vaddr p) + unat (p_memsz p)"
    using assms(2) by (simp add: no_wrap_def unat_word_ariths)
  then show "0x200000 \<le> unat (p_vaddr p)" "unat (p_vaddr p) + unat (p_memsz p) < 0x10000000"
    using assms(1) by (auto simp: segment_in_range_def USER_LOAD_MIN_def USER_LOAD_MAX_def word_less_nat_alt word_le_nat_alt)
qed

definition seg_ok :: "bytes \<Rightarrow> elf64_phdr \<Rightarrow> bool" where
  "seg_ok c p \<longleftrightarrow> segment_in_range p \<and> no_wrap p \<and> unat (p_offset p) + unat (p_filesz p) \<le> length c"

text \<open>A segment in range is mapped unless its end wraps around.\<close>

lemma segment_mapped:
  assumes "segment_in_range p"
  shows "mapped (p_vaddr p) (unat (p_filesz p)) \<and> (p_filesz p < p_memsz p \<longrightarrow> mapped (p_vaddr p + p_filesz p) (unat (p_memsz p - p_filesz p)))
    \<longleftrightarrow> no_wrap p"
proof -
  let ?a = "unat (p_vaddr p)" let ?f = "unat (p_filesz p)" let ?s = "unat (p_memsz p)"
  have fs: "?f \<le> ?s" using assms by (simp add: segment_in_range_def word_less_nat_alt)
  have b: "?a < 2 ^ 64" "?s < 2 ^ 64"
    using unsigned_less [of "p_vaddr p", where 'a = nat] unsigned_less [of "p_memsz p", where 'a = nat] by simp_all
  have d: "unat (p_memsz p - p_filesz p) = ?s - ?f" using fs by (simp add: unat_sub word_le_nat_alt)
  show ?thesis
  proof (cases "no_wrap p")
    case True
    note w = range_window [OF assms True]
    then have "unat (p_vaddr p + p_filesz p) = ?a + ?f" using fs by (intro unat_add_small) simp
    with w fs d True show ?thesis by (auto simp: mapped_def)
  next
    case False
    then have w: "2 ^ 64 \<le> ?a + ?s" by (simp add: no_wrap_def)
    have "p_filesz p < p_memsz p \<and> \<not> mapped (p_vaddr p + p_filesz p) (unat (p_memsz p - p_filesz p))"
      if m: "mapped (p_vaddr p) ?f"
    proof -
      have u: "?a + ?f < 2 ^ 64" using m b by (auto simp: mapped_def)
      then have "unat (p_vaddr p + p_filesz p) = ?a + ?f" by (intro unat_add_small) simp
      with u w fs d show ?thesis by (auto simp: mapped_def word_less_nat_alt)
    qed
    with False show ?thesis by blast
  qed
qed

lemma fold_outside:
  assumes "\<forall>p \<in> set ps. seg_ok c p \<and> \<not> (unat (p_vaddr p) \<le> unat x \<and> unat x < unat (p_vaddr p) + unat (p_memsz p))"
  shows "fold (place_segment c) ps m x = m x"
  using assms by (induction ps arbitrary: m) (auto simp: place_value seg_ok_def)

lemma fold_inside:
  assumes "\<forall>p \<in> set ps. seg_ok c p" "segments_apart ps" "p \<in> set ps"
    "unat (p_vaddr p) \<le> unat x" "unat x < unat (p_vaddr p) + unat (p_memsz p)"
  shows "fold (place_segment c) ps m x =
    (if unat x < unat (p_vaddr p) + unat (p_filesz p) then c ! (unat (p_offset p) + (unat x - unat (p_vaddr p))) else 0)"
proof -
  from assms(3) obtain i where i: "i < length ps" "p = ps ! i" by (auto simp: in_set_conv_nth)
  have ps: "ps = take i ps @ p # drop (Suc i) ps" using i by (simp add: id_take_nth_drop [symmetric])
  let ?m = "fold (place_segment c) (take i ps) m"
  have "fold (place_segment c) ps m x = fold (place_segment c) (drop (Suc i) ps) (place_segment c p ?m) x"
    by (subst ps) simp
  also have "\<dots> = place_segment c p ?m x"
  proof (rule fold_outside, rule ballI)
    fix q assume "q \<in> set (drop (Suc i) ps)"
    then obtain j where "j < length (drop (Suc i) ps)" "q = drop (Suc i) ps ! j" by (auto simp only: in_set_conv_nth)
    then have j: "Suc i + j < length ps" "q = ps ! (Suc i + j)" by simp_all
    then have "q \<in> set ps" by simp
    moreover have "unat (p_vaddr p) + unat (p_memsz p) \<le> unat (p_vaddr q) \<or> unat (p_vaddr q) + unat (p_memsz q) \<le> unat (p_vaddr p)"
      using assms(2) j i(2) unfolding segments_apart_def by (metis less_add_Suc1 add_Suc)
    ultimately show "seg_ok c q \<and> \<not> (unat (p_vaddr q) \<le> unat x \<and> unat x < unat (p_vaddr q) + unat (p_memsz q))"
      using assms(1,4,5) by auto
  qed
  finally show ?thesis using place_value [of p c ?m x] assms by (simp add: seg_ok_def)
qed

subsection \<open>Loading under the interface\<close>

context readable_file
begin

lemma load_segment_reads:
  assumes "idle s" "segment_in_range p" "unat (p_offset p) + unat (p_filesz p) \<le> length c"
  shows "\<exists>s'. load_segment api path p s m = (if mapped (p_vaddr p) (unat (p_filesz p))
      \<and> (p_filesz p < p_memsz p \<longrightarrow> mapped (p_vaddr p + p_filesz p) (unat (p_memsz p - p_filesz p)))
      then Some (0, s', place_segment c p m) else None) \<and> idle s'"
proof -
  from open_file_ok [OF assms(1)] obtain s1 where s1: "f_open api path s = Some (True, s1)" "at 0 s1" by blast
  from skip_ok [OF s1(2), of "unat (p_offset p)"] assms(3) obtain s2 where
    s2: "skip_bytes api (unat (p_offset p)) s1 = Some (0, s2)" "at (unat (p_offset p)) s2" by auto
  from read_exact_ok [OF s2(2) assms(3), of "[]"] obtain s3 where
    s3: "read_exact api (unat (p_filesz p)) [] s2 = Some (0, seg (unat (p_offset p)) (unat (p_filesz p)) c, s3)"
    "at (unat (p_offset p) + unat (p_filesz p)) s3" by auto
  have "length (seg (unat (p_offset p)) (unat (p_filesz p)) c) = unat (p_filesz p)" using assms(3) by simp
  with s1(1) s2(1) s3(1) close_ok [OF s3(2)] assms(2) show ?thesis
    by (intro exI [of _ "f_close api s3"]) (simp add: load_segment_def place_segment_def Let_def)
qed

lemma load_segment_ok:
  assumes "idle s" "seg_ok c p"
  shows "\<exists>s'. load_segment api path p s m = Some (0, s', place_segment c p m) \<and> idle s'"
  using load_segment_reads [of s p m] segment_mapped [of p] assms by (auto simp: seg_ok_def)

lemma load_segment_faults:
  assumes "idle s" "segment_in_range p" "unat (p_offset p) + unat (p_filesz p) \<le> length c" "\<not> no_wrap p"
  shows "load_segment api path p s m = None"
  using load_segment_reads [OF assms(1-3), of m] segment_mapped [OF assms(2)] assms(4) by auto

text \<open>The segments in the order of the file, up to the first that runs out of the mapped memory.\<close>

lemma load_segments_run:
  assumes "idle s" "\<forall>p \<in> set ps. p_type p = PT_LOAD \<longrightarrow> segment_in_range p \<and> unat (p_offset p) + unat (p_filesz p) \<le> length c"
  defines "qs \<equiv> filter (\<lambda>p. p_type p = PT_LOAD) ps"
  shows "\<exists>s'. load_segments api path ps s m
    = (if \<forall>p \<in> set qs. no_wrap p then Some (0, s', fold (place_segment c) qs m) else None) \<and> idle s'"
  using assms(1,2) unfolding qs_def
proof (induction ps arbitrary: s m)
  case (Cons p ps)
  show ?case
  proof (cases "p_type p = PT_LOAD")
    case True
    with Cons.prems(2) have r: "segment_in_range p" "unat (p_offset p) + unat (p_filesz p) \<le> length c" by auto
    show ?thesis
    proof (cases "no_wrap p")
      case True
      with r have "seg_ok c p" by (simp add: seg_ok_def)
      from load_segment_ok [OF Cons.prems(1) this, of m] obtain s1 where
        "load_segment api path p s m = Some (0, s1, place_segment c p m)" "idle s1" by blast
      with True \<open>p_type p = PT_LOAD\<close> Cons.IH [of s1 "place_segment c p m"] Cons.prems(2) show ?thesis by auto
    next
      case False
      with load_segment_faults [OF Cons.prems(1) r False, of m] \<open>p_type p = PT_LOAD\<close> Cons.prems(1) show ?thesis by auto
    qed
  next
    case False
    with Cons.IH [of s m] Cons.prems show ?thesis by auto
  qed
qed auto

lemma elf_load_run:
  assumes "idle s" "elf_file_ok c"
  shows "\<exists>s'. elf_load_user_program api (Some path) True s m
    = (if \<forall>p \<in> set (elf_segments c). no_wrap p
       then Some (0, Some (e_entry (ehdr_of (take 64 c))), s', fold (place_segment c) (elf_segments c) m) else None) \<and> idle s'"
proof -
  let ?eh = "ehdr_of (take 64 c)"
  have ok: "64 \<le> length c" "elf_header_ok ?eh" "64 \<le> unat (e_phoff ?eh)" "unat (e_phoff ?eh) + 56 * unat (e_phnum ?eh) \<le> length c"
    "\<forall>p \<in> set (elf_segments c). segment_in_range p \<and> unat (p_offset p) + unat (p_filesz p) \<le> length c"
    using assms(2) by (simp_all add: elf_file_ok_def Let_def)
  from open_file_ok [OF assms(1)] obtain s1 where s1: "f_open api path s = Some (True, s1)" "at 0 s1" by blast
  from read_exact_ok [OF s1(2), of 64 "[]"] ok(1) obtain s2 where
    s2: "read_exact api 64 [] s1 = Some (0, take 64 c, s2)" "at 64 s2" by (auto simp: seg_def)
  have pos: "unat (ucast (f_position api s2) :: u64) = 64" using at_position [OF s2(2)] by (simp add: unat_ucast_up)
  have off: "\<not> e_phoff ?eh < ucast (f_position api s2)" "unat (e_phoff ?eh - ucast (f_position api s2)) = unat (e_phoff ?eh) - 64"
    using ok(3) pos by (simp_all add: word_less_nat_alt unat_sub word_le_nat_alt)
  from skip_ok [OF s2(2), of "unat (e_phoff ?eh) - 64"] ok(3,4) obtain s3 where
    s3: "skip_bytes api (unat (e_phoff ?eh) - 64) s2 = Some (0, s3)" "at (unat (e_phoff ?eh)) s3" by auto
  from read_phdrs_ok [OF s3(2) ok(4)] obtain s4 where
    s4: "read_phdrs api (unat (e_phnum ?eh)) s3 = Some (Some (elf_phdrs c), s4)" "at (unat (e_phoff ?eh) + 56 * unat (e_phnum ?eh)) s4"
    by (auto simp: elf_phdrs_def)
  have "\<forall>p \<in> set (elf_phdrs c). p_type p = PT_LOAD \<longrightarrow> segment_in_range p \<and> unat (p_offset p) + unat (p_filesz p) \<le> length c"
    using ok(5) by (simp add: elf_segments_def)
  from load_segments_run [OF close_ok [OF s4(2)] this, of m] obtain s5 where
    "load_segments api path (elf_phdrs c) (f_close api s4) m = (if \<forall>p \<in> set (elf_segments c). no_wrap p
       then Some (0, s5, fold (place_segment c) (elf_segments c) m) else None)" "idle s5"
    unfolding elf_segments_def by blast
  with s1(1) s2(1) ok(2) off s3(1) s4(1) show ?thesis
    by (intro exI [of _ s5]) (simp add: elf_load_user_program_def Let_def)
qed

lemma elf_load_ok:
  assumes "idle s" "elf_file_ok c" "\<forall>p \<in> set (elf_segments c). no_wrap p"
  shows "\<exists>s'. elf_load_user_program api (Some path) True s m
    = Some (0, Some (e_entry (ehdr_of (take 64 c))), s', fold (place_segment c) (elf_segments c) m) \<and> idle s'"
  using elf_load_run [OF assms(1,2), of m] assms(3) by auto

end

subsection \<open>The file system behind the interface\<close>

definition elf_idle :: "bytes \<Rightarrow> u32 list \<Rightarrow> bytes \<Rightarrow> disk \<Rightarrow> fat32 \<times> pio \<Rightarrow> bool" where
  "elf_idle path ch c D s \<longleftrightarrow> (case s of (f, d) \<Rightarrow>
     vol.good (fat_drive f) (ata_dev pio_ports) f d \<and> fs_mounted f \<and> length (file_cluster_buf f) = 4096
     \<and> pio_disk d = D \<and> holds_file path ch c f D)"

definition elf_at :: "bytes \<Rightarrow> u32 list \<Rightarrow> bytes \<Rightarrow> disk \<Rightarrow> nat \<Rightarrow> fat32 \<times> pio \<Rightarrow> bool" where
  "elf_at path ch c D p s \<longleftrightarrow> elf_idle path ch c D s \<and> file_at (fst s) D ch c p"

lemma elf_idle_keeps:
  assumes "elf_idle path ch c D (f, d)" "keeps f f'" "vol.good (fat_drive f) (ata_dev pio_ports) f' d'" "pio_disk d' = D"
  shows "elf_idle path ch c D (f', d')"
proof -
  have "fat_drive f' = fat_drive f" using assms(2) by (simp add: keeps_def fat_drive_def)
  with assms holds_file_keeps [of path ch c f D f'] show ?thesis by (simp add: elf_idle_def keeps_def)
qed

interpretation elf_fat: readable_file "fat_api (ata_dev pio_ports)" path c "elf_idle path ch c D" "elf_at path ch c D"
  for path ch c D
proof
  fix s assume "elf_idle path ch c D s"
  moreover obtain f d where s: "s = (f, d)" by fastforce
  ultimately have i: "elf_idle path ch c D (f, d)" by simp
  then have g: "vol.good (fat_drive f) (ata_dev pio_ports) f d" "fs_mounted f" "holds_file path ch c f (pio_disk d)" "pio_disk d = D"
    by (simp_all add: elf_idle_def)
  from vol.open_holds [OF g(1-3)] obtain f' d' where
    o: "fat32_open (ata_dev pio_ports) path f d = Some (Some (), f', d')" "vol.good (fat_drive f) (ata_dev pio_ports) f' d'"
    "pio_disk d' = pio_disk d" "keeps f f'" "file_at f' (pio_disk d) ch c 0" by blast
  with elf_idle_keeps [OF i o(4,2)] g(4) s
  show "\<exists>s'. f_open (fat_api (ata_dev pio_ports)) path s = Some (True, s') \<and> elf_at path ch c D 0 s'"
    by (simp add: fat_api_def elf_at_def)
next
  fix p s n assume "elf_at path ch c D p s"
  moreover obtain f d where s: "s = (f, d)" by fastforce
  ultimately have i: "elf_idle path ch c D (f, d)" "file_at f D ch c p" by (simp_all add: elf_at_def)
  then have g: "vol.good (fat_drive f) (ata_dev pio_ports) f d" "fs_mounted f" "length (file_cluster_buf f) = 4096" "pio_disk d = D"
    by (simp_all add: elf_idle_def)
  from vol.read_file_ok [OF g(1-3), of ch c p n] i(2) g(4) obtain f' d' where
    r: "fat32_read (ata_dev pio_ports) (Some ()) True n f d
        = Some (int (min n (length c - p)), seg p (min n (length c - p)) c, f', d')"
    "vol.good (fat_drive f) (ata_dev pio_ports) f' d'" "pio_disk d' = D" "keeps f f'" "file_at f' D ch c (p + min n (length c - p))"
    by auto
  with elf_idle_keeps [OF i(1) r(4,2,3)] s
  show "\<exists>s'. f_read (fat_api (ata_dev pio_ports)) n s = Some (int (min n (length c - p)), seg p (min n (length c - p)) c, s')
      \<and> elf_at path ch c D (p + min n (length c - p)) s'"
    by (simp add: fat_api_def elf_at_def)
next
  fix p s assume "elf_at path ch c D p s"
  moreover obtain f d where s: "s = (f, d)" by fastforce
  ultimately have i: "elf_idle path ch c D (f, d)" by (simp add: elf_at_def)
  let ?f = "fat32_close (Some ()) f"
  have k: "keeps f ?f" by (simp add: keeps_def fat32_close_def)
  have g: "vol.good (fat_drive f) (ata_dev pio_ports) f d" "pio_disk d = D" using i by (simp_all add: elf_idle_def)
  have "vol.good (fat_drive f) (ata_dev pio_ports) ?f d"
    by (rule vol.good_keeps [OF g(1)]) (simp_all add: fat32_close_def)
  from elf_idle_keeps [OF i k this g(2)] show "elf_idle path ch c D (f_close (fat_api (ata_dev pio_ports)) s)"
    by (simp add: fat_api_def s)
next
  fix p s assume "elf_at path ch c D p s"
  then show "p \<le> length c \<and> unat (f_position (fat_api (ata_dev pio_ports)) s) = p"
    by (cases s) (auto simp: elf_at_def file_at_def fat_api_def unat_of_nat)
qed

lemma on_disk_idle: "fat_on_disk f d \<Longrightarrow> holds_file path ch c f (pio_disk d) \<Longrightarrow> elf_idle path ch c (pio_disk d) (f, d)"
  using fat_diskD [of f d] by (simp add: elf_idle_def)

lemma loads_segments:
  assumes "fat_on_disk f d" "holds_file path ch c f (pio_disk d)" "elf_file_ok c"
    and "\<forall>p \<in> set (elf_segments c). no_wrap p" "segments_apart (elf_segments c)"
  shows "\<exists>f' d' m'. elf_load_user_program (fat_api (ata_dev pio_ports)) (Some path) True (f, d) m
      = Some (0, Some (e_entry (ehdr_of (take 64 c))), (f', d'), m') \<and> pio_disk d' = pio_disk d
    \<and> (\<forall>x. unat x < 0x200000 \<or> 0x10000000 \<le> unat x \<longrightarrow> m' x = m x)
    \<and> (\<forall>x. (\<forall>p \<in> set (elf_segments c). unat (p_memsz p) \<le> unat (x - p_vaddr p)) \<longrightarrow> m' x = m x)
    \<and> (\<forall>p \<in> set (elf_segments c). \<forall>j < unat (p_memsz p). m' (p_vaddr p + of_nat j) =
        (if j < unat (p_filesz p) then c ! (unat (p_offset p) + j) else 0))"
proof -
  let ?m = "fold (place_segment c) (elf_segments c) m"
  from elf_fat.elf_load_ok [OF on_disk_idle [OF assms(1,2)] assms(3,4), of m] obtain f' d' where
    l: "elf_load_user_program (fat_api (ata_dev pio_ports)) (Some path) True (f, d) m
      = Some (0, Some (e_entry (ehdr_of (take 64 c))), (f', d'), ?m)" "elf_idle path ch c (pio_disk d) (f', d')" by fastforce
  have ok: "seg_ok c p" if "p \<in> set (elf_segments c)" for p
    using assms(3,4) that by (auto simp: elf_file_ok_def Let_def seg_ok_def)
  have win: "0x200000 \<le> unat (p_vaddr p)" "unat (p_vaddr p) + unat (p_memsz p) < 0x10000000" if "p \<in> set (elf_segments c)" for p
    using range_window [of p] ok [OF that] by (simp_all add: seg_ok_def)
  have "?m x = m x" if "unat x < 0x200000 \<or> 0x10000000 \<le> unat x" for x
    by (rule fold_outside) (use ok win that in fastforce)
  moreover have "?m x = m x" if x: "\<forall>p \<in> set (elf_segments c). unat (p_memsz p) \<le> unat (x - p_vaddr p)" for x
    by (rule fold_outside) (use ok x in \<open>fastforce simp: unat_diff_cases word_le_nat_alt\<close>)
  moreover have "?m (p_vaddr p + of_nat j) = (if j < unat (p_filesz p) then c ! (unat (p_offset p) + j) else 0)"
    if p: "p \<in> set (elf_segments c)" and j: "j < unat (p_memsz p)" for p j
  proof -
    have "unat (p_vaddr p + of_nat j) = unat (p_vaddr p) + j"
      using win [OF p] j by (simp add: unat_word_ariths unat_of_nat)
    then show ?thesis using fold_inside [of "elf_segments c" c p "p_vaddr p + of_nat j" m] ok assms(5) p j by simp
  qed
  ultimately show ?thesis using l by (simp add: elf_idle_def)
qed

subsection \<open>Properties\<close>

text \<open>C16: a program is loaded as its headers say. If a path names a file the loader takes, whose
  loadable segments do not wrap around and do not overlap, loading succeeds and gives the
  entry point of the header; every segment's memory holds its bytes of the file followed by
  zeros up to its memory size; no byte below 2 MiB or from 256 MiB on changes, and nothing
  on disk.\<close>

theorem elf_loads_segments:
  assumes "fat_on_disk f d" "holds_file path ch c f (pio_disk d)" "elf_file_ok c"
    and "\<forall>p \<in> set (elf_segments c). no_wrap p" "segments_apart (elf_segments c)"
  shows "\<exists>f' d' m'. elf_load_user_program (fat_api (ata_dev pio_ports)) (Some path) True (f, d) m
      = Some (0, Some (e_entry (ehdr_of (take 64 c))), (f', d'), m') \<and> pio_disk d' = pio_disk d
    \<and> (\<forall>x. unat x < 0x200000 \<or> 0x10000000 \<le> unat x \<longrightarrow> m' x = m x)
    \<and> (\<forall>p \<in> set (elf_segments c). \<forall>j < unat (p_memsz p). m' (p_vaddr p + of_nat j) =
        (if j < unat (p_filesz p) then c ! (unat (p_offset p) + j) else 0))"
  using loads_segments [OF assms, of m] by blast

text \<open>A program of one segment, three bytes of the file and five zeros.\<close>

definition sample_elf :: "u64 \<Rightarrow> u64 \<Rightarrow> bytes" where
  "sample_elf vaddr memsz = [0x7F, 69, 76, 70, 2, 1] @ replicate 10 0 @ le16 2 @ le16 62 @ le32 1 @ le64 0x400000 @ le64 64 @ le64 0
     @ le32 0 @ le16 64 @ le16 56 @ le16 1 @ le16 0 @ le16 0 @ le16 0
     @ le32 1 @ le32 7 @ le64 120 @ le64 vaddr @ le64 0 @ le64 3 @ le64 memsz @ le64 0 @ [1, 2, 3]"

definition sample_phdr :: "u64 \<Rightarrow> u64 \<Rightarrow> elf64_phdr" where
  "sample_phdr vaddr memsz = \<lparr>p_type = 1, p_offset = 120, p_vaddr = vaddr, p_filesz = 3, p_memsz = memsz\<rparr>"

lemma sample_program:
  "elf_file_ok (sample_elf 0x400000 8)" "elf_segments (sample_elf 0x400000 8) = [sample_phdr 0x400000 8]"
  "length (sample_elf 0x400000 8) = 123"
  by code_simp+

lemma sample_no_wrap: "no_wrap (sample_phdr 0x400000 8)" "segments_apart [p]"
  by (simp_all add: no_wrap_def sample_phdr_def segments_apart_def)

theorem elf_loads_segments_witness:
  "\<exists>f' d' m'. elf_load_user_program (fat_api (ata_dev pio_ports)) (Some sample_name) True
      (sample_fat, sample_holding (sample_elf 0x400000 8)) (\<lambda>x. 9) = Some (0, Some 0x400000, (f', d'), m')
    \<and> m' 0x400002 = 3 \<and> m' 0x400003 = 0 \<and> m' 0x1000 = 9"
proof -
  let ?c = "sample_elf 0x400000 8"
  have "length ?c \<le> 512" by (simp add: sample_program)
  note h = sample_holds [OF this]
  have e: "e_entry (ehdr_of (take 64 ?c)) = 0x400000" by code_simp
  have b: "?c ! 122 = 3" by code_simp
  have w: "\<forall>p \<in> set (elf_segments ?c). no_wrap p" "segments_apart (elf_segments ?c)"
    by (simp_all add: sample_program sample_no_wrap)
  from elf_loads_segments [OF sample_holding_on_disk h sample_program(1) w, of "\<lambda>x. 9"] obtain f' d' m' where
    l: "elf_load_user_program (fat_api (ata_dev pio_ports)) (Some sample_name) True (sample_fat, sample_holding ?c) (\<lambda>x. 9)
      = Some (0, Some 0x400000, (f', d'), m')"
    "\<And>x. unat x < 0x200000 \<or> 0x10000000 \<le> unat x \<Longrightarrow> m' x = 9"
    "\<And>p j. p \<in> set (elf_segments ?c) \<Longrightarrow> j < unat (p_memsz p) \<Longrightarrow>
        m' (p_vaddr p + of_nat j) = (if j < unat (p_filesz p) then ?c ! (unat (p_offset p) + j) else 0)"
    unfolding e by blast
  have "m' 0x400002 = 3" using l(3) [of "sample_phdr 0x400000 8" 2] b by (simp add: sample_program sample_phdr_def)
  moreover have "m' 0x400003 = 0" using l(3) [of "sample_phdr 0x400000 8" 3] by (simp add: sample_program sample_phdr_def)
  moreover have "m' 0x1000 = 9" using l(2) [of "0x1000"] by simp
  ultimately show ?thesis using l(1) by blast
qed


lemma sample_wrapping:
  "elf_file_ok (sample_elf 0x400000 0xFFFFFFFFFFFF0000)"
  "elf_segments (sample_elf 0x400000 0xFFFFFFFFFFFF0000) = [sample_phdr 0x400000 0xFFFFFFFFFFFF0000]"
  "length (sample_elf 0x400000 0xFFFFFFFFFFFF0000) = 123"
  "e_entry (ehdr_of (take 64 (sample_elf 0x400000 0xFFFFFFFFFFFF0000))) = 0x400000"
  by code_simp+


end
