(* ===== verification/Console_Events.thy ===== *)
theory Console_Events
  imports Printf
begin

text \<open>
  What a function sends to the console, as a list of the calls it makes: \<open>printf\<close> with its
  arguments, the raw characters of \<open>sh_print_padded\<close>, the colours, the cursor, the scroll
  view and the two log switches. \<open>perform\<close> carries a call out on the console, so a list of
  events stands for its effect there; the models of the PCI scan, the network and the shell
  produce such lists.
\<close>

datatype event =
    Say bytes "parg list"
  | Padded bytes int
  | Get_Color
  | Set_Color u8 u8
  | Restore_Color
  | Flush
  | Clear
  | Scroll_Up int
  | Scroll_Down int
  | Scroll_Reset
  | Log_Enabled int
  | Print_Enabled int

text \<open>A \<open>printf\<close> of a constant format, without and with a newline at its end.\<close>

definition say :: "string \<Rightarrow> parg list \<Rightarrow> event" where
  "say fmt args = Say (ascii fmt) args"

definition sayln :: "string \<Rightarrow> parg list \<Rightarrow> event" where
  "sayln fmt args = Say (ascii fmt @ [10]) args"

definition newline :: event where
  "newline = Say [10] []"

definition int_arg :: "nat \<Rightarrow> parg" where
  "int_arg n = AInt (of_nat n)"

definition byte_arg :: "u8 \<Rightarrow> parg" where
  "byte_arg b = AInt (ucast b)"

text \<open>A value passed for a conversion that reads an unsigned \<open>int\<close>.\<close>

definition hex_arg :: "'a::len word \<Rightarrow> parg" where
  "hex_arg v = AUInt (ucast v)"

text \<open>\<open>prev\<close> is the local variable in which the callers keep the colour.\<close>

fun perform :: "'w ports \<Rightarrow> event \<Rightarrow> console \<times> u8 \<times> 'w \<Rightarrow> (console \<times> u8 \<times> 'w) option" where
  "perform io (Say fmt args) (c, prev, w) = map_option (\<lambda>(c, w). (c, prev, w)) (printf io fmt args (c, w))"
| "perform io (Padded s width) (c, prev, w) =
     (case fold (put_char io) (c_str s @ replicate (nat (width - int (length (c_str s)))) 32) (c, w) of
        (c, w) \<Rightarrow> Some (c, prev, w))"
| "perform io Get_Color (c, prev, w) = Some (c, vga_get_color (con_vga c), w)"
| "perform io (Set_Color fg bg) (c, prev, w) = Some (c\<lparr>con_vga := vga_set_color fg bg (con_vga c)\<rparr>, prev, w)"
| "perform io Restore_Color (c, prev, w) =
     Some (c\<lparr>con_vga := vga_set_color (prev AND 0x0F) (drop_bit 4 prev AND 0x0F) (con_vga c)\<rparr>, prev, w)"
| "perform io Flush (c, prev, w) = Some (c, prev, vga_flush io (con_vga c) w)"
| "perform io Clear (c, prev, w) =
     (case vga_clear io (con_vga c) w of (v, w) \<Rightarrow> Some (c\<lparr>con_vga := v\<rparr>, prev, w))"
| "perform io (Scroll_Up n) (c, prev, w) =
     (case vga_scrollback_up io n (con_vga c) w of (v, w) \<Rightarrow> Some (c\<lparr>con_vga := v\<rparr>, prev, w))"
| "perform io (Scroll_Down n) (c, prev, w) =
     (case vga_scrollback_down io n (con_vga c) w of (v, w) \<Rightarrow> Some (c\<lparr>con_vga := v\<rparr>, prev, w))"
| "perform io Scroll_Reset (c, prev, w) =
     (if vga_scrollback_is_active (con_vga c)
      then (case vga_scrollback_reset io (con_vga c) w of (v, w) \<Rightarrow> Some (c\<lparr>con_vga := v\<rparr>, prev, w))
      else Some (c, prev, w))"
| "perform io (Log_Enabled n) (c, prev, w) = Some (c\<lparr>con_dbg := debug_log_set_enabled n (con_dbg c)\<rparr>, prev, w)"
| "perform io (Print_Enabled n) (c, prev, w) = Some (c\<lparr>con_dbg := debug_print_set_enabled n (con_dbg c)\<rparr>, prev, w)"

fun perform_all :: "'w ports \<Rightarrow> event list \<Rightarrow> console \<times> u8 \<times> 'w \<Rightarrow> (console \<times> u8 \<times> 'w) option" where
  "perform_all io [] s = Some s"
| "perform_all io (e # es) s = (case perform io e s of None \<Rightarrow> None | Some s \<Rightarrow> perform_all io es s)"

text \<open>The characters the \<open>printf\<close> calls of a list produce, where each call is defined.\<close>

fun printed_text :: "event list \<Rightarrow> bytes option" where
  "printed_text [] = Some []"
| "printed_text (Say fmt args # es) =
     (case format_output (c_str fmt) args of None \<Rightarrow> None | Some t \<Rightarrow> map_option ((@) t) (printed_text es))"
| "printed_text (_ # es) = printed_text es"

lemma perform_all_append:
  "perform_all io (xs @ ys) s = (case perform_all io xs s of None \<Rightarrow> None | Some s \<Rightarrow> perform_all io ys s)"
  by (induction xs arbitrary: s) (auto split: option.splits)

end
