(* ===== verification/Gdt.thy ===== *)
theory Gdt
  imports Console_Events
begin

text \<open>
  Segmentation (\<open>arch/gdt.c\<close>, \<open>arch/gdt.h\<close>): the descriptor table as the 56 bytes of
  \<open>gdt_buf\<close>, the task state segment as its 104 bytes, and the registers that \<open>gdt_init\<close>
  loads. The descriptors are read back the way the processor decodes them.
\<close>

record gdt =
  gdt_buf :: bytes
  tss :: bytes
  gdtr_limit :: u16
  gdtr_base :: u64
  gdt_loaded :: bool
  segment_selector :: u16
  task_register :: u16

definition GDT_KERNEL_CODE :: u16 where "GDT_KERNEL_CODE = 0x08"
definition GDT_KERNEL_DATA :: u16 where "GDT_KERNEL_DATA = 0x10"
definition GDT_USER_CODE :: u16 where "GDT_USER_CODE = 0x1B"
definition GDT_USER_DATA :: u16 where "GDT_USER_DATA = 0x23"
definition GDT_TSS :: u16 where "GDT_TSS = 0x28"

text \<open>The packed structures, as the bytes that are copied into the table.\<close>

definition gdt_entry :: "u32 \<Rightarrow> u32 \<Rightarrow> u8 \<Rightarrow> u8 \<Rightarrow> bytes" where
  "gdt_entry base limit access gran =
     le16 (ucast (limit AND 0xFFFF)) @ le16 (ucast (base AND 0xFFFF))
     @ [ucast (drop_bit 16 base AND 0xFF), access,
        ucast ((drop_bit 16 limit AND 0x0F) OR (ucast gran AND 0xF0)), ucast (drop_bit 24 base AND 0xFF)]"

definition write_entry :: "nat \<Rightarrow> u32 \<Rightarrow> u32 \<Rightarrow> u8 \<Rightarrow> u8 \<Rightarrow> gdt \<Rightarrow> gdt" where
  "write_entry idx base limit access gran g = g\<lparr>gdt_buf := blit (idx * 8) (gdt_entry base limit access gran) (gdt_buf g)\<rparr>"

definition tss_desc :: "u64 \<Rightarrow> u32 \<Rightarrow> bytes" where
  "tss_desc base limit =
     le16 (ucast (limit AND 0xFFFF)) @ le16 (ucast (base AND 0xFFFF))
     @ [ucast (drop_bit 16 base AND 0xFF), 0x89, ucast (drop_bit 16 limit AND 0x0F), ucast (drop_bit 24 base AND 0xFF)]
     @ le32 (ucast (drop_bit 32 base)) @ le32 0"

definition write_tss_desc :: "u64 \<Rightarrow> u32 \<Rightarrow> gdt \<Rightarrow> gdt" where
  "write_tss_desc base limit g = g\<lparr>gdt_buf := blit (5 * 8) (tss_desc base limit) (gdt_buf g)\<rparr>"

definition TSS_SIZE :: nat where "TSS_SIZE = 104"

text \<open>
  \<open>buf_addr\<close> and \<open>tss_addr\<close> are the addresses of the two static objects; the message is
  printed only while messages are on.
\<close>

definition gdt_init :: "u64 \<Rightarrow> u64 \<Rightarrow> bool \<Rightarrow> gdt \<Rightarrow> gdt \<times> event list" where
  "gdt_init buf_addr tss_addr print_enabled g =
     (let g = write_entry 0 0 0 0 0 g;
          g = write_entry 1 0 0xFFFFF 0x9A 0xA0 g;
          g = write_entry 2 0 0xFFFFF 0x92 0xC0 g;
          g = write_entry 3 0 0xFFFFF 0xFA 0xA0 g;
          g = write_entry 4 0 0xFFFFF 0xF2 0xC0 g;
          g = g\<lparr>tss := blit 102 (le16 (of_nat TSS_SIZE)) (replicate TSS_SIZE 0)\<rparr>;
          g = write_tss_desc tss_addr (of_nat (TSS_SIZE - 1)) g;
          g = g\<lparr>gdtr_base := buf_addr, gdtr_limit := of_nat (length (gdt_buf g) - 1), gdt_loaded := True\<rparr>;
          g = g\<lparr>segment_selector := 0x10, task_register := 0x28\<rparr>
      in (g, if print_enabled then [Get_Color, Set_Color 14 0, sayln ''[GDT] GDT + TSS loaded OK'' [], Restore_Color] else []))"

definition gdt_set_kernel_stack :: "u64 \<Rightarrow> gdt \<Rightarrow> gdt" where
  "gdt_set_kernel_stack rsp0 g = g\<lparr>tss := blit 4 (le64 rsp0) (tss g)\<rparr>"

subsection \<open>Descriptors as the processor reads them\<close>

record descriptor =
  d_base :: u64
  d_limit :: u32
  d_access :: u8
  d_flags :: u8

definition decode :: "bytes \<Rightarrow> nat \<Rightarrow> descriptor" where
  "decode b i = \<lparr>d_base = ucast (join32 (b ! (i + 2)) (b ! (i + 3)) (b ! (i + 4)) (b ! (i + 7))),
     d_limit = ucast (join16 (b ! i) (b ! (i + 1))) OR push_bit 16 (ucast (b ! (i + 6) AND 0x0F)),
     d_access = b ! (i + 5), d_flags = drop_bit 4 (b ! (i + 6))\<rparr>"

text \<open>The 16 bytes of a system descriptor hold the upper half of the base as well.\<close>

definition decode_system :: "bytes \<Rightarrow> nat \<Rightarrow> descriptor" where
  "decode_system b i = (decode b i)\<lparr>d_base := push_bit 32 (ucast (get_le32 b (i + 8))) OR d_base (decode b i)\<rparr>"

text \<open>A selector picks the descriptor at its index; the two low bits are a privilege level.\<close>

definition selected :: "gdt \<Rightarrow> u16 \<Rightarrow> descriptor" where
  "selected g sel = decode (gdt_buf g) (unat (sel AND NOT 7))"

definition descriptor_dpl :: "descriptor \<Rightarrow> u8" where
  "descriptor_dpl d = drop_bit 5 (d_access d) AND 3"

text \<open>The stack pointer for entries from ring 3, as the processor reads it from the segment.\<close>

definition tss_rsp0_read :: "gdt \<Rightarrow> u64" where
  "tss_rsp0_read g = push_bit 32 (ucast (get_le32 (tss g) 8)) OR ucast (get_le32 (tss g) 4)"

lemma length_gdt_entry [simp]: "length (gdt_entry base limit access gran) = 8"
  by (simp add: gdt_entry_def)

lemma length_tss_desc [simp]: "length (tss_desc base limit) = 16"
  by (simp add: tss_desc_def)

lemma list8: "length xs = 8 \<Longrightarrow> xs = [xs ! 0, xs ! 1, xs ! 2, xs ! 3, xs ! 4, xs ! 5, xs ! 6, xs ! 7]"
  by (rule nth_equalityI) (auto simp: less_Suc_eq numeral_eq_Suc)

lemma decode_seg: "i + 8 \<le> length b \<Longrightarrow> decode b i = decode (seg i 8 b) 0"
  by (simp add: decode_def)

lemma decode_blit_same:
  "length e = 8 \<Longrightarrow> i + 8 \<le> length b \<Longrightarrow> decode (blit i e b) i = decode e 0"
  using seg_blit_same [of i e b] by (simp add: decode_seg)

lemma decode_blit_other:
  "i + 8 \<le> length b \<Longrightarrow> j + length e \<le> length b \<Longrightarrow> i + 8 \<le> j \<or> j + length e \<le> i
    \<Longrightarrow> decode (blit j e b) i = decode b i"
  using seg_blit_other [of j e b i 8] by (simp add: decode_seg)

lemma decode_system_seg: "i + 16 \<le> length b \<Longrightarrow> decode_system b i = decode_system (seg i 16 b) 0"
  by (simp add: decode_system_def decode_def get_le32_def add.commute)

lemma decode_entry:
  "decode (gdt_entry base limit access gran) 0
    = \<lparr>d_base = ucast base, d_limit = limit AND 0xFFFFF, d_access = access, d_flags = drop_bit 4 gran\<rparr>"
proof -
  have m: "(0xFFFFF :: u32) = mask 20" "(0xFFFF :: u32) = mask 16" "(0x0F :: u32) = mask 4" "(0x0F :: u8) = mask 4"
    "(0xF0 :: u32) = push_bit 4 (mask 4)" by (simp_all add: mask_eq_exp_minus_1)
  have l: "(ucast (limit AND 0xFFFF) :: u32) OR push_bit 16 (ucast (ucast ((drop_bit 16 limit AND 0x0F)
      OR (ucast gran AND 0xF0)) AND (0x0F :: u8))) = limit AND 0xFFFFF"
    unfolding m by (rule bit_word_eqI) (auto simp: bit_simps)
  have f: "drop_bit 4 (ucast ((drop_bit 16 limit AND 0x0F) OR (ucast gran AND 0xF0)) :: u8) = drop_bit 4 gran"
    unfolding m by (rule bit_word_eqI) (auto simp: bit_simps dest: bit_u8_high)
  have t: "(ucast (ucast (x AND 0xFFFF) :: u16) :: u32) = x AND 0xFFFF" for x :: u32
    unfolding m by (rule bit_word_eqI) (auto simp: bit_simps)
  have b: "join32 (ucast base) (ucast (drop_bit 8 (ucast base :: u16)))
      (ucast (drop_bit 16 base)) (ucast (drop_bit 24 base)) = base"
  proof -
    have "(ucast (drop_bit 8 (ucast base :: u16)) :: u8) = ucast (drop_bit 8 base)"
      by (rule bit_word_eqI) (auto simp: bit_simps)
    then show ?thesis by (simp add: join32_split)
  qed
  have c: "(ucast (x AND 0xFFFF) :: u16) = ucast x" "(ucast (ucast x :: u16) :: u8) = ucast x"
    "(ucast (ucast x :: u16) :: u32) = x AND 0xFFFF" for x :: u32
    unfolding m by (rule bit_word_eqI, auto simp: bit_simps)+
  have j: "join16 (ucast x) (ucast (drop_bit 8 (ucast x :: u16))) = ucast x" for x :: u32
    using join16_split [of "ucast x"] by (simp add: c)
  show ?thesis
    using l f b j [of base] j [of limit] by (simp add: decode_def gdt_entry_def le16_def t c)
qed

lemma decode_tss:
  assumes "limit AND 0xFFFFF = limit"
  shows "decode_system (tss_desc base limit) 0 = \<lparr>d_base = base, d_limit = limit, d_access = 0x89, d_flags = 0\<rparr>"
proof -
  have "tss_desc base limit = gdt_entry (ucast base) limit 0x89 0 @ le32 (ucast (drop_bit 32 base)) @ le32 0"
  proof -
    have m: "(0xFFFF :: u64) = mask 16" "(0xFFFF :: u32) = mask 16" by (simp_all add: mask_eq_exp_minus_1)
    have "(ucast (base AND 0xFFFF) :: u16) = ucast ((ucast base :: u32) AND 0xFFFF)"
      "(ucast (drop_bit 16 base) :: u8) = ucast (drop_bit 16 (ucast base :: u32))"
      "(ucast (drop_bit 24 base) :: u8) = ucast (drop_bit 24 (ucast base :: u32))"
      unfolding m by (rule bit_word_eqI, auto simp: bit_simps)+
    then show ?thesis by (simp add: tss_desc_def gdt_entry_def)
  qed
  then have d: "decode (tss_desc base limit) 0 = decode (gdt_entry (ucast base) limit 0x89 0) 0"
    and u: "get_le32 (tss_desc base limit) 8 = ucast (drop_bit 32 base)"
    using get_le32_le32 [of "ucast (drop_bit 32 base)"] 
    by (simp_all add: decode_def nth_append get_le32_def numeral_2_eq_2)
  have "push_bit 32 (ucast (ucast (drop_bit 32 base) :: u32)) OR ucast (ucast base :: u32) = base"
    by (rule bit_word_eqI) (auto simp: bit_simps)
  then show ?thesis using assms by (simp add: decode_system_def d u decode_entry)
qed

lemma decode_system_blit:
  "length e = 16 \<Longrightarrow> i + 16 \<le> length b \<Longrightarrow> decode_system (blit i e b) i = decode_system e 0"
  using seg_blit_same [of i e b] by (simp add: decode_system_seg)

lemma stack_pointer_reads:
  assumes "length (tss g) = 104"
  shows "tss_rsp0_read (gdt_set_kernel_stack rsp0 g) = rsp0"
proof -
  let ?b = "blit 4 (le64 rsp0) (tss g)"
  have s: "seg 4 8 ?b = le64 rsp0"
    using seg_blit_same [of 4 "le64 rsp0" "tss g"] assms by (simp add: le64_def)
  have "seg 4 4 ?b = le32 (ucast rsp0)" "seg 8 4 ?b = le32 (ucast (drop_bit 32 rsp0))"
    using arg_cong [OF s, of "take 4"] arg_cong [OF s, of "drop 4"]
    by (simp_all add: seg_def le64_def drop_take)
  then have "get_le32 ?b 4 = ucast rsp0" "get_le32 ?b 8 = ucast (drop_bit 32 rsp0)"
    using get_le32_seg [of 4 ?b] get_le32_seg [of 8 ?b] assms by (simp_all add: le_simps)
  moreover have "push_bit 32 (ucast (ucast (drop_bit 32 rsp0) :: u32)) OR ucast (ucast rsp0 :: u32) = rsp0"
    by (rule bit_word_eqI) (auto simp: bit_simps)
  ultimately show ?thesis by (simp add: tss_rsp0_read_def gdt_set_kernel_stack_def)
qed

lemma gdt_buffer:
  assumes "length (gdt_buf g) = 56" "gdt_init buf_addr tss_addr en g = (g', out)"
  shows "gdt_buf g' = blit 40 (tss_desc tss_addr 103) (blit 32 (gdt_entry 0 0xFFFFF 0xF2 0xC0)
      (blit 24 (gdt_entry 0 0xFFFFF 0xFA 0xA0) (blit 16 (gdt_entry 0 0xFFFFF 0x92 0xC0)
      (blit 8 (gdt_entry 0 0xFFFFF 0x9A 0xA0) (blit 0 (gdt_entry 0 0 0 0) (gdt_buf g))))))"
    "length (tss g') = 104" "get_le16 (tss g') 102 = 104" "gdtr_base g' = buf_addr" "gdtr_limit g' = 55" "gdt_loaded g'"
    "segment_selector g' = 0x10" "task_register g' = 0x28" "tss_rsp0_read (gdt_set_kernel_stack rsp0 g') = rsp0"
proof -
  have g: "g' = fst (gdt_init buf_addr tss_addr en g)" using assms(2) by simp
  have t: "tss g' = blit 102 (le16 104) (replicate 104 0)"
    unfolding g by (simp add: gdt_init_def write_entry_def write_tss_desc_def TSS_SIZE_def Let_def)
  show l: "length (tss g') = 104" by (simp add: t)
  show "get_le16 (tss g') 102 = 104" unfolding t by code_simp
  show "gdt_buf g' = blit 40 (tss_desc tss_addr 103) (blit 32 (gdt_entry 0 0xFFFFF 0xF2 0xC0)
      (blit 24 (gdt_entry 0 0xFFFFF 0xFA 0xA0) (blit 16 (gdt_entry 0 0xFFFFF 0x92 0xC0)
      (blit 8 (gdt_entry 0 0xFFFFF 0x9A 0xA0) (blit 0 (gdt_entry 0 0 0 0) (gdt_buf g))))))"
    unfolding g by (simp add: gdt_init_def write_entry_def write_tss_desc_def TSS_SIZE_def Let_def)
  then show "gdtr_limit g' = 55"
    unfolding g using assms(1) by (simp add: gdt_init_def write_entry_def write_tss_desc_def TSS_SIZE_def Let_def)
  show "gdtr_base g' = buf_addr" "gdt_loaded g'" "segment_selector g' = 0x10" "task_register g' = 0x28"
    unfolding g by (simp_all add: gdt_init_def write_entry_def write_tss_desc_def TSS_SIZE_def Let_def)
  show "tss_rsp0_read (gdt_set_kernel_stack rsp0 g') = rsp0" using l by (rule stack_pointer_reads)
qed

text \<open>C33: \<open>gdt_init\<close> builds the table its selectors are meant for. The kernel's and the user's
  code and data selectors pick flat segments of 4 GB whose privilege is the selector's own, code
  segments 64-bit and executable; the null descriptor is zero; the task selector picks a descriptor
  of the whole task state segment at its address, the registers hold the kernel's selectors, and
  the stack pointer stored later is what the processor reads.\<close>

theorem gdt_init_complete:
  assumes "length (gdt_buf g) = 56" "gdt_init buf_addr tss_addr en g = (g', out)"
  shows "selected g' GDT_KERNEL_CODE = \<lparr>d_base = 0, d_limit = 0xFFFFF, d_access = 0x9A, d_flags = 0xA\<rparr>
    \<and> selected g' GDT_KERNEL_DATA = \<lparr>d_base = 0, d_limit = 0xFFFFF, d_access = 0x92, d_flags = 0xC\<rparr>
    \<and> selected g' GDT_USER_CODE = \<lparr>d_base = 0, d_limit = 0xFFFFF, d_access = 0xFA, d_flags = 0xA\<rparr>
    \<and> selected g' GDT_USER_DATA = \<lparr>d_base = 0, d_limit = 0xFFFFF, d_access = 0xF2, d_flags = 0xC\<rparr>
    \<and> (\<forall>sel \<in> {GDT_KERNEL_CODE, GDT_KERNEL_DATA, GDT_USER_CODE, GDT_USER_DATA}.
        descriptor_dpl (selected g' sel) = ucast (sel AND 3))
    \<and> seg 0 8 (gdt_buf g') = replicate 8 0
    \<and> decode_system (gdt_buf g') (unat GDT_TSS) = \<lparr>d_base = tss_addr, d_limit = 103, d_access = 0x89, d_flags = 0\<rparr>
    \<and> length (tss g') = 104 \<and> get_le16 (tss g') 102 = 104
    \<and> gdtr_base g' = buf_addr \<and> gdtr_limit g' = 55 \<and> gdt_loaded g'
    \<and> segment_selector g' = GDT_KERNEL_DATA \<and> task_register g' = GDT_TSS
    \<and> tss_rsp0_read (gdt_set_kernel_stack rsp0 g') = rsp0"
proof -
  let ?e = "\<lambda>access gran. gdt_entry 0 0xFFFFF access gran"
  note buf = gdt_buffer [OF assms]
  have len: "length (gdt_buf g) = 56" by (rule assms(1))
  have sel: "unat (GDT_KERNEL_CODE AND NOT 7) = 8" "unat (GDT_KERNEL_DATA AND NOT 7) = 16"
    "unat (GDT_USER_CODE AND NOT 7) = 24" "unat (GDT_USER_DATA AND NOT 7) = 32" "unat GDT_TSS = 40"
    by (simp_all add: GDT_KERNEL_CODE_def GDT_KERNEL_DATA_def GDT_USER_CODE_def GDT_USER_DATA_def GDT_TSS_def)
  have d: "selected g' GDT_KERNEL_CODE = decode (?e 0x9A 0xA0) 0" "selected g' GDT_KERNEL_DATA = decode (?e 0x92 0xC0) 0"
    "selected g' GDT_USER_CODE = decode (?e 0xFA 0xA0) 0" "selected g' GDT_USER_DATA = decode (?e 0xF2 0xC0) 0"
    unfolding selected_def sel buf(1) using len by (simp_all add: decode_blit_same decode_blit_other)
  have z: "seg 0 8 (gdt_buf g') = gdt_entry 0 0 0 0"
    unfolding buf(1) using len seg_blit_same [of 0 "gdt_entry 0 0 0 0" "gdt_buf g"] by (simp add: seg_blit_other)
  have t: "decode_system (gdt_buf g') 40 = decode_system (tss_desc tss_addr 103) 0"
    unfolding buf(1) using len by (intro decode_system_blit) simp_all
  have c: "selected g' GDT_KERNEL_CODE = \<lparr>d_base = 0, d_limit = 0xFFFFF, d_access = 0x9A, d_flags = 0xA\<rparr>"
    "selected g' GDT_KERNEL_DATA = \<lparr>d_base = 0, d_limit = 0xFFFFF, d_access = 0x92, d_flags = 0xC\<rparr>"
    "selected g' GDT_USER_CODE = \<lparr>d_base = 0, d_limit = 0xFFFFF, d_access = 0xFA, d_flags = 0xA\<rparr>"
    "selected g' GDT_USER_DATA = \<lparr>d_base = 0, d_limit = 0xFFFFF, d_access = 0xF2, d_flags = 0xC\<rparr>"
    by (simp_all add: d decode_entry)
  have p: "descriptor_dpl (selected g' sel) = ucast (sel AND 3)"
    if "sel \<in> {GDT_KERNEL_CODE, GDT_KERNEL_DATA, GDT_USER_CODE, GDT_USER_DATA}" for sel
    using that by (auto simp: c descriptor_dpl_def)
      (simp_all add: GDT_KERNEL_CODE_def GDT_KERNEL_DATA_def GDT_USER_CODE_def GDT_USER_DATA_def)
  have n: "gdt_entry 0 0 0 0 = replicate 8 0" by code_simp
  have r: "segment_selector g' = GDT_KERNEL_DATA" "task_register g' = GDT_TSS"
    using buf by (simp_all add: GDT_KERNEL_DATA_def GDT_TSS_def)
  show ?thesis
    using p by (intro conjI ballI) (simp_all add: c z n r t sel buf(2-) decode_tss)
qed

theorem gdt_init_complete_witness:
  "selected (fst (gdt_init 0x9000 0xFFFF800000108040 True \<lparr>gdt_buf = replicate 56 0, tss = replicate 104 0, gdtr_limit = 0,
      gdtr_base = 0, gdt_loaded = False, segment_selector = 0, task_register = 0\<rparr>)) GDT_USER_CODE
    = \<lparr>d_base = 0, d_limit = 0xFFFFF, d_access = 0xFA, d_flags = 0xA\<rparr>"
  by (rule gdt_init_complete [THEN conjunct2, THEN conjunct2, THEN conjunct1, OF _ prod.collapse [symmetric]]) simp

end
