(* ===== verification/Bus.thy ===== *)
theory Bus
  imports Ports
begin

text \<open>
  The accesses to devices that the PCI scan and the network card add to the byte and word
  ports: 32-bit ports and memory-mapped registers. They extend the record of ports and, like
  it, are a parameter of the drivers.
\<close>

record 'w bus = "'w ports" +
  inl :: "u16 \<Rightarrow> 'w \<Rightarrow> u32 \<times> 'w"
  outl :: "u16 \<Rightarrow> u32 \<Rightarrow> 'w \<Rightarrow> 'w"
  mmio_in8 :: "u64 \<Rightarrow> 'w \<Rightarrow> u8 \<times> 'w"
  mmio_in16 :: "u64 \<Rightarrow> 'w \<Rightarrow> u16 \<times> 'w"
  mmio_in32 :: "u64 \<Rightarrow> 'w \<Rightarrow> u32 \<times> 'w"
  mmio_out8 :: "u64 \<Rightarrow> u8 \<Rightarrow> 'w \<Rightarrow> 'w"
  mmio_out16 :: "u64 \<Rightarrow> u16 \<Rightarrow> 'w \<Rightarrow> 'w"
  mmio_out32 :: "u64 \<Rightarrow> u32 \<Rightarrow> 'w \<Rightarrow> 'w"

end
