(* ===== verification/Pci.thy ===== *)
theory Pci
  imports Console_Events Bus
begin

text \<open>
  The PCI scan (\<open>drivers/bus/pci.c\<close>): configuration reads through the ports 0xCF8 and 0xCFC,
  the names of classes, and the inventory that \<open>pci_init\<close> prints. A locale states what a host
  bridge does with the two ports; under it the scan is a function of the configuration space.
\<close>

definition pci_address :: "u8 \<Rightarrow> u8 \<Rightarrow> u8 \<Rightarrow> u8 \<Rightarrow> u32" where
  "pci_address bus device func offset =
     push_bit 16 (ucast bus) OR push_bit 11 (ucast device) OR push_bit 8 (ucast func)
     OR (ucast offset AND 0xFC) OR 0x80000000"

definition pci_read_config ::
    "('w, 'z) bus_scheme \<Rightarrow> u8 \<Rightarrow> u8 \<Rightarrow> u8 \<Rightarrow> u8 \<Rightarrow> 'w \<Rightarrow> u32 \<times> 'w" where
  "pci_read_config io bus device func offset w = inl io 0xCFC (outl io 0xCF8 (pci_address bus device func offset) w)"

definition pci_class_name :: "u8 \<Rightarrow> string" where
  "pci_class_name c =
     (if c = 0x00 then ''Non-classified Device''
      else if c = 0x01 then ''Mass Storage Controller''
      else if c = 0x02 then ''Network Interface''
      else if c = 0x03 then ''Display Controller''
      else if c = 0x04 then ''Multimedia Device''
      else if c = 0x05 then ''Memory Controller''
      else if c = 0x06 then ''Bridge Device''
      else if c = 0x07 then ''Simple Communication Controller''
      else if c = 0x08 then ''Base System Peripheral''
      else if c = 0x09 then ''Input Device''
      else if c = 0x0A then ''Docking Station''
      else if c = 0x0B then ''Processor''
      else if c = 0x0C then ''Serial Bus Controller''
      else if c = 0x0D then ''Wireless Controller''
      else if c = 0x0E then ''Intelligent I/O Controller''
      else if c = 0x0F then ''Satellite Communication Controller''
      else if c = 0x10 then ''Encryption/Decryption Controller''
      else if c = 0x11 then ''Data Acquisition and Signal Processing''
      else ''Unknown Device'')"

definition pci_subclass_name :: "u8 \<Rightarrow> u8 \<Rightarrow> string" where
  "pci_subclass_name c s =
     (if c = 0x01 then
        (if s = 0x00 then ''SCSI'' else if s = 0x01 then ''IDE'' else if s = 0x02 then ''Floppy''
         else if s = 0x03 then ''IPI'' else if s = 0x04 then ''RAID'' else if s = 0x05 then ''ATA''
         else if s = 0x06 then ''Serial ATA'' else if s = 0x07 then ''Serial Attached SCSI'' else ''Storage Device'')
      else if c = 0x02 then
        (if s = 0x00 then ''Ethernet'' else if s = 0x01 then ''Token Ring'' else if s = 0x02 then ''FDDI''
         else if s = 0x03 then ''ATM'' else if s = 0x04 then ''ISDN'' else ''Network Device'')
      else if c = 0x03 then
        (if s = 0x00 then ''VGA'' else if s = 0x01 then ''XGA'' else if s = 0x02 then ''3D'' else ''Display Device'')
      else ''Unknown Subclass'')"

text \<open>The lines printed for a function, from the four registers they are read from.\<close>

definition describe_function :: "u8 \<Rightarrow> u8 \<Rightarrow> u8 \<Rightarrow> u32 \<Rightarrow> u32 \<Rightarrow> u32 \<Rightarrow> u32 \<Rightarrow> event list" where
  "describe_function bus device func vd class_info bar0 irq_pin =
     (let class_code = ucast (drop_bit 24 class_info AND 0xFF); subclass = ucast (drop_bit 16 class_info AND 0xFF);
          irq_line = (ucast (irq_pin AND 0xFF) :: u8); irq_pin_num = (ucast (drop_bit 8 irq_pin AND 0xFF) :: u8)
      in [Say (10 # ascii ''[PCI %d:%d:%d] Vendor: 0x%04x Device: 0x%04x'' @ [10])
            [byte_arg bus, byte_arg device, byte_arg func, hex_arg (vd AND 0xFFFF), hex_arg (drop_bit 16 vd)],
          sayln ''  Class: %s'' [AStr (ascii (pci_class_name class_code))],
          sayln ''  Subclass: %s'' [AStr (ascii (pci_subclass_name class_code subclass))],
          sayln ''  BAR0: 0x%08x'' [AUInt bar0]]
         @ (if irq_line \<noteq> 0xFF
            then say ''  IRQ Line: %d'' [byte_arg irq_line]
              # (if irq_pin_num \<noteq> 0 then [sayln '' (PIN:%c)'' [AChar (65 + irq_pin_num - 1)]] else [newline])
            else []))"

text \<open>One function: whether it was counted, and the lines.\<close>

definition pci_scan_function ::
    "('w, 'z) bus_scheme \<Rightarrow> u8 \<Rightarrow> u8 \<Rightarrow> u8 \<Rightarrow> 'w \<Rightarrow> nat \<times> event list \<times> 'w" where
  "pci_scan_function io bus device func w =
     (let (vd, w) = pci_read_config io bus device func 0x00 w
      in if vd AND 0xFFFF = 0xFFFF then (0, [], w)
         else let (class_info, w) = pci_read_config io bus device func 0x08 w;
                  (bar0, w) = pci_read_config io bus device func 0x10 w;
                  (irq_pin, w) = pci_read_config io bus device func 0x3C w
              in (1, describe_function bus device func vd class_info bar0 irq_pin, w))"

fun pci_scan_functions ::
    "('w, 'z) bus_scheme \<Rightarrow> u8 \<Rightarrow> u8 \<Rightarrow> u8 list \<Rightarrow> 'w \<Rightarrow> nat \<times> event list \<times> 'w" where
  "pci_scan_functions io bus device [] w = (0, [], w)"
| "pci_scan_functions io bus device (func # funcs) w =
     (let (n, es, w) = pci_scan_function io bus device func w;
          (m, fs, w) = pci_scan_functions io bus device funcs w
      in (n + m, es @ fs, w))"

definition pci_scan_device :: "('w, 'z) bus_scheme \<Rightarrow> u8 \<Rightarrow> u8 \<Rightarrow> 'w \<Rightarrow> nat \<times> event list \<times> 'w" where
  "pci_scan_device io bus device w =
     (let (vendor_device, w) = pci_read_config io bus device 0 0x00 w
      in if vendor_device AND 0xFFFF = 0xFFFF then (0, [], w)
         else let (header_type_reg, w) = pci_read_config io bus device 0 0x0C w;
                  header_type = (ucast (drop_bit 16 header_type_reg AND 0xFF) :: u8)
              in pci_scan_functions io bus device
                   (map of_nat (if header_type AND 0x80 \<noteq> 0 then [0..<8] else [0..<1])) w)"

fun pci_scan :: "('w, 'z) bus_scheme \<Rightarrow> (u8 \<times> u8) list \<Rightarrow> 'w \<Rightarrow> nat \<times> event list \<times> 'w" where
  "pci_scan io [] w = (0, [], w)"
| "pci_scan io ((bus, device) # ds) w =
     (let (n, es, w) = pci_scan_device io bus device w; (m, fs, w) = pci_scan io ds w in (n + m, es @ fs, w))"

definition pci_slots :: "(u8 \<times> u8) list" where
  "pci_slots = concat (map (\<lambda>bus. map (\<lambda>device. (of_nat bus, of_nat device)) [0..<32]) [0..<4])"

definition pci_rule :: event where
  "pci_rule = sayln ''================================================'' []"

definition pci_init :: "('w, 'z) bus_scheme \<Rightarrow> 'w \<Rightarrow> event list \<times> 'w" where
  "pci_init io w =
     (case pci_scan io pci_slots w of (devices_found, es, w) \<Rightarrow>
        ([newline, pci_rule, sayln '' PCI Bus Enumeration - Hardware Inventory Scan'' [], pci_rule] @ es
         @ [Say (10 # ascii ''================================================'' @ [10]) [],
            sayln ''PCI Scan Complete: %d devices enumerated'' [int_arg devices_found],
            Say (ascii ''================================================'' @ [10, 10]) []], w))"

subsection \<open>Configuration addresses\<close>

lemma small_bits: "unat (x :: 'a::len word) < 2 ^ k \<Longrightarrow> k \<le> n \<Longrightarrow> \<not> bit x n"
proof
  assume "unat x < 2 ^ k" "k \<le> n" "bit x n"
  then have "x = take_bit k x" by (simp add: word_unat_eq_iff unsigned_take_bit_eq take_bit_nat_eq_self)
  with \<open>bit x n\<close> have "bit (take_bit k x) n" by simp
  with \<open>k \<le> n\<close> show False by (simp add: bit_simps)
qed

lemma bit_pci_address:
  assumes "device < 32" "func < 8"
  shows "bit (pci_address bus device func offset) n \<longleftrightarrow>
    n = 31 \<or> n < 8 \<and> 2 \<le> n \<and> bit offset n \<or> 8 \<le> n \<and> n < 11 \<and> bit func (n - 8)
    \<or> 11 \<le> n \<and> n < 16 \<and> bit device (n - 11) \<or> 16 \<le> n \<and> n < 24 \<and> bit bus (n - 16)"
proof (cases "n < 32")
  case False
  then show ?thesis using bit_imp_le_length [of "pci_address bus device func offset" n] by auto
next
  case True
  have "(0x80000000 :: u32) = push_bit 31 1" by simp
  then have t: "bit (0x80000000 :: u32) n \<longleftrightarrow> n = 31" using True by (simp only: bit_push_bit_iff bit_1_iff possible_bit_word) auto
  have "(0xFC :: u32) = push_bit 2 (mask 6)" by (simp add: mask_eq_exp_minus_1)
  then have m: "bit (0xFC :: u32) n \<longleftrightarrow> 2 \<le> n \<and> n < 8" using True
    by (simp only: bit_push_bit_iff bit_mask_iff possible_bit_word) auto
  have d: "bit device k \<Longrightarrow> k < 5" for k
    using small_bits [of device 5 k] assms(1) by (simp add: word_less_nat_alt) (meson not_le)
  have f: "bit func k \<Longrightarrow> k < 3" for k
    using small_bits [of func 3 k] assms(2) by (simp add: word_less_nat_alt) (meson not_le)
  consider "n < 8" | "8 \<le> n \<and> n < 11" | "11 \<le> n \<and> n < 16" | "16 \<le> n \<and> n < 24" | "24 \<le> n" by linarith
  then show ?thesis
    unfolding pci_address_def bit_or_iff bit_and_iff t m
    by cases (use True in \<open>auto simp: bit_push_bit_iff bit_ucast_iff possible_bit_word dest: d f bit_u8_high\<close>)
qed

lemma pci_address_fields:
  assumes "device < 32" "func < 8"
  shows "drop_bit 16 (pci_address bus device func offset) AND 0xFF = ucast bus"
    and "drop_bit 11 (pci_address bus device func offset) AND 0x1F = ucast device"
    and "drop_bit 8 (pci_address bus device func offset) AND 7 = ucast func"
    and "pci_address bus device func offset AND 0xFF = ucast (offset AND 0xFC)"
    and "bit (pci_address bus device func offset) 31"
proof -
  have m: "(0xFF :: u32) = mask 8" "(0x1F :: u32) = mask 5" "(7 :: u32) = mask 3"
    "(0xFC :: u8) = push_bit 2 (mask 6)" by (simp_all add: mask_eq_exp_minus_1)
  have d: "n < 5" if "bit device n" for n
    using small_bits [of device 5 n] assms(1) that by (simp add: word_less_nat_alt) (meson not_le)
  have f: "n < 3" if "bit func n" for n
    using small_bits [of func 3 n] assms(2) that by (simp add: word_less_nat_alt) (meson not_le)
  note b = bit_pci_address [OF assms] bit_u8_high [of bus] bit_u8_high [of offset]
  show "drop_bit 16 (pci_address bus device func offset) AND 0xFF = ucast bus"
    unfolding m by (rule bit_word_eqI) (use b in \<open>auto simp: bit_simps\<close>)
  show "drop_bit 11 (pci_address bus device func offset) AND 0x1F = ucast device"
    unfolding m by (rule bit_word_eqI) (use b d in \<open>auto simp: bit_simps not_le\<close>)
  show "drop_bit 8 (pci_address bus device func offset) AND 7 = ucast func"
    unfolding m by (rule bit_word_eqI) (use b f in \<open>auto simp: bit_simps not_le\<close>)
  show "pci_address bus device func offset AND 0xFF = ucast (offset AND 0xFC)"
  proof (rule bit_word_eqI)
    fix n assume "n < LENGTH(32)"
    moreover have "bit (0xFC :: u8) n \<longleftrightarrow> 2 \<le> n \<and> n < 8"
      unfolding m by (simp only: bit_push_bit_iff bit_mask_iff possible_bit_word) auto
    ultimately show "bit (pci_address bus device func offset AND 0xFF) n \<longleftrightarrow> bit (ucast (offset AND 0xFC) :: u32) n"
      using bit_u8_high [of offset n] by (auto simp: m(1) bit_and_iff bit_mask_iff bit_ucast_iff b(1))
  qed
  show "bit (pci_address bus device func offset) 31"
    using bit_pci_address [OF assms, of bus offset 31] by simp
qed

subsection \<open>The host bridge\<close>

text \<open>
  Configuration mechanism 1: a read of the data port returns the register the address port
  was last set to, and reading changes no register. \<open>cfg\<close> is the configuration space.
\<close>

locale pci_host =
  fixes io :: "('w, 'z) bus_scheme"
    and cfg :: "'w \<Rightarrow> u32 \<Rightarrow> u32"
  assumes read_value: "fst (inl io 0xCFC (outl io 0xCF8 a w)) = cfg w a"
    and read_keeps: "cfg (snd (inl io 0xCFC (outl io 0xCF8 a w))) = cfg w"

definition cfg_vendor :: "(u32 \<Rightarrow> u32) \<Rightarrow> u8 \<Rightarrow> u8 \<Rightarrow> u8 \<Rightarrow> u32" where
  "cfg_vendor c bus device func = c (pci_address bus device func 0)"

definition present :: "(u32 \<Rightarrow> u32) \<Rightarrow> u8 \<Rightarrow> u8 \<Rightarrow> u8 \<Rightarrow> bool" where
  "present c bus device func \<longleftrightarrow> cfg_vendor c bus device func AND 0xFFFF \<noteq> 0xFFFF"

definition multi_function :: "(u32 \<Rightarrow> u32) \<Rightarrow> u8 \<Rightarrow> u8 \<Rightarrow> bool" where
  "multi_function c bus device \<longleftrightarrow> bit (c (pci_address bus device 0 0x0C)) 23"

text \<open>The functions of a configuration space, in the order of bus, device and function.\<close>

definition slot_functions :: "(u32 \<Rightarrow> u32) \<Rightarrow> u8 \<times> u8 \<Rightarrow> (u8 \<times> u8 \<times> u8) list" where
  "slot_functions c s = (case s of (bus, device) \<Rightarrow>
     if present c bus device 0
     then map (\<lambda>f. (bus, device, f)) (filter (present c bus device)
            (0 # (if multi_function c bus device then [1, 2, 3, 4, 5, 6, 7] else [])))
     else [])"

definition pci_functions :: "(u32 \<Rightarrow> u32) \<Rightarrow> (u8 \<times> u8 \<times> u8) list" where
  "pci_functions c = concat (map (slot_functions c) pci_slots)"

definition describe :: "(u32 \<Rightarrow> u32) \<Rightarrow> u8 \<times> u8 \<times> u8 \<Rightarrow> event list" where
  "describe c x = (case x of (bus, device, func) \<Rightarrow>
     describe_function bus device func (cfg_vendor c bus device func) (c (pci_address bus device func 0x08))
       (c (pci_address bus device func 0x10)) (c (pci_address bus device func 0x3C)))"

lemma header_bit: "(ucast (drop_bit 16 h AND 0xFF) :: u8) AND 0x80 \<noteq> 0 \<longleftrightarrow> bit (h :: u32) 23"
proof -
  have "(ucast (drop_bit 16 h) :: u8) AND push_bit 7 1 \<noteq> 0 \<longleftrightarrow> bit (ucast (drop_bit 16 h) :: u8) 7"
    by (simp only: bit_iff_and_push_bit_not_eq_0)
  then show ?thesis by (simp add: bit_simps)
qed

context pci_host
begin

lemma read_config:
  "pci_read_config io bus device func offset w = (v, w')
    \<Longrightarrow> v = cfg w (pci_address bus device func offset) \<and> cfg w' = cfg w"
  using read_value [of "pci_address bus device func offset" w] read_keeps [of "pci_address bus device func offset" w]
  by (simp add: pci_read_config_def)

lemma scan_function:
  "pci_scan_function io bus device func w = (n, es, w')
    \<Longrightarrow> n = (if present (cfg w) bus device func then 1 else 0)
      \<and> es = (if present (cfg w) bus device func then describe (cfg w) (bus, device, func) else []) \<and> cfg w' = cfg w"
  by (auto simp: pci_scan_function_def Let_def present_def cfg_vendor_def describe_def
      dest!: read_config split: prod.splits if_splits)

lemma scan_functions:
  "pci_scan_functions io bus device fs w = (n, es, w')
    \<Longrightarrow> n = length (filter (present (cfg w) bus device) fs)
      \<and> es = concat (map (\<lambda>f. describe (cfg w) (bus, device, f)) (filter (present (cfg w) bus device) fs))
      \<and> cfg w' = cfg w"
proof (induction fs arbitrary: n es w w')
  case (Cons f fs)
  obtain n1 es1 w1 where 1: "pci_scan_function io bus device f w = (n1, es1, w1)" by (metis prod_cases3)
  obtain n2 es2 w2 where 2: "pci_scan_functions io bus device fs w1 = (n2, es2, w2)" by (metis prod_cases3)
  from Cons.prems 1 2 have "n = n1 + n2" "es = es1 @ es2" "w' = w2" by simp_all
  with scan_function [OF 1] Cons.IH [OF 2] show ?case by simp
qed simp

lemma scan_device:
  assumes "pci_scan_device io bus device w = (n, es, w')"
  shows "n = length (slot_functions (cfg w) (bus, device))
    \<and> es = concat (map (describe (cfg w)) (slot_functions (cfg w) (bus, device))) \<and> cfg w' = cfg w"
proof -
  obtain vd w1 where 1: "pci_read_config io bus device 0 0 w = (vd, w1)" by fastforce
  obtain h w2 where 2: "pci_read_config io bus device 0 0x0C w1 = (h, w2)" by fastforce
  note r = read_config [OF 1] read_config [OF 2]
  have m: "(ucast (drop_bit 16 h AND 0xFF) :: u8) AND 0x80 \<noteq> 0 \<longleftrightarrow> multi_function (cfg w) bus device"
    using r header_bit [of h] by (simp add: multi_function_def)
  have fs: "map of_nat (if (ucast (drop_bit 16 h AND 0xFF) :: u8) AND 0x80 \<noteq> 0 then [0..<8] else [0..<1])
      = 0 # (if multi_function (cfg w) bus device then [1, 2, 3, 4, 5, 6, 7 :: u8] else [])"
    unfolding m by (simp add: upt_rec)
  show ?thesis
  proof (cases "present (cfg w) bus device 0")
    case True
    with assms 1 2 r fs obtain "pci_scan_functions io bus device
        (0 # (if multi_function (cfg w) bus device then [1, 2, 3, 4, 5, 6, 7] else [])) w2 = (n, es, w')"
      by (simp add: pci_scan_device_def present_def cfg_vendor_def split del: if_split cong: if_cong)
    from scan_functions [OF this] r True show ?thesis
      by (simp add: slot_functions_def comp_def del: filter.simps)
  next
    case False
    with assms 1 r have "n = 0" "es = []" "w' = w1"
      by (simp_all add: pci_scan_device_def present_def cfg_vendor_def)
    with False r show ?thesis by (simp add: slot_functions_def)
  qed
qed

lemma scan_slots:
  "pci_scan io ds w = (n, es, w')
    \<Longrightarrow> n = length (concat (map (slot_functions (cfg w)) ds))
      \<and> es = concat (map (describe (cfg w)) (concat (map (slot_functions (cfg w)) ds))) \<and> cfg w' = cfg w"
proof (induction ds arbitrary: n es w w')
  case (Cons s ds)
  obtain bus device where s: "s = (bus, device)" by (cases s)
  obtain n1 es1 w1 where 1: "pci_scan_device io bus device w = (n1, es1, w1)" by (metis prod_cases3)
  obtain n2 es2 w2 where 2: "pci_scan io ds w1 = (n2, es2, w2)" by (metis prod_cases3)
  from Cons.prems 1 2 s have "n = n1 + n2" "es = es1 @ es2" "w' = w2" by simp_all
  with scan_device [OF 1] Cons.IH [OF 2] s show ?case by simp
qed simp

end

end
