(* ===== verification/Rtl8139.thy ===== *)
theory Rtl8139
  imports Pci Memory Pmm
begin

text \<open>
  The network card driver (\<open>drivers/network/rtl8139.c\<close>, \<open>rtl8139.h\<close>): the device structure,
  register access through ports or memory, initialization, the search on the PCI bus, and
  sending. The state of a call is the record \<open>nic\<close>: the device structure, the page bitmap,
  memory, the console output so far, and the hardware.
\<close>

definition RTL8139_VENDOR_ID :: u32 where "RTL8139_VENDOR_ID = 0x10EC"
definition RTL8139_DEVICE_ID :: u32 where "RTL8139_DEVICE_ID = 0x8139"
definition RTL8139_MAC0 :: u16 where "RTL8139_MAC0 = 0x00"
definition RTL8139_RBSTART :: u16 where "RTL8139_RBSTART = 0x30"
definition RTL8139_CR :: u16 where "RTL8139_CR = 0x37"
definition RTL8139_CAPR :: u16 where "RTL8139_CAPR = 0x38"
definition RTL8139_CBR :: u16 where "RTL8139_CBR = 0x3A"
definition RTL8139_IMR :: u16 where "RTL8139_IMR = 0x3C"
definition RTL8139_ISR :: u16 where "RTL8139_ISR = 0x3E"
definition RTL8139_TCR :: u16 where "RTL8139_TCR = 0x40"
definition RTL8139_RCR :: u16 where "RTL8139_RCR = 0x44"
definition RTL8139_TXADDR0 :: u16 where "RTL8139_TXADDR0 = 0x20"
definition RTL8139_TXSTATUS0 :: u16 where "RTL8139_TXSTATUS0 = 0x10"
definition RTL8139_CR_TE :: u8 where "RTL8139_CR_TE = 0x04"
definition RTL8139_CR_RE :: u8 where "RTL8139_CR_RE = 0x08"
definition RTL8139_CR_RST :: u8 where "RTL8139_CR_RST = 0x10"
definition RTL8139_TSD_OWN :: u32 where "RTL8139_TSD_OWN = 0x80000000"
definition RTL8139_TSD_SIZE :: u32 where "RTL8139_TSD_SIZE = 0x00001FFF"
definition RTL8139_INT_ROK :: u16 where "RTL8139_INT_ROK = 0x0001"
definition RTL8139_INT_RER :: u16 where "RTL8139_INT_RER = 0x0002"
definition RTL8139_INT_TOK :: u16 where "RTL8139_INT_TOK = 0x0004"
definition RTL8139_INT_TER :: u16 where "RTL8139_INT_TER = 0x0008"
definition RTL8139_TX_BUF_SIZE :: u16 where "RTL8139_TX_BUF_SIZE = 0x800"
definition RTL8139_NUM_TX_DESC :: nat where "RTL8139_NUM_TX_DESC = 4"

record rtl8139_device =
  rx_buffer :: u64
  rx_buffer_pa :: u64
  rx_read_offset :: u16
  tx_buffers :: "u64 list"
  tx_buffer_pa :: "u64 list"
  tx_current_desc :: u8
  io_base :: u16
  mmio_base :: u64
  is_mmio :: bool
  mac_address :: bytes
  irq_line :: u8

record 'w nic =
  nic_dev :: rtl8139_device
  nic_pages :: pmm
  nic_ram :: memory
  nic_out :: "event list"
  nic_hw :: 'w

definition rtl8139_dev :: rtl8139_device where
  "rtl8139_dev = \<lparr>rx_buffer = 0, rx_buffer_pa = 0, rx_read_offset = 0, tx_buffers = replicate 4 0,
     tx_buffer_pa = replicate 4 0, tx_current_desc = 0, io_base = 0, mmio_base = 0, is_mmio = False,
     mac_address = replicate 6 0, irq_line = 0\<rparr>"

definition log_event :: "event \<Rightarrow> ('w, 'z) nic_scheme \<Rightarrow> ('w, 'z) nic_scheme" where
  "log_event e s = s\<lparr>nic_out := nic_out s @ [e]\<rparr>"

text \<open>The first page, or NULL; the other pages are taken but not looked at.\<close>

fun alloc_rest :: "nat \<Rightarrow> ('w, 'z) nic_scheme \<Rightarrow> ('w, 'z) nic_scheme" where
  "alloc_rest 0 s = s"
| "alloc_rest (Suc n) s =
     (case pmm_alloc_page (nic_pages s) of (page, bm) \<Rightarrow>
        if page = 0
        then log_event (sayln ''[RTL8139] WARNING: Could not allocate contiguous pages'' []) (s\<lparr>nic_pages := bm\<rparr>)
        else alloc_rest n (s\<lparr>nic_pages := bm\<rparr>))"

definition pmm_alloc_contiguous :: "nat \<Rightarrow> ('w, 'z) nic_scheme \<Rightarrow> u64 \<times> ('w, 'z) nic_scheme" where
  "pmm_alloc_contiguous num_pages s =
     (case pmm_alloc_page (nic_pages s) of (page, bm) \<Rightarrow>
        if page = 0 then (0, s\<lparr>nic_pages := bm\<rparr>) else (page, alloc_rest (num_pages - 1) (s\<lparr>nic_pages := bm\<rparr>)))"

subsection \<open>Registers\<close>

definition rtl8139_read8 :: "('w, 'b) bus_scheme \<Rightarrow> rtl8139_device \<Rightarrow> u16 \<Rightarrow> 'w \<Rightarrow> u8 \<times> 'w" where
  "rtl8139_read8 io d offset w =
     (if is_mmio d then mmio_in8 io (mmio_base d + ucast offset) w else inb io (io_base d + offset) w)"

definition rtl8139_write8 :: "('w, 'b) bus_scheme \<Rightarrow> rtl8139_device \<Rightarrow> u16 \<Rightarrow> u8 \<Rightarrow> 'w \<Rightarrow> 'w" where
  "rtl8139_write8 io d offset v w =
     (if is_mmio d then mmio_out8 io (mmio_base d + ucast offset) v w else outb io (io_base d + offset) v w)"

definition rtl8139_read16 :: "('w, 'b) bus_scheme \<Rightarrow> rtl8139_device \<Rightarrow> u16 \<Rightarrow> 'w \<Rightarrow> u16 \<times> 'w" where
  "rtl8139_read16 io d offset w =
     (if is_mmio d then mmio_in16 io (mmio_base d + ucast offset) w else inw io (io_base d + offset) w)"

definition rtl8139_write16 :: "('w, 'b) bus_scheme \<Rightarrow> rtl8139_device \<Rightarrow> u16 \<Rightarrow> u16 \<Rightarrow> 'w \<Rightarrow> 'w" where
  "rtl8139_write16 io d offset v w =
     (if is_mmio d then mmio_out16 io (mmio_base d + ucast offset) v w else outw io (io_base d + offset) v w)"

definition rtl8139_read32 :: "('w, 'b) bus_scheme \<Rightarrow> rtl8139_device \<Rightarrow> u16 \<Rightarrow> 'w \<Rightarrow> u32 \<times> 'w" where
  "rtl8139_read32 io d offset w =
     (if is_mmio d then mmio_in32 io (mmio_base d + ucast offset) w else inl io (io_base d + offset) w)"

definition rtl8139_write32 :: "('w, 'b) bus_scheme \<Rightarrow> rtl8139_device \<Rightarrow> u16 \<Rightarrow> u32 \<Rightarrow> 'w \<Rightarrow> 'w" where
  "rtl8139_write32 io d offset v w =
     (if is_mmio d then mmio_out32 io (mmio_base d + ucast offset) v w else outl io (io_base d + offset) v w)"

fun read_mac_loop :: "('w, 'b) bus_scheme \<Rightarrow> rtl8139_device \<Rightarrow> nat list \<Rightarrow> 'w \<Rightarrow> bytes \<times> 'w" where
  "read_mac_loop io d [] w = ([], w)"
| "read_mac_loop io d (i # is) w =
     (let (b, w) = rtl8139_read8 io d (RTL8139_MAC0 + of_nat i) w; (bs, w) = read_mac_loop io d is w in (b # bs, w))"

definition rtl8139_read_mac_address :: "('w, 'b) bus_scheme \<Rightarrow> rtl8139_device \<Rightarrow> 'w \<Rightarrow> rtl8139_device \<times> 'w" where
  "rtl8139_read_mac_address io d w =
     (case read_mac_loop io d [0..<6] w of (bs, w) \<Rightarrow> (d\<lparr>mac_address := bs\<rparr>, w))"

subsection \<open>Initialization\<close>

definition rtl_pci_address :: "u8 \<Rightarrow> u8 \<Rightarrow> u8 \<Rightarrow> u32 \<Rightarrow> u32" where
  "rtl_pci_address bus device func reg =
     push_bit 16 (ucast bus) OR push_bit 11 (ucast device) OR push_bit 8 (ucast func) OR reg OR 0x80000000"

definition rtl_pci_read :: "('w, 'b) bus_scheme \<Rightarrow> u8 \<Rightarrow> u8 \<Rightarrow> u8 \<Rightarrow> u32 \<Rightarrow> 'w \<Rightarrow> u32 \<times> 'w" where
  "rtl_pci_read io bus device func reg w = inl io 0xCFC (outl io 0xCF8 (rtl_pci_address bus device func reg) w)"

text \<open>The base address register chooses between ports and memory.\<close>

definition init_base :: "u32 \<Rightarrow> rtl8139_device \<Rightarrow> rtl8139_device" where
  "init_base bar0 d =
     (if bar0 AND 0x01 \<noteq> 0 then d\<lparr>io_base := ucast (bar0 AND 0xFFFC), is_mmio := False\<rparr>
      else d\<lparr>mmio_base := ucast (bar0 AND 0xFFFFFFF0), is_mmio := True\<rparr>)"

definition base_event :: "rtl8139_device \<Rightarrow> event" where
  "base_event d =
     (if is_mmio d then sayln ''[RTL8139] Using MMIO at %p'' [APtr (mmio_base d)]
      else sayln ''[RTL8139] Using Port I/O at 0x%04x'' [hex_arg (io_base d)])"

definition mac_args :: "bytes \<Rightarrow> parg list" where
  "mac_args m = map (\<lambda>i. hex_arg (m ! i)) [0..<6]"

definition init_identity ::
    "('w, 'b) bus_scheme \<Rightarrow> u8 \<Rightarrow> u8 \<Rightarrow> u8 \<Rightarrow> ('w, 'z) nic_scheme \<Rightarrow> ('w, 'z) nic_scheme" where
  "init_identity io bus device func s =
     (let (bar0, w) = rtl_pci_read io bus device func 0x10 (nic_hw s);
          d = init_base bar0 (nic_dev s);
          (irq_info, w) = rtl_pci_read io bus device func 0x3C w;
          d = d\<lparr>irq_line := ucast (irq_info AND 0xFF)\<rparr>;
          (d, w) = rtl8139_read_mac_address io d w
      in s\<lparr>nic_dev := d, nic_hw := w, nic_out := nic_out s
           @ [sayln ''[RTL8139] BAR0: 0x%08x'' [AUInt bar0], base_event d,
              sayln ''[RTL8139] IRQ Line: %d'' [byte_arg (irq_line d)],
              sayln ''[RTL8139] MAC Address: %02x:%02x:%02x:%02x:%02x:%02x'' (mac_args (mac_address d))]\<rparr>)"

text \<open>The transmit buffers, one page each; the result says whether all were allocated.\<close>

fun alloc_tx :: "nat list \<Rightarrow> ('w, 'z) nic_scheme \<Rightarrow> bool \<times> ('w, 'z) nic_scheme" where
  "alloc_tx [] s = (True, s)"
| "alloc_tx (i # is) s =
     (case pmm_alloc_page (nic_pages s) of (page, bm) \<Rightarrow>
        let s = s\<lparr>nic_pages := bm, nic_dev := (nic_dev s)\<lparr>tx_buffers := (tx_buffers (nic_dev s))[i := page]\<rparr>\<rparr>
        in if page = 0
           then (False, log_event (sayln ''[RTL8139] ERROR: Failed to allocate TX buffer %d'' [int_arg i]) s)
           else alloc_tx is (log_event
                  (sayln ''[RTL8139] TX Buffer %d allocated at %p'' [int_arg i, APtr page])
                  (s\<lparr>nic_dev := (nic_dev s)\<lparr>tx_buffer_pa := (tx_buffer_pa (nic_dev s))[i := page]\<rparr>\<rparr>)))"

definition init_buffers :: "('w, 'z) nic_scheme \<Rightarrow> bool \<times> ('w, 'z) nic_scheme" where
  "init_buffers s =
     (case pmm_alloc_contiguous 2 s of (rx, s) \<Rightarrow>
        let s = s\<lparr>nic_dev := (nic_dev s)\<lparr>rx_buffer := rx\<rparr>\<rparr>
        in if rx = 0 then (False, log_event (sayln ''[RTL8139] ERROR: Failed to allocate RX buffer'' []) s)
           else let s = log_event (sayln ''[RTL8139] RX Buffer allocated at %p'' [APtr rx])
                          (s\<lparr>nic_dev := (nic_dev s)\<lparr>rx_buffer_pa := rx\<rparr>\<rparr>);
                    (ok, s) = alloc_tx [0..<RTL8139_NUM_TX_DESC] s
                in if ok then (True, s\<lparr>nic_dev := (nic_dev s)\<lparr>tx_current_desc := 0\<rparr>\<rparr>) else (False, s))"

definition power_on :: "('w, 'b) bus_scheme \<Rightarrow> u8 \<Rightarrow> u8 \<Rightarrow> u8 \<Rightarrow> 'w \<Rightarrow> 'w" where
  "power_on io bus device func w =
     (let pci_addr = rtl_pci_address bus device func 0x52; (pm_val, w) = inl io 0xCFC (outl io 0xCF8 pci_addr w)
      in if pm_val AND 0x00000003 \<noteq> 0
         then outl io 0xCFC (pm_val AND NOT 0x00000003) (outl io 0xCF8 pci_addr w) else w)"

text \<open>The wait for the reset: what is left of the timeout.\<close>

fun reset_wait :: "('w, 'b) bus_scheme \<Rightarrow> rtl8139_device \<Rightarrow> nat \<Rightarrow> 'w \<Rightarrow> nat \<times> 'w" where
  "reset_wait io d 0 w = (0, snd (rtl8139_read8 io d RTL8139_CR w))"
| "reset_wait io d (Suc n) w =
     (case rtl8139_read8 io d RTL8139_CR w of (v, w) \<Rightarrow>
        if v AND RTL8139_CR_RST \<noteq> 0 then reset_wait io d n w else (Suc n, w))"

definition RESET_TIMEOUT :: nat where "RESET_TIMEOUT = 1000000"

fun write_tx_addresses :: "('w, 'b) bus_scheme \<Rightarrow> rtl8139_device \<Rightarrow> nat list \<Rightarrow> 'w \<Rightarrow> 'w" where
  "write_tx_addresses io d [] w = w"
| "write_tx_addresses io d (i # is) w =
     write_tx_addresses io d is
       (rtl8139_write32 io d (RTL8139_TXADDR0 + of_nat (i * 4)) (ucast (tx_buffer_pa d ! i)) w)"

definition program_card :: "('w, 'b) bus_scheme \<Rightarrow> rtl8139_device \<Rightarrow> 'w \<Rightarrow> 'w" where
  "program_card io d w =
     (let w = rtl8139_write32 io d RTL8139_RBSTART (ucast (rx_buffer_pa d)) w;
          w = write_tx_addresses io d [0..<RTL8139_NUM_TX_DESC] w;
          (rcr, w) = rtl8139_read32 io d RTL8139_RCR w;
          w = rtl8139_write32 io d RTL8139_RCR ((rcr OR (push_bit 15 1 OR push_bit 8 1 OR push_bit 7 1)) AND NOT (push_bit 6 1)) w;
          (tcr, w) = rtl8139_read32 io d RTL8139_TCR w;
          w = rtl8139_write32 io d RTL8139_TCR (tcr AND NOT 0x1F000 OR 0x8000) w;
          w = rtl8139_write16 io d RTL8139_CAPR 0 w;
          w = rtl8139_write16 io d RTL8139_CBR 0 w;
          w = rtl8139_write16 io d RTL8139_IMR (RTL8139_INT_ROK OR RTL8139_INT_TOK OR RTL8139_INT_RER OR RTL8139_INT_TER) w;
          (cr, w) = rtl8139_read8 io d RTL8139_CR w
      in rtl8139_write8 io d RTL8139_CR (cr OR (RTL8139_CR_RE OR RTL8139_CR_TE)) w)"

definition rtl8139_init ::
    "('w, 'b) bus_scheme \<Rightarrow> u8 \<Rightarrow> u8 \<Rightarrow> u8 \<Rightarrow> u32 \<Rightarrow> u32 \<Rightarrow> ('w, 'z) nic_scheme \<Rightarrow> ('w, 'z) nic_scheme" where
  "rtl8139_init io bus device func vendor_id device_id s =
     (let s = log_event (Say (10 # ascii ''[RTL8139] Initializing RTL8139 Network Device'' @ [10]) []) s;
          s = log_event (sayln ''[RTL8139] PCI %d:%d:%d - Vendor: 0x%04x Device: 0x%04x''
                [byte_arg bus, byte_arg device, byte_arg func, AUInt vendor_id, AUInt device_id]) s;
          s = init_identity io bus device func s;
          (ok, s) = init_buffers s
      in if \<not> ok then s
         else let d = nic_dev s;
                  w = power_on io bus device func (nic_hw s);
                  w = rtl8139_write8 io d RTL8139_CR RTL8139_CR_RST w;
                  (timeout, w) = reset_wait io d RESET_TIMEOUT w;
                  w = program_card io d w
              in s\<lparr>nic_dev := d\<lparr>rx_read_offset := 0\<rparr>, nic_hw := w, nic_out := nic_out s
                   @ [sayln ''[RTL8139] Resetting device...'' []]
                   @ (if timeout = 0 then [sayln ''[RTL8139] WARNING: Reset timeout'' []] else [])
                   @ [sayln ''[RTL8139] Reset complete'' [],
                      sayln ''[RTL8139] RX buffer address set to 0x%08x'' [hex_arg (rx_buffer_pa d)],
                      Say (ascii ''[RTL8139] Initialization complete - RX/TX enabled'' @ [10, 10]) []]\<rparr>)"

subsection \<open>The search on the bus\<close>

definition is_rtl8139 :: "u32 \<Rightarrow> bool" where
  "is_rtl8139 vd \<longleftrightarrow> vd AND 0xFFFF = RTL8139_VENDOR_ID \<and> drop_bit 16 vd = RTL8139_DEVICE_ID"

definition found_card ::
    "('w, 'b) bus_scheme \<Rightarrow> u8 \<Rightarrow> u8 \<Rightarrow> u8 \<Rightarrow> u32 \<Rightarrow> ('w, 'z) nic_scheme \<Rightarrow> ('w, 'z) nic_scheme" where
  "found_card io bus device func vd s =
     rtl8139_init io bus device func (vd AND 0xFFFF) (drop_bit 16 vd)
       (log_event (if func = 0 then sayln ''[RTL8139] Found RTL8139 at PCI %d:%d:0'' [byte_arg bus, byte_arg device]
          else sayln ''[RTL8139] Found RTL8139 at PCI %d:%d:%d'' [byte_arg bus, byte_arg device, byte_arg func]) s)"

text \<open>The searches return whether they found a card, which ends the function.\<close>

fun detect_functions ::
    "('w, 'b) bus_scheme \<Rightarrow> u8 \<Rightarrow> u8 \<Rightarrow> u8 list \<Rightarrow> ('w, 'z) nic_scheme \<Rightarrow> bool \<times> ('w, 'z) nic_scheme" where
  "detect_functions io bus device [] s = (False, s)"
| "detect_functions io bus device (func # funcs) s =
     (case rtl_pci_read io bus device func 0x00 (nic_hw s) of (vd, w) \<Rightarrow>
        let s = s\<lparr>nic_hw := w\<rparr>
        in if vd AND 0xFFFF = 0xFFFF then detect_functions io bus device funcs s
           else if is_rtl8139 vd then (True, found_card io bus device func vd s)
           else detect_functions io bus device funcs s)"

definition detect_device ::
    "('w, 'b) bus_scheme \<Rightarrow> u8 \<Rightarrow> u8 \<Rightarrow> ('w, 'z) nic_scheme \<Rightarrow> bool \<times> ('w, 'z) nic_scheme" where
  "detect_device io bus device s =
     (case rtl_pci_read io bus device 0 0x00 (nic_hw s) of (vd, w) \<Rightarrow>
        let s = s\<lparr>nic_hw := w\<rparr>
        in if vd AND 0xFFFF = 0xFFFF then (False, s)
           else if is_rtl8139 vd then (True, found_card io bus device 0 vd s)
           else case rtl_pci_read io bus device 0 0x0C (nic_hw s) of (header_info, w) \<Rightarrow>
             let s = s\<lparr>nic_hw := w\<rparr>; header_type = (ucast (drop_bit 16 header_info AND 0xFF) :: u8)
             in if header_type AND 0x80 = 0 then (False, s)
                else detect_functions io bus device [1, 2, 3, 4, 5, 6, 7] s)"

fun detect_slots :: "('w, 'b) bus_scheme \<Rightarrow> (u8 \<times> u8) list \<Rightarrow> ('w, 'z) nic_scheme \<Rightarrow> ('w, 'z) nic_scheme" where
  "detect_slots io [] s = log_event (sayln ''[RTL8139] No RTL8139 device found on PCI bus'' []) s"
| "detect_slots io ((bus, device) # ds) s =
     (case detect_device io bus device s of (found, s) \<Rightarrow> if found then s else detect_slots io ds s)"

definition rtl8139_detect_and_init :: "('w, 'b) bus_scheme \<Rightarrow> ('w, 'z) nic_scheme \<Rightarrow> ('w, 'z) nic_scheme" where
  "rtl8139_detect_and_init io s =
     detect_slots io pci_slots (log_event (sayln ''[RTL8139] Scanning for RTL8139 network devices...'' []) s)"

subsection \<open>Sending and interrupts\<close>

text \<open>\<open>data\<close> holds at least \<open>length\<close> bytes, as the callers promise.\<close>

definition rtl8139_send_packet ::
    "('w, 'b) bus_scheme \<Rightarrow> bytes \<Rightarrow> u16 \<Rightarrow> ('w, 'z) nic_scheme \<Rightarrow> ('w, 'z) nic_scheme" where
  "rtl8139_send_packet io data len s =
     (if tx_buffers (nic_dev s) ! 0 = 0 then log_event (sayln ''[RTL8139] ERROR: Device not initialized'' []) s
      else if RTL8139_TX_BUF_SIZE < len
      then log_event (sayln ''[RTL8139] ERROR: Packet too large (%d > %d)''
             [AInt (ucast len), AInt (ucast RTL8139_TX_BUF_SIZE)]) s
      else let d = nic_dev s;
               desc = tx_current_desc d;
               txstatus_offset = RTL8139_TXSTATUS0 + ucast desc * 4;
               (txstatus, w) = rtl8139_read32 io d txstatus_offset (nic_hw s);
               s = s\<lparr>nic_hw := w\<rparr>
           in if txstatus AND RTL8139_TSD_OWN \<noteq> 0
              then log_event (sayln ''[RTL8139] WARNING: TX descriptor %d busy'' [byte_arg desc]) s
              else let s = s\<lparr>nic_ram := mem_write (tx_buffers d ! unat desc) (take (unat len) data) (nic_ram s)\<rparr>;
                       txlen = ucast len AND RTL8139_TSD_SIZE;
                       s = s\<lparr>nic_hw := rtl8139_write32 io d txstatus_offset (RTL8139_TSD_OWN OR txlen) (nic_hw s)\<rparr>;
                       s = log_event (sayln ''[RTL8139] Sent packet %d bytes on descriptor %d''
                             [AInt (ucast len), byte_arg desc]) s
                   in s\<lparr>nic_dev := d\<lparr>tx_current_desc := (desc + 1) mod 4\<rparr>\<rparr>)"

definition rtl8139_handle_interrupt :: "('w, 'b) bus_scheme \<Rightarrow> ('w, 'z) nic_scheme \<Rightarrow> ('w, 'z) nic_scheme" where
  "rtl8139_handle_interrupt io s =
     (case rtl8139_read16 io (nic_dev s) RTL8139_ISR (nic_hw s) of (isr, w) \<Rightarrow>
        s\<lparr>nic_hw := rtl8139_write16 io (nic_dev s) RTL8139_ISR isr w, nic_out := nic_out s
          @ (if isr AND RTL8139_INT_ROK \<noteq> 0 then [sayln ''[RTL8139] RX packet received'' []] else [])
          @ (if isr AND RTL8139_INT_TOK \<noteq> 0 then [sayln ''[RTL8139] TX complete'' []] else [])
          @ (if isr AND RTL8139_INT_RER \<noteq> 0 then [sayln ''[RTL8139] RX error'' []] else [])
          @ (if isr AND RTL8139_INT_TER \<noteq> 0 then [sayln ''[RTL8139] TX error'' []] else [])\<rparr>)"

definition rtl8139_get_device :: "('w, 'z) nic_scheme \<Rightarrow> rtl8139_device" where
  "rtl8139_get_device s = nic_dev s"

end
