(* ===== verification/Net.thy ===== *)
theory Net
  imports Rtl8139
begin

text \<open>
  The network layer (\<open>drivers/network/net.c\<close>, \<open>net.h\<close>): the addresses, the internet checksum,
  the ARP and ICMP requests as the bytes of their packets, and the handling of a received
  packet. It extends the state of the card with \<open>our_mac\<close> and \<open>our_ip\<close>.
\<close>

record 'w net = "'w nic" +
  our_mac :: bytes
  our_ip :: u32

definition net_set_ip :: "u32 \<Rightarrow> ('w, 'z) net_scheme \<Rightarrow> ('w, 'z) net_scheme" where
  "net_set_ip ip s = s\<lparr>our_ip := ip\<rparr>"

definition net_set_mac :: "bytes \<Rightarrow> ('w, 'z) net_scheme \<Rightarrow> ('w, 'z) net_scheme" where
  "net_set_mac mac s = s\<lparr>our_mac := map (\<lambda>i. mac ! i) [0..<6]\<rparr>"

definition net_init :: "('w, 'z) net_scheme \<Rightarrow> ('w, 'z) net_scheme" where
  "net_init s =
     (let s = s\<lparr>our_mac := map (\<lambda>i. mac_address (nic_dev s) ! i) [0..<6]\<rparr>
      in log_event (sayln ''[NET] MAC: %02x:%02x:%02x:%02x:%02x:%02x'' (mac_args (our_mac s))) s)"

subsection \<open>The checksum\<close>

text \<open>The words are read as the processor stores them, the low byte first.\<close>

fun sum_words :: "bytes \<Rightarrow> nat list \<Rightarrow> u32 \<Rightarrow> u32" where
  "sum_words data [] acc = acc"
| "sum_words data (i # is) acc = sum_words data is (acc + ucast (get_le16 data (2 * i)))"

lemma high_half: "unat (drop_bit 16 (acc :: u32)) = unat acc div 2 ^ 16"
  by (simp add: drop_bit_eq_div unat_div)

lemma fold_step:
  assumes "drop_bit 16 acc \<noteq> (0 :: u32)"
  shows "unat ((acc AND 0xFFFF) + drop_bit 16 acc) = unat acc mod 2 ^ 16 + unat acc div 2 ^ 16"
    and "unat acc mod 2 ^ 16 + unat acc div 2 ^ 16 < unat acc"
proof -
  have "(0xFFFF :: u32) = mask 16" by (simp add: mask_eq_exp_minus_1)
  then have "acc AND 0xFFFF = take_bit 16 acc" by (simp only: take_bit_eq_mask)
  then have l: "unat (acc AND 0xFFFF) = unat acc mod 2 ^ 16" by (metis unsigned_take_bit_eq take_bit_eq_mod)
  note h = high_half [of acc]
  have "unat acc div 2 ^ 16 < 2 ^ 16" using unsigned_less [of acc, where 'a = nat] by (simp add: less_mult_imp_div_less)
  moreover have "unat acc mod 2 ^ 16 < 2 ^ 16" by simp
  ultimately have "unat acc mod 2 ^ 16 + unat acc div 2 ^ 16 < 2 ^ 32" by simp
  then show "unat ((acc AND 0xFFFF) + drop_bit 16 acc) = unat acc mod 2 ^ 16 + unat acc div 2 ^ 16"
    using unat_add_small [of "acc AND 0xFFFF" "drop_bit 16 acc"] by (simp add: l h)
  have "unat acc div 2 ^ 16 \<noteq> 0" using assms h by (metis unat_eq_zero)
  then have "unat acc div 2 ^ 16 < 2 ^ 16 * (unat acc div 2 ^ 16)" by simp
  then show "unat acc mod 2 ^ 16 + unat acc div 2 ^ 16 < unat acc"
    using mult_div_mod_eq [of "2 ^ 16" "unat acc"] by linarith
qed

function fold_carries :: "u32 \<Rightarrow> u32" where
  "fold_carries acc =
     (if drop_bit 16 acc \<noteq> 0 then fold_carries ((acc AND 0xFFFF) + drop_bit 16 acc) else acc)"
  by pat_completeness auto
termination by (relation "measure unat") (use fold_step in auto)

declare fold_carries.simps [simp del]

definition net_checksum :: "bytes \<Rightarrow> u16 \<Rightarrow> u16" where
  "net_checksum data len =
     (let acc = sum_words data [0..<unat (len div 2)] 0;
          acc = (if len AND 1 \<noteq> 0 then acc + push_bit 8 (ucast (data ! unat (len - 1))) else acc)
      in ucast (NOT (fold_carries acc)))"

subsection \<open>Packets\<close>

text \<open>The packed headers, as their bytes.\<close>

definition eth_header :: "bytes \<Rightarrow> bytes \<Rightarrow> u16 \<Rightarrow> bytes" where
  "eth_header dest_mac src_mac ethertype = dest_mac @ src_mac @ le16 ethertype"

definition arp_header :: "u16 \<Rightarrow> u16 \<Rightarrow> u8 \<Rightarrow> u8 \<Rightarrow> u16 \<Rightarrow> bytes \<Rightarrow> u32 \<Rightarrow> bytes \<Rightarrow> u32 \<Rightarrow> bytes" where
  "arp_header hardware_type protocol_type hlen plen operation sender_mac sender_ip target_mac target_ip =
     le16 hardware_type @ le16 protocol_type @ [hlen, plen] @ le16 operation @ sender_mac @ le32 sender_ip
     @ target_mac @ le32 target_ip"

definition ipv4_header :: "u8 \<Rightarrow> u8 \<Rightarrow> u16 \<Rightarrow> u16 \<Rightarrow> u16 \<Rightarrow> u8 \<Rightarrow> u8 \<Rightarrow> u16 \<Rightarrow> u32 \<Rightarrow> u32 \<Rightarrow> bytes" where
  "ipv4_header version_ihl dscp_ecn total_length identification flags ttl protocol header_checksum src_ip dest_ip =
     [version_ihl, dscp_ecn] @ le16 total_length @ le16 identification @ le16 flags @ [ttl, protocol]
     @ le16 header_checksum @ le32 src_ip @ le32 dest_ip"

definition icmp_header :: "u8 \<Rightarrow> u8 \<Rightarrow> u16 \<Rightarrow> u16 \<Rightarrow> u16 \<Rightarrow> bytes" where
  "icmp_header typ code checksum identifier sequence =
     [typ, code] @ le16 checksum @ le16 identifier @ le16 sequence"

definition IP_PROTOCOL_ICMP :: u8 where "IP_PROTOCOL_ICMP = 1"
definition ICMP_ECHO_REQUEST :: u8 where "ICMP_ECHO_REQUEST = 8"

definition ip_args :: "u32 \<Rightarrow> parg list" where
  "ip_args ip = map (\<lambda>k. AInt (drop_bit k ip AND 0xFF)) [0, 8, 16, 24]"

definition arp_packet :: "bytes \<Rightarrow> u32 \<Rightarrow> u32 \<Rightarrow> bytes" where
  "arp_packet mac ip target_ip =
     eth_header (replicate 6 0xFF) mac 0x0608
     @ arp_header 0x0100 0x0008 6 4 0x0100 mac ip (replicate 6 0) target_ip"

definition net_send_arp_request ::
    "('w, 'b) bus_scheme \<Rightarrow> u32 \<Rightarrow> ('w, 'z) net_scheme \<Rightarrow> ('w, 'z) net_scheme" where
  "net_send_arp_request io target_ip s =
     (let packet = arp_packet (our_mac s) (our_ip s) target_ip;
          s = log_event (sayln ''[NET] Sending ARP request for %d.%d.%d.%d'' (ip_args target_ip)) s
      in rtl8139_send_packet io packet (14 + 28) s)"

text \<open>Both checksums are taken with their field zero and then stored in it.\<close>

definition echo_ipv4 :: "u32 \<Rightarrow> u32 \<Rightarrow> bytes" where
  "echo_ipv4 ip target_ip =
     (let h = (\<lambda>checksum. ipv4_header 0x45 0 0x2400 0 0 64 IP_PROTOCOL_ICMP checksum ip target_ip)
      in h (net_checksum (h 0) 20))"

definition echo_data :: bytes where
  "echo_data = map of_nat [0..<8]"

definition echo_icmp :: "u16 \<Rightarrow> bytes" where
  "echo_icmp seq =
     (let h = (\<lambda>checksum. icmp_header ICMP_ECHO_REQUEST 0 checksum 0x0001 seq @ echo_data)
      in h (net_checksum (h 0) 16))"

definition echo_packet :: "bytes \<Rightarrow> u32 \<Rightarrow> u32 \<Rightarrow> u16 \<Rightarrow> bytes" where
  "echo_packet mac ip target_ip seq =
     eth_header (replicate 6 0xFF) mac 0x0008 @ echo_ipv4 ip target_ip @ echo_icmp seq"

definition net_send_icmp_echo ::
    "('w, 'b) bus_scheme \<Rightarrow> u32 \<Rightarrow> u16 \<Rightarrow> ('w, 'z) net_scheme \<Rightarrow> ('w, 'z) net_scheme" where
  "net_send_icmp_echo io target_ip seq s =
     (let packet = echo_packet (our_mac s) (our_ip s) target_ip seq;
          s = log_event (sayln ''[NET] Sending ICMP echo request to %d.%d.%d.%d'' (ip_args target_ip)) s
      in rtl8139_send_packet io packet (14 + 20 + 8 + 8) s)"

definition net_handle_packet :: "bytes \<Rightarrow> u16 \<Rightarrow> ('w, 'z) net_scheme \<Rightarrow> ('w, 'z) net_scheme" where
  "net_handle_packet packet len s =
     (if len < 14 then s
      else let ethertype = get_le16 packet 12
           in if ethertype = 0x0608
              then (if len < 14 + 28 then s else log_event (sayln ''[NET] ARP packet received'' []) s)
              else if ethertype = 0x0008
              then (if len < 14 + 20 then s else log_event (sayln ''[NET] IPv4 packet received'' []) s)
              else s)"

end
