(* ===== verification/Net_Props.thy ===== *)
theory Net_Props
  imports Net
begin

text \<open>
  What the network layer promises: the internet checksum verifies, and the frame an echo
  request puts in the card's buffer is well-formed.
\<close>

subsection \<open>The checksum\<close>

definition word_sum :: "bytes \<Rightarrow> nat list \<Rightarrow> nat" where
  "word_sum data is = sum_list (map (\<lambda>i. unat (get_le16 data (2 * i))) is)"

text \<open>The sum in one's complement: the residue modulo 65535 that is 0 only for 0.\<close>

definition ones_sum :: "nat \<Rightarrow> nat" where
  "ones_sum n = (if n = 0 then 0 else (n - 1) mod 65535 + 1)"

lemma word_sum_bound: "word_sum data is \<le> length is * 65535"
proof (induction "is")
  case (Cons i "is")
  have "unat (get_le16 data (2 * i)) \<le> 65535" using unsigned_less [of "get_le16 data (2 * i)", where 'a = nat] by simp
  with Cons show ?case by (simp add: word_sum_def)
qed (simp add: word_sum_def)

lemma sum_words_value:
  "unat acc + word_sum data is < 2 ^ 32 \<Longrightarrow> unat (sum_words data is acc) = unat acc + word_sum data is"
proof (induction "is" arbitrary: acc)
  case (Cons i "is")
  have u: "unat (acc + ucast (get_le16 data (2 * i))) = unat acc + unat (get_le16 data (2 * i))"
    using Cons.prems by (subst unat_add_small) (auto simp: word_sum_def unat_ucast_up)
  then show ?case using Cons by (simp add: word_sum_def)
qed (simp add: word_sum_def)

lemma ones_sum_step:
  assumes "n div 2 ^ 16 \<noteq> 0"
  shows "ones_sum (n mod 2 ^ 16 + n div 2 ^ 16) = ones_sum n"
proof -
  have "n = n mod 2 ^ 16 + n div 2 ^ 16 + 65535 * (n div 2 ^ 16)"
    using mult_div_mod_eq [of "2 ^ 16" n] by simp
  then have "n - 1 = (n mod 2 ^ 16 + n div 2 ^ 16 - 1) + 65535 * (n div 2 ^ 16)"
    using assms by linarith
  then have "(n - 1) mod 65535 = (n mod 2 ^ 16 + n div 2 ^ 16 - 1) mod 65535" by (metis mod_mult_self2)
  moreover have "n \<noteq> 0" using assms by auto
  ultimately show ?thesis using assms by (simp add: ones_sum_def)
qed

lemma fold_carries_value: "unat (fold_carries acc) = ones_sum (unat acc)"
proof (induction acc rule: fold_carries.induct)
  case (1 acc)
  note h = high_half [of acc]
  show ?case
  proof (cases "drop_bit 16 acc = 0")
    case True
    with h have "unat acc < 65536" by (simp add: div_eq_0_iff)
    with True show ?thesis by (subst fold_carries.simps) (auto simp: ones_sum_def)
  next
    case False
    with h have "unat acc div 2 ^ 16 \<noteq> 0" by (metis unat_eq_zero)
    from ones_sum_step [OF this] 1 False fold_step [OF False] show ?thesis
      by (subst fold_carries.simps) simp
  qed
qed

lemma ones_sum_bound: "ones_sum n \<le> 65535"
  using mod_less_divisor [of 65535 "n - 1"] by (auto simp: ones_sum_def)

lemma unat_not: "unat (NOT (x :: u32)) = 2 ^ 32 - 1 - unat x"
proof -
  have "NOT x = -1 - x" by (simp add: not_eq_complement)
  moreover have "unat (-1 - x) = unat (-1 :: u32) - unat x" by (rule unat_sub_small) simp
  ultimately show ?thesis by (simp add: unsigned_minus_1_eq_mask mask_eq_exp_minus_1)
qed

lemma checksum_value:
  assumes "even (unat len)"
  shows "unat (net_checksum data len) = 65535 - ones_sum (word_sum data [0..<unat len div 2])"
proof -
  let ?is = "[0..<unat len div 2]"
  let ?acc = "sum_words data ?is 0"
  have "unat len div 2 < 2 ^ 15" using unsigned_less [of len, where 'a = nat] by simp
  then have "word_sum data ?is < 2 ^ 32" using word_sum_bound [of data ?is] by simp
  then have v: "unat (fold_carries ?acc) = ones_sum (word_sum data ?is)"
    using sum_words_value [of 0 data ?is] by (simp add: fold_carries_value)
  have o: "len AND 1 = 0" using assms by (simp add: and_one_eq) (simp add: word_unat_eq_iff unat_mod even_iff_mod_2_eq_zero)
  have "unat (NOT (fold_carries ?acc)) = 2 ^ 32 - 1 - ones_sum (word_sum data ?is)"
    using unat_not [of "fold_carries ?acc"] by (simp add: v)
  then have "unat (ucast (NOT (fold_carries ?acc)) :: u16) = (2 ^ 32 - 1 - ones_sum (word_sum data ?is)) mod 2 ^ 16"
    by (simp add: unsigned_ucast_eq take_bit_eq_mod)
  also have "\<dots> = 65535 - ones_sum (word_sum data ?is)"
  proof -
    have "2 ^ 32 - 1 - ones_sum (word_sum data ?is) = 65535 - ones_sum (word_sum data ?is) + 65535 * 2 ^ 16"
      using ones_sum_bound [of "word_sum data ?is"] by simp
    then show ?thesis by (simp only: mod_mult_self1) simp
  qed
  finally show ?thesis using o by (simp add: net_checksum_def unat_div)
qed

lemma ones_sum_complete: "ones_sum (n + (65535 - ones_sum n)) = 65535"
proof (cases "n = 0")
  case False
  then have "ones_sum n = (n - 1) mod 65535 + 1" by (simp add: ones_sum_def)
  with False have "n + (65535 - ones_sum n) = 65535 * ((n - 1) div 65535) + 65535"
    using mult_div_mod_eq [of 65535 "n - 1"] ones_sum_bound [of n] by linarith
  then have "n + (65535 - ones_sum n) - 1 = 65534 + 65535 * ((n - 1) div 65535)" by simp
  then have "(n + (65535 - ones_sum n) - 1) mod 65535 = 65534" by (simp only: mod_mult_self2) simp
  with False show ?thesis by (simp add: ones_sum_def)
qed (simp add: ones_sum_def)

lemma checksum_verifies:
  assumes "even (unat len)" "unat len \<le> length data" "2 * k + 2 \<le> unat len" "get_le16 data (2 * k) = 0"
  shows "net_checksum (blit (2 * k) (le16 (net_checksum data len)) data) len = 0"
proof -
  let ?n = "unat len div 2" and ?c = "net_checksum data len"
  let ?b = "blit (2 * k) (le16 ?c) data"
  have g: "unat (get_le16 ?b (2 * i)) = (if i = k then unat ?c else unat (get_le16 data (2 * i)))" if "i < ?n" for i
    using that assms(2,3) by (auto simp: get_le16_blit intro!: arg_cong [where f = unat] get_le16_blit_other)
  have k: "k \<in> {0..<?n}" using assms(3) by auto
  have "word_sum ?b [0..<?n] = (\<Sum>i = 0..<?n. if i = k then unat ?c else unat (get_le16 data (2 * i)))"
    using g by (simp add: word_sum_def interv_sum_list_conv_sum_set_nat)
  also have "\<dots> = unat ?c + (\<Sum>i \<in> {0..<?n} - {k}. unat (get_le16 data (2 * i)))"
    using k by (simp add: sum.remove [of _ k])
  also have "(\<Sum>i \<in> {0..<?n} - {k}. unat (get_le16 data (2 * i))) = word_sum data [0..<?n]"
    using k assms(4) by (simp add: word_sum_def interv_sum_list_conv_sum_set_nat sum.remove [of _ k])
  finally have "word_sum ?b [0..<?n] = word_sum data [0..<?n] + (65535 - ones_sum (word_sum data [0..<?n]))"
    using checksum_value [OF assms(1), of data] by simp
  then have "unat (net_checksum ?b len) = 0"
    using checksum_value [OF assms(1), of ?b] ones_sum_complete [of "word_sum data [0..<?n]"] by simp
  then show ?thesis by (simp add: unat_eq_zero)
qed

text \<open>A value of 16 bits as the network reads it, the high byte first.\<close>

definition net16 :: "bytes \<Rightarrow> nat \<Rightarrow> nat" where
  "net16 b i = unat (b ! i) * 256 + unat (b ! (i + 1))"

text \<open>
  What a receiver checks (RFC 1071): the one's complement sum of the words, the checksum among
  them, is all ones; as numbers, the sum is not zero and a multiple of 65535.
\<close>

definition net_sum :: "bytes \<Rightarrow> nat" where
  "net_sum b = (\<Sum>i < length b div 2. net16 b (2 * i))"

definition checksum_valid :: "bytes \<Rightarrow> bool" where
  "checksum_valid b \<longleftrightarrow> 0 < net_sum b \<and> net_sum b mod 65535 = 0"

lemma le16_value: "unat (get_le16 b i) = unat (b ! i) + 256 * unat (b ! (i + 1))"
proof -
  have "join16 x y = ucast x + push_bit 8 (ucast y)" for x y
    unfolding join16_def by (rule disjunctive_add_eq_or [symmetric], rule bit_word_eqI)
      (auto simp: bit_simps dest: bit_u8_high)
  moreover have "unat (push_bit 8 (ucast y) :: u16) = 256 * unat y" for y :: u8
    using unsigned_less [of y, where 'a = nat] by (simp add: push_bit_eq_mult unat_word_ariths unat_ucast_up)
  moreover have "unat x + 256 * unat y < 2 ^ 16" for x y :: u8
    using unsigned_less [of x, where 'a = nat] unsigned_less [of y, where 'a = nat] by simp
  ultimately show ?thesis by (simp add: get_le16_def unat_word_ariths unat_ucast_up)
qed

lemma net_sum_swapped:
  "\<exists>h. 256 * word_sum b [0..<length b div 2] = net_sum b + 65535 * h"
  "net_sum b = 0 \<Longrightarrow> word_sum b [0..<length b div 2] = 0"
proof -
  let ?n = "length b div 2"
  have w: "word_sum b [0..<?n] = (\<Sum>i < ?n. unat (b ! (2 * i)) + 256 * unat (b ! (2 * i + 1)))"
    by (simp add: word_sum_def interv_sum_list_conv_sum_set_nat le16_value atLeast0LessThan)
  have "256 * (\<Sum>i < ?n. unat (b ! (2 * i)) + 256 * unat (b ! (2 * i + 1)))
      = (\<Sum>i < ?n. net16 b (2 * i) + 65535 * unat (b ! (2 * i + 1)))"
    unfolding sum_distrib_left by (intro sum.cong) (simp_all add: net16_def)
  also have "\<dots> = net_sum b + 65535 * (\<Sum>i < ?n. unat (b ! (2 * i + 1)))"
    by (simp only: net_sum_def sum.distrib sum_distrib_left)
  finally show "\<exists>h. 256 * word_sum b [0..<?n] = net_sum b + 65535 * h" unfolding w by blast
  show "word_sum b [0..<?n] = 0" if "net_sum b = 0"
    using that by (simp add: w net_sum_def net16_def)
qed

lemma checksum_zero_valid:
  assumes "net_checksum b len = 0" "unat len = length b" "even (length b)"
  shows "checksum_valid b"
proof -
  let ?w = "word_sum b [0..<length b div 2]"
  have "ones_sum ?w = 65535"
    using checksum_value [of len b] ones_sum_bound [of ?w] assms by simp
  then have w: "0 < ?w" "(?w - 1) mod 65535 = 65534" by (auto simp: ones_sum_def split: if_splits)
  then have "?w mod 65535 = 0" using mod_Suc [of "?w - 1" 65535] by simp
  moreover obtain h where h: "256 * ?w = net_sum b + 65535 * h" using net_sum_swapped(1) [of b] by blast
  ultimately have "net_sum b mod 65535 = 0" by (metis mod_mult_right_eq mod_mult_self2 mult_0_right mod_0)
  with w(1) net_sum_swapped(2) [of b] show ?thesis by (auto simp: checksum_valid_def)
qed

subsection \<open>The frame of an echo request\<close>

lemma ipv4_checksum_blit:
  "ipv4_header a b c d e f g ck x y = blit 10 (le16 ck) (ipv4_header a b c d e f g 0 x y)"
  by (simp add: ipv4_header_def blit_def le16_def le32_def)

lemma icmp_checksum_blit:
  "icmp_header a b ck c d @ data = blit 2 (le16 ck) (icmp_header a b 0 c d @ data)"
  by (simp add: icmp_header_def blit_def le16_def)

lemma length_headers [simp]:
  "length (ipv4_header a b c d e f g ck x y) = 20" "length (icmp_header a b ck c d) = 8"
  "length dest = 6 \<Longrightarrow> length src = 6 \<Longrightarrow> length (eth_header dest src ty) = 14"
  "length echo_data = 8" "length (echo_ipv4 ip target) = 20" "length (echo_icmp seq) = 16"
  by (simp_all add: ipv4_header_def icmp_header_def eth_header_def echo_data_def echo_ipv4_def echo_icmp_def)

lemma echo_ipv4_verifies: "net_checksum (echo_ipv4 ip target) 20 = 0"
proof -
  let ?h = "\<lambda>ck. ipv4_header 0x45 0 0x2400 0 0 64 IP_PROTOCOL_ICMP ck ip target"
  have "get_le16 (?h 0) 10 = 0" by (simp add: ipv4_header_def le16_def get_le16_def join16_def)
  then have "net_checksum (blit (2 * 5) (le16 (net_checksum (?h 0) 20)) (?h 0)) 20 = 0"
    by (intro checksum_verifies) simp_all
  moreover have "echo_ipv4 ip target = blit 10 (le16 (net_checksum (?h 0) 20)) (?h 0)"
    unfolding echo_ipv4_def Let_def by (rule ipv4_checksum_blit)
  ultimately show ?thesis by simp
qed

lemma echo_icmp_verifies: "net_checksum (echo_icmp seq) 16 = 0"
proof -
  let ?h = "\<lambda>ck. icmp_header ICMP_ECHO_REQUEST 0 ck 0x0001 seq @ echo_data"
  have "get_le16 (?h 0) 2 = 0" by (simp add: icmp_header_def le16_def get_le16_def join16_def)
  then have "net_checksum (blit (2 * 1) (le16 (net_checksum (?h 0) 16)) (?h 0)) 16 = 0"
    by (intro checksum_verifies) simp_all
  moreover have "echo_icmp seq = blit 2 (le16 (net_checksum (?h 0) 16)) (?h 0)"
    unfolding echo_icmp_def Let_def by (rule icmp_checksum_blit)
  ultimately show ?thesis by simp
qed

lemma echo_ipv4_valid: "checksum_valid (echo_ipv4 ip target)"
  by (rule checksum_zero_valid [OF echo_ipv4_verifies]) simp_all

lemma echo_icmp_valid: "checksum_valid (echo_icmp seq)"
  by (rule checksum_zero_valid [OF echo_icmp_verifies]) simp_all

lemma length_echo_packet [simp]: "length mac = 6 \<Longrightarrow> length (echo_packet mac ip target seq) = 50"
  by (simp add: echo_packet_def)

lemma echo_parts:
  assumes "length mac = 6"
  shows "seg 0 6 (echo_packet mac ip target seq) = replicate 6 0xFF" "seg 6 6 (echo_packet mac ip target seq) = mac"
    "seg 12 2 (echo_packet mac ip target seq) = [0x08, 0x00]"
    "seg 14 20 (echo_packet mac ip target seq) = echo_ipv4 ip target"
    "seg 34 16 (echo_packet mac ip target seq) = echo_icmp seq"
  using assms by (simp_all add: seg_def echo_packet_def eth_header_def le16_def)

text \<open>The card can take a frame: it has buffers and the current descriptor is not busy.\<close>

definition card_free :: "('w, 'b) bus_scheme \<Rightarrow> ('w, 'z) nic_scheme \<Rightarrow> bool" where
  "card_free io s \<longleftrightarrow> tx_buffers (nic_dev s) ! 0 \<noteq> 0
     \<and> fst (rtl8139_read32 io (nic_dev s) (RTL8139_TXSTATUS0 + ucast (tx_current_desc (nic_dev s)) * 4) (nic_hw s))
         AND RTL8139_TSD_OWN = 0"

definition current_buffer :: "('w, 'z) nic_scheme \<Rightarrow> u64" where
  "current_buffer s = tx_buffers (nic_dev s) ! unat (tx_current_desc (nic_dev s))"

lemma seg_inside: "j + n \<le> k \<Longrightarrow> seg j n (seg i k xs) = seg (i + j) n xs"
  by (simp add: seg_def drop_take add.commute min_absorb1)

lemma send_free:
  assumes "card_free io s" "len \<le> RTL8139_TX_BUF_SIZE" "unat len \<le> length data"
  shows "nic_ram (rtl8139_send_packet io data len s) = mem_write (current_buffer s) (take (unat len) data) (nic_ram s)"
    and "nic_hw (rtl8139_send_packet io data len s) =
      (let off = RTL8139_TXSTATUS0 + ucast (tx_current_desc (nic_dev s)) * 4
       in rtl8139_write32 io (nic_dev s) off (RTL8139_TSD_OWN OR (ucast len AND RTL8139_TSD_SIZE))
            (snd (rtl8139_read32 io (nic_dev s) off (nic_hw s))))"
    and "nic_dev (rtl8139_send_packet io data len s)
      = (nic_dev s)\<lparr>tx_current_desc := (tx_current_desc (nic_dev s) + 1) mod 4\<rparr>"
  using assms
  by (auto simp: rtl8139_send_packet_def card_free_def current_buffer_def log_event_def Let_def not_less
      split: prod.splits)

lemma send_busy:
  assumes "\<not> card_free io s \<or> RTL8139_TX_BUF_SIZE < len"
  shows "nic_ram (rtl8139_send_packet io data len s) = nic_ram s \<and> nic_dev (rtl8139_send_packet io data len s) = nic_dev s"
  using assms by (auto simp: rtl8139_send_packet_def card_free_def log_event_def Let_def split: prod.splits)

lemma send_keeps_net [simp]:
  "our_mac (rtl8139_send_packet io data len s) = our_mac (s :: ('w, 'z) net_scheme)"
  "our_ip (rtl8139_send_packet io data len s) = our_ip s"
  by (auto simp: rtl8139_send_packet_def log_event_def Let_def split: prod.splits)

text \<open>C28: an echo request puts a well-formed frame in the card's buffer. When the card can take a
  frame, the buffer of the current descriptor holds 50 bytes: the broadcast address, our own,
  the IPv4 type, an IPv4 header whose length field is the length of what follows the Ethernet
  header, and an echo request; both have a checksum a receiver accepts: the one's complement
  sum of their words, in network order and with the checksum, is all ones. The address
  and the sequence number are stored with their low byte first, which is not network order.\<close>

theorem echo_frame:
  assumes "card_free io s" "length (our_mac s) = 6"
  shows "\<exists>frame. mem_read (current_buffer s) 50 (nic_ram (net_send_icmp_echo io target seq s)) = frame
    \<and> seg 0 6 frame = replicate 6 0xFF \<and> seg 6 6 frame = our_mac s \<and> net16 frame 12 = 0x800
    \<and> frame ! 14 = 0x45 \<and> net16 frame 16 = length frame - 14 \<and> frame ! 23 = 1
    \<and> checksum_valid (seg 14 20 frame) \<and> frame ! 34 = 8 \<and> checksum_valid (seg 34 16 frame)
    \<and> seg 26 4 frame = le32 (our_ip s) \<and> seg 30 4 frame = le32 target \<and> seg 40 2 frame = le16 seq
    \<and> rev (seg 30 4 frame) = map (\<lambda>k. ucast (drop_bit k target)) [24, 16, 8, 0]"
proof -
  let ?p = "echo_packet (our_mac s) (our_ip s) target seq"
  let ?s = "log_event (sayln ''[NET] Sending ICMP echo request to %d.%d.%d.%d'' (ip_args target)) s"
  have f: "card_free io ?s" "current_buffer ?s = current_buffer s" "nic_ram ?s = nic_ram s"
    using assms(1) by (simp_all add: card_free_def current_buffer_def log_event_def)
  have l: "length ?p = 50" using assms(2) by simp
  have r: "mem_read (current_buffer s) 50 (nic_ram (net_send_icmp_echo io target seq s)) = ?p"
    using send_free(1) [OF f(1), of 50 ?p] mem_read_write_same [of ?p "current_buffer s" "nic_ram s"] l
    by (simp add: net_send_icmp_echo_def Let_def f RTL8139_TX_BUF_SIZE_def)
  note parts = echo_parts [OF assms(2), of "our_ip s" target seq]
  have a: "seg i n ?p = seg (i - 14) n (echo_ipv4 (our_ip s) target)" if "14 \<le> i" "i + n \<le> 34" for i n
    using that parts(4) seg_inside [of "i - 14" n 20 14 ?p] by simp
  have b: "seg i n ?p = seg (i - 34) n (echo_icmp seq)" if "34 \<le> i" "i + n \<le> 50" for i n
    using that parts(5) seg_inside [of "i - 34" n 16 34 ?p] by simp
  have n: "?p ! i = hd (seg i 1 ?p)" if "i < 50" for i
    using that l by (simp add: seg_def hd_drop_conv_nth)
  have w: "net16 ?p i = net16 (seg i 2 ?p) 0" if "i + 2 \<le> 50" for i using that l by (simp add: net16_def)
  have h: "seg 0 1 (echo_ipv4 (our_ip s) target) = [0x45]" "seg 2 2 (echo_ipv4 (our_ip s) target) = [0, 36]"
    "seg 9 1 (echo_ipv4 (our_ip s) target) = [1]" "seg 12 4 (echo_ipv4 (our_ip s) target) = le32 (our_ip s)"
    "seg 16 4 (echo_ipv4 (our_ip s) target) = le32 target"
    by (simp_all add: echo_ipv4_def ipv4_header_def seg_def le16_def le32_def IP_PROTOCOL_ICMP_def)
  have i: "seg 0 1 (echo_icmp seq) = [8]" "seg 6 2 (echo_icmp seq) = le16 seq"
    by (simp_all add: echo_icmp_def icmp_header_def seg_def le16_def ICMP_ECHO_REQUEST_def)
  have f1: "?p ! 14 = 0x45" "?p ! 23 = 1" using n [of 14] a [of 14 1] n [of 23] a [of 23 1] h by simp_all
  have f2: "net16 ?p 16 = 36" using w [of 16] a [of 16 2] h by (simp add: net16_def)
  have f3: "net16 ?p 12 = 0x800" using w [of 12] parts(3) by (simp add: net16_def)
  have f4: "?p ! 34 = 8" "seg 40 2 ?p = le16 seq" using n [of 34] b [of 34 1] b [of 40 2] i by simp_all
  have f5: "seg 26 4 ?p = le32 (our_ip s)" "seg 30 4 ?p = le32 target" using a [of 26 4] a [of 30 4] h by simp_all
  have f6: "rev (le32 target) = map (\<lambda>k. ucast (drop_bit k target)) [24, 16, 8, 0]" by (simp add: le32_def)
  show ?thesis
    unfolding r using f1 f2 f3 f4 f5 f6 l by (intro exI [of _ ?p]) (simp add: parts echo_ipv4_valid echo_icmp_valid)
qed

text \<open>A card behind ports whose registers all read as zero, and that has been set up.\<close>

definition quiet_bus :: "unit bus" where
  "quiet_bus = \<lparr>inb = (\<lambda>p w. (0, w)), outb = (\<lambda>p v w. w), inw = (\<lambda>p w. (0, w)), outw = (\<lambda>p v w. w),
     inl = (\<lambda>p w. (0, w)), outl = (\<lambda>p v w. w), mmio_in8 = (\<lambda>a w. (0, w)), mmio_in16 = (\<lambda>a w. (0, w)),
     mmio_in32 = (\<lambda>a w. (0, w)), mmio_out8 = (\<lambda>a v w. w), mmio_out16 = (\<lambda>a v w. w), mmio_out32 = (\<lambda>a v w. w)\<rparr>"

definition sample_nic :: "'w \<Rightarrow> 'w nic" where
  "sample_nic w = \<lparr>nic_dev = rtl8139_dev\<lparr>tx_buffers := [0x300000, 0x301000, 0x302000, 0x303000]\<rparr>, nic_pages = [],
     nic_ram = (\<lambda>a. 0), nic_out = [], nic_hw = w\<rparr>"

definition sample_net :: "'w \<Rightarrow> 'w net" where
  "sample_net w = nic.extend (sample_nic w) \<lparr>our_mac = [0x52, 0x54, 0, 0x12, 0x34, 0x56], our_ip = 0\<rparr>"

theorem echo_frame_witness:
  "let frame = mem_read 0x300000 50 (nic_ram (net_send_icmp_echo quiet_bus 0x0A000201 1 (sample_net ())))
   in seg 30 4 frame = [1, 2, 0, 10] \<and> checksum_valid (seg 14 20 frame)"
proof -
  have "card_free quiet_bus (sample_net ())" "length (our_mac (sample_net ())) = 6"
    "current_buffer (sample_net ()) = 0x300000"
    by (simp_all add: card_free_def sample_net_def sample_nic_def nic.extend_def rtl8139_read32_def rtl8139_dev_def quiet_bus_def current_buffer_def)
  with echo_frame [where io = quiet_bus and s = "sample_net ()" and target = "0x0A000201" and seq = 1] show ?thesis by (auto simp: le32_def)
qed

end
