(* ===== verification/Nic_Props.thy ===== *)
theory Nic_Props
  imports Net_Props
begin

text \<open>
  The PCI inventory, the search for the card on it, and the transmit ring. The two locales
  (the host bridge of \<open>Pci\<close>, a card that keeps its status bit here) are interpreted on one
  board: a configuration space behind a host bridge and a card behind I/O ports.
\<close>

subsection \<open>A board\<close>

record board =
  cfg_space :: "u32 \<Rightarrow> u32"
  cfg_latch :: u32
  card_regs :: "u16 \<Rightarrow> u32"

text \<open>The card's registers are at the ports from 0xC000; the reset bit of its command register reads as done.\<close>

definition card_offset :: "u16 \<Rightarrow> u16" where
  "card_offset p = p - 0xC000"

definition board_in :: "u16 \<Rightarrow> board \<Rightarrow> u32" where
  "board_in p w =
     (if p = 0xCFC then cfg_space w (cfg_latch w)
      else if card_offset p = 0x37 then card_regs w 0x37 AND NOT 0x10
      else card_regs w (card_offset p))"

definition board_out :: "u16 \<Rightarrow> u32 \<Rightarrow> board \<Rightarrow> board" where
  "board_out p v w =
     (if p = 0xCF8 then w\<lparr>cfg_latch := v\<rparr>
      else if p = 0xCFC then w\<lparr>cfg_space := (cfg_space w)(cfg_latch w := v)\<rparr>
      else w\<lparr>card_regs := (card_regs w)(card_offset p := v)\<rparr>)"

definition board_bus :: "board bus" where
  "board_bus = \<lparr>inb = (\<lambda>p w. (ucast (board_in p w), w)), outb = (\<lambda>p v. board_out p (ucast v)),
     inw = (\<lambda>p w. (ucast (board_in p w), w)), outw = (\<lambda>p v. board_out p (ucast v)),
     inl = (\<lambda>p w. (board_in p w, w)), outl = board_out,
     mmio_in8 = (\<lambda>a w. (0, w)), mmio_in16 = (\<lambda>a w. (0, w)), mmio_in32 = (\<lambda>a w. (0, w)),
     mmio_out8 = (\<lambda>a v w. w), mmio_out16 = (\<lambda>a v w. w), mmio_out32 = (\<lambda>a v w. w)\<rparr>"

interpretation board: pci_host board_bus cfg_space
  by unfold_locales (simp_all add: board_bus_def board_in_def board_out_def)

subsection \<open>The inventory\<close>

lemma pci_slots_alt: "pci_slots = List.product [0, 1, 2, 3] (map of_nat [0..<32])"
  by (simp add: pci_slots_def product_concat_map upt_rec)

lemma distinct_slots: "distinct pci_slots"
  unfolding pci_slots_alt by (rule distinct_product) (auto simp: distinct_map inj_on_def of_nat_inj_small)

lemma below_words: "n < 256 \<Longrightarrow> {x. x < (of_nat n :: u8)} = of_nat ` {..<n}"
proof (intro set_eqI iffI)
  fix x :: u8 assume n: "n < 256"
  { assume "x \<in> {x. x < of_nat n}"
    then have "unat x < n" using n by (simp add: word_less_nat_alt unat_of_nat_small)
    then show "x \<in> of_nat ` {..<n}" by (intro image_eqI [of _ _ "unat x"]) simp_all }
  { assume "x \<in> of_nat ` {..<n}"
    then show "x \<in> {x. x < of_nat n}" using n by (auto simp: word_less_nat_alt unat_of_nat_small) }
qed

lemma slots_set: "set pci_slots = {(bus, device). bus < 4 \<and> device < 32}"
proof -
  have "{x :: u8. x < 4} = {0, 1, 2, 3}" using below_words [of 4] by (auto simp: numeral_eq_Suc lessThan_Suc)
  moreover have "{x :: u8. x < 32} = of_nat ` {0..<32}" using below_words [of 32] by (simp add: atLeast0LessThan)
  ultimately show ?thesis by (auto simp: pci_slots_alt)
qed

definition slot_funcs :: "(u32 \<Rightarrow> u32) \<Rightarrow> u8 \<Rightarrow> u8 \<Rightarrow> u8 list" where
  "slot_funcs c bus device = 0 # (if multi_function c bus device then [1, 2, 3, 4, 5, 6, 7] else [])"

lemma slot_funcs_set:
  "func \<in> set (slot_funcs c bus device) \<longleftrightarrow> func < 8 \<and> (func = 0 \<or> multi_function c bus device)"
proof -
  have "{x :: u8. x < 8} = {0, 1, 2, 3, 4, 5, 6, 7}"
    using below_words [of 8] by (auto simp: numeral_eq_Suc lessThan_Suc)
  then have "func < 8 \<longleftrightarrow> func \<in> {0, 1, 2, 3, 4, 5, 6, 7}" by blast
  then show ?thesis by (auto simp: slot_funcs_def)
qed

lemma slot_functions_alt:
  "slot_functions c (bus, device) =
    (if present c bus device 0 then map (\<lambda>f. (bus, device, f)) (filter (present c bus device) (slot_funcs c bus device)) else [])"
  by (simp add: slot_functions_def slot_funcs_def)

lemma functions_set:
  "set (pci_functions c) = {(bus, device, func). bus < 4 \<and> device < 32 \<and> func < 8 \<and> present c bus device 0
     \<and> present c bus device func \<and> (func = 0 \<or> multi_function c bus device)}"
  by (auto simp: pci_functions_def slots_set slot_functions_alt slot_funcs_set split: if_splits)

lemma distinct_slot: "distinct (slot_functions c s)"
  by (cases s) (auto simp: slot_functions_alt slot_funcs_def distinct_map inj_on_def)

lemma distinct_concat_keys:
  assumes "distinct xs" "\<And>x. distinct (f x)" "\<And>x y. y \<in> set (f x) \<Longrightarrow> key y = x"
  shows "distinct (concat (map f xs))"
  using assms(1)
proof (induction xs)
  case (Cons a xs)
  have "set (f a) \<inter> set (f x) = {}" if "x \<in> set xs" for x
    using that Cons.prems assms(3) [of _ a] assms(3) [of _ x] by fastforce
  with Cons assms(2) show ?case by auto
qed simp

lemma distinct_functions: "distinct (pci_functions c)"
  unfolding pci_functions_def
  by (rule distinct_concat_keys [OF distinct_slots distinct_slot, where key = "\<lambda>(b, d, f). (b, d)"])
    (auto simp: slot_functions_alt split: if_splits)

text \<open>C36: \<open>pci_init\<close> prints the machine's inventory. Between its heading and its count it describes,
  in the order of bus, device and function, each present function of the buses 0 to 3 once, those
  above 0 only where function 0 is present and says that the device has several; the count is their
  number, and the configuration space is left as it was.\<close>

theorem pci_inventory:
  assumes "pci_host io cfg" "pci_init io w = (es, w')"
  shows "\<exists>heading footing. es = heading @ concat (map (describe (cfg w)) (pci_functions (cfg w))) @ footing
    \<and> sayln ''PCI Scan Complete: %d devices enumerated'' [int_arg (length (pci_functions (cfg w)))] \<in> set footing
    \<and> length heading = 4 \<and> length footing = 3 \<and> distinct (pci_functions (cfg w))
    \<and> set (pci_functions (cfg w)) = {(bus, device, func). bus < 4 \<and> device < 32 \<and> func < 8
        \<and> present (cfg w) bus device 0 \<and> present (cfg w) bus device func
        \<and> (func = 0 \<or> multi_function (cfg w) bus device)}
    \<and> cfg w' = cfg w"
proof -
  obtain n es1 w1 where p: "pci_scan io pci_slots w = (n, es1, w1)" by (metis prod_cases3)
  note s = pci_host.scan_slots [OF assms(1) p]
  have "es = [newline, pci_rule, sayln '' PCI Bus Enumeration - Hardware Inventory Scan'' [], pci_rule]
      @ concat (map (describe (cfg w)) (pci_functions (cfg w)))
      @ [Say (10 # ascii ''================================================'' @ [10]) [],
         sayln ''PCI Scan Complete: %d devices enumerated'' [int_arg (length (pci_functions (cfg w)))],
         Say (ascii ''================================================'' @ [10, 10]) []]" (is "es = ?h @ ?m @ ?f")
    and "w' = w1"
    using assms(2) s p by (simp_all add: pci_init_def pci_functions_def)
  then show ?thesis
    using s functions_set [of "cfg w"] distinct_functions [of "cfg w"]
    by (intro exI [of _ ?h] exI [of _ ?f]) simp
qed

definition sample_cfg :: "u32 \<Rightarrow> u32" where
  "sample_cfg a =
     (if a = pci_address 0 3 0 0 then 0x813910EC else if a = pci_address 0 3 0 0x10 then 0xC001
      else if a = pci_address 0 3 0 0x3C then 11 else if a AND 0xFF = 0 then 0xFFFFFFFF else 0)"

definition sample_board :: board where
  "sample_board = \<lparr>cfg_space = sample_cfg, cfg_latch = 0, card_regs = (\<lambda>r. 0)\<rparr>"

theorem pci_inventory_witness:
  "\<exists>heading footing. fst (pci_init board_bus sample_board)
      = heading @ concat (map (describe sample_cfg) (pci_functions sample_cfg)) @ footing \<and> length footing = 3"
  using pci_inventory [OF board.pci_host_axioms prod.collapse [symmetric], of sample_board]
  by (auto simp: sample_board_def)

subsection \<open>The search for the card\<close>

lemma find_append: "find P (xs @ ys) = (case find P xs of None \<Rightarrow> find P ys | Some x \<Rightarrow> Some x)"
  by (induction xs) auto

definition is_card_at :: "(u32 \<Rightarrow> u32) \<Rightarrow> u8 \<times> u8 \<times> u8 \<Rightarrow> bool" where
  "is_card_at c x = (case x of (bus, device, func) \<Rightarrow> is_rtl8139 (cfg_vendor c bus device func))"

lemma rtl_address: "rtl_pci_address bus device func 0 = pci_address bus device func 0"
  "rtl_pci_address bus device func 0x0C = pci_address bus device func 0x0C"
  by (simp_all add: rtl_pci_address_def pci_address_def)

lemma card_present: "is_rtl8139 (cfg_vendor c bus device func) \<Longrightarrow> present c bus device func"
  by (auto simp: is_rtl8139_def present_def RTL8139_VENDOR_ID_def)

text \<open>What a search leaves: the card set up with the hardware it reached, or only reads.\<close>

definition search_result ::
    "('w, 'b) bus_scheme \<Rightarrow> (u32 \<Rightarrow> u32) \<Rightarrow> (u8 \<times> u8 \<times> u8) option \<Rightarrow> ('w, 'z) nic_scheme \<Rightarrow> bool \<times> ('w, 'z) nic_scheme" where
  "search_result io c target s =
     (case target of
        None \<Rightarrow> (False, s)
      | Some (bus, device, func) \<Rightarrow> (True, found_card io bus device func (cfg_vendor c bus device func) s))"

definition searched ::
    "('w, 'b) bus_scheme \<Rightarrow> ('w \<Rightarrow> u32 \<Rightarrow> u32) \<Rightarrow> (u8 \<times> u8 \<times> u8) option \<Rightarrow> ('w, 'z) nic_scheme
     \<Rightarrow> bool \<times> ('w, 'z) nic_scheme \<Rightarrow> bool" where
  "searched io cfg target s r \<longleftrightarrow>
     (\<exists>w. cfg w = cfg (nic_hw s) \<and> r = search_result io (cfg (nic_hw s)) target (s\<lparr>nic_hw := w\<rparr>))"

lemma search_None [simp]: "search_result io c None s = (False, s)"
  by (simp add: search_result_def)

lemma search_Some [simp]:
  "search_result io c (Some (b, d, f)) s = (True, found_card io b d f (cfg_vendor c b d f) s)"
  by (simp add: search_result_def)

lemma searchedI:
  "cfg w = cfg (nic_hw s) \<Longrightarrow> r = search_result io (cfg (nic_hw s)) t (s\<lparr>nic_hw := w\<rparr>) \<Longrightarrow> searched io cfg t s r"
  by (auto simp: searched_def)

lemma searched_after:
  "cfg w = cfg (nic_hw s) \<Longrightarrow> searched io cfg t (s\<lparr>nic_hw := w\<rparr>) r \<Longrightarrow> searched io cfg t s r"
  unfolding searched_def by auto

definition searched_card ::
    "('w, 'b) bus_scheme \<Rightarrow> (u32 \<Rightarrow> u32) \<Rightarrow> (u8 \<times> u8 \<times> u8) option \<Rightarrow> ('w, 'z) nic_scheme \<Rightarrow> ('w, 'z) nic_scheme" where
  "searched_card io c target s =
     (case target of
        None \<Rightarrow> log_event (sayln ''[RTL8139] No RTL8139 device found on PCI bus'' []) s
      | Some (bus, device, func) \<Rightarrow> found_card io bus device func (cfg_vendor c bus device func) s)"

lemma log_hw: "log_event e (s\<lparr>nic_hw := w\<rparr>) = (log_event e s)\<lparr>nic_hw := w\<rparr>"
  by (simp add: log_event_def)

lemma log_fields [simp]: "nic_hw (log_event e s) = nic_hw s"
  by (simp add: log_event_def)

lemma searched_card_simps [simp]:
  "searched_card io c None s = log_event (sayln ''[RTL8139] No RTL8139 device found on PCI bus'' []) s"
  "searched_card io c (Some (b, d, f)) s = found_card io b d f (cfg_vendor c b d f) s"
  by (simp_all add: searched_card_def)

context pci_host
begin

lemma rtl_read:
  "rtl_pci_read io bus device func reg w = (v, w') \<Longrightarrow> v = cfg w (rtl_pci_address bus device func reg) \<and> cfg w' = cfg w"
  using read_value [of "rtl_pci_address bus device func reg" w] read_keeps [of "rtl_pci_address bus device func reg" w]
  by (simp add: rtl_pci_read_def)

lemma search_functions:
  "searched io cfg (find (is_card_at (cfg (nic_hw s))) (map (\<lambda>f. (bus, device, f))
      (filter (present (cfg (nic_hw s)) bus device) fs))) s (detect_functions io bus device fs s)"
proof (induction fs arbitrary: s)
  case Nil
  then show ?case by (intro searchedI [of _ "nic_hw s"]) simp_all
next
  case (Cons f fs)
  obtain vd w where r: "rtl_pci_read io bus device f 0 (nic_hw s) = (vd, w)" by fastforce
  from rtl_read [OF r] have v: "vd = cfg_vendor (cfg (nic_hw s)) bus device f" "cfg w = cfg (nic_hw s)"
    by (simp_all add: cfg_vendor_def rtl_address)
  have p: "vd AND 0xFFFF = 0xFFFF \<longleftrightarrow> \<not> present (cfg (nic_hw s)) bus device f" by (simp add: present_def v)
  show ?case
  proof (cases "is_rtl8139 vd")
    case True
    then have "present (cfg (nic_hw s)) bus device f" using v card_present by metis
    with True r v p show ?thesis by (intro searchedI [of _ w]) (simp_all add: is_card_at_def Let_def)
  next
    case False
    then have "detect_functions io bus device (f # fs) s = detect_functions io bus device fs (s\<lparr>nic_hw := w\<rparr>)"
      using r by (simp add: Let_def)
    moreover have "find (is_card_at (cfg (nic_hw s))) (map (\<lambda>f. (bus, device, f))
        (filter (present (cfg (nic_hw s)) bus device) (f # fs)))
      = find (is_card_at (cfg (nic_hw s))) (map (\<lambda>f. (bus, device, f)) (filter (present (cfg (nic_hw s)) bus device) fs))"
      using False v by (simp add: is_card_at_def)
    ultimately show ?thesis using Cons.IH [of "s\<lparr>nic_hw := w\<rparr>"] v(2) by (auto intro: searched_after [of cfg w])
  qed
qed

lemma search_device:
  "searched io cfg (find (is_card_at (cfg (nic_hw s))) (slot_functions (cfg (nic_hw s)) (bus, device))) s
     (detect_device io bus device s)"
proof -
  let ?c = "cfg (nic_hw s)"
  obtain vd w where r: "rtl_pci_read io bus device 0 0 (nic_hw s) = (vd, w)" by fastforce
  from rtl_read [OF r] have v: "vd = cfg_vendor ?c bus device 0" "cfg w = ?c"
    by (simp_all add: cfg_vendor_def rtl_address)
  have p: "vd AND 0xFFFF = 0xFFFF \<longleftrightarrow> \<not> present ?c bus device 0" by (simp add: present_def v)
  obtain h w2 where r2: "rtl_pci_read io bus device 0 0x0C w = (h, w2)" by fastforce
  from rtl_read [OF r2] v(2) have v2: "h = ?c (pci_address bus device 0 0x0C)" "cfg w2 = ?c"
    by (simp_all add: rtl_address)
  have m: "(ucast (drop_bit 16 h AND 0xFF) :: u8) AND 0x80 = 0 \<longleftrightarrow> \<not> multi_function ?c bus device"
    using header_bit [of h] by (auto simp: multi_function_def v2)
  consider "\<not> present ?c bus device 0" | "present ?c bus device 0" "is_rtl8139 vd"
    | "present ?c bus device 0" "\<not> is_rtl8139 vd" "\<not> multi_function ?c bus device"
    | "present ?c bus device 0" "\<not> is_rtl8139 vd" "multi_function ?c bus device" by blast
  then show ?thesis
  proof cases
    case 1
    then have "slot_functions ?c (bus, device) = []" by (simp add: slot_functions_alt)
    moreover have "detect_device io bus device s = (False, s\<lparr>nic_hw := w\<rparr>)"
      using 1 r p by (simp add: detect_device_def Let_def)
    ultimately show ?thesis using v(2) by (intro searchedI [of _ w]) simp_all
  next
    case 2
    then have "find (is_card_at ?c) (slot_functions ?c (bus, device)) = Some (bus, device, 0)"
      using v by (simp add: slot_functions_alt slot_funcs_def is_card_at_def)
    moreover have "detect_device io bus device s = (True, found_card io bus device 0 vd (s\<lparr>nic_hw := w\<rparr>))"
      using 2 r p by (simp add: detect_device_def Let_def)
    ultimately show ?thesis using v by (intro searchedI [of _ w]) simp_all
  next
    case 3
    then have "detect_device io bus device s = (False, s\<lparr>nic_hw := w2\<rparr>)"
      using r r2 p m by (simp add: detect_device_def Let_def)
    moreover have "find (is_card_at ?c) (slot_functions ?c (bus, device)) = None"
      using 3 v by (simp add: slot_functions_alt slot_funcs_def is_card_at_def)
    ultimately show ?thesis using v2(2) by (intro searchedI [of _ w2]) simp_all
  next
    case 4
    then have d: "detect_device io bus device s = detect_functions io bus device [1, 2, 3, 4, 5, 6, 7] (s\<lparr>nic_hw := w2\<rparr>)"
      using r r2 p m by (simp add: detect_device_def Let_def del: detect_functions.simps)
    have "slot_functions ?c (bus, device) = (bus, device, 0) #
        map (\<lambda>f. (bus, device, f)) (filter (present ?c bus device) [1, 2, 3, 4, 5, 6, 7])"
      using 4 by (simp add: slot_functions_alt slot_funcs_def)
    then have "find (is_card_at ?c) (slot_functions ?c (bus, device))
      = find (is_card_at ?c) (map (\<lambda>f. (bus, device, f)) (filter (present ?c bus device) [1, 2, 3, 4, 5, 6, 7]))"
      using 4(2) v(1) by (simp only: find.simps is_card_at_def) simp
    then show ?thesis
      unfolding d using search_functions [of "s\<lparr>nic_hw := w2\<rparr>" bus device "[1, 2, 3, 4, 5, 6, 7]"] v2(2)
      by (intro searched_after [OF v2(2)]) (simp del: detect_functions.simps filter.simps find.simps)
  qed
qed

lemma search_slots:
  "\<exists>w. cfg w = cfg (nic_hw s) \<and> detect_slots io ds s =
     searched_card io (cfg (nic_hw s)) (find (is_card_at (cfg (nic_hw s))) (concat (map (slot_functions (cfg (nic_hw s))) ds)))
       (s\<lparr>nic_hw := w\<rparr>)"
proof (induction ds arbitrary: s)
  case Nil
  then show ?case by (intro exI [of _ "nic_hw s"]) simp
next
  case (Cons d ds)
  obtain bus device where d: "d = (bus, device)" by (cases d)
  let ?c = "cfg (nic_hw s)"
  from search_device [of s bus device] obtain w where w: "cfg w = ?c"
    and r: "detect_device io bus device s = search_result io ?c (find (is_card_at ?c) (slot_functions ?c (bus, device))) (s\<lparr>nic_hw := w\<rparr>)"
    unfolding searched_def by blast
  show ?case
  proof (cases "find (is_card_at ?c) (slot_functions ?c (bus, device))")
    case None
    with r have "detect_slots io (d # ds) s = detect_slots io ds (s\<lparr>nic_hw := w\<rparr>)" by (simp add: d)
    with Cons.IH [of "s\<lparr>nic_hw := w\<rparr>"] None w show ?thesis by (simp add: d find_append)
  next
    case (Some x)
    with r w show ?thesis by (cases x) (auto simp: d find_append intro!: exI [of _ w])
  qed
qed

end

text \<open>the search finds the first card of the inventory. \<open>rtl8139_detect_and_init\<close> sets up the
  first function of \<open>pci_functions\<close>, the list that \<open>pci_init\<close> prints, whose identification is the
  card's; until then it only reads the configuration space. Without such a function it prints that
  there is none and changes nothing else.\<close>

theorem detects_first_card:
  assumes "pci_host io cfg"
  shows "\<exists>w. cfg w = cfg (nic_hw s) \<and> rtl8139_detect_and_init io s =
     (let s1 = log_event (sayln ''[RTL8139] Scanning for RTL8139 network devices...'' []) (s\<lparr>nic_hw := w\<rparr>)
      in case find (\<lambda>(bus, device, func). is_rtl8139 (cfg_vendor (cfg (nic_hw s)) bus device func))
                (pci_functions (cfg (nic_hw s))) of
        None \<Rightarrow> log_event (sayln ''[RTL8139] No RTL8139 device found on PCI bus'' []) s1
      | Some (bus, device, func) \<Rightarrow> found_card io bus device func (cfg_vendor (cfg (nic_hw s)) bus device func) s1)"
proof -
  have "is_card_at c = (\<lambda>(bus, device, func). is_rtl8139 (cfg_vendor c bus device func))" for c
    by (auto simp: is_card_at_def fun_eq_iff)
  moreover obtain w where "cfg w = cfg (nic_hw s)" and "rtl8139_detect_and_init io s =
      searched_card io (cfg (nic_hw s)) (find (is_card_at (cfg (nic_hw s))) (pci_functions (cfg (nic_hw s))))
        (log_event (sayln ''[RTL8139] Scanning for RTL8139 network devices...'' []) (s\<lparr>nic_hw := w\<rparr>))"
    using pci_host.search_slots [OF assms, of "log_event (sayln ''[RTL8139] Scanning for RTL8139 network devices...'' []) s" pci_slots]
    by (auto simp: rtl8139_detect_and_init_def log_hw pci_functions_def)
  ultimately show ?thesis unfolding searched_card_def Let_def by auto
qed

lemma ucast32_eq: "(ucast (a :: u8) :: u32) = ucast b \<longleftrightarrow> a = b"
  using unat_ucast_up [of a, where 'b = 32] unat_ucast_up [of b, where 'b = 32] by (simp add: word_unat_eq_iff)

lemma pci_address_inj:
  assumes "device < 32" "func < 8" "device' < 32" "func' < 8"
  shows "pci_address bus device func 0 = pci_address bus' device' func' 0 \<longleftrightarrow> bus = bus' \<and> device = device' \<and> func = func'"
  using pci_address_fields(1-3) [OF assms(1,2), of bus 0] pci_address_fields(1-3) [OF assms(3,4), of bus' 0]
  by (metis ucast32_eq)

lemma sample_present:
  assumes "device < 32" "func < 8"
  shows "present sample_cfg bus device func \<longleftrightarrow> bus = 0 \<and> device = 3 \<and> func = 0"
proof -
  have ne: "pci_address bus device func 0 \<noteq> pci_address 0 3 0 x" if "ucast (x AND 0xFC) \<noteq> (0 :: u32)" for x
    using pci_address_fields(4) [OF assms, of bus 0] pci_address_fields(4) [where device = 3 and func = 0 and bus = 0 and offset = x] that by auto
  have "pci_address bus device func 0 = pci_address 0 3 0 0 \<longleftrightarrow> bus = 0 \<and> device = 3 \<and> func = 0"
    by (rule pci_address_inj) (use assms in simp_all)
  then show ?thesis
    using pci_address_fields(4) [OF assms, where bus = bus and offset = 0] ne [where x = "0x10"] ne [where x = "0x3C"]
    by (simp add: present_def cfg_vendor_def sample_cfg_def)
qed

lemma distinct_singleton: "distinct xs \<Longrightarrow> set xs = {x} \<Longrightarrow> xs = [x]"
proof -
  assume "distinct xs" "set xs = {x}"
  then have "length xs = 1" using distinct_card [of xs] by simp
  with \<open>set xs = {x}\<close> show ?thesis by (cases xs) auto
qed

lemma sample_functions: "pci_functions sample_cfg = [(0, 3, 0)]"
proof -
  have "set (pci_functions sample_cfg) = {(0, 3, 0)}"
    unfolding functions_set by (auto simp: sample_present)
  with distinct_functions [of sample_cfg] show ?thesis by (rule distinct_singleton)
qed

theorem detects_first_card_witness:
  "\<exists>w. rtl8139_detect_and_init board_bus (sample_nic sample_board) = found_card board_bus 0 3 0 0x813910EC
     (log_event (sayln ''[RTL8139] Scanning for RTL8139 network devices...'' []) (sample_nic w))"
proof -
  have "cfg_vendor sample_cfg 0 3 0 = 0x813910EC" "is_rtl8139 0x813910EC"
    by (simp_all add: cfg_vendor_def sample_cfg_def is_rtl8139_def RTL8139_VENDOR_ID_def RTL8139_DEVICE_ID_def)
  then show ?thesis
    using detects_first_card [OF board.pci_host_axioms, of "sample_nic sample_board"]
    by (auto simp: sample_functions sample_board_def sample_nic_def)
qed

subsection \<open>The transmit ring\<close>

text \<open>
  A card that follows the status bits: the OWN bit of a descriptor says that the card still
  needs its buffer, writing the status with the bit set hands the buffer over, and the card
  gives it back when the frame is out (\<open>finished\<close>).
\<close>

locale tx_card =
  fixes io :: "('w, 'b) bus_scheme"
    and card :: "rtl8139_device \<Rightarrow> bool"
    and owned :: "'w \<Rightarrow> u8 \<Rightarrow> bool"
    and finished :: "u8 \<Rightarrow> 'w \<Rightarrow> 'w"
  assumes status: "card d \<Longrightarrow> i < 4 \<Longrightarrow> rtl8139_read32 io d (RTL8139_TXSTATUS0 + ucast i * 4) w = (v, w')
      \<Longrightarrow> (v AND RTL8139_TSD_OWN \<noteq> 0 \<longleftrightarrow> owned w i) \<and> owned w' = owned w"
    and start: "card d \<Longrightarrow> i < 4 \<Longrightarrow> v AND RTL8139_TSD_OWN \<noteq> 0
      \<Longrightarrow> owned (rtl8139_write32 io d (RTL8139_TXSTATUS0 + ucast i * 4) v w) = (owned w)(i := True)"
    and release: "owned (finished i w) = (owned w)(i := False)"
    and card_ring: "card (d\<lparr>tx_current_desc := x\<rparr>) = card d"

datatype tx_step = Send bytes | Finish u8

text \<open>
  A sequence of frames sent and finished, with the frames accepted so far by descriptor; the
  driver has accepted a frame when it has moved on to the next descriptor.
\<close>

fun tx_do ::
    "('w, 'b) bus_scheme \<Rightarrow> (u8 \<Rightarrow> 'w \<Rightarrow> 'w) \<Rightarrow> tx_step \<Rightarrow> 'w nic \<times> (u8 \<Rightarrow> bytes) \<Rightarrow> 'w nic \<times> (u8 \<Rightarrow> bytes)" where
  "tx_do io fin (Send data) (s, pend) =
     (let s' = rtl8139_send_packet io data (of_nat (length data)) s; desc = tx_current_desc (nic_dev s)
      in (s', if tx_current_desc (nic_dev s') \<noteq> desc then pend(desc := data) else pend))"
| "tx_do io fin (Finish i) (s, pend) = (s\<lparr>nic_hw := fin i (nic_hw s)\<rparr>, pend)"

definition tx_run ::
    "('w, 'b) bus_scheme \<Rightarrow> (u8 \<Rightarrow> 'w \<Rightarrow> 'w) \<Rightarrow> tx_step list \<Rightarrow> 'w nic \<times> (u8 \<Rightarrow> bytes) \<Rightarrow> 'w nic \<times> (u8 \<Rightarrow> bytes)" where
  "tx_run io fin steps p = fold (tx_do io fin) steps p"

fun step_ok :: "tx_step \<Rightarrow> bool" where
  "step_ok (Send data) = (length data < 65536)"
| "step_ok (Finish i) = True"

text \<open>The buffers are four different pages, and the ring position is one of them.\<close>

definition ring_pages :: "rtl8139_device \<Rightarrow> bool" where
  "ring_pages d \<longleftrightarrow> tx_current_desc d < 4 \<and>
     (\<exists>ns. tx_buffers d = map page_addr ns \<and> length ns = 4 \<and> distinct ns \<and> set ns \<subseteq> {1..<2 ^ 32})"

lemma page_gap:
  assumes "m \<noteq> n" "m < 2 ^ 32" "n < 2 ^ 32" "i < 2048" "l \<le> 2048"
  shows "l \<le> unat (page_addr n + of_nat i - page_addr m)"
proof -
  have e: "page_addr n + of_nat i = of_nat (n * 4096 + i)" by (simp add: page_addr_def)
  have u: "unat (page_addr n + of_nat i) = n * 4096 + i"
    unfolding e using assms by (intro unat_of_nat_small) simp
  have m: "unat (page_addr m) = m * 4096" using assms by (simp add: page_addr_unat)
  show ?thesis
    unfolding unat_diff_cases word_le_nat_alt u m using assms by (cases "m < n") auto
qed

lemma next_desc: "(i :: u8) < 4 \<Longrightarrow> (i + 1) mod 4 \<noteq> i \<and> (i + 1) mod 4 < 4"
proof -
  assume "i < 4"
  then have "i \<in> {0, 1, 2, 3}" using below_words [of 4] by (auto simp: numeral_eq_Suc lessThan_Suc)
  moreover have "\<forall>i \<in> {0, 1, 2, 3 :: u8}. (i + 1) mod 4 \<noteq> i \<and> (i + 1) mod 4 < 4" by code_simp
  ultimately show "(i + 1) mod 4 \<noteq> i \<and> (i + 1) mod 4 < 4" by (rule bspec [rotated])
qed

lemma tx_len: "length data < 65536 \<Longrightarrow> unat (of_nat (length data) :: u16) = length data"
  by (simp add: unat_of_nat_small)

lemma own_bit: "(RTL8139_TSD_OWN OR x) AND RTL8139_TSD_OWN \<noteq> 0"
proof -
  have o: "RTL8139_TSD_OWN = push_bit 31 1" by (simp add: RTL8139_TSD_OWN_def)
  have "bit (push_bit 31 1 OR x :: u32) 31" by (simp only: bit_or_iff bit_push_bit_iff bit_1_iff possible_bit_word) simp
  then show ?thesis unfolding o by (simp only: bit_iff_and_push_bit_not_eq_0 not_False_eq_True)
qed

definition frame_held :: "('w, 'z) nic_scheme \<Rightarrow> u8 \<Rightarrow> bytes \<Rightarrow> bool" where
  "frame_held s i data \<longleftrightarrow> length data \<le> 2048 \<and> mem_read (tx_buffers (nic_dev s) ! unat i) (length data) (nic_ram s) = data"

context tx_card
begin

definition ring_inv :: "('w, 'z) nic_scheme \<Rightarrow> (u8 \<Rightarrow> bytes) \<Rightarrow> bool" where
  "ring_inv s pend \<longleftrightarrow> card (nic_dev s) \<and> ring_pages (nic_dev s)
     \<and> (\<forall>i < 4. owned (nic_hw s) i \<longrightarrow> frame_held s i (pend i))"

lemma free_iff:
  assumes "card (nic_dev s)" "ring_pages (nic_dev s)"
  shows "card_free io s \<longleftrightarrow> \<not> owned (nic_hw s) (tx_current_desc (nic_dev s))"
proof -
  let ?d = "nic_dev s"
  obtain v w' where r: "rtl8139_read32 io ?d (RTL8139_TXSTATUS0 + ucast (tx_current_desc ?d) * 4) (nic_hw s) = (v, w')"
    by fastforce
  obtain ns where ns: "tx_buffers ?d = map page_addr ns" "length ns = 4" "set ns \<subseteq> {1..<2 ^ 32}"
    using assms(2) by (auto simp: ring_pages_def)
  then have "ns ! 0 \<in> {1..<2 ^ 32}" by (metis nth_mem subsetD zero_less_numeral)
  then have "tx_buffers ?d ! 0 \<noteq> 0" using ns page_addr_nonzero [of "ns ! 0"] by simp
  then show ?thesis
    using status [OF assms(1) _ r] assms(2) r by (auto simp: card_free_def ring_pages_def)
qed

lemma send_ring:
  assumes "ring_inv s pend" "length data < 65536"
  defines "s' \<equiv> rtl8139_send_packet io data (of_nat (length data)) s" and "i \<equiv> tx_current_desc (nic_dev s)"
  shows "tx_current_desc (nic_dev s') \<noteq> i \<longleftrightarrow> \<not> owned (nic_hw s) i \<and> length data \<le> 2048"
    and "ring_inv s' (if tx_current_desc (nic_dev s') \<noteq> i then pend(i := data) else pend)"
proof -
  from assms(1) have c: "card (nic_dev s)" and r: "ring_pages (nic_dev s)"
    and held: "\<And>j. j < 4 \<Longrightarrow> owned (nic_hw s) j \<Longrightarrow> frame_held s j (pend j)" by (auto simp: ring_inv_def)
  from r have i: "i < 4" by (simp add: ring_pages_def i_def)
  have len: "(of_nat (length data) :: u16) \<le> RTL8139_TX_BUF_SIZE \<longleftrightarrow> length data \<le> 2048"
    using assms(2) by (simp add: word_le_nat_alt tx_len RTL8139_TX_BUF_SIZE_def)
  have free: "card_free io s \<longleftrightarrow> \<not> owned (nic_hw s) i" using free_iff [OF c r] by (simp add: i_def)
  have "(tx_current_desc (nic_dev s') \<noteq> i \<longleftrightarrow> \<not> owned (nic_hw s) i \<and> length data \<le> 2048)
    \<and> ring_inv s' (if tx_current_desc (nic_dev s') \<noteq> i then pend(i := data) else pend)"
  proof (cases "\<not> owned (nic_hw s) i \<and> length data \<le> 2048")
    case True
    with free len have f: "card_free io s" "(of_nat (length data) :: u16) \<le> RTL8139_TX_BUF_SIZE"
      "unat (of_nat (length data) :: u16) \<le> length data" using assms(2) by (simp_all add: tx_len)
    note sent = send_free [OF f, folded s'_def i_def current_buffer_def]
    have ram: "nic_ram s' = mem_write (tx_buffers (nic_dev s) ! unat i) data (nic_ram s)"
      using sent(1) assms(2) by (simp add: tx_len current_buffer_def i_def)
    have dev: "nic_dev s' = (nic_dev s)\<lparr>tx_current_desc := (i + 1) mod 4\<rparr>" by (rule sent(3))
    have own: "owned (nic_hw s') = (owned (nic_hw s))(i := True)"
      using start [OF c i own_bit] status [OF c i prod.collapse [symmetric]] sent(2) by (simp add: Let_def)
    obtain ns where ns: "tx_buffers (nic_dev s) = map page_addr ns" "length ns = 4" "distinct ns" "set ns \<subseteq> {1..<2 ^ 32}"
      using r by (auto simp: ring_pages_def)
    have "frame_held s' j ((pend(i := data)) j)" if j: "j < 4" "owned (nic_hw s') j" for j
    proof (cases "j = i")
      case True
      with \<open>\<not> owned (nic_hw s) i \<and> length data \<le> 2048\<close> show ?thesis
        by (simp add: frame_held_def ram dev mem_read_write_same)
    next
      case False
      then have h: "frame_held s j (pend j)" using held own j by simp
      have b: "unat j < 4" "unat i < 4" "unat j \<noteq> unat i" using j(1) i False word_unat_eq_iff [of j i]
        by (simp_all add: word_less_nat_alt)
      then have "ns ! unat j \<noteq> ns ! unat i" "ns ! unat j \<in> set ns" "ns ! unat i \<in> set ns"
        using ns by (simp_all add: nth_eq_iff_index_eq)
      then have "ns ! unat j \<noteq> ns ! unat i" "ns ! unat j < 2 ^ 32" "ns ! unat i < 2 ^ 32"
        using ns(4) by (auto simp del: power_numeral)
      then have g: "length data \<le> unat (tx_buffers (nic_dev s) ! unat j + of_nat k - tx_buffers (nic_dev s) ! unat i)"
        if "k < length (pend j)" for k
        using page_gap [of "ns ! unat i" "ns ! unat j" k "length data"] ns b that h True by (auto simp: frame_held_def)
      show ?thesis
        using h False mem_read_write_other [OF g] by (simp add: frame_held_def ram dev)
    qed
    moreover have "ring_pages (nic_dev s')" using r i next_desc by (auto simp: ring_pages_def dev)
    moreover have "tx_current_desc (nic_dev s') \<noteq> i" using next_desc [OF i] by (simp add: dev)
    ultimately show ?thesis using True c by (simp add: ring_inv_def dev card_ring)
  next
    case False
    with free len have b: "\<not> card_free io s \<or> RTL8139_TX_BUF_SIZE < (of_nat (length data) :: u16)" by auto
    have same: "nic_ram s' = nic_ram s" "nic_dev s' = nic_dev s" using send_busy [OF b] by (simp_all add: s'_def)
    have "nic_hw s' \<in> {nic_hw s, snd (rtl8139_read32 io (nic_dev s) (RTL8139_TXSTATUS0 + ucast i * 4) (nic_hw s))}"
      using b unfolding s'_def i_def by (auto simp: rtl8139_send_packet_def card_free_def Let_def split: prod.splits)
    then have "owned (nic_hw s') = owned (nic_hw s)"
      using status [OF c i prod.collapse [symmetric]] by auto
    with False same held c r show ?thesis by (auto simp: ring_inv_def frame_held_def i_def)
  qed
  then show "tx_current_desc (nic_dev s') \<noteq> i \<longleftrightarrow> \<not> owned (nic_hw s) i \<and> length data \<le> 2048"
    and "ring_inv s' (if tx_current_desc (nic_dev s') \<noteq> i then pend(i := data) else pend)" by auto
qed

lemma step_ring: "ring_inv (fst p) (snd p) \<Longrightarrow> step_ok st \<Longrightarrow> ring_inv (fst (tx_do io finished st p)) (snd (tx_do io finished st p))"
proof (cases st)
  case (Finish i)
  assume "ring_inv (fst p) (snd p)"
  with Finish show ?thesis by (cases p) (auto simp: ring_inv_def release frame_held_def)
next
  case (Send data)
  assume "ring_inv (fst p) (snd p)" "step_ok st"
  with Send send_ring(2) [of "fst p" "snd p" data] show ?thesis
    by (cases p) (simp only: tx_do.simps Let_def fst_conv snd_conv step_ok.simps)
qed

lemma run_ring:
  "ring_inv (fst p) (snd p) \<Longrightarrow> \<forall>st \<in> set steps. step_ok st
    \<Longrightarrow> ring_inv (fst (tx_run io finished steps p)) (snd (tx_run io finished steps p))"
  unfolding tx_run_def
proof (induction steps arbitrary: p)
  case (Cons st steps)
  then show ?case using step_ring [of p st] by simp
qed simp

end

subsection \<open>The card on the board\<close>

definition board_card :: "rtl8139_device \<Rightarrow> bool" where
  "board_card d \<longleftrightarrow> \<not> is_mmio d \<and> io_base d = 0xC000"

definition board_owned :: "board \<Rightarrow> u8 \<Rightarrow> bool" where
  "board_owned w i \<longleftrightarrow> card_regs w (0x10 + ucast i * 4) AND RTL8139_TSD_OWN \<noteq> 0"

definition board_finish :: "u8 \<Rightarrow> board \<Rightarrow> board" where
  "board_finish i w = w\<lparr>card_regs := (card_regs w)(0x10 + ucast i * 4 := 0x8000)\<rparr>"

lemma status_offset: "i < 4 \<Longrightarrow> (i :: u8) \<in> {0, 1, 2, 3}"
  using below_words [of 4] by (auto simp: numeral_eq_Suc lessThan_Suc)

lemma board_status:
  assumes "board_card d" "(i :: u8) < 4"
  shows "rtl8139_read32 board_bus d (RTL8139_TXSTATUS0 + ucast i * 4) w = (card_regs w (0x10 + ucast i * 4), w)"
    and "rtl8139_write32 board_bus d (RTL8139_TXSTATUS0 + ucast i * 4) v w
      = w\<lparr>card_regs := (card_regs w)(0x10 + ucast i * 4 := v)\<rparr>"
  using assms(1) status_offset [OF assms(2)]
  by (auto simp: board_card_def rtl8139_read32_def rtl8139_write32_def board_bus_def board_in_def board_out_def
      card_offset_def RTL8139_TXSTATUS0_def)

lemma status_regs: "(ucast (i :: u8) * 4 :: u16) = ucast j * 4 \<longleftrightarrow> i = j"
proof -
  have "unat (ucast k * 4 :: u16) = unat k * 4" for k :: u8
    using unsigned_less [of k, where 'a = nat] by (simp add: unat_word_ariths unat_ucast_up)
  then show ?thesis by (metis mult_cancel2 word_unat_eq_iff zero_neq_numeral)
qed

interpretation board_tx: tx_card board_bus board_card board_owned board_finish
proof (unfold_locales, goal_cases)
  case (1 d i w v w')
  then show ?case by (auto simp: board_status board_owned_def)
next
  case (2 d i v w)
  then show ?case by (auto simp: board_status board_owned_def status_regs fun_eq_iff)
next
  case (3 i w)
  then show ?case by (auto simp: board_finish_def board_owned_def status_regs fun_eq_iff RTL8139_TSD_OWN_def)
next
  case (4 d x)
  then show ?case by (simp add: board_card_def)
qed


definition ring_nic :: "board nic" where
  "ring_nic = (sample_nic sample_board)\<lparr>nic_dev := rtl8139_dev\<lparr>tx_buffers := map page_addr [0x300, 0x301, 0x302, 0x303],
     io_base := 0xC000\<rparr>\<rparr>"


end
