(* ===== verification/Nic_Init.thy ===== *)
theory Nic_Init
  imports Nic_Props
begin

text \<open>
  Setting up the card on the board: the receive and transmit buffers come from the page
  allocator, and the registers hold their addresses and the enabled functions.
\<close>

subsection \<open>Pages for the buffers\<close>

definition unused_pages :: "pmm \<Rightarrow> nat set" where
  "unused_pages bm = pmm_pool - pmm_used bm"

lemma finite_free [simp]: "finite (unused_pages bm)"
  by (simp add: unused_pages_def pmm_pool_def)

lemma take_page:
  assumes "pmm_inv bm" "0 < card (unused_pages bm)" "pmm_alloc_page bm = (p, bm')"
  shows "\<exists>n \<in> unused_pages bm. p = page_addr n \<and> p \<noteq> 0 \<and> pmm_inv bm' \<and> unused_pages bm' = unused_pages bm - {n}"
proof -
  have "p \<noteq> 0"
  proof
    assume "p = 0"
    with pm.alloc_full [OF assms(1)] assms(3) have "pmm_pool \<subseteq> pmm_used bm" by simp
    then have "unused_pages bm = {}" by (auto simp: unused_pages_def)
    with assms(2) show False by simp
  qed
  with pm.alloc_ok [OF assms(1,3)] show ?thesis by (auto simp: unused_pages_def)
qed

definition place_pages :: "(nat \<Rightarrow> nat) \<Rightarrow> nat list \<Rightarrow> u64 list \<Rightarrow> u64 list" where
  "place_pages f is xs = map (\<lambda>j. if j \<in> set is then page_addr (f j) else xs ! j) [0..<length xs]"

lemma place_pages_Nil [simp]: "place_pages f [] xs = xs"
  by (simp add: place_pages_def map_nth)

lemma place_pages_Cons:
  "i \<notin> set is \<Longrightarrow> i < length xs \<Longrightarrow> place_pages f is (xs[i := page_addr n]) = place_pages (f(i := n)) (i # is) xs"
  by (rule nth_equalityI) (auto simp: place_pages_def nth_list_update)

lemma length_place_pages [simp]: "length (place_pages f is xs) = length xs"
  by (simp add: place_pages_def)

lemma alloc_tx_ok:
  assumes "alloc_tx is s = (ok, s')" "pmm_inv (nic_pages s)" "length is \<le> card (unused_pages (nic_pages s))" "distinct is"
    and "length (tx_buffers (nic_dev s)) = 4" "length (tx_buffer_pa (nic_dev s)) = 4" "set is \<subseteq> {..<4}"
  shows "ok \<and> nic_hw s' = nic_hw s \<and> nic_ram s' = nic_ram s \<and> (\<exists>f. inj_on f (set is) \<and> f ` set is \<subseteq> unused_pages (nic_pages s)
    \<and> nic_dev s' = (nic_dev s)\<lparr>tx_buffers := place_pages f is (tx_buffers (nic_dev s)),
         tx_buffer_pa := place_pages f is (tx_buffer_pa (nic_dev s))\<rparr>)"
  using assms
proof (induction "is" arbitrary: s)
  case Nil
  then show ?case by auto
next
  case (Cons i "is")
  obtain p bm where p: "pmm_alloc_page (nic_pages s) = (p, bm)" by fastforce
  have "0 < card (unused_pages (nic_pages s))" using Cons.prems(3) by simp
  from take_page [OF Cons.prems(2) this p] obtain n where n: "n \<in> unused_pages (nic_pages s)" "p = page_addr n" "p \<noteq> 0"
    "pmm_inv bm" "unused_pages bm = unused_pages (nic_pages s) - {n}" by blast
  let ?d = "nic_dev s"
  let ?s1 = "log_event (sayln ''[RTL8139] TX Buffer %d allocated at %p'' [int_arg i, APtr p])
      (s\<lparr>nic_pages := bm, nic_dev := ?d\<lparr>tx_buffers := (tx_buffers ?d)[i := p], tx_buffer_pa := (tx_buffer_pa ?d)[i := p]\<rparr>\<rparr>)"
  have c: "card (unused_pages bm) = card (unused_pages (nic_pages s)) - 1" using n(1,5) by simp
  have e: "alloc_tx is ?s1 = (ok, s')" using Cons.prems(1) p n(3) by (simp add: Let_def log_event_def)
  have r: "ok \<and> nic_hw s' = nic_hw ?s1 \<and> nic_ram s' = nic_ram ?s1 \<and> (\<exists>f. inj_on f (set is) \<and> f ` set is \<subseteq> unused_pages (nic_pages ?s1)
    \<and> nic_dev s' = (nic_dev ?s1)\<lparr>tx_buffers := place_pages f is (tx_buffers (nic_dev ?s1)),
         tx_buffer_pa := place_pages f is (tx_buffer_pa (nic_dev ?s1))\<rparr>)"
    by (rule Cons.IH [OF e]) (use Cons.prems n(4) c in \<open>auto simp: log_event_def\<close>)
  then obtain f where f: "inj_on f (set is)" "f ` set is \<subseteq> unused_pages bm"
    "nic_dev s' = ?d\<lparr>tx_buffers := place_pages f is ((tx_buffers ?d)[i := p]),
         tx_buffer_pa := place_pages f is ((tx_buffer_pa ?d)[i := p])\<rparr>" by (auto simp: log_event_def)
  have i: "i \<notin> set is" "i < 4" using Cons.prems by auto
  have "inj_on (f(i := n)) (set (i # is))"
    using f(1,2) i n(5) by (auto simp: inj_on_def)
  moreover have "(f(i := n)) ` set (i # is) \<subseteq> unused_pages (nic_pages s)" using f(2) n(1,5) i by auto
  moreover have "nic_dev s' = ?d\<lparr>tx_buffers := place_pages (f(i := n)) (i # is) (tx_buffers ?d),
         tx_buffer_pa := place_pages (f(i := n)) (i # is) (tx_buffer_pa ?d)\<rparr>"
    using f(3) i Cons.prems(5,6) by (simp add: n(2) place_pages_Cons)
  moreover have "ok \<and> nic_hw s' = nic_hw s \<and> nic_ram s' = nic_ram s" using r by (simp add: log_event_def)
  ultimately show ?case by blast
qed

lemma init_buffers_ok:
  assumes "init_buffers s = (ok, s')" "pmm_inv (nic_pages s)" "6 \<le> card (unused_pages (nic_pages s))"
    and "length (tx_buffers (nic_dev s)) = 4" "length (tx_buffer_pa (nic_dev s)) = 4"
  shows "ok \<and> nic_hw s' = nic_hw s \<and> nic_ram s' = nic_ram s \<and> (\<exists>r f. r \<in> unused_pages (nic_pages s) \<and> inj_on f {..<4}
    \<and> f ` {..<4} \<subseteq> unused_pages (nic_pages s) - {r}
    \<and> nic_dev s' = (nic_dev s)\<lparr>rx_buffer := page_addr r, rx_buffer_pa := page_addr r,
        tx_buffers := map (page_addr \<circ> f) [0..<4], tx_buffer_pa := map (page_addr \<circ> f) [0..<4], tx_current_desc := 0\<rparr>)"
proof -
  obtain p bm where p: "pmm_alloc_page (nic_pages s) = (p, bm)" by fastforce
  have "0 < card (unused_pages (nic_pages s))" using assms(3) by simp
  from take_page [OF assms(2) this p] obtain r where r: "r \<in> unused_pages (nic_pages s)" "p = page_addr r" "p \<noteq> 0"
    "pmm_inv bm" "unused_pages bm = unused_pages (nic_pages s) - {r}" by blast
  obtain q bm2 where q: "pmm_alloc_page bm = (q, bm2)" by fastforce
  have c: "5 \<le> card (unused_pages bm)" using assms(3) r(1,5) by simp
  then have "0 < card (unused_pages bm)" by simp
  from take_page [OF r(4) this q] obtain r2 where r2: "r2 \<in> unused_pages bm" "q \<noteq> 0"
    "pmm_inv bm2" "unused_pages bm2 = unused_pages bm - {r2}" by blast
  then have c2: "4 \<le> card (unused_pages bm2)" using c by simp
  let ?d = "(nic_dev s)\<lparr>rx_buffer := p, rx_buffer_pa := p\<rparr>"
  let ?s1 = "log_event (sayln ''[RTL8139] RX Buffer allocated at %p'' [APtr p]) (s\<lparr>nic_pages := bm2, nic_dev := ?d\<rparr>)"
  have a: "pmm_alloc_contiguous 2 s = (p, s\<lparr>nic_pages := bm2\<rparr>)"
    using p q r(3) r2(2) by (simp add: pmm_alloc_contiguous_def numeral_2_eq_2)
  obtain ok2 s2 where t: "alloc_tx [0..<4] ?s1 = (ok2, s2)" by fastforce
  have i: "init_buffers s = (if ok2 then (True, s2\<lparr>nic_dev := (nic_dev s2)\<lparr>tx_current_desc := 0\<rparr>\<rparr>) else (False, s2))"
    using t r(3) by (simp add: init_buffers_def a Let_def log_event_def RTL8139_NUM_TX_DESC_def)
  have "ok2 \<and> nic_hw s2 = nic_hw ?s1 \<and> nic_ram s2 = nic_ram ?s1 \<and> (\<exists>f. inj_on f (set [0..<4]) \<and> f ` set [0..<4] \<subseteq> unused_pages (nic_pages ?s1)
    \<and> nic_dev s2 = (nic_dev ?s1)\<lparr>tx_buffers := place_pages f [0..<4] (tx_buffers (nic_dev ?s1)),
         tx_buffer_pa := place_pages f [0..<4] (tx_buffer_pa (nic_dev ?s1))\<rparr>)"
    by (rule alloc_tx_ok [OF t]) (use assms(4,5) r2(3) c2 in \<open>simp_all add: log_event_def lessThan_atLeast0\<close>)
  then obtain f where f: "ok2" "nic_hw s2 = nic_hw s" "nic_ram s2 = nic_ram s" "inj_on f {..<4}" "f ` {..<4} \<subseteq> unused_pages bm2"
    "nic_dev s2 = ?d\<lparr>tx_buffers := place_pages f [0..<4] (tx_buffers (nic_dev s)),
         tx_buffer_pa := place_pages f [0..<4] (tx_buffer_pa (nic_dev s))\<rparr>"
    by (auto simp: log_event_def lessThan_atLeast0)
  have pl: "place_pages f [0..<4] xs = map (page_addr \<circ> f) [0..<4]" if "length xs = 4" for xs
    using that by (simp add: place_pages_def)
  have "f ` {..<4} \<subseteq> unused_pages (nic_pages s) - {r}" using f(5) r2(4) r(5) by auto
  with assms(1) i f r(1,2) show ?thesis
    by (auto simp: pl assms(4,5) intro!: exI [of _ r] exI [of _ f])
qed

subsection \<open>Registers\<close>

lemma board_regs:
  assumes "board_card d"
  shows "rtl8139_read32 board_bus d r w = (board_in (0xC000 + r) w, w)"
    "rtl8139_read8 board_bus d r w = (ucast (board_in (0xC000 + r) w), w)"
    "rtl8139_write32 board_bus d r v w = board_out (0xC000 + r) v w"
    "rtl8139_write16 board_bus d r x w = board_out (0xC000 + r) (ucast x) w"
    "rtl8139_write8 board_bus d r b w = board_out (0xC000 + r) (ucast b) w"
  using assms by (simp_all add: board_card_def rtl8139_read32_def rtl8139_read8_def rtl8139_write32_def
      rtl8139_write16_def rtl8139_write8_def board_bus_def)

lemmas register_numbers = RTL8139_RBSTART_def RTL8139_CR_def RTL8139_CAPR_def RTL8139_CBR_def RTL8139_IMR_def
  RTL8139_TCR_def RTL8139_RCR_def RTL8139_TXADDR0_def

lemma mac_board:
  assumes "board_card d"
  shows "rtl8139_read_mac_address board_bus d w = (d\<lparr>mac_address := map (\<lambda>i. ucast (card_regs w (of_nat i))) [0..<6]\<rparr>, w)"
  using assms
  by (simp add: rtl8139_read_mac_address_def board_regs board_in_def card_offset_def RTL8139_MAC0_def upt_rec)

lemma four: "[0..<4] = [0, 1, 2, 3 :: nat]"
  by (simp add: upt_rec)

lemma program_board:
  assumes "board_card d"
  shows "card_regs (program_card board_bus d w) = (card_regs w)(0x30 := ucast (rx_buffer_pa d),
      0x20 := ucast (tx_buffer_pa d ! 0), 0x24 := ucast (tx_buffer_pa d ! 1), 0x28 := ucast (tx_buffer_pa d ! 2),
      0x2C := ucast (tx_buffer_pa d ! 3), 0x44 := (card_regs w 0x44 OR 0x8180) AND NOT 0x40,
      0x40 := card_regs w 0x40 AND NOT 0x1F000 OR 0x8000, 0x38 := 0, 0x3A := 0, 0x3C := 0xF,
      0x37 := ucast ((ucast (card_regs w 0x37 AND NOT 0x10) :: u8) OR 0xC))"
  using assms
  by (simp add: program_card_def board_regs register_numbers board_in_def board_out_def card_offset_def Let_def
      RTL8139_NUM_TX_DESC_def four RTL8139_INT_ROK_def RTL8139_INT_TOK_def RTL8139_INT_RER_def RTL8139_INT_TER_def
      RTL8139_CR_RE_def RTL8139_CR_TE_def)

text \<open>The reset of this card is over at the first look.\<close>

lemma reset_board:
  assumes "board_card d"
  shows "reset_wait board_bus d RESET_TIMEOUT (rtl8139_write8 board_bus d RTL8139_CR RTL8139_CR_RST w)
    = (RESET_TIMEOUT, w\<lparr>card_regs := (card_regs w)(0x37 := 0x10)\<rparr>)"
proof -
  have "RESET_TIMEOUT \<noteq> 0" by (simp add: RESET_TIMEOUT_def)
  then obtain n where n: "RESET_TIMEOUT = Suc n" by (cases RESET_TIMEOUT) auto
  show ?thesis
    unfolding n using assms by (simp add: board_regs board_in_def board_out_def card_offset_def RTL8139_CR_def RTL8139_CR_RST_def)
qed

lemma init_base_board:
  assumes "bar0 AND 0xFFFF = 0xC001"
  shows "board_card (init_base bar0 d)"
proof -
  have "bar0 AND 1 = (bar0 AND 0xFFFF) AND 1" "bar0 AND 0xFFFC = (bar0 AND 0xFFFF) AND 0xFFFC" by (simp_all add: and.assoc)
  then have "bar0 AND 1 = 1" "bar0 AND 0xFFFC = 0xC000" using assms by simp_all
  then show ?thesis by (simp add: init_base_def board_card_def)
qed

lemma pool_pointer:
  assumes "n \<in> pmm_pool"
  shows "ucast (ucast (page_addr n) :: u32) = page_addr n"
proof -
  have n: "n < 65536" using assms by (simp add: pmm_pool_def TOTAL_PAGES_def)
  then have "unat (page_addr n) = n * 4096" by (simp add: page_addr_unat)
  with n show ?thesis by (simp add: word_unat_eq_iff unat_ucast_up unsigned_ucast_eq take_bit_eq_mod unat_mod)
qed

lemma power_on_regs: "card_regs (power_on board_bus b d f w) = card_regs w"
  by (simp add: power_on_def board_bus_def board_out_def Let_def)

text \<open>Reading the identity leaves the pages, the buffers and the registers alone.\<close>

lemma identity_board:
  assumes "cfg_space (nic_hw s) (rtl_pci_address bus device func 0x10) AND 0xFFFF = 0xC001"
    and "s2 = init_identity board_bus bus device func s"
  shows "board_card (nic_dev s2)" "nic_pages s2 = nic_pages s" "card_regs (nic_hw s2) = card_regs (nic_hw s)"
    "tx_buffers (nic_dev s2) = tx_buffers (nic_dev s)" "tx_buffer_pa (nic_dev s2) = tx_buffer_pa (nic_dev s)"
    "mac_address (nic_dev s2) = map (\<lambda>k. ucast (card_regs (nic_hw s) (of_nat k))) [0..<6]"
proof -
  let ?w = "nic_hw s"
  let ?a = "rtl_pci_address bus device func 0x10" and ?b = "rtl_pci_address bus device func 0x3C"
  let ?w1 = "?w\<lparr>cfg_latch := ?b\<rparr>"
  let ?d = "(init_base (cfg_space ?w ?a) (nic_dev s))\<lparr>irq_line := ucast (cfg_space ?w ?b AND 0xFF)\<rparr>"
  have c: "board_card ?d" using init_base_board [OF assms(1), of "nic_dev s"] by (simp add: board_card_def)
  have r: "rtl_pci_read board_bus bus device func reg w
      = (cfg_space w (rtl_pci_address bus device func reg), w\<lparr>cfg_latch := rtl_pci_address bus device func reg\<rparr>)" for reg w
    by (simp add: rtl_pci_read_def board_bus_def board_in_def board_out_def)
  have dev: "nic_dev s2 = ?d\<lparr>mac_address := map (\<lambda>k. ucast (card_regs ?w (of_nat k))) [0..<6]\<rparr>"
    and hw: "nic_hw s2 = ?w1" and pg: "nic_pages s2 = nic_pages s"
    using mac_board [OF c, of ?w1] by (simp_all add: assms(2) init_identity_def r Let_def split: prod.splits)
  show "board_card (nic_dev s2)" using c by (simp add: dev board_card_def)
  show "nic_pages s2 = nic_pages s" "card_regs (nic_hw s2) = card_regs (nic_hw s)" by (simp_all add: pg hw)
  show "tx_buffers (nic_dev s2) = tx_buffers (nic_dev s)" "tx_buffer_pa (nic_dev s2) = tx_buffer_pa (nic_dev s)"
    "mac_address (nic_dev s2) = map (\<lambda>k. ucast (card_regs (nic_hw s) (of_nat k))) [0..<6]"
    by (simp_all add: dev init_base_def)
qed

text \<open>C31: the card is ready after \<open>rtl8139_init\<close>. On a board whose base address register names the
  card's ports, with at least six free pages, the driver ends with one receive and four transmit
  buffers on different pages that were free, the ring ready at a descriptor with its own page, the
  card's registers hold those addresses unabridged, receiver and transmitter are on, four interrupt
  sources are enabled, and the address is the card's.\<close>

theorem card_ready:
  assumes "pmm_inv (nic_pages s)" "6 \<le> card (unused_pages (nic_pages s))"
    and "length (tx_buffers (nic_dev s)) = 4" "length (tx_buffer_pa (nic_dev s)) = 4"
    and "cfg_space (nic_hw s) (rtl_pci_address bus device func 0x10) AND 0xFFFF = 0xC001"
    and "rtl8139_init board_bus bus device func v i s = s'"
  shows "board_card (nic_dev s') \<and> ring_pages (nic_dev s')
    \<and> distinct (rx_buffer (nic_dev s') # tx_buffers (nic_dev s'))
    \<and> set (rx_buffer (nic_dev s') # tx_buffers (nic_dev s')) \<subseteq> page_addr ` unused_pages (nic_pages s)
    \<and> ucast (card_regs (nic_hw s') 0x30) = rx_buffer (nic_dev s')
    \<and> map (\<lambda>r. ucast (card_regs (nic_hw s') r)) [0x20, 0x24, 0x28, 0x2C] = tx_buffers (nic_dev s')
    \<and> card_regs (nic_hw s') 0x37 AND 0xC = 0xC \<and> card_regs (nic_hw s') 0x3C = 0xF
    \<and> (\<forall>d < 4. board_owned (nic_hw s') d = board_owned (nic_hw s) d)
    \<and> mac_address (nic_dev s') = map (\<lambda>k. ucast (card_regs (nic_hw s) (of_nat k))) [0..<6]"
proof -
  let ?s1 = "log_event (sayln ''[RTL8139] PCI %d:%d:%d - Vendor: 0x%04x Device: 0x%04x''
      [byte_arg bus, byte_arg device, byte_arg func, AUInt v, AUInt i])
    (log_event (Say (10 # ascii ''[RTL8139] Initializing RTL8139 Network Device'' @ [10]) []) s)"
  define s2 where "s2 = init_identity board_bus bus device func ?s1"
  have "cfg_space (nic_hw ?s1) (rtl_pci_address bus device func 0x10) AND 0xFFFF = 0xC001"
    using assms(5) by (simp add: log_event_def)
  note id = identity_board [OF this s2_def]
  obtain ok s3 where b: "init_buffers s2 = (ok, s3)" by fastforce
  from id assms(1-4) init_buffers_ok [OF b] obtain r f where ok: "ok" "nic_hw s3 = nic_hw s2"
    and rf: "r \<in> unused_pages (nic_pages s)" "inj_on f {..<4}" "f ` {..<4} \<subseteq> unused_pages (nic_pages s) - {r}"
    and d3: "nic_dev s3 = (nic_dev s2)\<lparr>rx_buffer := page_addr r, rx_buffer_pa := page_addr r,
      tx_buffers := map (page_addr \<circ> f) [0..<4], tx_buffer_pa := map (page_addr \<circ> f) [0..<4], tx_current_desc := 0\<rparr>"
    by (auto simp: log_event_def)
  let ?d = "nic_dev s3"
  let ?w = "(power_on board_bus bus device func (nic_hw s3))\<lparr>card_regs := (card_regs (power_on board_bus bus device func (nic_hw s3)))(0x37 := 0x10)\<rparr>"
  have c: "board_card ?d" using id(1) by (simp add: d3 board_card_def)
  have s': "nic_dev s' = ?d\<lparr>rx_read_offset := 0\<rparr>" "nic_hw s' = program_card board_bus ?d ?w"
    using assms(6) b ok(1) reset_board [OF c] by (auto simp: rtl8139_init_def Let_def s2_def split: prod.splits)
  note regs = program_board [OF c, of ?w, folded s'(2)]
  have pool: "f k \<in> pmm_pool" "r \<in> pmm_pool" if "k < 4" for k using rf that by (auto simp: unused_pages_def)
  have far: "page_addr (f k) = page_addr (f j) \<longleftrightarrow> k = j" if "k < 4" "j < 4" for k j
    using rf that pool pool_small page_addr_inj by (auto simp: inj_on_def)
  have apart: "page_addr r \<noteq> page_addr (f k)" if "k < 4" for k
    using rf that pool pool_small page_addr_inj by auto
  have "ring_pages (nic_dev s')"
    unfolding ring_pages_def s' d3
    by (intro conjI exI [of _ "map f [0..<4]"]) (use rf pool pool_small in \<open>auto simp: distinct_map lessThan_atLeast0 Suc_le_eq\<close>)
  moreover have "distinct (rx_buffer (nic_dev s') # tx_buffers (nic_dev s'))"
    by (simp add: s'(1) d3 four far apart)
  moreover have "set (rx_buffer (nic_dev s') # tx_buffers (nic_dev s')) \<subseteq> page_addr ` unused_pages (nic_pages s)"
    using rf by (auto simp: s'(1) d3 image_subset_iff)
  moreover have "card_regs (nic_hw s') 0x37 AND 0xC = 0xC" "card_regs (nic_hw s') 0x3C = 0xF"
    by (simp_all add: regs)
  moreover have "board_owned (nic_hw s') d = board_owned (nic_hw s) d" if "d < 4" for d
    using status_offset [OF that] ok(2) id(3) by (auto simp: board_owned_def regs power_on_regs log_event_def)
  moreover have "ucast (card_regs (nic_hw s') 0x30) = rx_buffer (nic_dev s')"
    "map (\<lambda>r. ucast (card_regs (nic_hw s') r)) [0x20, 0x24, 0x28, 0x2C] = tx_buffers (nic_dev s')"
    using pool pool(2) [of 0] by (simp_all add: regs s'(1) d3 pool_pointer four)
  moreover have "board_card (nic_dev s')" using c by (simp add: s'(1) board_card_def)
  moreover have "mac_address (nic_dev s') = map (\<lambda>k. ucast (card_regs (nic_hw s) (of_nat k))) [0..<6]"
    using id(6) by (simp add: s'(1) d3 log_event_def)
  ultimately show ?thesis by blast
qed

definition boot_nic :: "board nic" where
  "boot_nic = \<lparr>nic_dev = rtl8139_dev, nic_pages = pmm_init, nic_ram = (\<lambda>a. 0), nic_out = [],
     nic_hw = \<lparr>cfg_space = (\<lambda>a. 0xC001), cfg_latch = 0, card_regs = (\<lambda>r. 0)\<rparr>\<rparr>"

theorem card_ready_witness:
  "ring_pages (nic_dev (rtl8139_init board_bus 0 3 0 0x10EC 0x8139 boot_nic))"
proof -
  have "unused_pages pmm_init = pmm_pool" by (auto simp: unused_pages_def pmm_init_used pmm_pool_def)
  then have "6 \<le> card (unused_pages pmm_init)" by (simp add: pmm_pool_def TOTAL_PAGES_def)
  then show ?thesis
    using card_ready [where s = boot_nic and bus = 0 and device = 3 and func = 0 and v = "0x10EC" and i = "0x8139", OF _ _ _ _ _ refl]
    by (simp add: boot_nic_def rtl8139_dev_def pmm_init_inv)
qed

end
