(* ===== verification/Shell_Text.thy ===== *)
theory Shell_Text
  imports Console_Events
begin

text \<open>
  The text functions of the shell (\<open>shell/shell.c\<close>): its string helpers, the readers of
  colours, counts and addresses, and the splitting of a line into words. A string is the list
  of its bytes before the NUL, so the end of the list is where the code finds the NUL.
\<close>

definition SHELL_BUF_SIZE :: nat where "SHELL_BUF_SIZE = 256"
definition MAX_ARGS :: nat where "MAX_ARGS = 16"
definition HISTORY_SIZE :: nat where "HISTORY_SIZE = 16"
definition INT_MAX :: int where "INT_MAX = 2147483647"

subsection \<open>String helpers\<close>

fun sh_strlen :: "bytes \<Rightarrow> int" where
  "sh_strlen [] = 0"
| "sh_strlen (c # s) = sh_strlen s + 1"

fun sh_strcmp :: "bytes \<Rightarrow> bytes \<Rightarrow> int" where
  "sh_strcmp (a # as) (b # bs) = (if a = b then sh_strcmp as bs else uint a - uint b)"
| "sh_strcmp [] [] = 0"
| "sh_strcmp (a # as) [] = uint a"
| "sh_strcmp [] (b # bs) = - uint b"

text \<open>The copy with its NUL; \<open>None\<close> if it does not fit into \<open>room\<close> bytes.\<close>

fun sh_strcpy :: "nat \<Rightarrow> bytes \<Rightarrow> bytes option" where
  "sh_strcpy 0 src = None"
| "sh_strcpy (Suc room) [] = Some []"
| "sh_strcpy (Suc room) (c # src) = map_option (Cons c) (sh_strcpy room src)"

definition lower :: "u8 \<Rightarrow> u8" where
  "lower c = (if 65 \<le> c \<and> c \<le> 90 then c + 32 else c)"

fun sh_strcasecmp :: "bytes \<Rightarrow> bytes \<Rightarrow> int" where
  "sh_strcasecmp (a # as) (b # bs) =
     (if lower a \<noteq> lower b then uint (lower a) - uint (lower b) else sh_strcasecmp as bs)"
| "sh_strcasecmp [] [] = 0"
| "sh_strcasecmp (a # as) [] = uint a"
| "sh_strcasecmp [] (b # bs) = - uint b"

definition sh_print_padded :: "bytes \<Rightarrow> int \<Rightarrow> event list" where
  "sh_print_padded s width = [Padded s width]"

subsection \<open>Numbers, colours and addresses\<close>

definition is_digit :: "u8 \<Rightarrow> bool" where
  "is_digit c \<longleftrightarrow> 48 \<le> c \<and> c \<le> 57"

text \<open>The decimal value, added up in an \<open>int\<close>; \<open>None\<close> when it overflows.\<close>

fun decimal :: "bytes \<Rightarrow> int \<Rightarrow> int option" where
  "decimal [] v = Some v"
| "decimal (c # s) v = (if INT_MAX < v * 10 + (uint c - 48) then None else decimal s (v * 10 + (uint c - 48)))"

definition vga_color_names :: "bytes list" where
  "vga_color_names = map ascii
     [''black'', ''blue'', ''green'', ''cyan'', ''red'', ''magenta'', ''brown'', ''light gray'',
      ''dark gray'', ''light blue'', ''light green'', ''light cyan'', ''light red'', ''light magenta'', ''yellow'',
      ''white'']"

definition color_by_name :: "bytes \<Rightarrow> int" where
  "color_by_name s =
     (case find (\<lambda>j. sh_strcasecmp s (vga_color_names ! j) = 0) [0..<16] of Some j \<Rightarrow> int j | None \<Rightarrow> -1)"

definition parse_color_arg :: "bytes \<Rightarrow> int option" where
  "parse_color_arg s =
     (if list_all is_digit s then map_option (\<lambda>v. if 0 \<le> v \<and> v < 16 then v else -1) (decimal s 0)
      else Some (color_by_name s))"

text \<open>The state of the loop: the octet it is at, its value so far, and the octets stored.\<close>

fun ip4_loop :: "bytes \<Rightarrow> nat \<Rightarrow> int \<Rightarrow> bytes \<Rightarrow> (nat \<times> int \<times> bytes) option" where
  "ip4_loop [] i num octets = Some (i, num, octets)"
| "ip4_loop (c # s) i num octets =
     (if 4 \<le> i then Some (i, num, octets)
      else if is_digit c
      then (if 255 < num * 10 + (uint c - 48) then None else ip4_loop s i (num * 10 + (uint c - 48)) octets)
      else if c = 46 then ip4_loop s (i + 1) 0 (octets[i := of_int num])
      else None)"

text \<open>The octets, or \<open>None\<close> where the function returns -1.\<close>

definition parse_ip4 :: "bytes \<Rightarrow> bytes option" where
  "parse_ip4 s =
     (case ip4_loop s 0 0 (replicate 4 0) of
        None \<Rightarrow> None
      | Some (i, num, octets) \<Rightarrow> if i = 3 \<and> num \<le> 255 then Some (octets[3 := of_int num]) else None)"

subsection \<open>Words\<close>

text \<open>
  The loop over the words of a line: at most \<open>n\<close> more words. The space after a word becomes
  its NUL and is skipped.
\<close>

primrec sh_words :: "nat \<Rightarrow> bytes \<Rightarrow> bytes list" where
  "sh_words 0 p = []"
| "sh_words (Suc n) p =
     (let p = dropWhile (\<lambda>c. c = 32) p in
      if p = [] then [] else takeWhile (\<lambda>c. c \<noteq> 32) p # sh_words n (drop 1 (dropWhile (\<lambda>c. c \<noteq> 32) p)))"

definition sh_argv :: "bytes \<Rightarrow> bytes list" where
  "sh_argv line = sh_words MAX_ARGS (dropWhile (\<lambda>c. c = 32) line)"

subsection \<open>What the helpers compute\<close>

lemma sh_strlen_length [simp]: "sh_strlen s = int (length s)"
  by (induction s) auto

lemma sh_strcmp_eq: "0 \<notin> set a \<Longrightarrow> 0 \<notin> set b \<Longrightarrow> sh_strcmp a b = 0 \<longleftrightarrow> a = b"
proof (induction a b rule: sh_strcmp.induct)
  case (1 a as b bs)
  then show ?case by (auto simp: word_uint_eq_iff)
next
  case (3 a as)
  then show ?case by (auto simp: word_uint_eq_iff)
next
  case (4 b bs)
  then show ?case by (auto simp: word_uint_eq_iff)
qed simp

lemma sh_strcmp_refl [simp]: "sh_strcmp a a = 0"
  by (induction a) auto

lemma sh_strcpy_eq: "sh_strcpy room s = (if length s < room then Some s else None)"
  by (induction room s rule: sh_strcpy.induct) auto

lemma sh_words_take: "sh_words n p = take n (sh_words (n + k) p)"
proof (induction n arbitrary: p)
  case (Suc n)
  show ?case by (simp add: Let_def) (metis Suc.IH)
qed simp

end
