(* ===== verification/Shell_Parsing.thy ===== *)
theory Shell_Parsing
  imports Shell_Text
begin

text \<open>
  What the readers of the shell accept: the words of a line against splitting it at its spaces,
  and dotted addresses against their four fields and against the text \<open>printf\<close> makes of them.
\<close>

subsection \<open>Words\<close>

text \<open>The pieces between the spaces, empty ones included.\<close>

fun split_spaces :: "bytes \<Rightarrow> bytes list" where
  "split_spaces [] = [[]]"
| "split_spaces (c # s) = (if c = 32 then [] # split_spaces s else (c # hd (split_spaces s)) # tl (split_spaces s))"

lemma split_spaces_nonempty [simp]: "split_spaces s \<noteq> []"
  by (cases s) auto

lemma split_word: "32 \<notin> set w \<Longrightarrow> split_spaces w = [w]"
  by (induction w) auto

lemma split_word_space: "32 \<notin> set w \<Longrightarrow> split_spaces (w @ 32 # s) = w # split_spaces s"
  by (induction w) auto

lemma split_leading: "filter (\<lambda>w. w \<noteq> []) (split_spaces (dropWhile (\<lambda>c. c = 32) s))
    = filter (\<lambda>w. w \<noteq> []) (split_spaces s)"
  by (induction s) auto

lemma sh_words_split: "sh_words n p = take n (filter (\<lambda>w. w \<noteq> []) (split_spaces p))"
proof (induction n arbitrary: p)
  case (Suc n)
  define q where "q = dropWhile (\<lambda>c. c = 32) p"
  define w r where "w = takeWhile (\<lambda>c. c \<noteq> 32) q" and "r = dropWhile (\<lambda>c. c \<noteq> 32) q"
  have q: "q = w @ r" by (simp add: w_def r_def)
  have ns: "32 \<notin> set w" by (auto simp: w_def dest: set_takeWhileD)
  have split: "filter (\<lambda>w. w \<noteq> []) (split_spaces q) = filter (\<lambda>w. w \<noteq> []) (w # split_spaces (drop 1 r))"
  proof (cases r)
    case Nil
    then have "q = w" using q by simp
    with ns show ?thesis by (simp only: split_word Nil drop_Nil split_spaces.simps filter.simps simp_thms if_False if_True)
  next
    case (Cons c r')
    then have "c = 32" unfolding r_def by (simp add: dropWhile_eq_Cons_conv)
    then have "q = w @ 32 # r'" using q Cons by simp
    then have "split_spaces q = w # split_spaces r'" by (simp add: split_word_space [OF ns])
    then show ?thesis by (simp add: Cons)
  qed
  show ?case
  proof (cases "q = []")
    case True
    then show ?thesis using split_leading [of p] by (simp flip: q_def)
  next
    case False
    then have "hd q \<noteq> 32" unfolding q_def by (rule hd_dropWhile)
    with False have "w \<noteq> []" unfolding w_def by (cases q) auto
    then have "filter (\<lambda>w. w \<noteq> []) (split_spaces p) = w # filter (\<lambda>w. w \<noteq> []) (split_spaces (drop 1 r))"
      using split split_leading [of p] by (simp flip: q_def)
    moreover have "sh_words (Suc n) p = w # sh_words n (drop 1 r)" using False by (simp flip: q_def w_def r_def)
    ultimately show ?thesis using Suc.IH [of "drop 1 r"] by simp
  qed
qed simp

text \<open>the words the shell finds in a line are the pieces between its spaces, without the empty
  ones, up to sixteen: any number of spaces, at the ends or between words, means the same.\<close>

theorem shell_splits_at_spaces:
  "sh_argv line = take 16 (filter (\<lambda>w. w \<noteq> []) (split_spaces line))"
  by (simp add: sh_argv_def sh_words_split split_leading MAX_ARGS_def)

subsection \<open>Addresses\<close>

fun join_dots :: "bytes list \<Rightarrow> bytes" where
  "join_dots [] = []"
| "join_dots [f] = f"
| "join_dots (f # g # fs) = f @ 46 # join_dots (g # fs)"

text \<open>The value of a field whose first digits have the value \<open>v\<close>.\<close>

definition field_value :: "int \<Rightarrow> bytes \<Rightarrow> int" where
  "field_value v f = foldl (\<lambda>a c. a * 10 + (uint c - 48)) v f"

lemma field_value_simps [simp]:
  "field_value v [] = v" "field_value v (c # f) = field_value (v * 10 + (uint c - 48)) f"
  by (simp_all add: field_value_def)

lemma digit_range: "is_digit c \<longleftrightarrow> 48 \<le> uint c \<and> uint c \<le> 57"
  by (simp add: is_digit_def word_le_def)

lemma field_value_grows: "list_all is_digit f \<Longrightarrow> 0 \<le> v \<Longrightarrow> v \<le> field_value v f"
proof (induction f arbitrary: v)
  case (Cons c f)
  then have "v \<le> v * 10 + (uint c - 48)" "0 \<le> v * 10 + (uint c - 48)" by (auto simp: digit_range)
  with Cons show ?case by fastforce
qed simp

text \<open>The fields from the current one on; the first one has already the value \<open>v\<close>.\<close>

definition values_from :: "int \<Rightarrow> bytes list \<Rightarrow> int list" where
  "values_from v fs = field_value v (hd fs) # map (field_value 0) (tl fs)"

lemma ip4_loop_digits:
  "list_all is_digit f \<Longrightarrow> i < 4 \<Longrightarrow> 0 \<le> v \<Longrightarrow>
    ip4_loop (f @ s) i v os = (if 255 < field_value v f \<and> f \<noteq> [] then None else ip4_loop s i (field_value v f) os)"
proof (induction f arbitrary: v)
  case (Cons c f)
  let ?v = "v * 10 + (uint c - 48)"
  have d: "is_digit c" "list_all is_digit f" "0 \<le> ?v" using Cons.prems by (simp_all add: digit_range [of c])
  show ?case
  proof (cases "255 < ?v")
    case True
    with field_value_grows [OF d(2,3)] d(1) Cons.prems(2) show ?thesis by simp
  next
    case False
    with d(1) Cons.prems(2) Cons.IH [OF d(2) Cons.prems(2) d(3)] show ?thesis by auto
  qed
qed simp

lemma ip4_loop_accepts:
  "length fs = 4 - i \<Longrightarrow> i < 4 \<Longrightarrow> list_all (list_all is_digit) fs \<Longrightarrow> 0 \<le> v \<Longrightarrow> length os = 4 \<Longrightarrow>
    list_all (\<lambda>x. x \<le> 255) (values_from v fs) \<Longrightarrow>
    ip4_loop (join_dots fs) i v os
      = Some (3, last (values_from v fs), take i os @ map of_int (butlast (values_from v fs)) @ drop 3 os)"
proof (induction fs arbitrary: i v os rule: join_dots.induct)
  case 1
  then show ?case by simp
next
  case (2 f)
  then have "i = 3" "field_value v f \<le> 255" by (auto simp: values_from_def)
  with 2 ip4_loop_digits [of f 3 v "[]" os] show ?case by (simp add: values_from_def)
next
  case (3 f g fs)
  then have i: "Suc i < 4" "length (g # fs) = 4 - Suc i" by auto
  from 3 have d: "list_all is_digit f" "field_value v f \<le> 255" "list_all (list_all is_digit) (g # fs)"
    "list_all (\<lambda>x. x \<le> 255) (values_from 0 (g # fs))" by (auto simp: values_from_def)
  have "ip4_loop (join_dots (f # g # fs)) i v os
      = ip4_loop (join_dots (g # fs)) (Suc i) 0 (os[i := of_int (field_value v f)])"
    using ip4_loop_digits [OF d(1), of i v "46 # join_dots (g # fs)" os] i 3 d(2) by (simp add: is_digit_def word_le_nat_alt)
  also have "\<dots> = Some (3, last (values_from 0 (g # fs)),
      take (Suc i) (os[i := of_int (field_value v f)]) @ map of_int (butlast (values_from 0 (g # fs)))
      @ drop 3 (os[i := of_int (field_value v f)]))"
    using 3 i d by (intro "3.IH") auto
  also have "take (Suc i) (os[i := of_int (field_value v f)]) = take i os @ [of_int (field_value v f)]"
    using i 3(6) by (simp add: take_Suc_conv_app_nth)
  also have "drop 3 (os[i := of_int (field_value v f)]) = drop 3 os" using i by simp
  finally show ?case by (simp add: values_from_def)
qed

lemma ip4_loop_parses:
  "ip4_loop s i v os = Some (3, n, os') \<Longrightarrow> i < 4 \<Longrightarrow> 0 \<le> v \<Longrightarrow> v \<le> 255 \<Longrightarrow>
    \<exists>fs. length fs = 4 - i \<and> s = join_dots fs \<and> list_all (list_all is_digit) fs
      \<and> list_all (\<lambda>x. x \<le> 255) (values_from v fs)"
proof (induction s i v os rule: ip4_loop.induct)
  case (1 i num os)
  then have "i = 3" by simp
  with 1 show ?case by (intro exI [of _ "[[]]"]) (simp add: values_from_def)
next
  case (2 c s i v os)
  show ?case
  proof (cases "is_digit c")
    case True
    let ?v = "v * 10 + (uint c - 48)"
    have v: "0 \<le> ?v" "?v \<le> 255" using True 2 by (auto simp: digit_range split: if_splits)
    from 2 True v obtain fs where fs: "length fs = 4 - i" "s = join_dots fs" "list_all (list_all is_digit) fs"
      "list_all (\<lambda>x. x \<le> 255) (values_from ?v fs)" by auto
    with 2(4) obtain f gs where f: "fs = f # gs" by (cases fs) auto
    have "c # s = join_dots ((c # f) # gs)" using fs(2) f by (cases gs) auto
    with fs f True show ?thesis by (intro exI [of _ "(c # f) # gs"]) (auto simp: values_from_def)
  next
    case False
    with 2 have c: "c = 46" "ip4_loop s (i + 1) 0 (os[i := of_int v]) = Some (3, n, os')" by (auto split: if_splits)
    have "i + 1 < 4"
    proof (rule ccontr)
      assume "\<not> i + 1 < 4"
      with c(2) 2(4) show False by (cases s) (auto split: if_splits)
    qed
    with 2 False c obtain fs where fs: "length fs = 4 - (i + 1)" "s = join_dots fs" "list_all (list_all is_digit) fs"
      "list_all (\<lambda>x. x \<le> 255) (values_from 0 fs)" by auto
    with \<open>i + 1 < 4\<close> obtain f gs where f: "fs = f # gs" by (cases fs) auto
    with fs c(1) 2(4,5,6) show ?thesis by (intro exI [of _ "[] # fs"]) (auto simp: values_from_def)
  qed
qed

lemma length_4: "length fs = 4 \<longleftrightarrow> (\<exists>a b c d. fs = [a, b, c, d])"
  by (auto simp: length_Suc_conv eval_nat_numeral)

lemma parse_ip4_fields:
  "parse_ip4 s = Some os \<longleftrightarrow>
    (\<exists>fs. length fs = 4 \<and> s = join_dots fs \<and> list_all (list_all is_digit) fs
      \<and> list_all (\<lambda>f. field_value 0 f \<le> 255) fs \<and> os = map (\<lambda>f. of_int (field_value 0 f)) fs)" (is "?L \<longleftrightarrow> ?R")
proof -
  have acc: "parse_ip4 (join_dots fs) = Some (map (\<lambda>f. of_int (field_value 0 f)) fs)"
    if "length fs = 4" "list_all (list_all is_digit) fs" "list_all (\<lambda>f. field_value 0 f \<le> 255) fs" for fs
  proof -
    from that(1) obtain a b c d where fs: "fs = [a, b, c, d]" by (auto simp: length_4)
    from that ip4_loop_accepts [of fs 0 0 "replicate 4 0"]
    have "ip4_loop (join_dots fs) 0 0 (replicate 4 0) = Some (3, field_value 0 d,
        [of_int (field_value 0 a), of_int (field_value 0 b), of_int (field_value 0 c), 0])"
      by (simp add: fs values_from_def eval_nat_numeral)
    with that fs show ?thesis by (simp add: parse_ip4_def numeral_3_eq_3)
  qed
  show ?thesis
  proof
    assume ?L
    then obtain n os' where l: "ip4_loop s 0 0 (replicate 4 0) = Some (3, n, os')"
      by (auto simp: parse_ip4_def split: option.splits if_splits)
    from ip4_loop_parses [OF this] obtain fs where fs: "length fs = 4" "s = join_dots fs"
      "list_all (list_all is_digit) fs" "list_all (\<lambda>x. x \<le> 255) (values_from 0 fs)" by auto
    then have "list_all (\<lambda>f. field_value 0 f \<le> 255) fs" by (cases fs) (auto simp: values_from_def list_all_iff)
    with fs acc [of fs] \<open>?L\<close> show ?R by auto
  next
    assume ?R
    with acc show ?L by auto
  qed
qed

subsection \<open>Printed addresses\<close>

lemma digit_char_decimal: "0 \<le> r \<Longrightarrow> r < 10 \<Longrightarrow> is_digit (digit_char r) \<and> uint (digit_char r) - 48 = r"
proof -
  assume "0 \<le> r" "r < 10"
  then have "r \<in> {0,1,2,3,4,5,6,7,8,9}" by simp presburger
  then show ?thesis by (auto simp: digit_char_def digit_range)
qed

lemma decimal_digits:
  "0 \<le> v \<Longrightarrow> list_all is_digit (digit_loop 10 v) \<and> field_value 0 (rev (digit_loop 10 v)) = v"
proof (induction "10 :: int" v rule: digit_loop.induct)
  case (1 v)
  show ?case
  proof (cases "v = 0")
    case False
    have step: "digit_loop 10 v = digit_char (v mod 10) # digit_loop 10 (v div 10)"
      using False 1(2) by (subst digit_loop.simps) (simp add: c_div_nonneg)
    from 1 False have ih: "list_all is_digit (digit_loop 10 (v div 10))"
      "field_value 0 (rev (digit_loop 10 (v div 10))) = v div 10" by (auto simp: c_div_nonneg)
    with digit_char_decimal [of "v mod 10"] show ?thesis unfolding step by (simp add: field_value_def)
  qed (simp add: digit_loop.simps)
qed

lemma printed_octet:
  "list_all is_digit (print_int (uint (a :: u8)) 10 0 32) \<and> field_value 0 (print_int (uint a) 10 0 32) = uint a"
proof -
  have "print_int (uint a) 10 0 32 = rev (if uint a = 0 then [48] else digit_loop 10 (uint a))"
    by (simp add: print_int_def number_buf_def)
  with decimal_digits [of "uint a"] show ?thesis by (simp add: list_all_rev is_digit_def word_le_nat_alt)
qed

lemma dotted_text:
  "format_output (ascii ''%d.%d.%d.%d'') (map byte_arg [a, b, c, d])
    = Some (join_dots (map (\<lambda>x. print_int (uint x) 10 0 32) [a, b, c, d]))"
proof -
  have "sint (ucast x :: u32) = uint x" for x :: u8
  proof -
    have "uint x < 2 ^ 8" using uint_lt2p [of x] by simp
    moreover have "- (2 ^ 31) \<le> uint x" by (rule order_trans [of _ 0]) simp_all
    ultimately show ?thesis
      by (simp add: sint_uint unsigned_ucast_eq signed_take_bit_int_eq_self take_bit_int_eq_self)
  qed
  then show ?thesis
    by (simp add: ascii_def byte_arg_def parse_pad_def conversion_def)
qed

text \<open>dotted addresses. The shell accepts exactly four fields of digits, separated by three
  dots, whose values are at most 255, and reads those values (an empty field is 0); in particular
  it reads every address back from what \<open>printf\<close> makes of it.\<close>

theorem dotted_addresses:
  "(parse_ip4 s = Some os \<longleftrightarrow>
     (\<exists>fs. length fs = 4 \<and> s = join_dots fs \<and> list_all (list_all is_digit) fs
       \<and> list_all (\<lambda>f. field_value 0 f \<le> 255) fs \<and> os = map (\<lambda>f. of_int (field_value 0 f)) fs))
   \<and> map_option parse_ip4 (format_output (ascii ''%d.%d.%d.%d'') (map byte_arg [a, b, c, d])) = Some (Some [a, b, c, d])"
proof
  have u: "uint x \<le> 255" for x :: u8 using uint_lt2p [of x] by simp
  have "parse_ip4 (join_dots (map (\<lambda>x. print_int (uint x) 10 0 32) [a, b, c, d])) = Some [a, b, c, d]"
    unfolding parse_ip4_fields
    by (intro exI [of _ "map (\<lambda>x. print_int (uint x) 10 0 32) [a, b, c, d]"]) (simp add: printed_octet u)
  then show "map_option parse_ip4 (format_output (ascii ''%d.%d.%d.%d'') (map byte_arg [a, b, c, d])) = Some (Some [a, b, c, d])"
    by (simp only: dotted_text option.map)
qed (rule parse_ip4_fields)

end
