(* ===== verification/Shell_Line.thy ===== *)
theory Shell_Line
  imports Shell_Text Keyboard
begin

text \<open>
  The line editor of the shell (\<open>sh_readline\<close> in \<open>shell/shell.c\<close>) as a function of the
  characters that \<open>keyboard_getchar\<close> returns: the line buffer, the history of sixteen rows, and
  the console calls. Strings are the bytes before their NUL; the line buffer is its first
  \<open>pos\<close> bytes.
\<close>

record editor =
  ed_buf :: bytes
  browse_pos :: nat
  ed_temp :: bytes
  hist_rows :: "bytes list"
  hist_count :: nat

definition putc_event :: "u8 \<Rightarrow> event" where
  "putc_event c = say ''%c'' [AChar c]"

definition erase_event :: event where
  "erase_event = Say [8, 32, 8] []"

definition clear_line :: "bytes \<Rightarrow> event list" where
  "clear_line line = map (\<lambda>_. erase_event) line"

definition print_line :: "bytes \<Rightarrow> event list" where
  "print_line line = map putc_event line"

text \<open>The line is replaced on the screen and in the buffer.\<close>

definition show_line :: "bytes \<Rightarrow> editor \<Rightarrow> event list \<times> editor" where
  "show_line line ed = (clear_line (ed_buf ed) @ print_line line @ [Flush], ed\<lparr>ed_buf := line\<rparr>)"

definition key_up :: "editor \<Rightarrow> event list \<times> editor" where
  "key_up ed =
     (if 0 < browse_pos ed
      then let ed1 = (if browse_pos ed = hist_count ed then ed\<lparr>ed_temp := ed_buf ed\<rparr> else ed);
               ed2 = ed1\<lparr>browse_pos := browse_pos ed1 - 1\<rparr>
           in show_line (hist_rows ed2 ! browse_pos ed2) ed2
      else ([], ed))"

definition key_down :: "editor \<Rightarrow> event list \<times> editor" where
  "key_down ed =
     (if browse_pos ed < hist_count ed
      then let ed1 = ed\<lparr>browse_pos := browse_pos ed + 1\<rparr>
           in show_line (if browse_pos ed1 = hist_count ed1 then ed_temp ed1 else hist_rows ed1 ! browse_pos ed1) ed1
      else ([], ed))"

text \<open>The comparison with the last entry; the bytes of a row from its NUL on do not matter.\<close>

definition row_char :: "bytes \<Rightarrow> nat \<Rightarrow> u8" where
  "row_char row i = (if i < length row then row ! i else 0)"

definition same_line :: "bytes \<Rightarrow> bytes \<Rightarrow> bool" where
  "same_line buf row \<longleftrightarrow>
     list_all (\<lambda>i. buf ! i = row_char row i) [0..<length buf] \<and> row_char row (length buf) = 0"

definition add_history :: "editor \<Rightarrow> editor" where
  "add_history ed =
     (if ed_buf ed \<noteq> [] \<and> \<not> (0 < hist_count ed \<and> same_line (ed_buf ed) (hist_rows ed ! (hist_count ed - 1)))
      then ed\<lparr>hist_rows := (hist_rows ed)[hist_count ed mod HISTORY_SIZE := ed_buf ed],
              hist_count := (if hist_count ed < HISTORY_SIZE then hist_count ed + 1 else hist_count ed)\<rparr>
      else ed)"

text \<open>
  A backspace, with the two branches for Ctrl-C and Ctrl-X that the code nests in it. \<open>None\<close> is
  the loop of the second, which never changes \<open>pos\<close>.
\<close>

definition key_erase :: "u8 \<Rightarrow> editor \<Rightarrow> (event list \<times> editor \<times> bool) option" where
  "key_erase c ed =
     (let ed = ed\<lparr>ed_buf := butlast (ed_buf ed)\<rparr>; es = [erase_event, Flush] in
      if c = 3 then Some (es @ [sayln ''^C'' [], Flush], ed\<lparr>ed_buf := []\<rparr>, True)
      else if c = 24 then (if ed_buf ed \<noteq> [] then None else Some (es @ [Flush], ed, False))
      else Some (es, ed, False))"

text \<open>One pass of the loop: the console calls, the new state, and whether the function returns.\<close>

definition line_key :: "nat \<Rightarrow> u8 \<Rightarrow> editor \<Rightarrow> (event list \<times> editor \<times> bool) option" where
  "line_key limit c ed =
     (if c = KEY_PGUP then Some ([Scroll_Up 5], ed, False)
      else if c = KEY_PGDN then Some ([Scroll_Down 5], ed, False)
      else if c = KEY_UP then (case key_up ed of (es, ed) \<Rightarrow> Some (Scroll_Reset # es, ed, False))
      else if c = KEY_DOWN then (case key_down ed of (es, ed) \<Rightarrow> Some (Scroll_Reset # es, ed, False))
      else if c = 10 \<or> c = 13 then Some ([Scroll_Reset, newline, Flush], add_history ed, True)
      else if (c = 8 \<or> c = 127) \<and> ed_buf ed \<noteq> []
      then map_option (\<lambda>(es, r). (Scroll_Reset # es, r)) (key_erase c ed)
      else if c < 32 \<or> 126 < c then Some ([Scroll_Reset], ed, False)
      else if length (ed_buf ed) < limit - 1
      then Some ([Scroll_Reset, putc_event c, Flush], ed\<lparr>ed_buf := ed_buf ed @ [c]\<rparr>, False)
      else Some ([Scroll_Reset], ed, False))"

text \<open>The loop over the characters: those left when the line is complete, \<open>None\<close> while it is not.\<close>

fun line_loop :: "nat \<Rightarrow> bytes \<Rightarrow> editor \<Rightarrow> (event list \<times> editor \<times> bytes option) option" where
  "line_loop limit [] ed = Some ([], ed, None)"
| "line_loop limit (c # cs) ed =
     (case line_key limit c ed of
        None \<Rightarrow> None
      | Some (es, ed, returns) \<Rightarrow>
          if returns then Some (es, ed, Some cs)
          else (case line_loop limit cs ed of None \<Rightarrow> None | Some (es', r) \<Rightarrow> Some (es @ es', r)))"

definition sh_readline :: "nat \<Rightarrow> bytes \<Rightarrow> bytes list \<Rightarrow> nat \<Rightarrow> (event list \<times> editor \<times> bytes option) option" where
  "sh_readline limit keys hs n =
     line_loop limit keys \<lparr>ed_buf = [], browse_pos = n, ed_temp = [], hist_rows = hs, hist_count = n\<rparr>"

subsection \<open>Well-formed editors\<close>

definition line_ok :: "bytes \<Rightarrow> bool" where
  "line_ok s \<longleftrightarrow> length s < SHELL_BUF_SIZE \<and> list_all (\<lambda>c. 32 \<le> c \<and> c \<le> 126) s"

definition history_ok :: "bytes list \<Rightarrow> nat \<Rightarrow> bool" where
  "history_ok hs n \<longleftrightarrow> length hs = HISTORY_SIZE \<and> n \<le> HISTORY_SIZE \<and> list_all line_ok hs"

definition editor_ok :: "editor \<Rightarrow> bool" where
  "editor_ok ed \<longleftrightarrow> line_ok (ed_buf ed) \<and> line_ok (ed_temp ed) \<and> history_ok (hist_rows ed) (hist_count ed)
     \<and> browse_pos ed \<le> hist_count ed"

lemma line_ok_nil [simp]: "line_ok []"
  by (simp add: line_ok_def SHELL_BUF_SIZE_def)

lemma line_ok_no_nul: "line_ok s \<Longrightarrow> 0 \<notin> set s"
  by (auto simp: line_ok_def list_all_iff word_le_nat_alt)

lemma history_ok_row: "history_ok hs n \<Longrightarrow> i < HISTORY_SIZE \<Longrightarrow> line_ok (hs ! i)"
  by (auto simp: history_ok_def list_all_length)

lemma same_line_eq:
  assumes "0 \<notin> set buf" "0 \<notin> set row"
  shows "same_line buf row \<longleftrightarrow> buf = row"
proof
  assume s: "same_line buf row"
  have r: "\<not> length buf < length row" using s assms(2) by (auto simp: same_line_def row_char_def dest: nth_mem split: if_splits)
  have "\<not> length row < length buf"
  proof
    assume l: "length row < length buf"
    with s have "buf ! length row = row_char row (length row)" by (auto simp: same_line_def list_all_iff)
    with l assms(1) show False by (auto simp: row_char_def dest: nth_mem)
  qed
  with r s show "buf = row"
    by (intro nth_equalityI) (auto simp: same_line_def list_all_iff row_char_def)
qed (auto simp: same_line_def list_all_iff row_char_def)

lemma add_history_ok: "editor_ok ed \<Longrightarrow> editor_ok (add_history ed)"
  by (auto simp: editor_ok_def add_history_def history_ok_def HISTORY_SIZE_def list_all_length nth_list_update)

lemma show_line_ok: "editor_ok ed \<Longrightarrow> line_ok line \<Longrightarrow> editor_ok (snd (show_line line ed))"
  by (simp add: show_line_def editor_ok_def)

lemma key_up_ok:
  assumes "editor_ok ed"
  shows "editor_ok (snd (key_up ed))"
proof (cases "0 < browse_pos ed")
  case True
  define ed2 where "ed2 = (if browse_pos ed = hist_count ed then ed\<lparr>ed_temp := ed_buf ed\<rparr> else ed)\<lparr>browse_pos := browse_pos ed - 1\<rparr>"
  have "editor_ok ed2" using assms by (auto simp: ed2_def editor_ok_def)
  moreover have "browse_pos ed - 1 < HISTORY_SIZE" using assms True by (auto simp: editor_ok_def history_ok_def)
  then have "line_ok (hist_rows ed2 ! browse_pos ed2)"
    using assms by (auto simp: ed2_def editor_ok_def intro: history_ok_row)
  ultimately have "editor_ok (snd (show_line (hist_rows ed2 ! browse_pos ed2) ed2))" by (rule show_line_ok)
  moreover have "key_up ed = show_line (hist_rows ed2 ! browse_pos ed2) ed2"
    using True by (simp add: key_up_def ed2_def Let_def)
  ultimately show ?thesis by simp
qed (use assms in \<open>simp add: key_up_def\<close>)

lemma key_down_ok:
  assumes "editor_ok ed"
  shows "editor_ok (snd (key_down ed))"
proof (cases "browse_pos ed < hist_count ed")
  case True
  define ed1 where "ed1 = ed\<lparr>browse_pos := browse_pos ed + 1\<rparr>"
  let ?line = "if browse_pos ed1 = hist_count ed1 then ed_temp ed1 else hist_rows ed1 ! browse_pos ed1"
  have "editor_ok ed1" using assms True by (auto simp: ed1_def editor_ok_def)
  moreover have "line_ok ?line"
    using assms True by (auto simp: ed1_def editor_ok_def history_ok_def intro!: history_ok_row [of _ "hist_count ed"])
  ultimately have "editor_ok (snd (show_line ?line ed1))" by (rule show_line_ok)
  moreover have "key_down ed = show_line ?line ed1" using True by (simp add: key_down_def ed1_def Let_def)
  ultimately show ?thesis by simp
qed (use assms in \<open>simp add: key_down_def\<close>)

lemma line_key_ok:
  assumes "editor_ok ed" "limit \<le> SHELL_BUF_SIZE"
  shows "\<exists>es ed' r. line_key limit c ed = Some (es, ed', r) \<and> editor_ok ed'"
proof -
  have b: "editor_ok (ed\<lparr>ed_buf := butlast (ed_buf ed)\<rparr>)"
    using assms(1) by (auto simp: editor_ok_def line_ok_def list_all_iff dest: in_set_butlastD)
  have a: "editor_ok (ed\<lparr>ed_buf := ed_buf ed @ [c]\<rparr>)" if "length (ed_buf ed) < limit - 1" "\<not> (c < 32 \<or> 126 < c)"
    using assms that by (auto simp: editor_ok_def line_ok_def)
  define kept where "kept x \<longleftrightarrow> (\<exists>es ed' r. x = Some (es, ed', r) \<and> editor_ok ed')" for x :: "(event list \<times> editor \<times> bool) option"
  have [simp]: "kept (Some (es, ed', r)) \<longleftrightarrow> editor_ok ed'" for es ed' r by (simp add: kept_def)
  have u: "kept (case key_up ed of (es, ed) \<Rightarrow> Some (Scroll_Reset # es, ed, False))"
    using key_up_ok [OF assms(1)] by (cases "key_up ed") simp
  have d: "kept (case key_down ed of (es, ed) \<Rightarrow> Some (Scroll_Reset # es, ed, False))"
    using key_down_ok [OF assms(1)] by (cases "key_down ed") simp
  have e: "kept (map_option (\<lambda>(es, r). (Scroll_Reset # es, r)) (key_erase c ed))" if "c = 8 \<or> c = 127"
    using that b by (auto simp: key_erase_def)
  have "kept (line_key limit c ed)"
    unfolding line_key_def using assms(1) a u d e add_history_ok [OF assms(1)]
    by (cases "ed_buf ed = []") (simp_all split: if_split)
  then show ?thesis by (simp only: kept_def)
qed

lemma line_loop_ok:
  "editor_ok ed \<Longrightarrow> limit \<le> SHELL_BUF_SIZE \<Longrightarrow>
    \<exists>es ed' rest. line_loop limit keys ed = Some (es, ed', rest) \<and> editor_ok ed'"
proof (induction keys arbitrary: ed)
  case (Cons c keys)
  from line_key_ok [OF Cons.prems] obtain es ed1 r where k: "line_key limit c ed = Some (es, ed1, r)" "editor_ok ed1" by blast
  from Cons.IH [OF k(2) Cons.prems(2)] obtain es' ed2 rest where
    "line_loop limit keys ed1 = Some (es', ed2, rest)" "editor_ok ed2" by blast
  with k show ?case by auto
qed simp

text \<open>C26: whatever is typed, the line editor stays well formed: a line of at most 255 printable
  characters (so that its NUL fits into the buffer), the same for the saved line and each of the
  sixteen rows of the history, and a browsing position inside it. No key sends it into the endless
  branch for Ctrl-X or leaves it undefined.\<close>

theorem editor_stays_well_formed:
  assumes "history_ok hs n"
  shows "\<exists>es ed rest. sh_readline SHELL_BUF_SIZE keys hs n = Some (es, ed, rest) \<and> editor_ok ed"
  unfolding sh_readline_def using assms by (intro line_loop_ok) (simp_all add: editor_ok_def)

theorem editor_stays_well_formed_witness:
  "\<exists>es ed rest. sh_readline SHELL_BUF_SIZE [108, 115, 24, 3, 8, 0x80, 10] ([112, 119, 100] # replicate 15 []) 1
    = Some (es, ed, rest) \<and> editor_ok ed"
  by (rule editor_stays_well_formed)
    (simp add: history_ok_def line_ok_def HISTORY_SIZE_def SHELL_BUF_SIZE_def list_all_iff word_le_nat_alt)

end
