(* ===== verification/Shell_History.thy ===== *)
theory Shell_History
  imports Shell_Line
begin

text \<open>
  The history of the line editor: typing, browsing up and down, and what a completed line
  leaves behind.
\<close>

definition runs :: "bytes \<Rightarrow> editor \<Rightarrow> editor \<Rightarrow> bool" where
  "runs keys ed ed' \<longleftrightarrow> (\<exists>es. line_loop SHELL_BUF_SIZE keys ed = Some (es, ed', None))"

lemma line_loop_append:
  "line_loop limit (xs @ ys) ed =
     (case line_loop limit xs ed of
        None \<Rightarrow> None
      | Some (es, ed', Some rest) \<Rightarrow> Some (es, ed', Some (rest @ ys))
      | Some (es, ed', None) \<Rightarrow> (case line_loop limit ys ed' of None \<Rightarrow> None | Some (es', r) \<Rightarrow> Some (es @ es', r)))"
proof (induction xs arbitrary: ed)
  case (Cons c xs)
  show ?case
  proof (cases "line_key limit c ed")
    case (Some x)
    obtain es ed1 r where x: "x = (es, ed1, r)" by (cases x)
    with Some show ?thesis by (simp add: Cons.IH split: option.split)
  qed simp
qed (simp split: option.split)

lemma runs_nil [simp]: "runs [] ed ed"
  by (simp add: runs_def)

lemma runs_append: "runs xs a b \<Longrightarrow> runs ys b c \<Longrightarrow> runs (xs @ ys) a c"
  by (auto simp: runs_def line_loop_append)

lemma runs_then:
  "runs xs a b \<Longrightarrow> line_loop SHELL_BUF_SIZE ys b = Some (es, ed, r) \<Longrightarrow>
    \<exists>es. line_loop SHELL_BUF_SIZE (xs @ ys) a = Some (es, ed, r)"
  by (auto simp: runs_def line_loop_append)

lemma runs_key: "line_key SHELL_BUF_SIZE c a = Some (es, b, False) \<Longrightarrow> runs [c] a b"
  by (simp add: runs_def)

lemmas key_codes = KEY_UP_def KEY_DOWN_def KEY_PGUP_def KEY_PGDN_def

subsection \<open>Typing\<close>

lemma printable_key:
  assumes "32 \<le> c" "c \<le> 126"
  shows "c \<noteq> KEY_PGUP" "c \<noteq> KEY_PGDN" "c \<noteq> KEY_UP" "c \<noteq> KEY_DOWN" "c \<noteq> 10" "c \<noteq> 13" "c \<noteq> 8" "c \<noteq> 127"
    "\<not> (c < 32 \<or> 126 < c)"
  using assms by (auto simp: key_codes word_le_nat_alt word_less_nat_alt)

lemma type_key:
  assumes "32 \<le> c" "c \<le> 126" "length (ed_buf ed) + 1 < SHELL_BUF_SIZE"
  shows "line_key SHELL_BUF_SIZE c ed = Some ([Scroll_Reset, putc_event c, Flush], ed\<lparr>ed_buf := ed_buf ed @ [c]\<rparr>, False)"
  using assms(3) printable_key [OF assms(1,2)] by (simp add: line_key_def)

lemma type_text:
  "list_all (\<lambda>c. 32 \<le> c \<and> c \<le> 126) typed \<Longrightarrow> length (ed_buf ed) + length typed < SHELL_BUF_SIZE \<Longrightarrow>
    runs typed ed (ed\<lparr>ed_buf := ed_buf ed @ typed\<rparr>)"
proof (induction typed arbitrary: ed)
  case (Cons c typed)
  have "runs [c] ed (ed\<lparr>ed_buf := ed_buf ed @ [c]\<rparr>)" using Cons.prems by (auto intro: runs_key [OF type_key])
  moreover have "runs typed (ed\<lparr>ed_buf := ed_buf ed @ [c]\<rparr>) (ed\<lparr>ed_buf := ed_buf ed @ c # typed\<rparr>)"
    using Cons.IH [of "ed\<lparr>ed_buf := ed_buf ed @ [c]\<rparr>"] Cons.prems by simp
  ultimately show ?case using runs_append by fastforce
qed simp

subsection \<open>Browsing\<close>

text \<open>The editor shows entry \<open>i\<close> of the history, or (at the end of it) the text being typed.\<close>

definition at_entry :: "bytes list \<Rightarrow> nat \<Rightarrow> bytes \<Rightarrow> nat \<Rightarrow> editor \<Rightarrow> bool" where
  "at_entry hs n typed i ed \<longleftrightarrow> hist_rows ed = hs \<and> hist_count ed = n \<and> browse_pos ed = i
     \<and> (if i = n then ed_buf ed = typed else ed_buf ed = hs ! i \<and> ed_temp ed = typed)"

lemma up_entry:
  assumes "at_entry hs n typed (Suc i) ed" "Suc i \<le> n"
  shows "\<exists>ed'. runs [KEY_UP] ed ed' \<and> at_entry hs n typed i ed'"
proof (intro exI conjI)
  have "line_key SHELL_BUF_SIZE KEY_UP ed = Some (Scroll_Reset # fst (key_up ed), snd (key_up ed), False)"
    by (simp add: line_key_def key_codes split: prod.split)
  then show "runs [KEY_UP] ed (snd (key_up ed))" by (rule runs_key)
  have b: "browse_pos ed = Suc i" using assms by (simp add: at_entry_def)
  show "at_entry hs n typed i (snd (key_up ed))"
    using assms b by (cases "n = Suc i") (simp_all add: at_entry_def key_up_def show_line_def Let_def)
qed

lemma down_entry:
  assumes "at_entry hs n typed i ed" "i < n"
  shows "\<exists>ed'. runs [KEY_DOWN] ed ed' \<and> at_entry hs n typed (Suc i) ed'"
proof (intro exI conjI)
  have "line_key SHELL_BUF_SIZE KEY_DOWN ed = Some (Scroll_Reset # fst (key_down ed), snd (key_down ed), False)"
    by (simp add: line_key_def key_codes split: prod.split)
  then show "runs [KEY_DOWN] ed (snd (key_down ed))" by (rule runs_key)
  show "at_entry hs n typed (Suc i) (snd (key_down ed))"
    using assms by (auto simp: at_entry_def key_down_def show_line_def Let_def)
qed

lemma up_entries:
  "at_entry hs n typed i ed \<Longrightarrow> i \<le> n \<Longrightarrow> k \<le> i \<Longrightarrow>
    \<exists>ed'. runs (replicate k KEY_UP) ed ed' \<and> at_entry hs n typed (i - k) ed'"
proof (induction k arbitrary: i ed)
  case (Suc k)
  then obtain j where j: "i = Suc j" by (cases i) auto
  with up_entry [of hs n typed j ed] Suc.prems obtain ed1 where
    u: "runs [KEY_UP] ed ed1" "at_entry hs n typed j ed1" by auto
  with Suc.IH [of j ed1] Suc.prems j obtain ed' where
    "runs (replicate k KEY_UP) ed1 ed'" "at_entry hs n typed (j - k) ed'" by auto
  with runs_append [OF u(1)] j show ?case by auto
qed (simp, metis runs_nil)

lemma down_entries:
  "at_entry hs n typed i ed \<Longrightarrow> i + k \<le> n \<Longrightarrow>
    \<exists>ed'. runs (replicate k KEY_DOWN) ed ed' \<and> at_entry hs n typed (i + k) ed'"
proof (induction k arbitrary: i ed)
  case (Suc k)
  with down_entry [of hs n typed i ed] obtain ed1 where
    u: "runs [KEY_DOWN] ed ed1" "at_entry hs n typed (Suc i) ed1" by auto
  with Suc.IH [of "Suc i" ed1] Suc.prems obtain ed' where
    "runs (replicate k KEY_DOWN) ed1 ed'" "at_entry hs n typed (Suc i + k) ed'" by auto
  with runs_append [OF u(1)] show ?case by auto
qed (simp, metis runs_nil)

text \<open>C24: the history of the line editor. With \<open>n\<close> lines in it, typing a text and pressing the up
  key \<open>k\<close> times shows the line entered \<open>k\<close> lines ago, and as many presses of the down key bring
  the text back. Entering the text returns it and adds it to the history, unless it is empty or
  repeats the last line. When the history is full, the new line replaces the oldest one without
  becoming the last: the first press of the up key then still shows the sixteenth line.\<close>

theorem line_history:
  assumes "history_ok hs n" "line_ok typed" "k \<le> n"
  shows "(\<exists>es ed. sh_readline SHELL_BUF_SIZE (typed @ replicate k KEY_UP) hs n = Some (es, ed, None)
      \<and> ed_buf ed = (if k = 0 then typed else hs ! (n - k)))
    \<and> (\<exists>es ed. sh_readline SHELL_BUF_SIZE (typed @ replicate k KEY_UP @ replicate k KEY_DOWN) hs n = Some (es, ed, None)
      \<and> ed_buf ed = typed)
    \<and> (\<exists>es ed. sh_readline SHELL_BUF_SIZE (typed @ [10]) hs n = Some (es, ed, Some []) \<and> ed_buf ed = typed
      \<and> (hist_rows ed, hist_count ed) =
         (if typed = [] \<or> n > 0 \<and> typed = hs ! (n - 1) then (hs, n)
          else if n < 16 then (hs[n := typed], n + 1) else (hs[0 := typed], 16)))"
proof -
  define ed0 where "ed0 = \<lparr>ed_buf = [], browse_pos = n, ed_temp = [], hist_rows = hs, hist_count = n\<rparr>"
  define ed1 where "ed1 = ed0\<lparr>ed_buf := typed\<rparr>"
  have t: "runs typed ed0 ed1"
    using type_text [of typed ed0] assms(2) by (simp add: ed1_def ed0_def line_ok_def)
  have e: "at_entry hs n typed n ed1" by (simp add: ed1_def ed0_def at_entry_def)
  from up_entries [OF e order_refl assms(3)] obtain ed2 where
    u: "runs (replicate k KEY_UP) ed1 ed2" "at_entry hs n typed (n - k) ed2" by blast
  from down_entries [OF u(2), of k] assms(3) obtain ed3 where
    d: "runs (replicate k KEY_DOWN) ed2 ed3" "at_entry hs n typed n ed3" by auto
  have n16: "n \<le> 16" using assms(1) by (simp add: history_ok_def HISTORY_SIZE_def)
  have nul: "0 \<notin> set typed" "n \<noteq> 0 \<Longrightarrow> 0 \<notin> set (hs ! (n - 1))"
    using n16 line_ok_no_nul [OF assms(2)] line_ok_no_nul [OF history_ok_row [OF assms(1), of "n - 1"]]
    by (auto simp: HISTORY_SIZE_def)
  have "line_loop SHELL_BUF_SIZE [10] ed1 = Some ([Scroll_Reset, newline, Flush], add_history ed1, Some [])"
    by (simp add: line_key_def key_codes)
  from runs_then [OF t this] obtain es where
    a: "line_loop SHELL_BUF_SIZE (typed @ [10]) ed0 = Some (es, add_history ed1, Some [])" by blast
  have h: "(hist_rows (add_history ed1), hist_count (add_history ed1)) =
      (if typed = [] \<or> n > 0 \<and> typed = hs ! (n - 1) then (hs, n) else if n < 16 then (hs[n := typed], n + 1) else (hs[0 := typed], 16))"
    "ed_buf (add_history ed1) = typed"
    using n16 same_line_eq [OF nul(1), of "hs ! (n - 1)"] nul(2)
    by (auto simp: add_history_def ed1_def ed0_def HISTORY_SIZE_def)
  have "ed_buf ed2 = (if k = 0 then typed else hs ! (n - k))" "ed_buf ed3 = typed"
    using u(2) d(2) assms(3) by (auto simp: at_entry_def split: if_splits)
  moreover have "runs (typed @ replicate k KEY_UP) ed0 ed2" "runs (typed @ replicate k KEY_UP @ replicate k KEY_DOWN) ed0 ed3"
    using runs_append [OF t u(1)] runs_append [OF t runs_append [OF u(1) d(1)]] by simp_all
  ultimately show ?thesis
    using a h unfolding runs_def sh_readline_def ed0_def [symmetric] by blast
qed

theorem line_history_witness:
  "(\<exists>es ed. sh_readline SHELL_BUF_SIZE ([108, 115] @ replicate 2 KEY_UP) ([[97], [98]] @ replicate 14 []) 2 = Some (es, ed, None)
      \<and> ed_buf ed = [97])
    \<and> (\<exists>es ed. sh_readline SHELL_BUF_SIZE ([108, 115] @ replicate 2 KEY_UP @ replicate 2 KEY_DOWN)
        ([[97], [98]] @ replicate 14 []) 2 = Some (es, ed, None) \<and> ed_buf ed = [108, 115])"
  using line_history [of "[[97], [98]] @ replicate 14 []" 2 "[108, 115]" 2]
  by (simp add: history_ok_def line_ok_def HISTORY_SIZE_def SHELL_BUF_SIZE_def list_all_iff word_le_nat_alt)

end
