(* ===== verification/Shell_Screen.thy ===== *)
theory Shell_Screen
  imports Shell_Line
begin

text \<open>
  What the line editor leaves on the screen: its console calls, carried out on the models of
  \<open>printf\<close> and of the text console, keep the line being edited visible behind the prompt.
\<close>

text \<open>
  The cells end at the cursor, and the screen is blank from there on.
\<close>

definition screen_shows :: "u8 \<Rightarrow> u16 list \<Rightarrow> vga \<Rightarrow> bool" where
  "screen_shows color cells v \<longleftrightarrow> vga_wf v \<and> scrollback_view_offset v = 0 \<and> vga_color v = color
     \<and> (\<exists>before. length before + length cells = vga_row v * 80 + vga_column v
          \<and> vga_buffer v = before @ cells @ replicate (2000 - (vga_row v * 80 + vga_column v)) (vga_cell 32 color))"

text \<open>The same of the screen under a view of the history.\<close>

definition console_shows :: "u8 \<Rightarrow> u16 list \<Rightarrow> console \<Rightarrow> bool" where
  "console_shows color cells con \<longleftrightarrow> (\<exists>v. screen_shows color cells v \<and> viewing v (con_vga con))"

lemma screen_shows_viewing: "screen_shows color cells v \<Longrightarrow> viewing v v"
  by (simp add: screen_shows_def viewing_refl)

subsection \<open>Characters\<close>

lemma position_split: "p < 2000 \<Longrightarrow> r < 25 \<Longrightarrow> c < 80 \<Longrightarrow> r * 80 + c = (p :: nat) \<longleftrightarrow> r = p div 80 \<and> c = p mod 80"
  by auto

lemma place_shows:
  assumes "screen_shows color cells v" "c \<noteq> 8" "c \<noteq> 10" "length cells \<le> 1900"
  shows "screen_shows color (cells @ [vga_cell c color]) (fst (vga_putchar_raw io c v w))"
proof -
  let ?p = "vga_row v * 80 + vga_column v"
  from assms(1) obtain before where b: "length before + length cells = ?p"
    "vga_buffer v = before @ cells @ replicate (2000 - ?p) (vga_cell 32 color)" by (auto simp: screen_shows_def)
  have wf: "vga_wf v" and off: "scrollback_view_offset v = 0" and col: "vga_color v = color"
    using assms(1) by (auto simp: screen_shows_def)
  have rc: "vga_row v < 25" "vga_column v < 80" using wf by (auto simp: vga_wf_def)
  then have p: "?p < 2000" by linarith
  then have m: "2000 - ?p = Suc (1999 - ?p)" by simp
  define q where "q = vga_place c v"
  have buf: "vga_buffer q = before @ (cells @ [vga_cell c color]) @ replicate (1999 - ?p) (vga_cell 32 color)"
  proof -
    have "vga_buffer v = before @ cells @ vga_cell 32 color # replicate (1999 - ?p) (vga_cell 32 color)"
      unfolding b(2) m by simp
    with assms(2,3) col show ?thesis
      by (simp add: q_def vga_place_def Let_def vga_consts list_update_append flip: b(1))
  qed
  have pos: "vga_row q * 80 + vga_column q = ?p + 1" "vga_column q < 80" "vga_row q \<le> 25"
    using assms(2,3) rc by (auto simp: q_def vga_place_def Let_def vga_consts)
  note pw = place_wf [OF wf, of c, folded q_def]
  have raw: "fst (vga_putchar_raw io c v w) = (if 25 \<le> vga_row q then vga_scroll (q\<lparr>vga_row := 24\<rparr>) else q)"
    using off by (simp add: vga_putchar_raw_def Let_def vga_consts flip: q_def)
  show ?thesis
  proof (cases "25 \<le> vga_row q")
    case False
    then have "vga_wf q" using pw wf by (simp add: vga_wf_def)
    moreover have "1999 - ?p = 2000 - (vga_row q * 80 + vga_column q)" using pos by simp
    ultimately show ?thesis using False pw(8,9) off col pos(1) b(1) buf
      unfolding screen_shows_def raw by (auto intro: exI [of _ before])
  next
    case True
    let ?q = "q\<lparr>vga_row := 24\<rparr>" and ?s = "vga_scroll (q\<lparr>vga_row := 24\<rparr>)"
    have "vga_wf ?q" using pw wf off by (simp add: vga_wf_def view_ok_def)
    moreover have oq: "scrollback_view_offset ?q = 0" using pw(8) off by simp
    ultimately have ws: "vga_wf ?s" by (rule scroll_wf)
    have end_pos: "vga_row q = 25" "vga_column q = 0" "?p = 1999" using True pos p by auto
    have s: "vga_row ?s = 24" "vga_column ?s = 0" "scrollback_view_offset ?s = 0" "vga_color ?s = color"
      "vga_buffer ?s = drop 80 (vga_buffer q) @ replicate 80 (vga_cell 32 color)"
      using end_pos oq pw(9) col by (simp_all add: vga_scroll_def Let_def vga_consts)
    have "80 \<le> length before" using b(1) end_pos(3) assms(4) by simp
    then have "vga_buffer ?s = drop 80 before @ (cells @ [vga_cell c color]) @ replicate 80 (vga_cell 32 color)"
      using s(5) buf end_pos(3) by simp
    moreover have "length (drop 80 before) + length (cells @ [vga_cell c color]) = 1920"
      using \<open>80 \<le> length before\<close> b(1) end_pos(3) by simp
    ultimately show ?thesis using True ws s
      unfolding screen_shows_def raw by (auto intro!: exI [of _ "drop 80 before"])
  qed
qed

lemma erase_shows:
  assumes "screen_shows color cells v" "cells \<noteq> []"
  shows "screen_shows color (butlast cells) (fst (vga_putchar_raw io 8 v w))"
proof -
  let ?p = "vga_row v * 80 + vga_column v"
  from assms(1) obtain before where b: "length before + length cells = ?p"
    "vga_buffer v = before @ cells @ replicate (2000 - ?p) (vga_cell 32 color)" by (auto simp: screen_shows_def)
  have wf: "vga_wf v" and off: "scrollback_view_offset v = 0" and col: "vga_color v = color"
    using assms(1) by (auto simp: screen_shows_def)
  have rc: "vga_row v < 25" "vga_column v < 80" using wf by (auto simp: vga_wf_def)
  have p0: "0 < ?p" using b(1) assms(2) by (cases cells) auto
  define q where "q = vga_place 8 v"
  have pos: "vga_row q * 80 + vga_column q = ?p - 1" "vga_column q < 80" "vga_row q < 25"
    using rc p0 by (auto simp: q_def vga_place_def Let_def vga_consts)
  obtain cs c where cs: "cells = cs @ [c]" using assms(2) by (cases cells rule: rev_cases) auto
  have m: "2000 - (?p - 1) = Suc (2000 - ?p)" using rc p0 by linarith
  have q_buf: "vga_buffer q = (vga_buffer v)[?p - 1 := vga_cell 32 color]"
    using col pos(1) by (simp add: q_def vga_place_def Let_def vga_consts)
  have "length before + length cs = ?p - 1" using b(1) cs by simp
  moreover from this have "vga_buffer q = before @ cs @ replicate (2000 - (?p - 1)) (vga_cell 32 color)"
    unfolding q_buf b(2) cs m by (simp add: list_update_append flip: append_assoc)
  moreover have "fst (vga_putchar_raw io 8 v w) = q"
    using off pos(3) by (simp add: vga_putchar_raw_def Let_def vga_consts flip: q_def)
  moreover note place_wf [OF wf, of 8, folded q_def]
  ultimately show ?thesis using wf off col cs pos
    unfolding screen_shows_def by (auto simp: vga_wf_def intro!: exI [of _ before])
qed

subsection \<open>Views\<close>

lemma reset_shows:
  assumes "screen_shows color cells v" "viewing v u"
  shows "screen_shows color cells (fst (vga_scrollback_reset io u w))"
proof -
  have "vga_color (fst (vga_scrollback_reset io u w)) = vga_color v"
    using assms(2) by (simp add: vga_scrollback_reset_def vga_restore_screen_def Let_def viewing_def)
  with reset_restores [OF assms(2), of io w] assms(1) show ?thesis by (auto simp: screen_shows_def)
qed

lemma raw_in_view:
  assumes "screen_shows color cells v" "viewing v u"
  shows "\<exists>v' w'. screen_shows color cells v' \<and> vga_putchar_raw io c u w = vga_putchar_raw io c v' w'"
proof (cases "0 < scrollback_view_offset u")
  case True
  let ?r = "vga_scrollback_reset io u w"
  have "screen_shows color cells (fst ?r)" by (rule reset_shows [OF assms])
  moreover from this have "vga_putchar_raw io c u w = vga_putchar_raw io c (fst ?r) (snd ?r)"
    using True by (simp add: vga_putchar_raw_def screen_shows_def case_prod_beta)
  ultimately show ?thesis by blast
next
  case False
  then have "scrollback_view_offset u = 0" using assms(2) by (auto simp: viewing_def vga_wf_def view_ok_def)
  moreover have "screen_shows color cells u" if "scrollback_view_offset u = 0"
    using assms that by (auto simp: screen_shows_def viewing_def)
  ultimately show ?thesis by blast
qed

lemma put_char_vga: "con_vga (fst (put_char io c (con, w))) = fst (vga_putchar_raw io c (con_vga con) w)"
  by (simp add: put_char_def case_prod_beta Let_def)

lemma put_shows:
  assumes "console_shows color cells con" "c \<noteq> 8" "c \<noteq> 10" "length cells \<le> 1900"
  shows "console_shows color (cells @ [vga_cell c color]) (fst (put_char io c (con, w)))"
proof -
  from assms(1) obtain v where v: "screen_shows color cells v" "viewing v (con_vga con)" by (auto simp: console_shows_def)
  from raw_in_view [OF this, of io c w] obtain v' w' where
    r: "screen_shows color cells v'" "vga_putchar_raw io c (con_vga con) w = vga_putchar_raw io c v' w'" by blast
  from place_shows [OF r(1) assms(2-4), of io w'] show ?thesis
    unfolding console_shows_def put_char_vga r(2) using screen_shows_viewing by blast
qed

lemma backspace_shows:
  assumes "console_shows color cells con" "cells \<noteq> []"
  shows "console_shows color (butlast cells) (fst (put_char io 8 (con, w)))"
proof -
  from assms(1) obtain v where v: "screen_shows color cells v" "viewing v (con_vga con)" by (auto simp: console_shows_def)
  from raw_in_view [OF this, of io 8 w] obtain v' w' where
    r: "screen_shows color cells v'" "vga_putchar_raw io 8 (con_vga con) w = vga_putchar_raw io 8 v' w'" by blast
  from erase_shows [OF r(1) assms(2), of io w'] show ?thesis
    unfolding console_shows_def put_char_vga r(2) using screen_shows_viewing by blast
qed

subsection \<open>Console calls\<close>

text \<open>A call succeeds and turns a console showing the first cells into one showing the second.\<close>

definition redraws :: "'w ports \<Rightarrow> u8 \<Rightarrow> event list \<Rightarrow> u16 list \<Rightarrow> u16 list \<Rightarrow> bool" where
  "redraws io color es cells cells' \<longleftrightarrow> (\<forall>con prev w. console_shows color cells con \<longrightarrow>
     (\<exists>con' w'. perform_all io es (con, prev, w) = Some (con', prev, w') \<and> console_shows color cells' con'))"

lemma redraws_nil: "redraws io color [] cells cells"
  by (simp add: redraws_def)

lemma redraws_append: "redraws io color xs a b \<Longrightarrow> redraws io color ys b c \<Longrightarrow> redraws io color (xs @ ys) a c"
proof -
  assume x: "redraws io color xs a b" and y: "redraws io color ys b c"
  show ?thesis unfolding redraws_def
  proof (intro allI impI)
    fix con prev w assume "console_shows color a con"
    with x obtain con1 w1 where 1: "perform_all io xs (con, prev, w) = Some (con1, prev, w1)" "console_shows color b con1"
      unfolding redraws_def by blast
    with y obtain con2 w2 where "perform_all io ys (con1, prev, w1) = Some (con2, prev, w2)" "console_shows color c con2"
      unfolding redraws_def by blast
    with 1 show "\<exists>con' w'. perform_all io (xs @ ys) (con, prev, w) = Some (con', prev, w') \<and> console_shows color c con'"
      by (simp add: perform_all_append)
  qed
qed

lemma redraws_cons: "redraws io color [x] a b \<Longrightarrow> redraws io color ys b c \<Longrightarrow> redraws io color (x # ys) a c"
  using redraws_append [of io color "[x]"] by simp

lemma redraws_flush: "redraws io color [Flush] cells cells"
  by (simp add: redraws_def)

lemma redraws_putc:
  assumes "32 \<le> c" "c \<le> 126" "length cells \<le> 1900"
  shows "redraws io color [putc_event c] cells (cells @ [vga_cell c color])"
proof -
  have c: "c \<noteq> 8" "c \<noteq> 10" using assms(1) by (auto simp: word_le_nat_alt)
  have f: "format_output (c_str (ascii ''%c'')) [AChar c] = Some [c]"
    by (simp add: ascii_def c_str_def parse_pad_def conversion_def)
  show ?thesis unfolding redraws_def
  proof (intro allI impI)
    fix con prev w assume "console_shows color cells con"
    from put_shows [OF this c assms(3), of io w]
    show "\<exists>con' w'. perform_all io [putc_event c] (con, prev, w) = Some (con', prev, w')
      \<and> console_shows color (cells @ [vga_cell c color]) con'"
      by (simp add: putc_event_def say_def printf_def f case_prod_beta)
  qed
qed

lemma redraws_erase:
  assumes "cells \<noteq> []" "length cells \<le> 1900"
  shows "redraws io color [erase_event] cells (butlast cells)"
  unfolding redraws_def
proof (intro allI impI)
  fix con prev w assume s0: "console_shows color cells con"
  obtain con1 w1 where p1: "put_char io 8 (con, w) = (con1, w1)" by (cases "put_char io 8 (con, w)")
  with backspace_shows [OF s0 assms(1), of io w] have s1: "console_shows color (butlast cells) con1" by simp
  obtain con2 w2 where p2: "put_char io 32 (con1, w1) = (con2, w2)" by (cases "put_char io 32 (con1, w1)")
  with put_shows [OF s1, of 32 io w1] assms(2) have s2: "console_shows color (butlast cells @ [vga_cell 32 color]) con2"
    by simp
  obtain con3 w3 where p3: "put_char io 8 (con2, w2) = (con3, w3)" by (cases "put_char io 8 (con2, w2)")
  with backspace_shows [OF s2, of io w2] have s3: "console_shows color (butlast cells) con3" by simp
  have "format_output (c_str [8, 32, 8]) [] = Some [8, 32, 8]" by (simp add: c_str_def)
  with p1 p2 p3 s3 show "\<exists>con' w'. perform_all io [erase_event] (con, prev, w) = Some (con', prev, w')
      \<and> console_shows color (butlast cells) con'"
    by (simp add: erase_event_def printf_def)
qed

lemma redraws_view:
  assumes "\<And>v u w. viewing v u \<Longrightarrow> viewing v (fst (f u w))"
    and "\<And>con prev w. perform io e (con, prev, w)
      = Some (con\<lparr>con_vga := fst (f (con_vga con) w)\<rparr>, prev, snd (f (con_vga con) w))"
  shows "redraws io color [e] cells cells"
  unfolding redraws_def console_shows_def
proof (intro allI impI)
  fix con :: console and prev w assume "\<exists>v. screen_shows color cells v \<and> viewing v (con_vga con)"
  then obtain v where "screen_shows color cells v" "viewing v (con_vga con)" by blast
  with assms(1) have "\<exists>v. screen_shows color cells v \<and> viewing v (con_vga (con\<lparr>con_vga := fst (f (con_vga con) w)\<rparr>))"
    by auto
  then show "\<exists>con' w'. perform_all io [e] (con, prev, w) = Some (con', prev, w')
      \<and> (\<exists>v. screen_shows color cells v \<and> viewing v (con_vga con'))"
    by (simp add: assms(2))
qed

lemma redraws_views:
  "redraws io color [Scroll_Up 5] cells cells" "redraws io color [Scroll_Down 5] cells cells"
  "redraws io color [Scroll_Reset] cells cells"
proof -
  show "redraws io color [Scroll_Up 5] cells cells"
    by (rule redraws_view [where f = "vga_scrollback_up io 5"])
      (use up_viewing [where n = 5 and io = io] in \<open>auto split: prod.split\<close>)
  show "redraws io color [Scroll_Down 5] cells cells"
    by (rule redraws_view [where f = "vga_scrollback_down io 5"])
      (use down_viewing [where n = 5 and io = io] in \<open>auto split: prod.split\<close>)
  show "redraws io color [Scroll_Reset] cells cells"
    unfolding redraws_def
  proof (intro allI impI)
    fix con prev w assume s: "console_shows color cells con"
    then obtain v where v: "screen_shows color cells v" "viewing v (con_vga con)" by (auto simp: console_shows_def)
    from reset_shows [OF v, of io w] have "console_shows color cells (con\<lparr>con_vga := fst (vga_scrollback_reset io (con_vga con) w)\<rparr>)"
      unfolding console_shows_def using screen_shows_viewing by auto
    with s show "\<exists>con' w'. perform_all io [Scroll_Reset] (con, prev, w) = Some (con', prev, w')
        \<and> console_shows color cells con'"
      by (cases "vga_scrollback_reset io (con_vga con) w") auto
  qed
qed

subsection \<open>The line\<close>

definition line_cells :: "u8 \<Rightarrow> bytes \<Rightarrow> u16 list" where
  "line_cells color s = map (\<lambda>c. vga_cell c color) s"

lemma redraws_clear:
  "length cells + length s \<le> 1900 \<Longrightarrow> redraws io color (clear_line s) (cells @ line_cells color s) cells"
proof (induction s rule: rev_induct)
  case Nil
  show ?case by (simp add: clear_line_def line_cells_def redraws_nil)
next
  case (snoc c s)
  let ?cs = "cells @ line_cells color (s @ [c])"
  have "clear_line (s @ [c]) = erase_event # clear_line s"
    by (simp add: clear_line_def map_replicate_const flip: replicate_append_same)
  moreover have "redraws io color [erase_event] ?cs (butlast ?cs)"
    using snoc.prems by (intro redraws_erase) (auto simp: line_cells_def)
  moreover have "butlast ?cs = cells @ line_cells color s" by (simp add: line_cells_def butlast_append)
  ultimately show ?case using snoc redraws_cons by fastforce
qed

lemma redraws_print:
  "list_all (\<lambda>c. 32 \<le> c \<and> c \<le> 126) s \<Longrightarrow> length cells + length s \<le> 1900 \<Longrightarrow>
    redraws io color (print_line s) cells (cells @ line_cells color s)"
proof (induction s arbitrary: cells)
  case Nil
  show ?case by (simp add: print_line_def line_cells_def redraws_nil)
next
  case (Cons c s)
  have "redraws io color [putc_event c] cells (cells @ [vga_cell c color])"
    using Cons.prems by (intro redraws_putc) auto
  moreover have "redraws io color (print_line s) (cells @ [vga_cell c color]) ((cells @ [vga_cell c color]) @ line_cells color s)"
    using Cons.prems by (intro Cons.IH) auto
  ultimately show ?case using redraws_cons by (fastforce simp: print_line_def line_cells_def)
qed

lemma redraws_show_line:
  assumes "line_ok (ed_buf ed)" "line_ok line" "length pre \<le> 1000"
  shows "redraws io color (Scroll_Reset # fst (show_line line ed)) (pre @ line_cells color (ed_buf ed))
    (pre @ line_cells color line)"
proof -
  have "redraws io color (clear_line (ed_buf ed)) (pre @ line_cells color (ed_buf ed)) pre"
    using assms(1,3) by (intro redraws_clear) (simp add: line_ok_def SHELL_BUF_SIZE_def)
  moreover have "redraws io color (print_line line) pre (pre @ line_cells color line)"
    using assms(2,3) by (intro redraws_print) (simp_all add: line_ok_def SHELL_BUF_SIZE_def)
  ultimately have "redraws io color (clear_line (ed_buf ed) @ print_line line @ [Flush])
      (pre @ line_cells color (ed_buf ed)) (pre @ line_cells color line)"
    using redraws_append redraws_flush by metis
  then show ?thesis using redraws_cons [OF redraws_views(3)] by (simp add: show_line_def)
qed

lemma key_erase_plain: "c = 8 \<or> c = 127 \<Longrightarrow>
    key_erase c ed = Some ([erase_event, Flush], ed\<lparr>ed_buf := butlast (ed_buf ed)\<rparr>, False)"
  by (auto simp: key_erase_def Let_def)

lemma line_key_cases:
  assumes "line_key limit c ed = Some (es, ed', False)"
  shows "c = KEY_PGUP \<or> c = KEY_PGDN \<or> c = KEY_UP \<or> c = KEY_DOWN
    \<or> ed_buf ed \<noteq> [] \<and> es = [Scroll_Reset, erase_event, Flush] \<and> ed_buf ed' = butlast (ed_buf ed)
    \<or> es = [Scroll_Reset] \<and> ed' = ed
    \<or> \<not> (c < 32 \<or> 126 < c) \<and> es = [Scroll_Reset, putc_event c, Flush] \<and> ed' = ed\<lparr>ed_buf := ed_buf ed @ [c]\<rparr>"
proof (cases "c = KEY_PGUP \<or> c = KEY_PGDN \<or> c = KEY_UP \<or> c = KEY_DOWN")
  case False
  with assms have "(if c = 10 \<or> c = 13 then Some ([Scroll_Reset, newline, Flush], add_history ed, True)
      else if (c = 8 \<or> c = 127) \<and> ed_buf ed \<noteq> []
      then map_option (\<lambda>(es, r). (Scroll_Reset # es, r)) (key_erase c ed)
      else if c < 32 \<or> 126 < c then Some ([Scroll_Reset], ed, False)
      else if length (ed_buf ed) < limit - 1
      then Some ([Scroll_Reset, putc_event c, Flush], ed\<lparr>ed_buf := ed_buf ed @ [c]\<rparr>, False)
      else Some ([Scroll_Reset], ed, False)) = Some (es, ed', False)"
    by (simp add: line_key_def)
  then show ?thesis by (simp add: key_erase_plain split: if_split_asm) (auto simp: key_erase_plain)
qed blast

lemma line_key_redraws:
  assumes "editor_ok ed" "length pre \<le> 1000" "line_key SHELL_BUF_SIZE c ed = Some (es, ed', False)"
  shows "redraws io color es (pre @ line_cells color (ed_buf ed)) (pre @ line_cells color (ed_buf ed'))"
proof -
  let ?shown = "\<lambda>s. pre @ line_cells color s"
  have ok: "line_ok (ed_buf ed)" using assms(1) by (simp add: editor_ok_def)
  note views = redraws_views [of io color]
  have reset: "redraws io color (Scroll_Reset # xs) a b" if "redraws io color xs a b" for xs a b
    using redraws_cons [OF views(3) that] .
  from line_key_cases [OF assms(3)]
  consider "c = KEY_PGUP" | "c = KEY_PGDN" | "c = KEY_UP" | "c = KEY_DOWN"
    | "ed_buf ed \<noteq> []" "es = [Scroll_Reset, erase_event, Flush]" "ed_buf ed' = butlast (ed_buf ed)"
    | "es = [Scroll_Reset]" "ed' = ed"
    | "\<not> (c < 32 \<or> 126 < c)" "es = [Scroll_Reset, putc_event c, Flush]" "ed' = ed\<lparr>ed_buf := ed_buf ed @ [c]\<rparr>"
    by blast
  then show ?thesis
  proof cases
    case 1
    with assms(3) views(1) show ?thesis by (auto simp: line_key_def)
  next
    case 2
    with assms(3) views(2) show ?thesis by (auto simp: line_key_def KEY_PGUP_def KEY_PGDN_def)
  next
    case 3
    have up: "es = Scroll_Reset # fst (key_up ed)" "ed' = snd (key_up ed)"
      using 3 assms(3) by (auto simp: line_key_def KEY_PGUP_def KEY_PGDN_def KEY_UP_def split: prod.splits)
    have okb: "line_ok (ed_buf ed')" using key_up_ok [OF assms(1)] up(2) by (simp add: editor_ok_def)
    show ?thesis
    proof (cases "0 < browse_pos ed")
      case True
      then obtain ed2 line where "key_up ed = show_line line ed2" "ed_buf ed2 = ed_buf ed"
        by (auto simp: key_up_def Let_def)
      with redraws_show_line [of ed2 line pre io color] ok okb assms(2) up show ?thesis by (simp add: show_line_def)
    qed (use up views(3) in \<open>simp add: key_up_def\<close>)
  next
    case 4
    have down: "es = Scroll_Reset # fst (key_down ed)" "ed' = snd (key_down ed)"
      using 4 assms(3) by (auto simp: line_key_def KEY_PGUP_def KEY_PGDN_def KEY_UP_def KEY_DOWN_def split: prod.splits)
    have okb: "line_ok (ed_buf ed')" using key_down_ok [OF assms(1)] down(2) by (simp add: editor_ok_def)
    show ?thesis
    proof (cases "browse_pos ed < hist_count ed")
      case True
      then obtain ed2 line where "key_down ed = show_line line ed2" "ed_buf ed2 = ed_buf ed"
        by (auto simp: key_down_def Let_def)
      with redraws_show_line [of ed2 line pre io color] ok okb assms(2) down show ?thesis by (simp add: show_line_def)
    qed (use down views(3) in \<open>simp add: key_down_def\<close>)
  next
    case 5
    have "redraws io color [erase_event] (?shown (ed_buf ed)) (butlast (?shown (ed_buf ed)))"
      using ok assms(2) 5(1) by (intro redraws_erase) (auto simp: line_cells_def line_ok_def SHELL_BUF_SIZE_def)
    moreover have "butlast (?shown (ed_buf ed)) = ?shown (ed_buf ed')"
      using 5(1,3) by (simp add: line_cells_def butlast_append map_butlast)
    ultimately show ?thesis using reset [OF redraws_cons [OF _ redraws_flush]] 5(2) by simp
  next
    case 6
    with views(3) show ?thesis by simp
  next
    case 7
    have "redraws io color [putc_event c] (?shown (ed_buf ed)) (?shown (ed_buf ed) @ [vga_cell c color])"
      using ok assms(2) 7(1) by (intro redraws_putc) (auto simp: not_less line_cells_def line_ok_def SHELL_BUF_SIZE_def)
    with reset [OF redraws_cons [OF _ redraws_flush]] 7(2,3) show ?thesis by (simp add: line_cells_def)
  qed
qed

lemma line_loop_redraws:
  "editor_ok ed \<Longrightarrow> length pre \<le> 1000 \<Longrightarrow> line_loop SHELL_BUF_SIZE keys ed = Some (es, ed', None) \<Longrightarrow>
    redraws io color es (pre @ line_cells color (ed_buf ed)) (pre @ line_cells color (ed_buf ed'))"
proof (induction keys arbitrary: ed es)
  case Nil
  then show ?case by (simp add: redraws_nil)
next
  case (Cons c keys)
  from line_key_ok [OF Cons.prems(1) order_refl, of c] obtain es1 ed1 r where
    k: "line_key SHELL_BUF_SIZE c ed = Some (es1, ed1, r)" "editor_ok ed1" by blast
  with Cons.prems(3) have r: "r = False" by auto
  with Cons.prems(3) k obtain es2 where
    l: "line_loop SHELL_BUF_SIZE keys ed1 = Some (es2, ed', None)" "es = es1 @ es2" by (auto split: option.splits)
  from line_key_redraws [OF Cons.prems(1,2) k(1) [unfolded r]] Cons.IH [OF k(2) Cons.prems(2) l(1)]
  show ?case unfolding l(2) by (rule redraws_append)
qed

text \<open>C12: what is on the screen is what will be run. While a line is edited, whatever was typed,
  erased, recalled from the history or scrolled through, carrying out the console calls of the
  editor succeeds, and going back to the live view shows the cells before the line (the prompt),
  then exactly the characters in the line buffer with the cursor behind them, and blanks from
  there on; the line may cross the edge of the screen and scroll it.\<close>

theorem screen_shows_line:
  assumes "history_ok hs n" "screen_shows color pre (con_vga con)" "length pre \<le> 1000"
    and "sh_readline SHELL_BUF_SIZE keys hs n = Some (es, ed, None)"
  shows "\<exists>con' w'. perform_all io es (con, prev, w) = Some (con', prev, w')
    \<and> screen_shows color (pre @ map (\<lambda>c. vga_cell c color) (ed_buf ed)) (fst (vga_scrollback_reset io (con_vga con') w'))"
proof -
  let ?ed = "\<lparr>ed_buf = [], browse_pos = n, ed_temp = [], hist_rows = hs, hist_count = n\<rparr>"
  have "editor_ok ?ed" using assms(1) by (simp add: editor_ok_def)
  from line_loop_redraws [OF this assms(3) assms(4) [unfolded sh_readline_def], of io color]
  have r: "redraws io color es pre (pre @ line_cells color (ed_buf ed))" by (simp add: line_cells_def)
  have "console_shows color pre con"
    unfolding console_shows_def using assms(2) screen_shows_viewing by blast
  with r obtain con' w' where p: "perform_all io es (con, prev, w) = Some (con', prev, w')"
    "console_shows color (pre @ line_cells color (ed_buf ed)) con'" unfolding redraws_def by blast
  from p(2) obtain v where "screen_shows color (pre @ line_cells color (ed_buf ed)) v" "viewing v (con_vga con')"
    by (auto simp: console_shows_def)
  from reset_shows [OF this, of io w'] p(1) show ?thesis unfolding line_cells_def by blast
qed

text \<open>A blank screen with a prompt in its first row.\<close>

definition prompt_cells :: "u16 list" where
  "prompt_cells = map (\<lambda>c. vga_cell c 2) [120, 111, 115, 62, 32]"

definition prompt_console :: console where
  "prompt_console = \<lparr>con_vga = \<lparr>vga_row = 0, vga_column = 5, vga_color = 7,
       vga_buffer = prompt_cells @ replicate 1995 (vga_cell 32 7), scrollback_buffer = replicate 40000 0,
       scrollback_pos = 0, scrollback_view_offset = 0, scrollback_total_lines = 0,
       current_screen = replicate 2000 0, screen_saved = False\<rparr>,
     con_dbg = debug_log_init \<lparr>debug_log = [], debug_log_pos = 0, debug_log_overflow = False, debug_log_enabled = True,
       debug_print_enabled = False\<rparr>, con_serial = serial_boot\<rparr>"

theorem screen_shows_line_witness:
  "\<exists>es ed con' w'. sh_readline SHELL_BUF_SIZE [108, 115, 8, 0x84] (replicate 16 []) 0 = Some (es, ed, None)
    \<and> perform_all silent_ports es (prompt_console, 0, ()) = Some (con', 0, w')
    \<and> screen_shows 7 (prompt_cells @ [vga_cell 108 7]) (fst (vga_scrollback_reset silent_ports (con_vga con') w'))"
proof -
  have "\<exists>es ed. sh_readline SHELL_BUF_SIZE [108, 115, 8, 0x84] (replicate 16 []) 0 = Some (es, ed, None) \<and> ed_buf ed = [108]"
    by (simp add: sh_readline_def line_key_def key_erase_def KEY_PGUP_def KEY_PGDN_def KEY_UP_def KEY_DOWN_def
      SHELL_BUF_SIZE_def word_less_nat_alt)
  then obtain es ed where r: "sh_readline SHELL_BUF_SIZE [108, 115, 8, 0x84] (replicate 16 []) 0 = Some (es, ed, None)"
    "ed_buf ed = [108]" by blast
  have h: "history_ok (replicate 16 []) 0" by (simp add: history_ok_def HISTORY_SIZE_def list_all_iff)
  have s: "screen_shows 7 prompt_cells (con_vga prompt_console)"
    by (simp add: screen_shows_def prompt_console_def prompt_cells_def vga_wf_def view_ok_def)
  have "length prompt_cells \<le> 1000" by (simp add: prompt_cells_def)
  from screen_shows_line [OF h s this r(1), of silent_ports 0 "()"] r show ?thesis by auto
qed

end
