(* ===== verification/Shell.thy ===== *)
theory Shell
  imports Shell_Line Net Elf Fat_Dir Interrupts
begin

text \<open>
  The commands of the shell and its main loop (\<open>shell/shell.c\<close>). The state is the record
  \<open>system\<close>: that of the network layer (card, page bitmap, memory, console calls so far and
  hardware), extended by the shell's own variables, the file system, the two log switches and
  the kernel. A command maps a state to the next one; \<open>None\<close> is an undefined operation or a
  call that does not return. The messages of the file system, the loader, the timer and the
  scheduler are left out, as they are in the models of these parts; the lines of a directory
  and the table of tasks, which are the result of \<open>ls\<close> and \<open>tasks\<close>, are printed here.
\<close>

record 'w system = "'w net" +
  prompt_fg :: u8
  prompt_bg :: u8
  history_rows :: "bytes list"
  history_count :: nat
  sys_log :: bool
  sys_print :: bool
  sys_fat :: fat32
  sys_kernel :: kernel
  sys_stopped :: bool

text \<open>
  What the commands reach outside: the devices, the disk, the addresses of
  \<open>user_task_bootstrap\<close> and \<open>user_test_entry\<close>, the interrupts that end a sleep (for each
  echo request), and what other tasks do until the shell runs again (\<open>None\<close>: never).
\<close>

record 'w env =
  env_bus :: "'w bus"
  env_disk :: "'w blkdev"
  env_bootstrap :: u64
  env_user_test :: u64
  env_irqs :: "int \<Rightarrow> bool list"
  env_resume :: "'w system \<Rightarrow> 'w system option"

definition emit :: "event list \<Rightarrow> 'w system \<Rightarrow> 'w system" where
  "emit es s = s\<lparr>nic_out := nic_out s @ es\<rparr>"

definition set_fat :: "fat32 \<Rightarrow> 'w \<Rightarrow> 'w system \<Rightarrow> 'w system" where
  "set_fat f w s = s\<lparr>sys_fat := f, nic_hw := w\<rparr>"

text \<open>The scheduler works on the one page bitmap and the one memory.\<close>

definition on_sched :: "(sched \<Rightarrow> 'r \<times> sched) \<Rightarrow> 'w system \<Rightarrow> 'r \<times> 'w system" where
  "on_sched f s =
     (case f ((k_sched (sys_kernel s))\<lparr>phys := nic_pages s, kmem := nic_ram s\<rparr>) of (r, sc) \<Rightarrow>
        (r, s\<lparr>sys_kernel := (sys_kernel s)\<lparr>k_sched := sc\<rparr>, nic_pages := phys sc, nic_ram := kmem sc\<rparr>))"

definition set_interrupts :: "bool \<Rightarrow> 'w system \<Rightarrow> 'w system" where
  "set_interrupts b s = snd (on_sched (\<lambda>sc. ((), sc\<lparr>int_flag := b\<rparr>)) s)"

definition sys_yield :: "'w env \<Rightarrow> 'w system \<Rightarrow> 'w system option" where
  "sys_yield env s =
     (case on_sched (\<lambda>sc. (fst (scheduler_tick (sc\<lparr>int_flag := False\<rparr>)), scheduler_yield sc)) s of
        (switched, s) \<Rightarrow> if switched then env_resume env s else Some s)"

definition debug_event :: "event \<Rightarrow> 'w system \<Rightarrow> 'w system" where
  "debug_event e s = (if sys_print s then emit [e] s else s)"

subsection \<open>Screen\<close>

definition cmd_help :: "'w system \<Rightarrow> 'w system" where
  "cmd_help = emit ([newline] @ map (\<lambda>t. sayln t [])
     [''  XOS Shell Commands'',
      ''  ------------------------------------'',
      ''  help              Show this help'',
      ''  clear             Clear the screen'',
      ''  ls                List files'',
      ''  cat <file>        Print file contents'',
      ''  meminfo           Memory stats'',
      ''  tasks             Running tasks'',
      ''  pci               PCI devices'',
      ''  uptime            Time since boot'',
      ''  xfetch            System info'',
      ''  touch <file>      Create empty file'',
      ''  echo <text> [>] <file>  Print text or write file'',
      ''  rm <file>         Delete file'',
      ''  mkdir <dir>       Create directory'',
      ''  cd <dir>          Change directory'',
      ''  pwd               Print working directory'',
      ''  log on|off|status Toggle verbose logging'',
      ''  exec <file>       Load ELF64 and run in Ring-3'',
      ''  usermode          Launch Ring-3 test task'',
      ''  reboot            Reboot'',
      ''  ------------------------------------''] @ [newline])"

definition cmd_clear :: "'w system \<Rightarrow> 'w system" where
  "cmd_clear = emit [Clear]"

definition cmd_colors :: "'w system \<Rightarrow> 'w system" where
  "cmd_colors = emit
     ([Say (10 # ascii ''VGA color palette:'' @ [10]) [], Get_Color]
      @ concat (map (\<lambda>fg. [Set_Color (of_nat fg) 0, say '' %02x'' [AUInt (of_nat fg)]]) [0..<16])
      @ [newline, Restore_Color, Say (10 # ascii ''Use: promptcolor <fg> <bg> (0-15) or named color'' @ [10]) []])"

definition cmd_promptcolor :: "bytes list \<Rightarrow> 'w system \<Rightarrow> 'w system option" where
  "cmd_promptcolor argv s =
     (if length argv = 1
      then Some (emit [sayln ''Current prompt color: fg=%d bg=%d'' [byte_arg (prompt_fg s), byte_arg (prompt_bg s)]] s)
      else if length argv < 3 then Some (emit [sayln ''Usage: promptcolor <fg> <bg>'' []] s)
      else do {
        fg \<leftarrow> parse_color_arg (argv ! 1);
        bg \<leftarrow> parse_color_arg (argv ! 2);
        Some (if fg < 0 \<or> bg < 0 then emit [sayln ''Invalid color. Use 0-15 or named colors.'' []] s
              else emit [sayln ''Prompt color set: fg=%d bg=%d'' [AInt (of_int fg), AInt (of_int bg)]]
                     (s\<lparr>prompt_fg := of_int fg, prompt_bg := of_int bg\<rparr>))
      })"

subsection \<open>Network\<close>

definition ip_of_octets :: "bytes \<Rightarrow> u32" where
  "ip_of_octets os = push_bit 24 (ucast (os ! 0)) OR push_bit 16 (ucast (os ! 1)) OR push_bit 8 (ucast (os ! 2))
     OR ucast (os ! 3)"

text \<open>The loop with \<open>n\<close> requests left to send.\<close>

fun ping_loop :: "'w env \<Rightarrow> u32 \<Rightarrow> int \<Rightarrow> nat \<Rightarrow> 'w system \<Rightarrow> 'w system option" where
  "ping_loop env target_ip count 0 s = Some s"
| "ping_loop env target_ip count (Suc n) s =
     (let seq = count - int n;
          s = net_send_icmp_echo (env_bus env) target_ip (of_int seq) s;
          s = emit [sayln ''Sent ICMP echo request %d'' [AInt (of_int seq)], Flush] s
      in if seq < count
         then (case pit_sleep_ms (env_irqs env seq) 1000 (sys_kernel s) of
                 None \<Rightarrow> None
               | Some ticks \<Rightarrow>
                   ping_loop env target_ip count n (s\<lparr>sys_kernel := (sys_kernel s)\<lparr>pit_ticks := ticks\<rparr>\<rparr>))
         else ping_loop env target_ip count n s)"

text \<open>
  The count and the host. With \<open>-c\<close> and two arguments only, the code reads the element of
  \<open>argv\<close> behind the last one, which is not set.
\<close>

definition ping_args :: "bytes list \<Rightarrow> (int \<times> bytes) option" where
  "ping_args argv =
     (if 3 \<le> length argv \<and> sh_strcmp (argv ! 1) (ascii ''-c'') = 0
      then (case decimal (takeWhile is_digit (argv ! 2)) 0 of
              None \<Rightarrow> None
            | Some count \<Rightarrow> if 3 < length argv then Some (count, argv ! 3) else None)
      else Some (4, argv ! 1))"

definition cmd_ping :: "'w env \<Rightarrow> bytes list \<Rightarrow> 'w system \<Rightarrow> 'w system option" where
  "cmd_ping env argv s =
     (if length argv < 2 then Some (emit [sayln ''Usage: ping [-c count] <host>'' []] s)
      else case ping_args argv of
          None \<Rightarrow> None
        | Some (count, host) \<Rightarrow>
            (case parse_ip4 host of
               None \<Rightarrow> Some (emit [sayln ''ping: invalid address'' []] s)
             | Some octets \<Rightarrow>
                 if count = INT_MAX then None
                 else ping_loop env (ip_of_octets octets) count (nat count)
                   (emit [sayln ''PING %d.%d.%d.%d (%d.%d.%d.%d) 56(84) bytes of data.''
                            (map byte_arg (take 4 octets) @ map byte_arg (take 4 octets))] s)))"

definition cmd_arp :: "'w env \<Rightarrow> bytes list \<Rightarrow> 'w system \<Rightarrow> 'w system" where
  "cmd_arp env argv s =
     (if length argv < 2 then emit [sayln ''Usage: arp <host>'' []] s
      else case parse_ip4 (argv ! 1) of
          None \<Rightarrow> emit [sayln ''arp: invalid address'' []] s
        | Some octets \<Rightarrow>
            net_send_arp_request (env_bus env) (ip_of_octets octets)
              (emit [sayln ''ARPING %d.%d.%d.%d from 127.0.0.1'' (map byte_arg (take 4 octets))] s))"

subsection \<open>Files\<close>

definition list_event :: "bool \<times> bytes \<times> u32 \<Rightarrow> event" where
  "list_event l = (case l of (is_dir, name, bytes) \<Rightarrow>
     if is_dir then sayln ''[DIR ] %s'' [AStr name] else sayln ''[FILE] %s (%d bytes)'' [AStr name, AInt bytes])"

definition cmd_ls :: "'w env \<Rightarrow> 'w system \<Rightarrow> 'w system option" where
  "cmd_ls env s =
     (case fat32_list_directory (env_disk env) None (sys_fat s) (nic_hw s) of
        None \<Rightarrow> None
      | Some (r, lines, w) \<Rightarrow> Some (emit ([newline] @ map list_event lines @ [newline]) (s\<lparr>nic_hw := w\<rparr>)))"

text \<open>The loop of \<open>cat\<close>: chunks of 127 bytes, each printed up to its first NUL.\<close>

partial_function (option) cat_loop ::
    "'w blkdev \<Rightarrow> int \<Rightarrow> event list \<Rightarrow> fat32 \<Rightarrow> 'w \<Rightarrow> (int \<times> event list \<times> fat32 \<times> 'w) option" where
  "cat_loop dev count es f w =
     (case fat32_read dev (Some ()) True 127 f w of
        None \<Rightarrow> None
      | Some (n, bs, f, w) \<Rightarrow>
          if 0 < n
          then (if INT_MAX < count + n then None
                else cat_loop dev (count + n) (es @ [say ''%s'' [AStr (take (nat n) bs)]]) f w)
          else Some (count, es, f, w))"

definition cmd_cat :: "'w env \<Rightarrow> bytes \<Rightarrow> 'w system \<Rightarrow> 'w system option" where
  "cmd_cat env filename s =
     (if sh_strlen filename = 0 then Some (emit [sayln ''Usage: cat <filename>'' []] s)
      else do {
        (p, f, w) \<leftarrow> fat32_open (env_disk env) filename (sys_fat s) (nic_hw s);
        if p = None then Some (emit [sayln ''cat: %s: not found'' [AStr filename]] (set_fat f w s))
        else do {
          (count, es, f, w) \<leftarrow> cat_loop (env_disk env) 0 [] f w;
          Some (emit ([newline] @ es @ (if count = 0 then [sayln ''(empty)'' []] else []) @ [newline])
                 (set_fat (fat32_close p f) w s))
        }
      })"

definition cmd_touch :: "'w env \<Rightarrow> bytes \<Rightarrow> 'w system \<Rightarrow> 'w system option" where
  "cmd_touch env filename s =
     (if sh_strlen filename = 0 then Some (emit [sayln ''Usage: touch <file>'' []] s)
      else do {
        (r, f, w) \<leftarrow> fat32_create (env_disk env) (Some filename) (sys_fat s) (nic_hw s);
        Some (emit [if r = 0 then sayln ''touch: created %s'' [AStr filename]
                    else sayln ''touch: failed to create %s'' [AStr filename]] (set_fat f w s))
      })"

definition cmd_rm :: "'w env \<Rightarrow> bytes \<Rightarrow> 'w system \<Rightarrow> 'w system option" where
  "cmd_rm env filename s =
     (if sh_strlen filename = 0 then Some (emit [sayln ''Usage: rm <file>'' []] s)
      else do {
        (r, f, w) \<leftarrow> fat32_delete (env_disk env) (Some filename) (sys_fat s) (nic_hw s);
        Some (emit [if r = 0 then sayln ''rm: deleted %s'' [AStr filename]
                    else sayln ''rm: failed to delete %s'' [AStr filename]] (set_fat f w s))
      })"

definition cmd_mkdir :: "'w env \<Rightarrow> bytes \<Rightarrow> 'w system \<Rightarrow> 'w system option" where
  "cmd_mkdir env dirname s =
     (if sh_strlen dirname = 0 then Some (emit [sayln ''Usage: mkdir <directory>'' []] s)
      else do {
        (r, f, w) \<leftarrow> fat32_mkdir (env_disk env) dirname (sys_fat s) (nic_hw s);
        Some (emit [if r = 0 then sayln ''mkdir: created %s'' [AStr dirname]
                    else sayln ''mkdir: failed to create %s'' [AStr dirname]] (set_fat f w s))
      })"

definition cmd_cd :: "'w env \<Rightarrow> bytes \<Rightarrow> 'w system \<Rightarrow> 'w system option" where
  "cmd_cd env dirname s =
     (if sh_strlen dirname = 0
      then do {
        (r, f, w) \<leftarrow> fat32_chdir (env_disk env) [47] (sys_fat s) (nic_hw s);
        Some (emit (if r \<noteq> 0 then [sayln ''cd: failed to change to root directory'' []] else []) (set_fat f w s))
      }
      else do {
        (r, f, w) \<leftarrow> fat32_chdir (env_disk env) dirname (sys_fat s) (nic_hw s);
        Some (emit (if r \<noteq> 0 then [sayln ''cd: failed to change directory to %s'' [AStr dirname]] else [])
               (set_fat f w s))
      })"

definition cmd_pwd :: "'w system \<Rightarrow> 'w system" where
  "cmd_pwd s = emit [case fat32_getcwd (sys_fat s) of Some cwd \<Rightarrow> sayln ''%s'' [AStr cwd] | None \<Rightarrow> sayln ''/'' []] s"

text \<open>The text of \<open>echo\<close>: the words with a space between them, at most 255 bytes.\<close>

fun echo_text :: "bytes list \<Rightarrow> bytes \<Rightarrow> bytes" where
  "echo_text [] t = t"
| "echo_text (a # as) t =
     (let t = t @ take (255 - length t) a
      in echo_text as (if as \<noteq> [] \<and> length t < 255 then t @ [32] else t))"

definition cmd_echo :: "'w env \<Rightarrow> bytes list \<Rightarrow> 'w system \<Rightarrow> 'w system option" where
  "cmd_echo env argv s =
     (if length argv < 2 then Some (emit [sayln ''Usage: echo <text> [>] <file>'' []] s)
      else case find (\<lambda>i. sh_strcmp (argv ! i) [62] = 0) [1..<length argv] of
          None \<Rightarrow> Some (emit (concat (map (\<lambda>i. (if 1 < i then [say '' '' []] else []) @ [say ''%s'' [AStr (argv ! i)]])
                    [1..<length argv]) @ [newline]) s)
        | Some redirect \<Rightarrow>
            if redirect = 1 \<or> length argv \<le> redirect + 1
            then Some (emit [sayln ''Usage: echo <text> > <file>'' []] s)
            else do {
              let t = echo_text (map (\<lambda>i. argv ! i) [1..<redirect]) [];
              let filename = argv ! (redirect + 1);
              (r, f, w) \<leftarrow> fat32_write (env_disk env) (Some filename) (Some t) (nat (sh_strlen t)) (sys_fat s) (nic_hw s);
              Some (emit [if r = 0 then sayln ''echo: wrote %s'' [AStr filename]
                          else sayln ''echo: failed to write %s'' [AStr filename]] (set_fat f w s))
            })"

subsection \<open>System\<close>

definition in_mb :: "nat \<Rightarrow> pmm_stats \<Rightarrow> nat" where
  "in_mb pages st = pages * page_size st div (1024 * 1024)"

definition cmd_meminfo :: "'w system \<Rightarrow> 'w system" where
  "cmd_meminfo s =
     (let st = pmm_get_stats (nic_pages s) in
      emit [newline,
        sayln ''  Physical Memory'' [],
        sayln ''  ------------------------------------'' [],
        sayln ''  Page size : %d bytes'' [int_arg (page_size st)],
        sayln ''  Reserved  : %d MB'' [int_arg (reserved_pages st * page_size st div 1024 div 1024)],
        sayln ''  Total     : %d MB'' [int_arg (in_mb (total_pages st - reserved_pages st) st)],
        sayln ''  Used      : %d MB'' [int_arg (in_mb (used_pages st) st)],
        sayln ''  Free      : %d MB'' [int_arg (in_mb (free_pages st) st)],
        newline] s)"

definition task_event :: "int \<times> bytes \<times> string \<times> int \<Rightarrow> event" where
  "task_event t = (case t of (tid, name, state, ticks) \<Rightarrow>
     sayln ''  [%d] %s: %s (ticks=%d)'' [AInt (of_int tid), AStr name, AStr (ascii state), AInt (of_int ticks)])"

definition cmd_tasks :: "'w system \<Rightarrow> 'w system" where
  "cmd_tasks s =
     emit ([newline, Say (10 # ascii ''[SCHED] Task List:'' @ [10]) []]
       @ map task_event (scheduler_dump (k_sched (sys_kernel s))) @ [newline]) s"

definition cmd_pci :: "'w env \<Rightarrow> 'w system \<Rightarrow> 'w system" where
  "cmd_pci env s = (case pci_init (env_bus env) (nic_hw s) of (es, w) \<Rightarrow> emit es (s\<lparr>nic_hw := w\<rparr>))"

definition cmd_uptime :: "'w system \<Rightarrow> 'w system" where
  "cmd_uptime s =
     (let ticks = pit_get_ticks (sys_kernel s) in
      emit [sayln ''Uptime: %d.%02d s (%d ticks)''
              [AInt (ucast (ticks div 100)), AInt (ucast (ticks mod 100)), AInt (ucast ticks)]] s)"

text \<open>The picture of \<open>xfetch\<close>; a backslash of the source is written \<open>@\<close> here.\<close>

definition xfetch_line :: "string \<Rightarrow> bytes" where
  "xfetch_line t = map (\<lambda>c. if c = 64 then 92 else c) (ascii t)"

definition xfetch_art :: "bytes list" where
  "xfetch_art = map xfetch_line
     [''$@   $@  $$$@   $$$@  '',
      ''$ |  $ |$  __$@ $  __$@'',
      ''@$@ $  |$ /  $ |$ /  @__'',
      '' @$$  / $ |  $ |@$$$@  '',
      '' $  $<  $ |  $ | @____$@'',
      ''$  /@$@ $ |  $ |$@   $ |'',
      ''$ /  $ | $$$  |@$$$  |  '',
      ''@__|  @__|@______/ @______/'',
      ''                           '',
      ''                           '']"

definition cmd_xfetch :: "'w system \<Rightarrow> 'w system" where
  "cmd_xfetch s =
     (let st = pmm_get_stats (nic_pages s);
          uptime = pit_get_ticks (sys_kernel s) div 100;
          info =
            [sayln ''   XOS'' [],
             sayln ''   -------------------'' [],
             sayln ''   OS     : XOS 64-bit'' [],
             sayln ''   Arch   : x86_64'' [],
             sayln ''   Kernel : Phobos'' [],
             sayln ''   Uptime : %d seconds'' [AInt (ucast uptime)],
             sayln ''   Memory : %d MB / %d MB'' [int_arg (in_mb (used_pages st) st),
               int_arg (in_mb (total_pages st - reserved_pages st) st)],
             sayln ''   Free   : %d MB'' [int_arg (in_mb (free_pages st) st)],
             sayln ''   Tasks  : %d'' [AInt (of_int (scheduler_current_id (k_sched (sys_kernel s)) + 1))],
             sayln ''   Shell  : xos-shell'' []]
      in emit ([newline]
           @ concat (map (\<lambda>(art, e). sh_print_padded (ascii ''  '') 2 @ sh_print_padded art 30 @ [e]) (zip xfetch_art info))
           @ [newline]) s)"

definition cmd_log :: "bytes list \<Rightarrow> 'w system \<Rightarrow> 'w system" where
  "cmd_log argv s =
     (if length argv < 2 then emit [sayln ''Usage: log on|off|status'' []] s
      else if sh_strcasecmp (argv ! 1) (ascii ''on'') = 0
      then emit [Log_Enabled 1, Print_Enabled 1, sayln ''[LOG] enabled (print+buffer)'' []]
             (s\<lparr>sys_log := True, sys_print := True\<rparr>)
      else if sh_strcasecmp (argv ! 1) (ascii ''off'') = 0
      then emit [Log_Enabled 0, Print_Enabled 0, sayln ''[LOG] disabled (print+buffer)'' []]
             (s\<lparr>sys_log := False, sys_print := False\<rparr>)
      else if sh_strcasecmp (argv ! 1) (ascii ''status'') = 0
      then emit [sayln ''[LOG] print=%s buffer=%s''
                   [AStr (ascii (if sys_print s then ''on'' else ''off'')), AStr (ascii (if sys_log s then ''on'' else ''off''))]] s
      else emit [sayln ''Usage: log on|off|status'' []] s)"

definition cmd_usermode :: "'w env \<Rightarrow> 'w system \<Rightarrow> 'w system option" where
  "cmd_usermode env s =
     (let s = debug_event (sayln ''[USERMODE] cmd_usermode() called'' []) s in
      case on_sched (scheduler_create_user_task (env_bootstrap env) (ascii ''user-test'') (env_user_test env)) s of
        (user_task, s) \<Rightarrow>
          if user_task < 0 then Some (emit [sayln ''[USERMODE] Failed to create user task'' []] s)
          else sys_yield env (debug_event
                 (sayln ''[USERMODE] Created user task %d, yielding to scheduler'' [AInt (of_int user_task)]) s))"

text \<open>The path in \<open>char path[64]\<close>; \<open>None\<close> when the name does not fit.\<close>

definition exec_path :: "bytes \<Rightarrow> bytes option" where
  "exec_path filename =
     (if filename ! 0 = 47 then sh_strcpy 64 filename else map_option (Cons 47) (sh_strcpy 63 filename))"

definition exec_failed :: "event \<Rightarrow> 'w system \<Rightarrow> 'w system option" where
  "exec_failed e s = Some (set_interrupts True (emit [e] s))"

definition cmd_exec :: "'w env \<Rightarrow> bytes \<Rightarrow> 'w system \<Rightarrow> 'w system option" where
  "cmd_exec env filename s =
     (if sh_strlen filename = 0 then Some (emit [sayln ''Usage: exec <file>'' []] s)
      else do {
        let s = debug_event (sayln ''[EXEC] Loading user program: %s'' [AStr filename]) (set_interrupts False s);
        path \<leftarrow> exec_path filename;
        let s = debug_event (sayln ''[EXEC] Attempting to load ELF from %s'' [AStr path]) s;
        (r, entry, (f, w), m) \<leftarrow>
          elf_load_user_program (fat_api (env_disk env)) (Some path) True (sys_fat s, nic_hw s) (nic_ram s);
        let s = set_fat f w (s\<lparr>nic_ram := m\<rparr>);
        if r \<noteq> 0 then exec_failed (sayln ''[EXEC] Error: failed to load %s'' [AStr filename]) s
        else do {
          let entry = (case entry of Some e \<Rightarrow> e | None \<Rightarrow> 0);
          let s = debug_event (sayln ''[EXEC] ELF loaded successfully, entry point: %p'' [APtr entry]) s;
          let s = debug_event (sayln ''[EXEC] Creating user task...'' []) s;
          let (task_id, s) = on_sched (scheduler_create_user_task (env_bootstrap env) filename entry) s;
          if task_id < 0 then exec_failed (sayln ''[EXEC] Error: failed to create user task'' []) s
          else sys_yield env (set_interrupts True (debug_event
                 (sayln ''[EXEC] Task %d started (%s @ %p), yielding to scheduler''
                    [AInt (of_int task_id), AStr filename, APtr entry]) s))
        }
      })"

text \<open>The wait for the keyboard controller may last for ever; after the reset the processor stops.\<close>

partial_function (option) wait_controller :: "'w bus \<Rightarrow> 'w \<Rightarrow> 'w option" where
  "wait_controller io w =
     (case inb io 0x64 w of (val, w) \<Rightarrow> if val AND 0x02 \<noteq> 0 then wait_controller io w else Some w)"

definition cmd_reboot :: "'w env \<Rightarrow> 'w system \<Rightarrow> 'w system option" where
  "cmd_reboot env s =
     (let s = emit [sayln ''Rebooting...'' []] s in
      map_option (\<lambda>w. set_interrupts False (s\<lparr>nic_hw := outb (env_bus env) 0x64 0xFE w, sys_stopped := True\<rparr>))
        (wait_controller (env_bus env) (nic_hw s)))"

subsection \<open>Dispatch\<close>

definition arg1 :: "bytes list \<Rightarrow> bytes" where
  "arg1 argv = (if 1 < length argv then argv ! 1 else [])"

definition run_command :: "'w env \<Rightarrow> bytes list \<Rightarrow> 'w system \<Rightarrow> 'w system option" where
  "run_command env argv s =
     (let cmd = argv ! 0; is = (\<lambda>name. sh_strcmp cmd (ascii name) = 0) in
      if is ''help'' then Some (cmd_help s)
      else if is ''clear'' then Some (cmd_clear s)
      else if is ''ls'' then cmd_ls env s
      else if is ''cat'' then cmd_cat env (arg1 argv) s
      else if is ''meminfo'' then Some (cmd_meminfo s)
      else if is ''tasks'' then Some (cmd_tasks s)
      else if is ''pci'' then Some (cmd_pci env s)
      else if is ''uptime'' then Some (cmd_uptime s)
      else if is ''xfetch'' then Some (cmd_xfetch s)
      else if is ''touch'' then cmd_touch env (arg1 argv) s
      else if is ''echo'' then cmd_echo env argv s
      else if is ''rm'' then cmd_rm env (arg1 argv) s
      else if is ''log'' then Some (cmd_log argv s)
      else if is ''exec'' then cmd_exec env (arg1 argv) s
      else if is ''ping'' then cmd_ping env argv s
      else if is ''arp'' then Some (cmd_arp env argv s)
      else if is ''usermode'' then cmd_usermode env s
      else if is ''reboot'' then cmd_reboot env s
      else if is ''colors'' then Some (cmd_colors s)
      else if is ''promptcolor'' then cmd_promptcolor argv s
      else if is ''mkdir'' then cmd_mkdir env (arg1 argv) s
      else if is ''cd'' then cmd_cd env (arg1 argv) s
      else if is ''pwd'' then Some (cmd_pwd s)
      else Some (emit [sayln ''%s: command not found  (type 'help')'' [AStr cmd]] s))"

definition sh_parse_and_run :: "'w env \<Rightarrow> bytes \<Rightarrow> 'w system \<Rightarrow> 'w system option" where
  "sh_parse_and_run env line s = (let argv = sh_argv line in if argv = [] then Some s else run_command env argv s)"

subsection \<open>The main loop\<close>

definition prompt_events :: "'w system \<Rightarrow> event list" where
  "prompt_events s = [Get_Color, Set_Color (prompt_fg s) (prompt_bg s), say ''xos> '' [], Restore_Color, Flush]"

text \<open>
  One pass, with the characters still to come from the keyboard: those left after the line, or
  \<open>None\<close> when the shell still waits for the end of the line or the machine was reset.
\<close>

definition shell_pass :: "'w env \<Rightarrow> bytes \<Rightarrow> 'w system \<Rightarrow> (bytes option \<times> 'w system) option" where
  "shell_pass env keys s0 =
     (let s = emit (prompt_events s0) s0 in
      case sh_readline SHELL_BUF_SIZE keys (history_rows s) (history_count s) of
        None \<Rightarrow> None
      | Some (es, ed, rest) \<Rightarrow>
          let s = emit es (s\<lparr>history_rows := hist_rows ed, history_count := hist_count ed\<rparr>)
          in if rest = None then Some (None, s)
             else (case sh_parse_and_run env (ed_buf ed) s of
                     None \<Rightarrow> None
                   | Some s \<Rightarrow> if sys_stopped s then Some (None, s) else Some (rest, emit [Flush] s)))"

lemma line_loop_rest: "line_loop limit keys ed = Some (es, ed', Some rest) \<Longrightarrow> length rest < length keys"
proof (induction keys arbitrary: ed es)
  case (Cons c keys)
  then show ?case by (fastforce split: option.splits if_splits)
qed simp

lemma shell_pass_rest: "shell_pass env keys s = Some (Some rest, s') \<Longrightarrow> length rest < length keys"
  by (auto simp: shell_pass_def sh_readline_def Let_def split: option.splits if_splits dest: line_loop_rest)

function shell_loop :: "'w env \<Rightarrow> bytes \<Rightarrow> 'w system \<Rightarrow> 'w system option" where
  "shell_loop env keys s =
     (case shell_pass env keys s of
        None \<Rightarrow> None
      | Some (None, s) \<Rightarrow> Some s
      | Some (Some rest, s) \<Rightarrow> shell_loop env rest s)"
  by pat_completeness auto
termination by (relation "measure (\<lambda>(env, keys, s). length keys)") (auto dest: shell_pass_rest)

declare shell_loop.simps [simp del]

definition shell_banner :: "event list" where
  "shell_banner =
     [newline,
      sayln ''================================================'' [],
      sayln ''  XOS Shell  |  type 'help' for commands'' [],
      sayln ''================================================'' [],
      newline]"

definition shell_run :: "'w env \<Rightarrow> bytes \<Rightarrow> 'w system \<Rightarrow> 'w system option" where
  "shell_run env keys s =
     (case pit_init 100 (ports.truncate (env_bus env)) (sys_kernel s) (nic_hw s) of
        None \<Rightarrow> None
      | Some (k, w) \<Rightarrow> shell_loop env keys (emit shell_banner (s\<lparr>sys_kernel := k, nic_hw := w\<rparr>)))"

end
