(* ===== verification/Shell_Files.thy ===== *)
theory Shell_Files
  imports Shell Elf_Props Net_Props Interrupt_Props
begin

text \<open>
  The commands on files, from the line typed to the text printed, over the file system on the
  PIO drive: what \<open>cat\<close> prints and what \<open>echo\<close> stores.
\<close>

lemma printed_append:
  "printed_text (xs @ ys) = (case printed_text xs of None \<Rightarrow> None | Some t \<Rightarrow> map_option ((@) t) (printed_text ys))"
  by (induction xs rule: printed_text.induct; cases "printed_text ys") (auto split: option.splits)

lemma printed_string: "printed_text [say ''%s'' [AStr t]] = Some (c_str t)"
  by (simp add: say_def ascii_def c_str_def parse_pad_def conversion_def)

lemma printed_newline: "printed_text [newline] = Some [10]"
  by (simp add: newline_def c_str_def)

subsection \<open>A small system\<close>

text \<open>The shell as it starts, on a given file system and drive.\<close>

definition sample_system :: "fat32 \<Rightarrow> pio \<Rightarrow> pio system" where
  "sample_system f d = net.extend (sample_net d) \<lparr>prompt_fg = 2, prompt_bg = 0, history_rows = replicate 16 [],
     history_count = 0, sys_log = True, sys_print = False, sys_fat = f, sys_kernel = sample_kernel, sys_stopped = False\<rparr>"

definition pio_bus :: "pio bus" where
  "pio_bus = \<lparr>inb = pio_inb, outb = pio_outb, inw = pio_inw, outw = pio_outw,
     inl = (\<lambda>p w. (0, w)), outl = (\<lambda>p v w. w), mmio_in8 = (\<lambda>a w. (0, w)), mmio_in16 = (\<lambda>a w. (0, w)),
     mmio_in32 = (\<lambda>a w. (0, w)), mmio_out8 = (\<lambda>a v w. w), mmio_out16 = (\<lambda>a v w. w), mmio_out32 = (\<lambda>a v w. w)\<rparr>"

definition sample_env :: "pio env" where
  "sample_env = \<lparr>env_bus = pio_bus, env_disk = ata_dev pio_ports, env_bootstrap = 0x100000, env_user_test = 0x100100,
     env_irqs = (\<lambda>_. replicate 200 True), env_resume = (\<lambda>s. None)\<rparr>"

lemma sample_env_disk [simp]: "env_disk sample_env = ata_dev pio_ports"
  by (simp add: sample_env_def)

lemma sample_system_simps [simp]:
  "sys_fat (sample_system f d) = f" "nic_hw (sample_system f d) = d" "nic_out (sample_system f d) = []"
  by (simp_all add: sample_system_def net.extend_def sample_net_def sample_nic_def nic.extend_def)

subsection \<open>Reading\<close>

lemma fat_read_next:
  assumes "elf_at path ch c D p (f, d)"
  shows "\<exists>f' d'. fat32_read (ata_dev pio_ports) (Some ()) True n f d
      = Some (int (min n (length c - p)), seg p (min n (length c - p)) c, f', d')
    \<and> elf_at path ch c D (p + min n (length c - p)) (f', d')"
proof -
  from elf_fat.read_next [OF assms, of n] obtain s' where
    s': "f_read (fat_api (ata_dev pio_ports)) n (f, d) = Some (int (min n (length c - p)), seg p (min n (length c - p)) c, s')"
    "elf_at path ch c D (p + min n (length c - p)) s'" by blast
  obtain f' d' where "s' = (f', d')" by fastforce
  with s' show ?thesis
    by (intro exI [of _ f'] exI [of _ d']) (auto simp: fat_api_def split: option.splits)
qed

lemma seg_rest: "p + k \<le> length c \<Longrightarrow> seg p k c @ drop (p + k) c = drop p c"
  by (simp add: seg_def append_take_drop_id flip: drop_drop add: add.commute)

lemma cat_chunks:
  assumes "elf_at path ch c D p (f, d)" "0 \<le> n" "n + int (length c - p) \<le> INT_MAX" "0 \<notin> set c"
  shows "\<exists>es' f' d'. cat_loop (ata_dev pio_ports) n es f d = Some (n + int (length c - p), es @ es', f', d')
    \<and> printed_text es' = Some (drop p c) \<and> elf_at path ch c D (length c) (f', d')"
  using assms(1,2,3)
proof (induction "length c - p" arbitrary: p n es f d rule: less_induct)
  case less
  define k where "k = min 127 (length c - p)"
  have p: "p \<le> length c" using elf_fat.at_position [OF less.prems(1)] by simp
  from fat_read_next [OF less.prems(1), of 127, folded k_def] obtain f1 d1 where
    r: "fat32_read (ata_dev pio_ports) (Some ()) True 127 f d = Some (int k, seg p k c, f1, d1)" "elf_at path ch c D (p + k) (f1, d1)"
    by blast
  show ?case
  proof (cases "k = 0")
    case True
    then have "p = length c" using p by (auto simp: k_def)
    moreover have "cat_loop (ata_dev pio_ports) n es f d = Some (n, es, f1, d1)"
      using r(1) True by (subst cat_loop.simps) simp
    ultimately show ?thesis using r(2) True by (intro exI [of _ "[]"]) simp
  next
    case False
    have k: "0 < k" "k \<le> length c - p" using False by (auto simp: k_def)
    have rest: "length c - (p + k) < length c - p" "n + int k + int (length c - (p + k)) = n + int (length c - p)"
      using k by linarith+
    let ?e = "say ''%s'' [AStr (seg p k c)]"
    have "n + int k \<le> INT_MAX" using less.prems(3) k by linarith
    then have step: "cat_loop (ata_dev pio_ports) n es f d = cat_loop (ata_dev pio_ports) (n + int k) (es @ [?e]) f1 d1"
      using r(1) k(1) by (subst cat_loop.simps) (simp add: seg_def)
    from less.hyps [OF rest(1) r(2), of "n + int k" "es @ [?e]"] rest(2) less.prems(2,3) obtain es' f' d' where
      h: "cat_loop (ata_dev pio_ports) (n + int k) (es @ [?e]) f1 d1 = Some (n + int (length c - p), (es @ [?e]) @ es', f', d')"
      "printed_text es' = Some (drop (p + k) c)" "elf_at path ch c D (length c) (f', d')" by auto
    have "c_str (seg p k c) = seg p k c"
      using assms(4) by (intro c_str_id) (auto simp: seg_def dest: in_set_takeD in_set_dropD)
    then have "printed_text ([?e] @ es') = Some (drop p c)"
      using h(2) seg_rest [of p k c] k p by (simp only: printed_append printed_string option.case option.map)
    with step h(1,3) show ?thesis by (intro exI [of _ "?e # es'"]) simp
  qed
qed

text \<open>The lines of the console from the state \<open>s\<close> on.\<close>

definition printed_since :: "'w system \<Rightarrow> 'w system \<Rightarrow> bytes option" where
  "printed_since s s' = printed_text (drop (length (nic_out s)) (nic_out s'))"

lemma cat_file:
  assumes "elf_idle name ch c D (sys_fat s, nic_hw s)" "name \<noteq> []" "0 \<notin> set c" "length c \<le> nat INT_MAX"
    and "env_disk env = ata_dev pio_ports"
  shows "\<exists>s'. cmd_cat env name s = Some s' \<and> pio_disk (nic_hw s') = D
    \<and> printed_since s s' = Some (10 # (if c = [] then ascii ''(empty)'' @ [10] else c) @ [10])"
proof -
  from elf_fat.open_file_ok [OF assms(1)] obtain f1 d1 where
    o: "fat32_open (ata_dev pio_ports) name (sys_fat s) (nic_hw s) = Some (Some (), f1, d1)" "elf_at name ch c D 0 (f1, d1)"
    by (auto simp: fat_api_def bind_eq_Some_conv)
  have "0 + int (length c - 0) \<le> INT_MAX" using assms(4) by (simp add: INT_MAX_def)
  from cat_chunks [OF o(2) order_refl this assms(3), of "[]"] obtain es f2 d2 where
    l: "cat_loop (ata_dev pio_ports) 0 [] f1 d1 = Some (int (length c), es, f2, d2)" "printed_text es = Some c"
    "elf_at name ch c D (length c) (f2, d2)" by auto
  let ?tail = "if int (length c) = 0 then [sayln ''(empty)'' []] else []"
  let ?s = "emit ([newline] @ es @ ?tail @ [newline]) (set_fat (fat32_close (Some ()) f2) d2 s)"
  have "cmd_cat env name s = Some ?s"
    using assms(2) o(1) l(1) by (simp add: cmd_cat_def assms(5))
  moreover have "pio_disk (nic_hw ?s) = D"
    using l(3) by (simp add: emit_def set_fat_def elf_at_def elf_idle_def)
  moreover have "printed_text ?tail = Some (if c = [] then ascii ''(empty)'' @ [10] else [])"
    by (simp add: sayln_def ascii_def c_str_def)
  then have "printed_since s ?s = Some (10 # (if c = [] then ascii ''(empty)'' @ [10] else c) @ [10])"
    unfolding printed_since_def
    by (simp add: emit_def set_fat_def printed_append printed_newline l(2) del: printed_text.simps flip: append_Cons)
  ultimately show ?thesis by blast
qed

text \<open>\<open>cat\<close> prints the file. For a file of the volume without NUL bytes, of any number of
  clusters and up to 2 GiB, the command returns, leaves the disk as it is, and prints a newline,
  the whole content in order (or that the file is empty), and a newline.\<close>

theorem cat_prints_file:
  assumes "fat_on_disk (sys_fat s) (nic_hw s)" "holds_file name ch c (sys_fat s) (pio_disk (nic_hw s))"
    and "name \<noteq> []" "0 \<notin> set c" "length c \<le> nat INT_MAX" "env_disk env = ata_dev pio_ports"
  shows "\<exists>s'. run_command env [ascii ''cat'', name] s = Some s' \<and> pio_disk (nic_hw s') = pio_disk (nic_hw s)
    \<and> printed_since s s' = Some (10 # (if c = [] then ascii ''(empty)'' @ [10] else c) @ [10])"
proof -
  have "run_command env [ascii ''cat'', name] s = cmd_cat env name s"
    by (simp add: run_command_def Let_def arg1_def ascii_def)
  with cat_file [OF on_disk_idle [OF assms(1,2)] assms(3-6)] show ?thesis by simp
qed

theorem cat_prints_file_witness:
  "\<exists>s'. run_command sample_env [ascii ''cat'', sample_name] (sample_system sample_fat (sample_holding [72, 105])) = Some s'
    \<and> printed_since (sample_system sample_fat (sample_holding [72, 105])) s' = Some [10, 72, 105, 10]"
proof -
  have "length [72, 105 :: u8] \<le> 512" by simp
  note h = sample_holds [OF this]
  from cat_prints_file [where env = sample_env and s = "sample_system sample_fat (sample_holding [72, 105])" and c = "[72, 105]"
      and name = sample_name] sample_holding_on_disk h
  show ?thesis by (fastforce simp: sample_name_def INT_MAX_def)
qed

subsection \<open>Writing\<close>

fun join_spaces :: "bytes list \<Rightarrow> bytes" where
  "join_spaces [] = []"
| "join_spaces [w] = w"
| "join_spaces (w # v # ws) = w @ 32 # join_spaces (v # ws)"

lemma echo_text_join: "length t \<le> 255 \<Longrightarrow> echo_text ws t = take 255 (t @ join_spaces ws)"
proof (induction ws arbitrary: t rule: join_spaces.induct)
  case (3 w v ws)
  let ?t = "t @ take (255 - length t) w"
  show ?case
  proof (cases "length ?t < 255")
    case True
    with "3.prems" have w: "take (255 - length t) w = w" by (simp add: min_def split: if_splits)
    with True have "length (?t @ [32]) \<le> 255" by simp
    from "3.IH" [OF this] have ih: "echo_text (v # ws) (?t @ [32]) = take 255 ((?t @ [32]) @ join_spaces (v # ws))" .
    have "echo_text (w # v # ws) t = echo_text (v # ws) (?t @ [32])"
      using True by (subst echo_text.simps) (simp only: Let_def list.distinct simp_thms if_True)
    also note ih
    finally show ?thesis using w by simp
  next
    case False
    then have full: "length ?t = 255" using "3.prems" by (simp add: min_def split: if_splits)
    then have "255 \<le> length (t @ w)" by (simp add: min_def split: if_splits)
    then have "take 255 (t @ join_spaces (w # v # ws)) = ?t" using "3.prems" full by simp
    moreover have "echo_text (w # v # ws) t = echo_text (v # ws) ?t" using full by (simp add: Let_def)
    moreover have "take 255 (?t @ join_spaces (v # ws)) = ?t" using full by simp
    ultimately show ?thesis using "3.IH" [of ?t] full by simp
  qed
qed (auto simp: Let_def)

lemma find_redirect:
  assumes "[62] \<notin> set ws" "\<forall>w \<in> set ws. 0 \<notin> set w"
  shows "find (\<lambda>i. sh_strcmp ((cmd # ws @ [[62], name]) ! i) [62] = 0) [1..<length (cmd # ws @ [[62], name])]
    = Some (Suc (length ws))"
  unfolding find_Some_iff
proof (intro exI [of _ "length ws"] conjI allI impI)
  fix j assume j: "j < length ws"
  then have "ws ! j \<in> set ws" by simp
  with assms have "ws ! j \<noteq> [62]" "0 \<notin> set (ws ! j)" by auto
  with j show "\<not> sh_strcmp ((cmd # ws @ [[62], name]) ! ([1..<length (cmd # ws @ [[62], name])] ! j)) [62] = 0"
    by (simp add: sh_strcmp_eq nth_append del: upt_Suc)
qed (simp_all add: nth_append del: upt_Suc)

lemma cluster_holds_line: "vol_ok cap (current_fs f) \<Longrightarrow> 512 \<le> cluster_size f"
  by (auto simp: vol_ok_def cluster_size_def word_less_nat_alt)

text \<open>C4: text stored by the shell is read back by the shell. On a mounted volume with a free
  cluster, \<open>echo\<close> of one or more words into a plain 8.3 name succeeds, says so, and a later
  \<open>cat\<close> of the name prints the words with one space between each two, cut at 255 characters.\<close>

theorem echo_then_cat:
  assumes "fat_on_disk (sys_fat s) (nic_hw s)" "volume_ready (current_fs (sys_fat s)) (pio_disk (nic_hw s))"
    and "plain_name name" "fat32_make_name83 name = Some name83" "hd name \<noteq> 0xE5"
    and "dir_writable (current_fs (sys_fat s)) (pio_disk (nic_hw s)) (current_dir_cluster (current_fs (sys_fat s))) name83"
    and "env_disk env = ata_dev pio_ports"
    and "sh_argv line1 = ascii ''echo'' # ws @ [[62], name]" "sh_argv line2 = [ascii ''cat'', name]"
    and "ws \<noteq> []" "[62] \<notin> set ws" "\<forall>w \<in> set ws. w \<noteq> [] \<and> 0 \<notin> set w"
  shows "\<exists>s1 s2. sh_parse_and_run env line1 s = Some s1
    \<and> printed_since s s1 = Some (ascii ''echo: wrote '' @ name @ [10])
    \<and> sh_parse_and_run env line2 s1 = Some s2
    \<and> printed_since s1 s2 = Some (10 # take 255 (join_spaces ws) @ [10])"
proof -
  let ?t = "take 255 (join_spaces ws)"
  note g = fat_diskD [OF assms(1)]
  have nz: "join_spaces ws \<noteq> []" "0 \<notin> set (join_spaces ws)"
    using assms(10,12) by (induction ws rule: join_spaces.induct) auto
  then have t: "?t \<noteq> []" "0 \<notin> set ?t" by (auto dest: in_set_takeD)
  have "length ?t \<le> cluster_size (sys_fat s)" using cluster_holds_line [OF g(6)] by simp
  from vol.write_holds [OF g(1-3) assms(2-6) t(1) this] obtain f1 d1 ch where
    w: "fat32_write (ata_dev pio_ports) (Some name) (Some ?t) (length ?t) (sys_fat s) (nic_hw s) = Some (0, f1, d1)"
      "keeps (sys_fat s) f1" "vol.good (fat_drive (sys_fat s)) (ata_dev pio_ports) f1 d1" "holds_file name ch ?t f1 (pio_disk d1)"
    by blast
  let ?s1 = "emit [sayln ''echo: wrote %s'' [AStr name]] (set_fat f1 d1 s)"
  let ?argv = "ascii ''echo'' # ws @ [[62], name]"
  have words: "map (\<lambda>i. ?argv ! i) [1..<Suc (length ws)] = ws"
    by (rule nth_equalityI) (simp_all add: nth_append del: upt_Suc)
  have tx: "echo_text (map (\<lambda>i. ?argv ! i) [1..<Suc (length ws)]) [] = ?t"
    unfolding words using echo_text_join [of "[]" ws] by simp
  have target: "?argv ! (Suc (length ws) + 1) = name" by (simp add: nth_append)
  have "\<forall>w \<in> set ws. 0 \<notin> set w" using assms(12) by blast
  note red = find_redirect [OF assms(11) this, of "ascii ''echo''" name]
  have "cmd_echo env ?argv s = Some ?s1"
    unfolding cmd_echo_def red tx target Let_def option.case sh_strlen_length nat_int assms(7) using w(1) assms(10) by simp
  moreover have "sh_parse_and_run env line1 s = cmd_echo env ?argv s"
    by (simp add: sh_parse_and_run_def assms(8) run_command_def ascii_def)
  moreover have "c_str name = name" using assms(3) by (intro c_str_id) (simp add: plain_name_def)
  then have "printed_since s ?s1 = Some (ascii ''echo: wrote '' @ name @ [10])"
    by (simp add: printed_since_def emit_def set_fat_def sayln_def ascii_def c_str_def parse_pad_def conversion_def)
  moreover have "elf_idle name ch ?t (pio_disk d1) (sys_fat ?s1, nic_hw ?s1)"
    using w(2-4) g(2,3) by (simp add: emit_def set_fat_def elf_idle_def keeps_def fat_drive_def)
  then have "\<exists>s2. cmd_cat env name ?s1 = Some s2 \<and> pio_disk (nic_hw s2) = pio_disk d1
      \<and> printed_since ?s1 s2 = Some (10 # (if ?t = [] then ascii ''(empty)'' @ [10] else ?t) @ [10])"
    by (rule cat_file) (use assms(3,7) t(2) in \<open>simp_all add: plain_name_def INT_MAX_def\<close>)
  moreover have "sh_parse_and_run env line2 ?s1 = cmd_cat env name ?s1"
    by (simp add: sh_parse_and_run_def assms(9) run_command_def Let_def arg1_def ascii_def)
  ultimately show ?thesis using t(1) by auto
qed

text \<open>The lines \<open>echo  hi  you > A.B\<close> and \<open>cat A.B\<close>.\<close>

theorem echo_then_cat_witness:
  "\<exists>s1 s2. sh_parse_and_run sample_env (ascii ''echo  hi  you > A.B'') (sample_system sample_fat sample_volume) = Some s1
    \<and> sh_parse_and_run sample_env (ascii ''cat A.B'') s1 = Some s2
    \<and> printed_since s1 s2 = Some (10 # ascii ''hi you'' @ [10])"
proof -
  obtain nm where nm: "fat32_make_name83 sample_name = Some nm" using sample_name(2) by auto
  have l1: "sh_argv (ascii ''echo  hi  you > A.B'') = ascii ''echo'' # [ascii ''hi'', ascii ''you''] @ [[62], sample_name]"
    by code_simp
  have l2: "sh_argv (ascii ''cat A.B'') = [ascii ''cat'', sample_name]" by code_simp
  have w: "\<forall>w \<in> set [ascii ''hi'', ascii ''you'']. w \<noteq> [] \<and> 0 \<notin> set w" "[62] \<notin> set [ascii ''hi'', ascii ''you'']"
    "take 255 (join_spaces [ascii ''hi'', ascii ''you'']) = ascii ''hi you''" by (simp_all add: ascii_def)
  have r: "volume_ready (current_fs (sys_fat (sample_system sample_fat sample_volume)))
      (pio_disk (nic_hw (sample_system sample_fat sample_volume)))"
    "dir_writable (current_fs (sys_fat (sample_system sample_fat sample_volume)))
      (pio_disk (nic_hw (sample_system sample_fat sample_volume)))
      (current_dir_cluster (current_fs (sys_fat (sample_system sample_fat sample_volume)))) nm"
    by (simp_all add: sample_fields sample_ready sample_writable)
  have d: "fat_on_disk (sys_fat (sample_system sample_fat sample_volume)) (nic_hw (sample_system sample_fat sample_volume))"
    by (simp add: sample_on_disk)
  have h: "hd sample_name \<noteq> 0xE5" by (simp add: sample_name)
  from echo_then_cat [OF d r(1) sample_name(1) nm h r(2) sample_env_disk l1 l2 _ w(2,1)] show ?thesis
    unfolding w(3) by blast
qed

end
