(* ===== verification/Shell_Exec.thy ===== *)
theory Shell_Exec
  imports Shell_Files
begin

text \<open>
  The command that runs a program, across the parts it uses: the shell, the loader, the file
  system on its drive, the page allocator and the scheduler.
\<close>

subsection \<open>A new user task\<close>

lemma create_user_room:
  assumes len: "length (tasks sc) = MAX_TASKS" and k: "stacks_ok k sc" "k + 5 \<le> TOTAL_PAGES"
    and sl: "find_free_slot sc = Some slot" and id: "0 \<le> next_task_id sc" "next_task_id sc < 2 ^ 31"
  shows "\<exists>sc'. scheduler_create_user_task boot name entry sc = (next_task_id sc, sc') \<and> is_ready sc' slot
    \<and> is_user (tasks sc' ! slot) = 1 \<and> user_entry (tasks sc' ! slot) = entry
    \<and> ctx (tasks sc' ! slot) = fresh_context boot (page_addr (k + 4) - 8) \<and> kmem sc' = store64 (page_addr (k + 4) - 8) boot (kmem sc)
    \<and> stack_top (tasks sc' ! slot) = page_addr (k + 4)
    \<and> user_stack_bottom (tasks sc' ! slot) = page_addr (k + 4) \<and> user_stack_top (tasks sc' ! slot) = page_addr (k + 4) + 4096
    \<and> t_name (tasks sc' ! slot) = copy_task_name name
    \<and> (\<forall>j. j \<noteq> slot \<longrightarrow> tasks sc' ! j = tasks sc ! j)"
proof -
  have inv: "pmm_inv (phys sc)" "owned_below pmm_pool (pmm_used (phys sc)) k" "512 \<le> k"
    using k by (auto simp: stacks_ok_def)
  have "{k..<k + 4} \<subseteq> pmm_pool" using inv(3) k(2) by (auto simp: pmm_pool_def)
  with pm.alloc_pages_succeeds [OF inv(1,2)] have "fst (alloc_pages pmm_alloc_page 4 (phys sc)) \<noteq> None" .
  then obtain bs p where bs: "alloc_pages pmm_alloc_page 4 (phys sc) = (Some bs, p)"
    by (cases "alloc_pages pmm_alloc_page 4 (phys sc)") auto
  then obtain b cs where b: "bs = b # cs"
    using alloc_pages_nonempty [of 4 pmm_alloc_page "phys sc" p] by (cases bs) simp_all
  note f = four_pages [OF inv bs [unfolded b]]
  obtain u p2 where u: "pmm_alloc_page p = (u, p2)" by fastforce
  have pool: "k + 4 \<in> pmm_pool" using inv(3) k(2) by (simp add: pmm_pool_def)
  have "u \<noteq> 0 \<and> u = page_addr (k + 4)"
  proof
    show nz: "u \<noteq> 0"
    proof
      assume "u = 0"
      with pm.alloc_full [of p] f u have "pmm_pool \<subseteq> pmm_used p" by auto
      with pool f show False by (auto simp: owned_below_def)
    qed
    have "\<And>n. n \<in> pmm_pool \<Longrightarrow> k + 4 \<le> n \<Longrightarrow> k + 4 \<in> pmm_pool" using pool by blast
    from pm.alloc_next [of p "k + 4", OF _ _ u nz this] f show "u = page_addr (k + 4)" by auto
  qed
  moreover have "sint (of_int (next_task_id sc) :: u32) = next_task_id sc"
    using id by (simp add: sint_sbintrunc' signed_take_bit_int_eq_self)
  moreover have "slot < length (tasks sc)" using free_slot [OF sl] len by simp
  ultimately show ?thesis using sl bs b f u page_addr_add [of k]
    by (auto simp: scheduler_create_user_task_def sched_defs is_ready_def)
qed

subsection \<open>Running a file\<close>

definition scheduler_of :: "'w system \<Rightarrow> sched" where
  "scheduler_of s = (k_sched (sys_kernel s))\<lparr>phys := nic_pages s, kmem := nic_ram s\<rparr>"

lemma interrupts_simps [simp]:
  "sys_fat (set_interrupts b s) = sys_fat s" "nic_hw (set_interrupts b s) = nic_hw s"
  "nic_ram (set_interrupts b s) = nic_ram s" "sys_print (set_interrupts b s) = sys_print s"
  "scheduler_of (set_interrupts b s) = (scheduler_of s)\<lparr>int_flag := b\<rparr>"
  by (simp_all add: set_interrupts_def on_sched_def scheduler_of_def)

lemma debug_event_simps [simp]:
  "sys_fat (debug_event e s) = sys_fat s" "nic_hw (debug_event e s) = nic_hw s" "nic_ram (debug_event e s) = nic_ram s"
  "scheduler_of (debug_event e s) = scheduler_of s"
  by (simp_all add: debug_event_def emit_def scheduler_of_def)

lemma store_simps [simp]:
  "scheduler_of (set_fat f w s) = scheduler_of s" "nic_hw (set_fat f w s) = w" "nic_ram (set_fat f w s) = nic_ram s"
  "scheduler_of (s\<lparr>nic_ram := m\<rparr>) = (scheduler_of s)\<lparr>kmem := m\<rparr>" "kmem (scheduler_of s) = nic_ram s"
  by (simp_all add: set_fat_def scheduler_of_def)

lemma on_sched_result:
  assumes "f (scheduler_of s) = (r, sc)"
  shows "\<exists>s'. on_sched f s = (r, s') \<and> scheduler_of s' = sc \<and> nic_hw s' = nic_hw s \<and> nic_ram s' = kmem sc"
  using assms by (simp add: on_sched_def scheduler_of_def)

lemma flag_irrelevant:
  "find_free_slot (sc\<lparr>int_flag := b, kmem := m\<rparr>) = find_free_slot sc" "stacks_ok k (sc\<lparr>int_flag := b, kmem := m\<rparr>) = stacks_ok k sc"
  by (simp_all add: find_free_slot_def stacks_ok_def in_use_def stack_end_def)

lemma exec_path_relative: "name \<noteq> [] \<Longrightarrow> hd name \<noteq> 47 \<Longrightarrow> length name < 63 \<Longrightarrow> exec_path name = Some (47 # name)"
  by (cases name) (simp_all add: exec_path_def sh_strcpy_eq)

text \<open>The word the scheduler writes to the new kernel stack, in the pages from \<open>k\<close> on, misses a segment that does.\<close>

lemma stack_slot_off:
  assumes "segment_in_range p" "no_wrap p" "j < unat (p_memsz p)" "k + 5 \<le> TOTAL_PAGES"
    and "unat (p_vaddr p) + unat (p_memsz p) \<le> k * 4096 \<or> (k + 5) * 4096 \<le> unat (p_vaddr p)"
  shows "8 \<le> unat (p_vaddr p + of_nat j - (page_addr (k + 4) - 8))"
proof -
  note w = range_window [OF assms(1,2)]
  have k: "k + 4 < 2 ^ 32" using assms(4) by (simp add: TOTAL_PAGES_def)
  have p: "unat (page_addr (k + 4)) = (k + 4) * 4096" by (rule page_addr_unat [OF k])
  then have a: "unat (page_addr (k + 4) - 8) = (k + 4) * 4096 - 8" by (simp add: unat_sub word_le_nat_alt)
  have j: "unat (p_vaddr p + of_nat j) = unat (p_vaddr p) + j"
    using w assms(3) by (simp add: unat_word_ariths unat_of_nat)
  show ?thesis using assms(3-5) w by (auto simp: unat_diff_cases word_le_nat_alt a j p TOTAL_PAGES_def)
qed

text \<open>C7: \<open>exec\<close> runs the program in the file. If the name belongs to a file of the root directory
  that the loader takes, with segments that do not wrap or overlap, and a task slot and five
  pages are free, which no segment touches, the command loads every segment where its header
  says, creates a ready user task in the free slot with the header's entry point, a kernel
  stack that returns to \<open>user_task_bootstrap\<close> and a user stack, leaves the other tasks, the
  disk and all other memory alone, enables interrupts and gives up the processor.\<close>

theorem exec_starts_program:
  assumes "fat_on_disk (sys_fat s) (nic_hw s)" "holds_file (47 # name) ch c (sys_fat s) (pio_disk (nic_hw s))"
    and "elf_file_ok c" "\<forall>p \<in> set (elf_segments c). no_wrap p" "segments_apart (elf_segments c)"
    and "name \<noteq> []" "hd name \<noteq> 47" "length name < 63" "env_disk env = ata_dev pio_ports"
    and "sched_reach (scheduler_of s)" "stacks_ok k (scheduler_of s)" "k + 5 \<le> TOTAL_PAGES"
    and "find_free_slot (scheduler_of s) = Some slot"
    and "0 \<le> next_task_id (scheduler_of s)" "next_task_id (scheduler_of s) < 2 ^ 31"
    and "\<forall>p \<in> set (elf_segments c). unat (p_vaddr p) + unat (p_memsz p) \<le> k * 4096 \<or> (k + 5) * 4096 \<le> unat (p_vaddr p)"
  shows "\<exists>s1. run_command env [ascii ''exec'', name] s = sys_yield env s1
    \<and> pio_disk (nic_hw s1) = pio_disk (nic_hw s)
    \<and> (\<forall>p \<in> set (elf_segments c). \<forall>j < unat (p_memsz p). nic_ram s1 (p_vaddr p + of_nat j) =
        (if j < unat (p_filesz p) then c ! (unat (p_offset p) + j) else 0))
    \<and> load64 (nic_ram s1) (page_addr (k + 4) - 8) = env_bootstrap env
    \<and> (\<forall>x. (\<forall>p \<in> set (elf_segments c). unat (p_memsz p) \<le> unat (x - p_vaddr p)) \<and> 8 \<le> unat (x - (page_addr (k + 4) - 8))
        \<longrightarrow> nic_ram s1 x = nic_ram s x)
    \<and> is_ready (scheduler_of s1) slot \<and> int_flag (scheduler_of s1)
    \<and> is_user (tasks (scheduler_of s1) ! slot) = 1
    \<and> user_entry (tasks (scheduler_of s1) ! slot) = e_entry (ehdr_of (take 64 c))
    \<and> ctx (tasks (scheduler_of s1) ! slot) = fresh_context (env_bootstrap env) (page_addr (k + 4) - 8)
    \<and> user_stack_top (tasks (scheduler_of s1) ! slot) = page_addr (k + 5)
    \<and> (\<forall>j. j \<noteq> slot \<longrightarrow> tasks (scheduler_of s1) ! j = tasks (scheduler_of s) ! j)"
proof -
  let ?entry = "e_entry (ehdr_of (take 64 c))"
  from loads_segments [OF assms(1-5), of "nic_ram s"] obtain f' d' m' where
    l: "elf_load_user_program (fat_api (ata_dev pio_ports)) (Some (47 # name)) True (sys_fat s, nic_hw s) (nic_ram s)
        = Some (0, Some ?entry, (f', d'), m')" "pio_disk d' = pio_disk (nic_hw s)"
      "\<forall>p \<in> set (elf_segments c). \<forall>j < unat (p_memsz p). m' (p_vaddr p + of_nat j) =
        (if j < unat (p_filesz p) then c ! (unat (p_offset p) + j) else 0)"
      "\<forall>x. (\<forall>p \<in> set (elf_segments c). unat (p_memsz p) \<le> unat (x - p_vaddr p)) \<longrightarrow> m' x = nic_ram s x" by blast
  let ?a = "page_addr (k + 4) - 8" let ?sc = "(scheduler_of s)\<lparr>int_flag := False, kmem := m'\<rparr>"
  have off: "8 \<le> unat (p_vaddr p + of_nat j - ?a)" if "p \<in> set (elf_segments c)" "j < unat (p_memsz p)" for p j
    using stack_slot_off [of p j k] assms(3,4,12,16) that by (auto simp: elf_file_ok_def Let_def)
  have len: "length (tasks ?sc) = MAX_TASKS" using reach_wf [OF assms(10)] by (simp add: sched_wf_def)
  from create_user_room [OF len, of k slot "env_bootstrap env" name ?entry] assms(11-15) obtain sc' where
    u: "scheduler_create_user_task (env_bootstrap env) name ?entry ?sc = (next_task_id (scheduler_of s), sc')"
      "is_ready sc' slot" "is_user (tasks sc' ! slot) = 1" "user_entry (tasks sc' ! slot) = ?entry"
      "ctx (tasks sc' ! slot) = fresh_context (env_bootstrap env) (page_addr (k + 4) - 8)"
      "user_stack_top (tasks sc' ! slot) = page_addr (k + 4) + 4096" "\<forall>j. j \<noteq> slot \<longrightarrow> tasks sc' ! j = tasks (scheduler_of s) ! j"
      "kmem sc' = store64 ?a (env_bootstrap env) m'"
    by (auto simp: flag_irrelevant)
  define s0 where "s0 = debug_event (sayln ''[EXEC] Loading user program: %s'' [AStr name]) (set_interrupts False s)"
  define s1 where "s1 = debug_event (sayln ''[EXEC] Attempting to load ELF from %s'' [AStr (47 # name)]) s0"
  define s2 where "s2 = set_fat f' d' (s1\<lparr>nic_ram := m'\<rparr>)"
  define s3 where "s3 = debug_event (sayln ''[EXEC] Creating user task...'' [])
      (debug_event (sayln ''[EXEC] ELF loaded successfully, entry point: %p'' [APtr ?entry]) s2)"
  have s3: "scheduler_of s3 = ?sc" "nic_hw s3 = d'" "nic_ram s3 = m'" "sys_fat s0 = sys_fat s" "nic_hw s0 = nic_hw s" "nic_ram s0 = nic_ram s"
    by (simp_all add: s3_def s2_def s1_def s0_def)
  have "scheduler_create_user_task (env_bootstrap env) name ?entry (scheduler_of s3) = (next_task_id (scheduler_of s), sc')"
    using u(1) by (simp only: s3(1))
  from on_sched_result [where f = "scheduler_create_user_task (env_bootstrap env) name ?entry", OF this] obtain s4 where
    "on_sched (scheduler_create_user_task (env_bootstrap env) name ?entry) s3 = (next_task_id (scheduler_of s), s4)"
      "scheduler_of s4 = sc'" "nic_hw s4 = nic_hw s3" "nic_ram s4 = kmem sc'" by blast
  note s4 = this(1,2) this(3) [unfolded s3(2)] this(4) [unfolded u(8)]
  let ?s5 = "set_interrupts True (debug_event (sayln ''[EXEC] Task %d started (%s @ %p), yielding to scheduler''
      [AInt (of_int (next_task_id (scheduler_of s))), AStr name, APtr ?entry]) s4)"
  have s5: "nic_ram ?s5 = nic_ram s4" "nic_hw ?s5 = d'" "scheduler_of ?s5 = sc'\<lparr>int_flag := True\<rparr>"
    by (simp_all add: s4)
  have "cmd_exec env name s = sys_yield env ?s5"
    using assms(6,14) l(1) s3(4-6) s4(1) [unfolded s3_def s2_def s1_def] exec_path_relative [OF assms(6-8)]
    unfolding cmd_exec_def Let_def s0_def [symmetric] by (simp add: assms(9))
  then have run: "run_command env [ascii ''exec'', name] s = sys_yield env ?s5"
    by (simp add: run_command_def Let_def arg1_def ascii_def)
  have top: "page_addr (k + 4) + 4096 = page_addr (k + 5)" by (simp add: page_addr_def algebra_simps)
  have mem: "\<forall>p \<in> set (elf_segments c). \<forall>j < unat (p_memsz p). nic_ram s4 (p_vaddr p + of_nat j) =
      (if j < unat (p_filesz p) then c ! (unat (p_offset p) + j) else 0)"
    using l(3) off by (simp add: s4(4) store64_other)
  have slots: "load64 (nic_ram s4) ?a = env_bootstrap env"
    "\<forall>x. (\<forall>p \<in> set (elf_segments c). unat (p_memsz p) \<le> unat (x - p_vaddr p)) \<and> 8 \<le> unat (x - ?a) \<longrightarrow> nic_ram s4 x = nic_ram s x"
    using l(4) by (simp_all add: s4(4) store64_other)
  have "is_ready (scheduler_of ?s5) slot" "int_flag (scheduler_of ?s5)" "is_user (tasks (scheduler_of ?s5) ! slot) = 1"
    "user_entry (tasks (scheduler_of ?s5) ! slot) = ?entry"
    "ctx (tasks (scheduler_of ?s5) ! slot) = fresh_context (env_bootstrap env) ?a"
    "user_stack_top (tasks (scheduler_of ?s5) ! slot) = page_addr (k + 5)"
    "\<forall>j. j \<noteq> slot \<longrightarrow> tasks (scheduler_of ?s5) ! j = tasks (scheduler_of s) ! j"
    using u(2-7) by (simp_all add: s4(2) is_ready_def top)
  with run l(2) mem slots show ?thesis unfolding s5(1,2) [symmetric] by blast
qed

lemma create_task_counts:
  "find_free_slot sc = Some i \<Longrightarrow> next_task_id (sched_step (CreateTask name entry) sc) = next_id (next_task_id sc)"
  by (simp add: scheduler_create_task_def Let_def set_task_def split: prod.split option.split list.split)

lemma started_id: "next_task_id started = 2"
proof -
  have "next_task_id boot_state = 0" by (simp add: boot_state_def scheduler_init_def)
  with create_task_counts [OF boot_free] have "next_task_id one_task = 1" by (simp add: one_task_def next_id_def)
  with create_task_counts [OF one_task_facts(3)] have "next_task_id two_tasks = 2" by (simp add: two_tasks_def next_id_def)
  then show ?thesis
    by (simp add: started_def scheduler_start_def scheduler_start_first_task_def tss_set_kernel_stack_def set_state_def
        set_task_def Let_def split: option.split)
qed

theorem exec_starts_program_witness:
  "\<exists>s1. run_command sample_env [ascii ''exec'', sample_name]
      ((sample_system sample_fat (sample_holding (sample_elf 0x400000 8)))\<lparr>nic_pages := phys started, nic_ram := kmem started\<rparr>) = sys_yield sample_env s1
    \<and> nic_ram s1 0x400002 = 3 \<and> user_entry (tasks (scheduler_of s1) ! 2) = 0x400000"
proof -
  let ?c = "sample_elf 0x400000 8"
  let ?s = "(sample_system sample_fat (sample_holding ?c))\<lparr>nic_pages := phys started, nic_ram := kmem started\<rparr>"
  have "length ?c \<le> 512" by (simp add: sample_program)
  from sample_holds [OF this] have h: "holds_file (47 # sample_name) [3] ?c (sys_fat ?s) (pio_disk (nic_hw ?s))"
    by (simp add: holds_file_def path_name_def path_dir_def sample_fields sample_name)
  have d: "fat_on_disk (sys_fat ?s) (nic_hw ?s)" by (simp add: sample_holding_on_disk)
  have w: "\<forall>p \<in> set (elf_segments ?c). no_wrap p" "segments_apart (elf_segments ?c)"
    by (simp_all add: sample_program sample_no_wrap)
  have off: "\<forall>p \<in> set (elf_segments ?c). unat (p_vaddr p) + unat (p_memsz p) \<le> 520 * 4096 \<or> (520 + 5) * 4096 \<le> unat (p_vaddr p)"
    by (simp add: sample_program sample_phdr_def)
  have nm: "sample_name \<noteq> []" "hd sample_name \<noteq> 47" "length sample_name < 63" by (simp_all add: sample_name_def)
  have sc: "scheduler_of ?s = started"
    by (simp add: scheduler_of_def sample_system_def net.extend_def sample_kernel_def)
  have r: "sched_reach (scheduler_of ?s)" "stacks_ok 520 (scheduler_of ?s)" "520 + 5 \<le> TOTAL_PAGES"
    "find_free_slot (scheduler_of ?s) = Some 2" "0 \<le> next_task_id (scheduler_of ?s)" "next_task_id (scheduler_of ?s) < 2 ^ 31"
    unfolding sc by (simp_all add: started_facts started_room started_id TOTAL_PAGES_def)
  from exec_starts_program [OF d h sample_program(1) w nm sample_env_disk r off] obtain s1 where
    s1: "run_command sample_env [ascii ''exec'', sample_name] ?s = sys_yield sample_env s1"
      "\<forall>p \<in> set (elf_segments ?c). \<forall>j < unat (p_memsz p). nic_ram s1 (p_vaddr p + of_nat j) =
        (if j < unat (p_filesz p) then ?c ! (unat (p_offset p) + j) else 0)"
      "user_entry (tasks (scheduler_of s1) ! 2) = e_entry (ehdr_of (take 64 ?c))" by blast
  have b: "?c ! 122 = 3" by code_simp
  have "nic_ram s1 (p_vaddr (sample_phdr 0x400000 8) + of_nat 2) = 3"
    using spec [OF bspec [OF s1(2), of "sample_phdr 0x400000 8"], of 2] b by (simp add: sample_program sample_phdr_def)
  moreover have "e_entry (ehdr_of (take 64 ?c)) = 0x400000" by code_simp
  ultimately show ?thesis using s1(1,3) by (auto simp: sample_phdr_def)
qed

end
