(* ===== verification/Boot.thy ===== *)
theory Boot
  imports Shell Gdt
begin

text \<open>
  The boot sequence (\<open>kernel.c\<close>, with \<open>keyboard_init\<close> and \<open>ata_init\<close>). The state is that of
  the shell with the descriptor table, the partition table and the console as it is before
  the first message; the messages are the console calls of the state, to be carried out on
  that console. \<open>kernel_main\<close> follows the order of the source and ends where the scheduler
  has started the shell task; \<open>None\<close> is the division by zero of a mount. Interrupts that
  arrive while the kernel boots are not taken; the timer has no handler until the shell runs.
\<close>

record 'w machine =
  m_sys :: "'w system"
  m_gdt :: gdt
  m_parts :: part_table
  m_console :: console

text \<open>
  What the machine and the linker provide: the environment of the shell, the addresses of the
  interrupt stubs and of the static tables, and that of \<open>shell_run\<close>.
\<close>

record 'w boot_env =
  boot_env :: "'w env"
  boot_stub :: "nat \<Rightarrow> u64"
  boot_idt :: u64
  boot_gdt :: u64
  boot_tss :: u64
  boot_shell :: u64

definition boot_ports :: "'w boot_env \<Rightarrow> 'w ports" where
  "boot_ports env = ports.truncate (env_bus (boot_env env))"

definition keyboard_init :: "kernel \<Rightarrow> kernel" where
  "keyboard_init k = register_interrupt_handler 33 Keyboard_Callback k"

definition ata_init :: "bool \<Rightarrow> event list" where
  "ata_init print_enabled =
     (if print_enabled
      then [Get_Color, Set_Color 14 0, Say (10 # ascii ''[ATA] Initializing IDE/ATA subsystem...'' @ [10]) [], Restore_Color]
      else [])"

subsection \<open>The stages of \<open>kernel_main\<close>\<close>

definition ok_event :: event where
  "ok_event = sayln ''OK'' []"

definition console_init :: "'w boot_env \<Rightarrow> 'w machine \<Rightarrow> 'w machine" where
  "console_init env m =
     (let s = m_sys m; d = debug_log_init (con_dbg (m_console m));
          (v, w) = vga_init (boot_ports env) (con_vga (m_console m)) (nic_hw s);
          w = serial_init (boot_ports env) w
      in m\<lparr>m_console := (m_console m)\<lparr>con_dbg := d, con_vga := v\<rparr>,
           m_sys := s\<lparr>nic_hw := w, sys_log := debug_log_is_enabled d, sys_print := debug_print_is_enabled d\<rparr>\<rparr>)"

text \<open>From the first message to the page allocator.\<close>

definition core_init :: "'w boot_env \<Rightarrow> 'w machine \<Rightarrow> 'w machine" where
  "core_init env m =
     (let s = emit [sayln ''XOS 64-bit Native Core Booted Successfully!'' [], say ''Initializing Interrupts... '' []] (m_sys m);
          (k, w) = idt_init (boot_stub env) (boot_idt env) (boot_ports env) (sys_kernel s) (nic_hw s);
          s = emit [ok_event, say ''Initializing Keyboard... '' []] (s\<lparr>sys_kernel := k, nic_hw := w\<rparr>);
          s = emit [ok_event, say ''Initializing GDT + TSS... '' []] (s\<lparr>sys_kernel := keyboard_init (sys_kernel s)\<rparr>);
          (g, es) = gdt_init (boot_gdt env) (boot_tss env) (sys_print s) (m_gdt m);
          s = emit (es @ [ok_event, say ''Initializing Syscalls... '' []])
                (snd (on_sched (\<lambda>sc. ((), tss_set_kernel_stack (tss_rsp0_read g) sc)) s));
          s = emit [ok_event, say ''Initializing Memory... '' []] (s\<lparr>sys_kernel := syscall_init (sys_kernel s)\<rparr>)
      in m\<lparr>m_sys := s\<lparr>nic_pages := pmm_init\<rparr>, m_gdt := g\<rparr>)"

definition device_init :: "'w boot_env \<Rightarrow> 'w machine \<Rightarrow> 'w machine" where
  "device_init env m =
     (let s = m_sys m; io = env_bus (boot_env env); (es, w) = pci_init io (nic_hw s);
          s = emit (es @ [Say (10 # ascii ''Initializing Network Devices...'' @ [10]) []]) (s\<lparr>nic_hw := w\<rparr>)
      in m\<lparr>m_sys := net_init (rtl8139_detect_and_init io s)\<rparr>)"

text \<open>The first partition of the second disk; \<open>None\<close> is a cluster size of zero.\<close>

definition storage_init :: "'w boot_env \<Rightarrow> 'w machine \<Rightarrow> 'w machine option" where
  "storage_init env m =
     (let s = emit [say ''Initializing ATA Storage... '' []] (m_sys m);
          s = emit (ata_init (sys_print s) @ [ok_event, say ''Detecting partitions... '' []]) s;
          (n, t, w) = partition_detect (env_disk (boot_env env)) 1 (m_parts m) (nic_hw s);
          s = s\<lparr>nic_hw := w\<rparr>
      in if 0 \<le> n
         then (case fat32_mount (env_disk (boot_env env)) 1 0 t (sys_fat s) w of
                 None \<Rightarrow> None
               | Some (r, f, w) \<Rightarrow> Some (m\<lparr>m_parts := t, m_sys :=
                   emit [ok_event, say ''Mounting FAT32... '' [], if r = 0 then ok_event else sayln ''FAILED'' []] (set_fat f w s)\<rparr>))
         else Some (m\<lparr>m_parts := t, m_sys := emit [sayln ''No partitions found'' []] s\<rparr>))"

definition start_shell :: "'w boot_env \<Rightarrow> 'w machine \<Rightarrow> 'w machine" where
  "start_shell env m =
     (let (_, s) = on_sched (\<lambda>sc. ((), scheduler_init sc)) (m_sys m);
          (_, s) = on_sched (scheduler_create_task (ascii ''shell'') (boot_shell env)) s;
          (_, s) = on_sched (\<lambda>sc. ((), scheduler_start sc)) s
      in m\<lparr>m_sys := s\<rparr>)"

definition devices_ready :: "'w boot_env \<Rightarrow> 'w machine \<Rightarrow> 'w machine" where
  "devices_ready env m = device_init env (core_init env (console_init env m))"

definition kernel_main :: "'w boot_env \<Rightarrow> 'w machine \<Rightarrow> 'w machine option" where
  "kernel_main env m =
     map_option (start_shell env) (storage_init env (devices_ready env m))"

text \<open>The kernel until the shell waits for more than the given keys.\<close>

definition kernel_run :: "'w boot_env \<Rightarrow> bytes \<Rightarrow> 'w machine \<Rightarrow> 'w system option" where
  "kernel_run env keys m =
     (case kernel_main env m of None \<Rightarrow> None | Some m \<Rightarrow> shell_run (boot_env env) keys (m_sys m))"

end
