(* ===== verification/Boot_Props.thy ===== *)
theory Boot_Props
  imports Boot Shell_Exec
begin

text \<open>
  What the boot sequence establishes: the first pages of the allocator go to the network card
  and the stack of the shell, and the shell task runs with every handler in place but that of
  the timer, which the shell installs.
\<close>

subsection \<open>Pages taken while the card is set up\<close>

text \<open>At most the first \<open>n\<close> pages of the pool are taken.\<close>

definition first_taken :: "nat \<Rightarrow> pmm \<Rightarrow> bool" where
  "first_taken n p \<longleftrightarrow> pmm_inv p \<and> (\<exists>k. 512 \<le> k \<and> k \<le> 512 + n \<and> owned_below pmm_pool (pmm_used p) k)"

lemma first_taken_init: "first_taken 0 pmm_init"
  using pmm_init_prefix by (auto simp: first_taken_def)

lemma first_taken_mono: "first_taken n p \<Longrightarrow> n \<le> m \<Longrightarrow> first_taken m p"
  by (force simp: first_taken_def)

lemma take_one: "first_taken n p \<Longrightarrow> pmm_alloc_page p = (u, p') \<Longrightarrow> first_taken (Suc n) p'"
proof -
  assume n: "first_taken n p" and a: "pmm_alloc_page p = (u, p')"
  obtain k where k: "pmm_inv p" "512 \<le> k" "k \<le> 512 + n" "owned_below pmm_pool (pmm_used p) k"
    using n by (auto simp: first_taken_def)
  show ?thesis
  proof (cases "u = 0")
    case True
    with pm.alloc_full [OF k(1)] a have "p' = p" by auto
    with n show ?thesis by (auto intro: first_taken_mono)
  next
    case False
    from pm.alloc_next [OF k(1,4) a False] pool_dense [OF k(2)] have
      "owned_below pmm_pool (pmm_used p') (Suc k)" "pmm_inv p'" by auto
    with k show ?thesis by (auto simp: first_taken_def intro!: exI [of _ "Suc k"])
  qed
qed

text \<open>What the operations of the card leave alone, and how many pages they take.\<close>

definition card_step :: "nat \<Rightarrow> ('w, 'z) nic_scheme \<Rightarrow> ('w, 'z) nic_scheme \<Rightarrow> bool" where
  "card_step n s s' \<longleftrightarrow> nic.more s' = nic.more s \<and> (\<forall>a. first_taken a (nic_pages s) \<longrightarrow> first_taken (a + n) (nic_pages s'))"

lemma card_stepI: "nic.more s' = nic.more s \<Longrightarrow> nic_pages s' = nic_pages s \<Longrightarrow> card_step n s s'"
  by (auto simp: card_step_def intro: first_taken_mono)

lemma card_step_trans: "card_step n s s' \<Longrightarrow> card_step m s' s'' \<Longrightarrow> card_step (n + m) s s''"
  by (auto simp: card_step_def add.assoc [symmetric])

lemma card_step_mono: "card_step n s s' \<Longrightarrow> n \<le> m \<Longrightarrow> card_step m s s'"
  by (auto simp: card_step_def intro: first_taken_mono)

lemma card_step_before: "card_step n s1 s' \<Longrightarrow> nic.more s1 = nic.more s \<Longrightarrow> nic_pages s1 = nic_pages s \<Longrightarrow> card_step n s s'"
  by (simp add: card_step_def)

lemma card_alloc: "pmm_alloc_page (nic_pages s) = (u, p) \<Longrightarrow> card_step 1 s (s\<lparr>nic_pages := p\<rparr>)"
  by (auto simp: card_step_def intro: take_one)

lemma log_same [simp]: "nic.more (log_event e s) = nic.more s" "nic_pages (log_event e s) = nic_pages s"
  "nic_hw (log_event e s) = nic_hw s"
  by (simp_all add: log_event_def)

lemma card_alloc_rest: "card_step n s (alloc_rest n s)"
proof (induction n arbitrary: s)
  case (Suc n)
  obtain u p where a: "pmm_alloc_page (nic_pages s) = (u, p)" by fastforce
  show ?case
  proof (cases "u = 0")
    case True
    have "card_step (Suc n) s (s\<lparr>nic_pages := p\<rparr>)" by (rule card_step_mono [OF card_alloc [OF a]]) simp
    with a True show ?thesis by (simp add: card_step_def)
  next
    case False
    from card_step_trans [OF card_alloc [OF a] Suc.IH] a False show ?thesis by simp
  qed
qed (simp add: card_stepI)

lemma card_contiguous: "pmm_alloc_contiguous (Suc n) s = (u, s') \<Longrightarrow> card_step (Suc n) s s'"
proof -
  assume c: "pmm_alloc_contiguous (Suc n) s = (u, s')"
  obtain v p where a: "pmm_alloc_page (nic_pages s) = (v, p)" by fastforce
  have "card_step 1 s (s\<lparr>nic_pages := p\<rparr>)" by (rule card_alloc [OF a])
  with c a card_step_trans [OF this card_alloc_rest [of n]] show ?thesis
    by (auto simp: pmm_alloc_contiguous_def intro: card_step_mono split: if_splits)
qed

lemma card_alloc_tx: "alloc_tx is s = (ok, s') \<Longrightarrow> card_step (length is) s s'"
proof (induction "is" arbitrary: s)
  case (Cons i "is")
  obtain u p where a: "pmm_alloc_page (nic_pages s) = (u, p)" by fastforce
  let ?s1 = "s\<lparr>nic_pages := p, nic_dev := (nic_dev s)\<lparr>tx_buffers := (tx_buffers (nic_dev s))[i := u]\<rparr>\<rparr>"
  have s1: "card_step 1 s ?s1" using card_alloc [OF a] by (simp add: card_step_def)
  show ?case
  proof (cases "u = 0")
    case True
    with Cons.prems a card_step_mono [OF s1, of "length (i # is)"] show ?thesis by (auto simp: Let_def card_step_def)
  next
    case False
    from Cons.prems a False obtain s2 where s2: "alloc_tx is s2 = (ok, s')" "nic.more s2 = nic.more ?s1" "nic_pages s2 = nic_pages ?s1"
      by (auto simp: Let_def)
    from card_step_trans [OF s1 card_step_before [OF Cons.IH [OF s2(1)] s2(2,3)]] show ?thesis by simp
  qed
qed (simp add: card_stepI)

lemma card_buffers: "init_buffers s = (ok, s') \<Longrightarrow> card_step 6 s s'"
proof -
  assume i: "init_buffers s = (ok, s')"
  obtain u s1 where c: "pmm_alloc_contiguous 2 s = (u, s1)" by fastforce
  have s1: "card_step 2 s s1" using card_contiguous [of 1 s u s1] c by (simp add: numeral_2_eq_2)
  show ?thesis
  proof (cases "u = 0")
    case True
    with i c card_step_mono [OF s1, of 6] show ?thesis by (auto simp: init_buffers_def Let_def card_step_def)
  next
    case False
    let ?s2 = "log_event (sayln ''[RTL8139] RX Buffer allocated at %p'' [APtr u])
      (s1\<lparr>nic_dev := (nic_dev s1)\<lparr>rx_buffer := u, rx_buffer_pa := u\<rparr>\<rparr>)"
    obtain ok3 s3 where s3: "alloc_tx [0..<RTL8139_NUM_TX_DESC] ?s2 = (ok3, s3)" by fastforce
    have "card_step 4 s1 s3" using card_alloc_tx [OF s3] by (simp add: card_step_def RTL8139_NUM_TX_DESC_def)
    from card_step_trans [OF s1 this] i c False s3 show ?thesis
      by (auto simp: init_buffers_def Let_def card_step_def split: if_splits)
  qed
qed

lemma card_identity: "nic.more (init_identity io b d f s) = nic.more s" "nic_pages (init_identity io b d f s) = nic_pages s"
  by (simp_all add: init_identity_def Let_def split_beta)

lemma card_found: "card_step 6 s (found_card io b d f vd s)"
proof -
  define s1 where "s1 = init_identity io b d f (log_event (sayln ''[RTL8139] PCI %d:%d:%d - Vendor: 0x%04x Device: 0x%04x''
      [byte_arg b, byte_arg d, byte_arg f, AUInt (vd AND 0xFFFF), AUInt (drop_bit 16 vd)])
    (log_event (Say (10 # ascii ''[RTL8139] Initializing RTL8139 Network Device'' @ [10]) [])
      (log_event (if f = 0 then sayln ''[RTL8139] Found RTL8139 at PCI %d:%d:0'' [byte_arg b, byte_arg d]
        else sayln ''[RTL8139] Found RTL8139 at PCI %d:%d:%d'' [byte_arg b, byte_arg d, byte_arg f]) s)))"
  obtain ok s2 where s2: "init_buffers s1 = (ok, s2)" by fastforce
  have "card_step 6 s s2" by (rule card_step_before [OF card_buffers [OF s2]]) (simp_all add: s1_def card_identity)
  then show ?thesis using s2
    by (auto simp: found_card_def rtl8139_init_def Let_def s1_def card_step_def split_beta)
qed

lemma card_functions: "detect_functions io b d fs s = (found, s') \<Longrightarrow> card_step (if found then 6 else 0) s s'"
proof (induction fs arbitrary: s)
  case (Cons f fs)
  obtain vd w where r: "rtl_pci_read io b d f 0x00 (nic_hw s) = (vd, w)" by fastforce
  from Cons.IH [of "s\<lparr>nic_hw := w\<rparr>"] Cons.prems r card_found [of "s\<lparr>nic_hw := w\<rparr>" io b d f vd] show ?case
    by (auto simp: Let_def card_step_def split: if_splits)
qed (simp add: card_stepI)

lemma card_device: "detect_device io b d s = (found, s') \<Longrightarrow> card_step (if found then 6 else 0) s s'"
proof -
  assume d: "detect_device io b d s = (found, s')"
  obtain vd w where r: "rtl_pci_read io b d 0 0x00 (nic_hw s) = (vd, w)" by fastforce
  obtain h w2 where r2: "rtl_pci_read io b d 0 0x0C w = (h, w2)" by fastforce
  let ?s2 = "s\<lparr>nic_hw := w2\<rparr>"
  from d r r2 card_found [of "s\<lparr>nic_hw := w\<rparr>" io b d 0 vd]
    card_functions [of io b d "[1, 2, 3, 4, 5, 6, 7]" ?s2 found s'] show ?thesis
    by (auto simp: detect_device_def Let_def card_step_def split: if_splits)
qed

lemma card_slots: "card_step 6 s (detect_slots io ds s)"
proof (induction ds arbitrary: s)
  case (Cons bd ds)
  obtain b d where bd: "bd = (b, d)" by fastforce
  obtain found s1 where d: "detect_device io b d s = (found, s1)" by fastforce
  from card_device [OF d] card_step_trans [OF _ Cons.IH [of s1], of 0 s] d bd show ?case
    by (auto split: if_splits)
qed (simp add: card_stepI)

lemma card_detect: "card_step 6 s (rtl8139_detect_and_init io s)"
  unfolding rtl8139_detect_and_init_def by (rule card_step_before [OF card_slots]) simp_all

subsection \<open>The first task\<close>

lemma init_unused: "length (tasks sc) = MAX_TASKS \<Longrightarrow> i < MAX_TASKS \<Longrightarrow> t_state (tasks (scheduler_init sc) ! i) = TASK_UNUSED"
  by (simp add: scheduler_init_def reset_task_def)

lemma first_free: "length (tasks sc) = MAX_TASKS \<Longrightarrow> find_free_slot (scheduler_init sc) = Some 0"
  using init_unused [of sc 0] by (simp add: find_free_slot_def MAX_TASKS_def upt_conv_Cons)

text \<open>The scheduler from its initialization to its start, with one task.\<close>

definition boot_sched :: "bytes \<Rightarrow> u64 \<Rightarrow> sched \<Rightarrow> sched" where
  "boot_sched name entry sc = scheduler_start (snd (scheduler_create_task name entry (scheduler_init sc)))"

lemma boot_sched_runs:
  assumes len: "length (tasks sc) = MAX_TASKS" and pages: "first_taken 6 (phys sc)"
  shows "\<exists>k. 512 \<le> k \<and> k \<le> 518 \<and> stacks_ok (k + 4) (boot_sched name entry sc)
    \<and> sched_reach (boot_sched name entry sc) \<and> current_task_id (boot_sched name entry sc) = 0
    \<and> t_state (tasks (boot_sched name entry sc) ! 0) = TASK_RUNNING
    \<and> t_name (tasks (boot_sched name entry sc) ! 0) = copy_task_name name
    \<and> is_user (tasks (boot_sched name entry sc) ! 0) = 0
    \<and> (\<forall>i < MAX_TASKS. 0 < i \<longrightarrow> t_state (tasks (boot_sched name entry sc) ! i) = TASK_UNUSED)
    \<and> next_task_id (boot_sched name entry sc) = 1
    \<and> cpu (boot_sched name entry sc) = fresh_context entry (page_addr (k + 4) - 8)
    \<and> load64 (kmem (boot_sched name entry sc)) (page_addr (k + 4) - 8) = entry
    \<and> tss_rsp0 (boot_sched name entry sc) = page_addr (k + 4) \<and> int_flag (boot_sched name entry sc)"
proof -
  obtain k where k: "512 \<le> k" "k \<le> 518" "pmm_inv (phys sc)" "owned_below pmm_pool (pmm_used (phys sc)) k"
    using pages by (auto simp: first_taken_def)
  let ?s0 = "scheduler_init sc"
  have ph: "phys ?s0 = phys sc" "next_task_id ?s0 = 0" by (simp_all add: scheduler_init_def)
  have r0: "sched_reach ?s0" by (rule boot [OF len k(3,1) _ k(4)]) (use k(2) in \<open>simp add: TOTAL_PAGES_def\<close>)
  have ok0: "stacks_ok k ?s0"
    using k init_unused [OF len] by (auto simp: stacks_ok_def ph in_use_def TOTAL_PAGES_def)
  note sl = first_free [OF len]
  obtain r s1 where c: "scheduler_create_task name entry ?s0 = (r, s1)" by fastforce
  have room: "is_ready s1 0" "stacks_ok (k + 4) s1"
    using create_task_room [OF r0 ok0 _ sl, of name entry] k(2) c by (simp_all add: TOTAL_PAGES_def)
  from create_task_slot [OF r0 sl c room(1)] obtain b where s1: "stack_top (tasks s1 ! 0) = b + TASK_STACK_SIZE"
    "ctx (tasks s1 ! 0) = fresh_context entry (stack_top (tasks s1 ! 0) - 8)" "t_name (tasks s1 ! 0) = copy_task_name name"
    "is_user (tasks s1 ! 0) = 0" "kmem s1 = store64 (stack_top (tasks s1 ! 0) - 8) entry (kmem ?s0)"
    "\<forall>j. j \<noteq> 0 \<longrightarrow> tasks s1 ! j = tasks ?s0 ! j" by blast
  have r1: "sched_reach s1" using event [OF r0, of "CreateTask name entry"] c by simp
  have len1: "length (tasks s1) = MAX_TASKS" using reach_wf [OF r1] by (simp add: sched_wf_def)
  have top: "stack_top (tasks s1 ! 0) = page_addr (k + 4)"
    using create_task_room [OF r0 ok0 _ sl, of name entry] k(2) c by (simp add: TOTAL_PAGES_def)
  have id: "next_task_id s1 = 1" using create_task_counts [OF sl, of name entry] c ph by (simp add: next_id_def)
  have least: "0 < MAX_TASKS" "\<forall>j < 0. \<not> is_ready s1 j" by (simp_all add: MAX_TASKS_def)
  note st = start_Some [OF len1 least(1) room(1) least(2)] and same = start_same [OF len1 least(1)]
  have others: "t_state (tasks s1 ! i) = TASK_UNUSED" if "i < MAX_TASKS" "0 < i" for i
    using s1(6) init_unused [OF len that(1)] that(2) by simp
  have use: "in_use (scheduler_start s1) i \<Longrightarrow> i = 0 \<and> in_use s1 i" for i
    using st(3) [of i] others [of i] room(1) by (cases "i = 0") (auto simp: in_use_def is_ready_def split: if_splits)
  have "stacks_ok (k + 4) (scheduler_start s1)"
    using room(2) use st(4,5) by (intro stacks_ok_same [OF room(2)]) (auto simp: stacks_ok_def in_use_def)
  moreover have "sched_reach (scheduler_start s1)" by (rule start [OF r1 room(1) least(1)])
  moreover have "t_state (tasks (scheduler_start s1) ! i) = TASK_UNUSED" if "i < MAX_TASKS" "0 < i" for i
    using st(3) [OF that(1)] others [OF that] that(2) by simp
  moreover have "boot_sched name entry sc = scheduler_start s1" by (simp add: boot_sched_def c)
  ultimately show ?thesis using k st(1,6-8) st(3) [OF least(1)] same s1(2-5) top id
    by (intro exI [of _ k]) simp
qed

subsection \<open>The stages\<close>

lemma system_more:
  fixes s s' :: "'w system"
  assumes "nic.more s' = nic.more s"
  shows "sys_kernel s' = sys_kernel s" "sys_fat s' = sys_fat s" "sys_print s' = sys_print s"
    "sys_stopped s' = sys_stopped s"
  using assms by (cases s; cases s'; simp)+

lemma emit_simps [simp]:
  "sys_kernel (emit es s) = sys_kernel s" "nic_pages (emit es s) = nic_pages s" "nic_hw (emit es s) = nic_hw s"
  "sys_fat (emit es s) = sys_fat s" "sys_print (emit es s) = sys_print s" "scheduler_of (emit es s) = scheduler_of s"
  "sys_stopped (emit es s) = sys_stopped s"
  by (simp_all add: emit_def scheduler_of_def)

lemma net_init_simps [simp]:
  "sys_kernel (net_init s) = sys_kernel s" "nic_pages (net_init s) = nic_pages s" "nic_hw (net_init s) = nic_hw s"
  "sys_fat (net_init s) = sys_fat s" "sys_stopped (net_init s) = sys_stopped s"
  by (simp_all add: net_init_def log_event_def)

definition boot_handlers :: "isr option list" where
  "boot_handlers = (replicate 256 None)[14 := Some Page_Fault_Handler, 13 := Some Gp_Fault_Handler,
     33 := Some Keyboard_Callback, 0x80 := Some Syscall_Handler]"

lemma console_init_simps:
  "sys_kernel (m_sys (console_init env m)) = sys_kernel (m_sys m)" "sys_fat (m_sys (console_init env m)) = sys_fat (m_sys m)"
  "m_parts (console_init env m) = m_parts m" "sys_stopped (m_sys (console_init env m)) = sys_stopped (m_sys m)"
  "nic_hw (m_sys (console_init env m)) =
     serial_init (boot_ports env) (snd (vga_init (boot_ports env) (con_vga (m_console m)) (nic_hw (m_sys m))))"
  by (simp_all add: console_init_def Let_def split_beta)

lemma core_init_facts:
  "nic_pages (m_sys (core_init env m)) = pmm_init" "sys_fat (m_sys (core_init env m)) = sys_fat (m_sys m)"
  "m_parts (core_init env m) = m_parts m" "sys_stopped (m_sys (core_init env m)) = sys_stopped (m_sys m)"
  "nic_hw (m_sys (core_init env m)) = outb_all (boot_ports env) pic_setup (nic_hw (m_sys m))"
  "interrupt_handlers (sys_kernel (m_sys (core_init env m))) = boot_handlers"
  "tasks (k_sched (sys_kernel (m_sys (core_init env m)))) = tasks (k_sched (sys_kernel (m_sys m)))"
  by (simp_all add: core_init_def Let_def split_beta idt_init_def on_sched_def keyboard_init_def syscall_init_def
      register_interrupt_handler_def tss_set_kernel_stack_def boot_handlers_def)

lemma device_init_facts:
  "first_taken 0 (nic_pages (m_sys m)) \<Longrightarrow> first_taken 6 (nic_pages (m_sys (device_init env m)))"
  "sys_kernel (m_sys (device_init env m)) = sys_kernel (m_sys m)" "sys_fat (m_sys (device_init env m)) = sys_fat (m_sys m)"
  "m_parts (device_init env m) = m_parts m" "sys_stopped (m_sys (device_init env m)) = sys_stopped (m_sys m)"
proof -
  obtain es w where p: "pci_init (env_bus (boot_env env)) (nic_hw (m_sys m)) = (es, w)" by fastforce
  let ?s = "emit (es @ [Say (10 # ascii ''Initializing Network Devices...'' @ [10]) []]) ((m_sys m)\<lparr>nic_hw := w\<rparr>)"
  have d: "device_init env m = m\<lparr>m_sys := net_init (rtl8139_detect_and_init (env_bus (boot_env env)) ?s)\<rparr>"
    by (simp add: device_init_def p)
  from card_detect [of ?s "env_bus (boot_env env)"] have
    c: "nic.more (rtl8139_detect_and_init (env_bus (boot_env env)) ?s) = nic.more ?s"
    "first_taken 0 (nic_pages ?s) \<Longrightarrow> first_taken 6 (nic_pages (rtl8139_detect_and_init (env_bus (boot_env env)) ?s))"
    by (auto simp: card_step_def dest: spec [of _ 0])
  show "first_taken 0 (nic_pages (m_sys m)) \<Longrightarrow> first_taken 6 (nic_pages (m_sys (device_init env m)))"
    using c(2) by (simp add: d)
  show "sys_kernel (m_sys (device_init env m)) = sys_kernel (m_sys m)" "sys_fat (m_sys (device_init env m)) = sys_fat (m_sys m)"
    "m_parts (device_init env m) = m_parts m" "sys_stopped (m_sys (device_init env m)) = sys_stopped (m_sys m)" by (simp_all add: d system_more [OF c(1)])
qed

lemma storage_init_facts:
  assumes "storage_init env m = Some m'"
  shows "sys_kernel (m_sys m') = sys_kernel (m_sys m)" "nic_pages (m_sys m') = nic_pages (m_sys m)"
    "sys_stopped (m_sys m') = sys_stopped (m_sys m)"
  using assms by (auto simp: storage_init_def Let_def set_fat_def split: prod.splits option.splits if_splits)

lemma on_sched_of: "scheduler_of (snd (on_sched f s)) = snd (f (scheduler_of s))"
  by (simp add: on_sched_def scheduler_of_def split_beta)

lemma on_sched_rest:
  "sys_fat (snd (on_sched f s)) = sys_fat s" "nic_hw (snd (on_sched f s)) = nic_hw s"
  "sys_stopped (snd (on_sched f s)) = sys_stopped s"
  "interrupt_handlers (sys_kernel (snd (on_sched f s))) = interrupt_handlers (sys_kernel s)"
  by (simp_all add: on_sched_def split_beta)

lemma start_shell_facts:
  "scheduler_of (m_sys (start_shell env m)) = boot_sched (ascii ''shell'') (boot_shell env) (scheduler_of (m_sys m))"
  "sys_fat (m_sys (start_shell env m)) = sys_fat (m_sys m)" "nic_hw (m_sys (start_shell env m)) = nic_hw (m_sys m)"
  "sys_stopped (m_sys (start_shell env m)) = sys_stopped (m_sys m)"
  "interrupt_handlers (sys_kernel (m_sys (start_shell env m))) = interrupt_handlers (sys_kernel (m_sys m))"
  by (simp_all add: start_shell_def boot_sched_def on_sched_of on_sched_rest split_beta)

subsection \<open>The shell task\<close>

text \<open>The state of the shell once it has set the timer up.\<close>

definition timer_set :: "'w env \<Rightarrow> 'w system \<Rightarrow> 'w system" where
  "timer_set env s = s\<lparr>sys_kernel := register_interrupt_handler 32 Pit_Irq_Handler ((sys_kernel s)\<lparr>pit_frequency := 100\<rparr>),
     nic_hw := outb_all (ports.truncate (env_bus env)) [(PIT_COMMAND, 0x36), (PIT_CHANNEL0, ucast (pit_divisor 100 AND 0xFF)),
       (PIT_CHANNEL0, ucast (drop_bit 8 (pit_divisor 100) AND 0xFF))] (nic_hw s)\<rparr>"

lemma shell_run_timer: "shell_run env keys s = shell_loop env keys (emit shell_banner (timer_set env s))"
  by (simp add: shell_run_def pit_init_def timer_set_def Let_def)

lemma shell_waits: "shell_loop env [] s = Some (emit (prompt_events s) s)"
  by (simp add: shell_loop.simps shell_pass_def sh_readline_def Let_def emit_def)

lemma devices_ready_facts:
  "sys_fat (m_sys (devices_ready env m)) = sys_fat (m_sys m)" "m_parts (devices_ready env m) = m_parts m"
  "tasks (k_sched (sys_kernel (m_sys (devices_ready env m)))) = tasks (k_sched (sys_kernel (m_sys m)))"
  "interrupt_handlers (sys_kernel (m_sys (devices_ready env m))) = boot_handlers"
  "first_taken 6 (nic_pages (m_sys (devices_ready env m)))"
  "sys_stopped (m_sys (devices_ready env m)) = sys_stopped (m_sys m)"
  by (simp_all add: devices_ready_def device_init_facts core_init_facts console_init_simps first_taken_init)

text \<open>The drive holds no partition table, or the boot sector of the first partition can be used.\<close>

definition disk_usable :: "'w boot_env \<Rightarrow> 'w machine \<Rightarrow> bool" where
  "disk_usable env m \<longleftrightarrow>
     (case partition_detect (env_disk (boot_env env)) 1 (m_parts m) (nic_hw (m_sys (devices_ready env m))) of (n, t, w) \<Rightarrow>
        0 \<le> n \<longrightarrow> fat32_mount (env_disk (boot_env env)) 1 0 t (sys_fat (m_sys m)) w \<noteq> None)"

lemma mount_defined: "disk_usable env m \<longleftrightarrow> kernel_main env m \<noteq> None"
  by (auto simp: disk_usable_def kernel_main_def storage_init_def Let_def devices_ready_facts split: prod.splits option.splits)

end
