(* ===== verification/Boot_Volume.thy ===== *)
theory Boot_Volume
  imports Boot_Props Shell_History Shell_Parsing
begin

text \<open>
  Booting with a FAT32 disk: the partition of the master boot record is found and mounted,
  and the file system is in the state the properties of the shell's commands start from. The
  drive is the PIO drive; no network card is on the bus.
\<close>

subsection \<open>The other devices leave the drive alone\<close>

lemma pio_bus_ports: "ports.truncate pio_bus = pio_ports"
  by (simp add: pio_bus_def pio_ports_def ports.truncate_def)

lemma pio_config [simp]: "pci_read_config pio_bus b d f r w = (0, w)" "rtl_pci_read pio_bus b d f r' w = (0, w)"
  by (simp_all add: pci_read_config_def rtl_pci_read_def pio_bus_def)

lemma pio_scan_function [simp]: "snd (snd (pci_scan_function pio_bus b d f w)) = w"
  by (simp add: pci_scan_function_def)

lemma pio_scan_functions: "snd (snd (pci_scan_functions pio_bus b d fs w)) = w"
  by (induction fs) (simp_all add: split_beta Let_def)

lemma pio_scan: "snd (snd (pci_scan pio_bus ds w)) = w"
  by (induction ds) (auto simp: pci_scan_device_def pio_scan_functions Let_def split_beta)

lemma pio_no_card: "detect_device pio_bus b d s = (False, s)"
  by (simp add: detect_device_def is_rtl8139_def RTL8139_VENDOR_ID_def)

lemma pio_detect: "nic_hw (detect_slots pio_bus ds s) = nic_hw s"
  by (induction ds) (auto simp: pio_no_card log_event_def)

lemma outb_other:
  "list_all (\<lambda>(p, v). p \<notin> {0x1F2, 0x1F3, 0x1F4, 0x1F5, 0x1F6, 0x1F7}) ws \<Longrightarrow> outb_all pio_ports ws d = d"
  by (induction ws) (auto simp: pio_ports_def pio_outb_def)

lemma drive_untouched:
  assumes "env_bus (boot_env env) = pio_bus"
  shows "nic_hw (m_sys (devices_ready env m)) = nic_hw (m_sys m)"
proof -
  have p: "boot_ports env = pio_ports" by (simp add: boot_ports_def assms pio_bus_ports)
  have pic: "outb_all pio_ports pic_setup d = d" for d
    by (rule outb_other) (simp add: pic_setup_def pic_writes_def)
  have vga: "snd (vga_init pio_ports v d) = d" for v d
    unfolding vga_init_def vga_clear_def vga_update_cursor_def by (simp only: Let_def prod.sel, rule outb_other, simp)
  have ser: "serial_init pio_ports d = d" for d
    unfolding serial_init_def by (rule outb_other) (simp add: COM1_def)
  have "nic_hw (m_sys (device_init env n)) = nic_hw (m_sys n)" for n
    using pio_scan [of pci_slots "nic_hw (m_sys n)"]
    by (simp add: device_init_def assms Let_def rtl8139_detect_and_init_def pio_detect pci_init_def split_beta)
  then show ?thesis by (simp add: devices_ready_def core_init_facts console_init_simps p pic vga ser)
qed

subsection \<open>The mount\<close>

text \<open>A disk whose first partition is a FAT32 volume the driver can work with.\<close>

definition volume_of :: "disk \<Rightarrow> fat_fs" where
  "volume_of D = boot_fs 1 0 (m_start_lba (mbr_entry (D 0) 0))
     (boot_fields (D (unat (m_start_lba (mbr_entry (D 0) 0))))) (current_fs fat32_boot)"

definition fat_formatted :: "disk \<Rightarrow> bool" where
  "fat_formatted D \<longleftrightarrow> mbr_signature (D 0) = 0xAA55 \<and> m_type (mbr_entry (D 0) 0) \<in> {PART_TYPE_FAT32, PART_TYPE_FAT32_LBA}
     \<and> unat (m_start_lba (mbr_entry (D 0) 0)) < 2 ^ 28
     \<and> get_le16 (D (unat (m_start_lba (mbr_entry (D 0) 0)))) 510 = 0xAA55 \<and> vol_ok (2 ^ 28) (volume_of D)"

definition mounted_fat :: "disk \<Rightarrow> fat32" where
  "mounted_fat D = fat32_boot\<lparr>current_fs := volume_of D, fs_mounted := True\<rparr>"

lemma formatted_mounts:
  assumes fm: "fat_formatted (pio_disk d)" and d: "pio_ready 1 d" and t: "length (partitions t) = 16"
  shows "\<exists>n t' d1 d2. partition_detect (ata_dev pio_ports) 1 t d = (n, t', d1) \<and> 0 \<le> n
    \<and> fat32_mount (ata_dev pio_ports) 1 0 t' fat32_boot d1 = Some (0, mounted_fat (pio_disk d), d2)
    \<and> fat_on_disk (mounted_fat (pio_disk d)) d2 \<and> pio_disk d2 = pio_disk d"
proof -
  let ?D = "pio_disk d" let ?mbr = "pio_disk d 0"
  from pio_read_ok [OF d, of 1 0] obtain d1 where
    d1: "ata_read_sectors pio_ports ATA_PRIMARY 1 0 1 d = (1, ?mbr, d1)" "pio_ready 1 d1" "pio_disk d1 = ?D" by auto
  have rd: "reads_mbr (ata_dev pio_ports) 1 ?mbr d d1"
    using d1(1) by (simp add: reads_mbr_def ata_dev_def partition_disk_to_ata_def ATA_PRIMARY_def)
  from detect_result [OF rd _ t] fm obtain t' where
    t': "partition_detect (ata_dev pio_ports) 1 t d = (int (partition_count t'), t', d1)"
      "take (partition_count t') (partitions t') = map (\<lambda>i. make_partition 1 i (mbr_entry ?mbr i)) (used_entries ?mbr [0, 1, 2, 3])"
      "partition_count t' = length (used_entries ?mbr [0, 1, 2, 3])" by (auto simp: fat_formatted_def)
  have used: "m_type (mbr_entry ?mbr 0) \<noteq> PART_TYPE_UNUSED"
    using fm by (auto simp: fat_formatted_def PART_TYPE_UNUSED_def PART_TYPE_FAT32_def PART_TYPE_FAT32_LBA_def)
  have u: "used_entries ?mbr [0, 1, 2, 3] = 0 # used_entries ?mbr [1, 2, 3]" using used by (simp add: used_entries_def)
  have mp: "part_disk (make_partition 1 0 e) = 1" "partition_index (make_partition 1 0 e) = 0"
    "start_lba (make_partition 1 0 e) = m_start_lba e" "part_type (make_partition 1 0 e) = m_type e" for e
    by (simp_all add: make_partition_def)
  have info: "partition_get_info 1 0 t' = Some (make_partition 1 0 (mbr_entry ?mbr 0))"
    using t'(2,3) unfolding u partition_get_info_def by (simp add: mp)
  have lba: "unat (m_start_lba (mbr_entry ?mbr 0)) + 1 \<le> 2 ^ 28" using fm by (auto simp: fat_formatted_def)
  from pio_read_ok [OF d1(2), of 1 "m_start_lba (mbr_entry ?mbr 0)"] lba obtain d2 where
    d2: "ata_read_sectors pio_ports ATA_PRIMARY 1 (m_start_lba (mbr_entry ?mbr 0)) 1 d1
        = (1, ?D (unat (m_start_lba (mbr_entry ?mbr 0))), d2)" "pio_ready 1 d2" "pio_disk d2 = ?D"
    by (auto simp: d1(3))
  define b where "b = boot_fields (?D (unat (m_start_lba (mbr_entry ?mbr 0))))"
  have vol: "volume_of ?D = boot_fs 1 0 (m_start_lba (mbr_entry ?mbr 0)) b (current_fs fat32_boot)"
    by (simp add: volume_of_def b_def)
  have spc: "boot_sectors_per_cluster b \<noteq> 0"
    using fm by (auto simp: fat_formatted_def vol vol_ok_def boot_fs_def Let_def)
  let ?f = "fat32_boot\<lparr>current_fs := volume_of ?D, fs_mounted := True\<rparr>"
  have m: "fat32_mount (ata_dev pio_ports) 1 0 t' fat32_boot d1 = Some (0, ?f, d2)"
    using d2(1) fm spc by (auto simp: fat32_mount_def info mp fat32_disk_to_ata_def ata_dev_def
        ATA_PRIMARY_def ATA_SLAVE_def fat_formatted_def Let_def vol b_def)
  have "fs_disk (current_fs ?f) = 1" by (simp add: vol boot_fs_def Let_def)
  moreover from this have "fat_drive ?f = 1" by (simp add: fat_drive_def fat32_disk_to_ata_def ATA_SLAVE_def)
  ultimately have "fat_on_disk ?f d2" using d2(2) fm
    by (simp add: fat_on_disk_def fat_formatted_def cache_ok_def fat32_boot_def)
  with t'(1) m d2(3) show ?thesis by (auto simp: mounted_fat_def)
qed

subsection \<open>A line typed at the prompt\<close>

definition typed_events :: "bytes \<Rightarrow> event list" where
  "typed_events line = concat (map (\<lambda>c. [Scroll_Reset, putc_event c, Flush]) line) @ [Scroll_Reset, newline, Flush]"

lemma type_line:
  "list_all (\<lambda>c. 32 \<le> c \<and> c \<le> 126) line \<Longrightarrow> length (ed_buf ed) + length line < SHELL_BUF_SIZE \<Longrightarrow>
    line_loop SHELL_BUF_SIZE (line @ 10 # rest) ed
      = Some (typed_events line, add_history (ed\<lparr>ed_buf := ed_buf ed @ line\<rparr>), Some rest)"
proof (induction line arbitrary: ed)
  case Nil
  then show ?case by (simp add: line_key_def key_codes typed_events_def)
next
  case (Cons c line)
  have "line_key SHELL_BUF_SIZE c ed = Some ([Scroll_Reset, putc_event c, Flush], ed\<lparr>ed_buf := ed_buf ed @ [c]\<rparr>, False)"
    using Cons.prems by (intro type_key) auto
  with Cons.IH [of "ed\<lparr>ed_buf := ed_buf ed @ [c]\<rparr>"] Cons.prems show ?case
    by (simp add: typed_events_def)
qed

lemma add_history_buf [simp]: "ed_buf (add_history ed) = ed_buf ed"
  by (simp add: add_history_def)

lemma cat_line: "name \<noteq> [] \<Longrightarrow> 32 \<notin> set name \<Longrightarrow> sh_argv (ascii ''cat '' @ name) = [ascii ''cat'', name]"
proof -
  assume n: "name \<noteq> []" "32 \<notin> set name"
  have a: "ascii ''cat '' @ name = ascii ''cat'' @ 32 # name" by (simp add: ascii_def)
  have "split_spaces (ascii ''cat'' @ 32 # name) = [ascii ''cat'', name]"
    using n by (subst split_word_space) (simp_all add: split_word ascii_def)
  moreover have "dropWhile (\<lambda>c. c = 32) (ascii ''cat'' @ 32 # name) = ascii ''cat'' @ 32 # name" by (simp add: ascii_def)
  ultimately show ?thesis using n unfolding sh_argv_def a by (simp add: sh_words_split MAX_ARGS_def ascii_def)
qed

lemma cat_keeps:
  assumes "cmd_cat env name s = Some s'"
  shows "\<exists>es f w. s' = emit es (set_fat f w s)"
proof (cases "sh_strlen name = 0")
  case True
  with assms have "s' = emit [sayln ''Usage: cat <filename>'' []] (set_fat (sys_fat s) (nic_hw s) s)"
    by (simp add: cmd_cat_def set_fat_def)
  then show ?thesis by blast
next
  case False
  with assms obtain p f w where o: "fat32_open (env_disk env) name (sys_fat s) (nic_hw s) = Some (p, f, w)"
    by (auto simp: cmd_cat_def bind_eq_Some_conv)
  show ?thesis
  proof (cases p)
    case None
    with False assms o have "s' = emit [sayln ''cat: %s: not found'' [AStr name]] (set_fat f w s)" by (simp add: cmd_cat_def)
    then show ?thesis by blast
  next
    case (Some u)
    with False assms o obtain n es f2 w2 where "cat_loop (env_disk env) 0 [] f w = Some (n, es, f2, w2)"
      by (auto simp: cmd_cat_def bind_eq_Some_conv)
    with Some False assms o show ?thesis by (auto simp: cmd_cat_def)
  qed
qed

lemma prompt_keeps [simp]:
  "prompt_events (emit es s) = prompt_events s" "prompt_events (set_fat f w s) = prompt_events s"
  "sys_stopped (emit es s) = sys_stopped s" "sys_stopped (set_fat f w s) = sys_stopped s"
  by (simp_all add: prompt_events_def emit_def set_fat_def)

lemma pit_ports_quiet: "outb_all pio_ports [(PIT_COMMAND, a), (PIT_CHANNEL0, b), (PIT_CHANNEL0, c)] d = d"
  by (rule outb_other) (simp add: PIT_COMMAND_def PIT_CHANNEL0_def)

text \<open>A command line that does not stop the machine, from the start of the shell to the next prompt.\<close>

lemma shell_one_line:
  fixes s :: "'w system"
  assumes line: "list_all (\<lambda>c. 32 \<le> c \<and> c \<le> 126) line" "length line < SHELL_BUF_SIZE"
    and run: "\<And>hs n. \<exists>es f w. sh_parse_and_run env line
        (emit (shell_banner @ prompt_events s @ typed_events line) ((timer_set env s)\<lparr>history_rows := hs, history_count := n\<rparr>))
      = Some (emit es (set_fat f w (emit (shell_banner @ prompt_events s @ typed_events line)
          ((timer_set env s)\<lparr>history_rows := hs, history_count := n\<rparr>)))) \<and> P es f w"
    and on: "\<not> sys_stopped s"
  shows "\<exists>s' es f w. shell_run env (line @ [10]) s = Some s' \<and> P es f w \<and> sys_fat s' = f \<and> nic_hw s' = w
    \<and> nic_out s' = nic_out s @ shell_banner @ prompt_events s @ typed_events line @ es @ [Flush] @ prompt_events s"
proof -
  let ?ed = "add_history \<lparr>ed_buf = line, browse_pos = history_count s, ed_temp = [], hist_rows = history_rows s, hist_count = history_count s\<rparr>"
  let ?s2 = "emit (shell_banner @ prompt_events s @ typed_events line) ((timer_set env s)\<lparr>history_rows := hist_rows ?ed, history_count := hist_count ?ed\<rparr>)"
  from run [where hs = "hist_rows ?ed" and n = "hist_count ?ed"] obtain es f w where
    r: "sh_parse_and_run env line ?s2 = Some (emit es (set_fat f w ?s2))" "P es f w" by blast
  have pr: "prompt_events (emit shell_banner (timer_set env s)) = prompt_events s"
    by (simp add: timer_set_def prompt_events_def emit_def)
  have rl: "sh_readline SHELL_BUF_SIZE (line @ [10]) (history_rows s) (history_count s) = Some (typed_events line, ?ed, Some [])"
    unfolding sh_readline_def by (subst type_line [OF line(1)]) (use line(2) in simp_all)
  have pass: "shell_pass env (line @ [10]) (emit shell_banner (timer_set env s))
      = Some (Some [], emit [Flush] (emit es (set_fat f w ?s2)))"
    using r(1) on rl unfolding shell_pass_def Let_def pr by (simp add: timer_set_def emit_def set_fat_def)
  have "shell_run env (line @ [10]) s = shell_loop env [] (emit [Flush] (emit es (set_fat f w ?s2)))"
    by (subst shell_run_timer, subst shell_loop.simps) (simp add: pass)
  then show ?thesis using r(2)
    by (intro exI [of _ "emit (prompt_events s) (emit [Flush] (emit es (set_fat f w ?s2)))"] exI [of _ es] exI [of _ f] exI [of _ w])
      (simp add: shell_waits timer_set_def, simp add: emit_def set_fat_def prompt_events_def)
qed

lemma boots_with_volume:
  assumes "env_bus (boot_env env) = pio_bus" "env_disk (boot_env env) = ata_dev pio_ports" "sys_fat (m_sys m) = fat32_boot"
    and "pio_ready 1 (nic_hw (m_sys m))" "fat_formatted (pio_disk (nic_hw (m_sys m)))" "length (partitions (m_parts m)) = 16"
  shows "\<exists>m'. kernel_main env m = Some m' \<and> sys_fat (m_sys m') = mounted_fat (pio_disk (nic_hw (m_sys m)))
    \<and> fat_on_disk (sys_fat (m_sys m')) (nic_hw (m_sys m')) \<and> pio_disk (nic_hw (m_sys m')) = pio_disk (nic_hw (m_sys m))
    \<and> sys_stopped (m_sys m') = sys_stopped (m_sys m)"
proof -
  from formatted_mounts [OF assms(5,4,6)] obtain n t' d1 d2 where
    d: "partition_detect (ata_dev pio_ports) 1 (m_parts m) (nic_hw (m_sys m)) = (n, t', d1)" "0 \<le> n"
      "fat32_mount (ata_dev pio_ports) 1 0 t' fat32_boot d1 = Some (0, mounted_fat (pio_disk (nic_hw (m_sys m))), d2)"
      "fat_on_disk (mounted_fat (pio_disk (nic_hw (m_sys m)))) d2" "pio_disk d2 = pio_disk (nic_hw (m_sys m))" by blast
  obtain m2 where m2: "storage_init env (devices_ready env m) = Some m2"
    "sys_fat (m_sys m2) = mounted_fat (pio_disk (nic_hw (m_sys m)))" "nic_hw (m_sys m2) = d2"
    using d(1-3) by (simp add: storage_init_def Let_def devices_ready_facts drive_untouched [OF assms(1)] assms(2,3) set_fat_def)
  with d(4,5) show ?thesis
    by (intro exI [of _ "start_shell env m2"])
      (simp add: kernel_main_def start_shell_facts storage_init_facts(3) [OF m2(1)] devices_ready_facts)
qed

lemma typed_cat:
  assumes idle: "fat_on_disk (sys_fat s) (nic_hw s)" "holds_file name ch c (sys_fat s) (pio_disk (nic_hw s))"
    and name: "name \<noteq> []" "list_all (\<lambda>c. 32 < c \<and> c \<le> 126) name" "length name + 4 < SHELL_BUF_SIZE"
    and c: "0 \<notin> set c" "length c \<le> nat INT_MAX" and on: "\<not> sys_stopped s"
    and env: "env_bus env = pio_bus" "env_disk env = ata_dev pio_ports"
  shows "\<exists>s' es. shell_run env ((ascii ''cat '' @ name) @ [10]) s = Some s' \<and> pio_disk (nic_hw s') = pio_disk (nic_hw s)
    \<and> printed_text es = Some (10 # (if c = [] then ascii ''(empty)'' @ [10] else c) @ [10])
    \<and> nic_out s' = nic_out s @ shell_banner @ prompt_events s @ typed_events (ascii ''cat '' @ name) @ es @ [Flush] @ prompt_events s"
proof -
  let ?line = "ascii ''cat '' @ name"
  let ?P = "\<lambda>es f w. pio_disk w = pio_disk (nic_hw s)
    \<and> printed_text es = Some (10 # (if c = [] then ascii ''(empty)'' @ [10] else c) @ [10])"
  have sp: "32 \<notin> set name" using name(2) by (auto simp: list_all_iff)
  have l: "list_all (\<lambda>c. 32 \<le> c \<and> c \<le> 126) ?line" "length ?line < SHELL_BUF_SIZE"
    using name by (auto simp: list_all_iff ascii_def word_le_nat_alt word_less_nat_alt)
  have cat: "\<exists>es f w. sh_parse_and_run env ?line t = Some (emit es (set_fat f w t)) \<and> ?P es f w"
    if t: "sys_fat t = sys_fat s" "nic_hw t = nic_hw s" for t
  proof -
    from on_disk_idle [OF idle] have "elf_idle name ch c (pio_disk (nic_hw s)) (sys_fat t, nic_hw t)" by (simp add: t)
    from cat_file [OF this name(1) c env(2)] obtain t' where
      t': "cmd_cat env name t = Some t'" "pio_disk (nic_hw t') = pio_disk (nic_hw s)"
        "printed_since t t' = Some (10 # (if c = [] then ascii ''(empty)'' @ [10] else c) @ [10])" by blast
    from cat_keeps [OF t'(1)] obtain es f w where e: "t' = emit es (set_fat f w t)" by blast
    have "run_command env [ascii ''cat'', name] t = cmd_cat env name t"
      by (simp add: run_command_def Let_def arg1_def ascii_def)
    then have "sh_parse_and_run env ?line t = cmd_cat env name t"
      by (simp only: sh_parse_and_run_def cat_line [OF name(1) sp] Let_def list.distinct if_False)
    with t'(1) e have "sh_parse_and_run env ?line t = Some (emit es (set_fat f w t))" by (simp only:)
    moreover have "printed_text es = printed_since t t'" "nic_hw t' = w"
      by (simp_all add: printed_since_def e emit_def set_fat_def)
    then have "?P es f w" using t'(2,3) by simp
    ultimately show ?thesis by blast
  qed
  have "sys_fat (emit es ((timer_set env s)\<lparr>history_rows := hs, history_count := n\<rparr>)) = sys_fat s"
    "nic_hw (emit es ((timer_set env s)\<lparr>history_rows := hs, history_count := n\<rparr>)) = nic_hw s" for es hs n
    by (simp_all add: timer_set_def env(1) pio_bus_ports pit_ports_quiet del: outb_all.simps)
  note run = cat [OF this]
  obtain s' es f w where "shell_run env (?line @ [10]) s = Some s'" "?P es f w" "nic_hw s' = w"
    "nic_out s' = nic_out s @ shell_banner @ prompt_events s @ typed_events ?line @ es @ [Flush] @ prompt_events s"
    using shell_one_line [where P = ?P, OF l run on] by force
  then show ?thesis by (intro exI [of _ s'] exI [of _ es]) simp
qed

subsection \<open>Properties\<close>

text \<open>C2: from power-on to a file on the screen. On a machine with a drive that is partitioned and
  formatted, booting mounts its first partition, in a state all properties of the file system
  start from, and a \<open>cat\<close> of a file of the volume, typed at the prompt, prints exactly the
  characters of the file and then a new prompt, and leaves the disk as it was.\<close>

theorem boot_then_cat:
  assumes "env_bus (boot_env env) = pio_bus" "env_disk (boot_env env) = ata_dev pio_ports" "sys_fat (m_sys m) = fat32_boot"
    and "pio_ready 1 (nic_hw (m_sys m))" "fat_formatted (pio_disk (nic_hw (m_sys m)))" "length (partitions (m_parts m)) = 16"
    and "\<not> sys_stopped (m_sys m)"
    and "holds_file name ch c (mounted_fat (pio_disk (nic_hw (m_sys m)))) (pio_disk (nic_hw (m_sys m)))"
    and "name \<noteq> []" "list_all (\<lambda>c. 32 < c \<and> c \<le> 126) name" "length name + 4 < SHELL_BUF_SIZE"
    and "0 \<notin> set c" "length c \<le> nat INT_MAX"
  shows "\<exists>m' s es. kernel_main env m = Some m' \<and> fat_on_disk (sys_fat (m_sys m')) (nic_hw (m_sys m'))
    \<and> current_fs (sys_fat (m_sys m')) = volume_of (pio_disk (nic_hw (m_sys m)))
    \<and> kernel_run env ((ascii ''cat '' @ name) @ [10]) m = Some s \<and> pio_disk (nic_hw s) = pio_disk (nic_hw (m_sys m))
    \<and> nic_out s = nic_out (m_sys m') @ shell_banner @ prompt_events (m_sys m') @ typed_events (ascii ''cat '' @ name) @ es
        @ [Flush] @ prompt_events (m_sys m')
    \<and> printed_text es = Some (10 # (if c = [] then ascii ''(empty)'' @ [10] else c) @ [10])"
proof -
  from boots_with_volume [OF assms(1-6)] obtain m' where
    m': "kernel_main env m = Some m'" "sys_fat (m_sys m') = mounted_fat (pio_disk (nic_hw (m_sys m)))"
      "fat_on_disk (sys_fat (m_sys m')) (nic_hw (m_sys m'))" "pio_disk (nic_hw (m_sys m')) = pio_disk (nic_hw (m_sys m))"
      "sys_stopped (m_sys m') = sys_stopped (m_sys m)" by blast
  have "holds_file name ch c (sys_fat (m_sys m')) (pio_disk (nic_hw (m_sys m')))" "\<not> sys_stopped (m_sys m')"
    using assms(7,8) m'(2,4,5) by simp_all
  from typed_cat [OF m'(3) this(1) assms(9-13) this(2) assms(1,2)] m' show ?thesis
    by (auto simp: kernel_run_def mounted_fat_def)
qed

text \<open>
  A drive whose first sector is both the partition table, with one partition that starts at
  sector 0, and the boot sector of the small volume of the file system examples.
\<close>

definition hybrid_sector :: bytes where
  "hybrid_sector = replicate 11 0 @ [0, 2, 1, 1, 0, 2] @ replicate 15 0 @ [11, 0, 0, 0, 1, 0, 0, 0] @ replicate 4 0 @ [2]
     @ replicate 405 0 @ [0x0C] @ replicate 7 0 @ [11] @ replicate 51 0 @ [0x55, 0xAA]"

definition hybrid_drive :: "bytes \<Rightarrow> pio" where
  "hybrid_drive c = (sample_holding c)\<lparr>pio_disk := (pio_disk (sample_holding c))(0 := hybrid_sector)\<rparr>"

lemma hybrid_fields:
  "length hybrid_sector = 512" "mbr_signature hybrid_sector = 0xAA55" "get_le16 hybrid_sector 510 = 0xAA55"
  "mbr_entry hybrid_sector 0 = \<lparr>m_boot_flag = 0, m_type = 0x0C, m_start_lba = 0, m_size_sectors = 11\<rparr>"
  "boot_fields hybrid_sector = \<lparr>boot_bytes_per_sector = 512, boot_sectors_per_cluster = 1, boot_reserved_sectors = 1,
     boot_num_fats = 2, boot_total_sectors_32 = 11, boot_sectors_per_fat = 1, boot_root_cluster = 2\<rparr>"
  by (simp_all add: hybrid_sector_def mbr_signature_def mbr_entry_def boot_fields_def get_le16_def get_le32_def join16_def
      join32_def nth_append Let_def)

lemma hybrid_volume: "volume_of (pio_disk (hybrid_drive c)) = sample_fs"
proof -
  have "(replicate 256 (0 :: u8))[0 := 47, 1 := 0] = 47 # replicate 255 0"
    by (rule nth_equalityI) (auto simp: nth_list_update nth_Cons split: nat.splits)
  then show ?thesis
    by (simp add: volume_of_def hybrid_drive_def hybrid_fields boot_fs_def sample_fs_def fat32_boot_def Let_def)
qed

lemma hybrid_mounted: "mounted_fat (pio_disk (hybrid_drive c)) = sample_fat"
  by (simp add: mounted_fat_def hybrid_volume sample_fat_def)

lemma hybrid_ready: "pio_ready 1 (hybrid_drive c)"
proof -
  have "pio_ready 1 (sample_holding c)" using sample_holding_on_disk [of c] by (simp add: fat_on_disk_def sample_drive_of)
  moreover from pio_readyD [OF this] have "disk_ok (pio_disk (hybrid_drive c))"
    by (simp add: hybrid_drive_def disk_ok_def hybrid_fields)
  ultimately show ?thesis by (simp add: hybrid_drive_def pio_ready_disk)
qed

lemma hybrid_formatted: "fat_formatted (pio_disk (hybrid_drive c))"
  unfolding fat_formatted_def hybrid_volume using sample_vol
  by (simp add: hybrid_drive_def hybrid_fields PART_TYPE_FAT32_LBA_def)

lemma hybrid_holds:
  assumes "length c \<le> 512"
  shows "holds_file sample_name [3] c sample_fat (pio_disk (hybrid_drive c))"
proof -
  have cl: "cluster_data sample_fs (pio_disk (hybrid_drive c)) x = cluster_data sample_fs (pio_disk (sample_holding c)) x" for x
    by (auto simp: cluster_data_def cluster_sector_def disk_run_def sample_fs_def hybrid_drive_def intro!: arg_cong [of _ _ concat])
  have nx: "fat_next sample_fs (pio_disk (hybrid_drive c)) x = fat_next sample_fs (pio_disk (sample_holding c)) x" for x
    by (simp add: fat_next_def fat_val_def entry_sector_def sample_fs_def hybrid_drive_def)
  from sample_holds [OF assms] show ?thesis
    by (simp add: holds_file_def sample_fields cl nx chain_links_def chain_data_def)
qed

text \<open>The machine at power-on, and what the linker provides.\<close>

definition sample_machine :: "pio \<Rightarrow> pio machine" where
  "sample_machine d = \<lparr>m_sys = sample_system fat32_boot d,
     m_gdt = \<lparr>gdt_buf = replicate 56 0, tss = replicate 104 0, gdtr_limit = 0, gdtr_base = 0, gdt_loaded = False,
       segment_selector = 0, task_register = 0\<rparr>,
     m_parts = empty_table,
     m_console = \<lparr>con_vga = sample_console, con_dbg = \<lparr>debug_log = replicate DEBUG_LOG_SIZE 0, debug_log_pos = 0,
       debug_log_overflow = False, debug_log_enabled = False, debug_print_enabled = False\<rparr>, con_serial = serial_boot\<rparr>\<rparr>"

definition sample_boot_env :: "pio boot_env" where
  "sample_boot_env = \<lparr>boot_env = sample_env, boot_stub = (\<lambda>n. 0x110000 + 16 * of_nat n), boot_idt = 0x120000,
     boot_gdt = 0x121000, boot_tss = 0x121100, boot_shell = 0x101000\<rparr>"

lemma sample_machine_facts:
  "env_bus (boot_env sample_boot_env) = pio_bus" "env_disk (boot_env sample_boot_env) = ata_dev pio_ports"
  "sys_fat (m_sys (sample_machine d)) = fat32_boot" "nic_hw (m_sys (sample_machine d)) = d"
  "length (partitions (m_parts (sample_machine d))) = 16" "\<not> sys_stopped (m_sys (sample_machine d))"
  "length (tasks (k_sched (sys_kernel (m_sys (sample_machine d))))) = MAX_TASKS"
  using length_empty_table reach_wf [OF started_facts(1)]
  by (simp_all add: sample_machine_def sample_boot_env_def sample_env_def sample_system_def sample_kernel_def net.extend_def
      sample_net_def sample_nic_def nic.extend_def sched_wf_def)

theorem boot_then_cat_witness:
  "\<exists>s es. kernel_run sample_boot_env ((ascii ''cat '' @ sample_name) @ [10]) (sample_machine (hybrid_drive [72, 105])) = Some s
    \<and> printed_text es = Some [10, 72, 105, 10] \<and> (\<exists>xs ys. nic_out s = xs @ es @ ys)"
proof -
  let ?d = "hybrid_drive [72, 105]"
  have "length [72, 105 :: u8] \<le> 512" by simp
  note h = hybrid_holds [OF this]
  have n: "sample_name \<noteq> []" "list_all (\<lambda>c. 32 < c \<and> c \<le> 126) sample_name" "length sample_name + 4 < SHELL_BUF_SIZE"
    by (simp_all add: sample_name_def SHELL_BUF_SIZE_def)
  have c: "0 \<notin> set [72, 105 :: u8]" "length [72, 105 :: u8] \<le> nat INT_MAX" by (simp_all add: INT_MAX_def)
  note f = sample_machine_facts(1,2) sample_machine_facts(3-7) [where d = ?d]
  from boot_then_cat [OF f(1-3), unfolded f(4), OF hybrid_ready hybrid_formatted f(5,6), unfolded hybrid_mounted, OF h n c]
  obtain m' :: "pio machine" and s es where "kernel_run sample_boot_env ((ascii ''cat '' @ sample_name) @ [10]) (sample_machine ?d) = Some s"
    "nic_out s = nic_out (m_sys m') @ shell_banner @ prompt_events (m_sys m') @ typed_events (ascii ''cat '' @ sample_name) @ es
      @ [Flush] @ prompt_events (m_sys m')"
    "printed_text es = Some (10 # (if [72, 105 :: u8] = [] then ascii ''(empty)'' @ [10] else [72, 105]) @ [10])"
    by blast
  then show ?thesis
    by (intro exI [of _ s] exI [of _ es]) (simp, metis append.assoc)
qed

text \<open>C6: the kernel boots to the shell prompt. Whatever the devices answer, if the mount does not divide by a
  cluster size of zero, \<open>kernel_main\<close> starts the scheduler with one task: the
  shell, at the entry of \<open>shell_run\<close> with interrupts on, on a kernel stack above the at most
  six pages of the network card. The handlers of the faults, the keyboard and the system
  calls are in place, that of the timer is not, so no tick finds the scheduler before the
  shell runs; the shell installs it at 100 Hz and waits at its prompt.\<close>

theorem boot_reaches_prompt:
  assumes "length (tasks (k_sched (sys_kernel (m_sys m)))) = MAX_TASKS"
    and "disk_usable env m"
  shows "\<exists>m' s k. kernel_main env m = Some m' \<and> kernel_run env [] m = Some s
    \<and> 512 \<le> k \<and> k \<le> 518 \<and> sched_reach (scheduler_of (m_sys m')) \<and> stacks_ok (k + 4) (scheduler_of (m_sys m'))
    \<and> current_task_id (scheduler_of (m_sys m')) = 0
    \<and> t_name (tasks (scheduler_of (m_sys m')) ! 0) = ascii ''shell''
    \<and> (\<forall>i < MAX_TASKS. 0 < i \<longrightarrow> t_state (tasks (scheduler_of (m_sys m')) ! i) = TASK_UNUSED)
    \<and> cpu (scheduler_of (m_sys m')) = fresh_context (boot_shell env) (page_addr (k + 4) - 8)
    \<and> int_flag (scheduler_of (m_sys m'))
    \<and> interrupt_handlers (sys_kernel (m_sys m')) = boot_handlers
    \<and> interrupt_handlers (sys_kernel s) = boot_handlers[32 := Some Pit_Irq_Handler]
    \<and> pit_frequency (sys_kernel s) = 100
    \<and> nic_out s = nic_out (m_sys m') @ shell_banner @ prompt_events (m_sys m')"
proof -
  obtain m2 where m2: "storage_init env (devices_ready env m) = Some m2"
    using assms(2) by (auto simp: mount_defined kernel_main_def)
  define m' where "m' = start_shell env m2"
  have main: "kernel_main env m = Some m'" by (simp add: kernel_main_def m2 m'_def)
  have ker: "tasks (scheduler_of (m_sys m2)) = tasks (k_sched (sys_kernel (m_sys m)))"
    "interrupt_handlers (sys_kernel (m_sys m2)) = boot_handlers"
    by (simp_all add: scheduler_of_def storage_init_facts(1) [OF m2] devices_ready_facts)
  have "first_taken 6 (phys (scheduler_of (m_sys m2)))"
    by (simp add: scheduler_of_def storage_init_facts(2) [OF m2] devices_ready_facts)
  from boot_sched_runs [OF _ this, of "ascii ''shell''" "boot_shell env"] assms(1) ker(1) obtain k where
    "512 \<le> k" "k \<le> 518" "stacks_ok (k + 4) (scheduler_of (m_sys m'))" "sched_reach (scheduler_of (m_sys m'))"
    "current_task_id (scheduler_of (m_sys m')) = 0" "t_name (tasks (scheduler_of (m_sys m')) ! 0) = copy_task_name (ascii ''shell'')"
    "\<forall>i < MAX_TASKS. 0 < i \<longrightarrow> t_state (tasks (scheduler_of (m_sys m')) ! i) = TASK_UNUSED"
    "cpu (scheduler_of (m_sys m')) = fresh_context (boot_shell env) (page_addr (k + 4) - 8)" "int_flag (scheduler_of (m_sys m'))"
    unfolding m'_def start_shell_facts(1) by auto
  moreover have "copy_task_name (ascii ''shell'') = ascii ''shell''"
    by (simp add: copy_task_name_def ascii_def c_str_def)
  moreover have "interrupt_handlers (sys_kernel (m_sys m')) = boot_handlers"
    by (simp add: m'_def start_shell_facts(5) ker(2))
  moreover have "kernel_run env [] m = shell_run (boot_env env) [] (m_sys m')" by (simp add: kernel_run_def main)
  ultimately show ?thesis using main
    by (intro exI [of _ m'] exI [of _ "the (shell_run (boot_env env) [] (m_sys m'))"] exI [of _ k])
      (simp add: shell_run_timer shell_waits timer_set_def register_interrupt_handler_def,
        simp add: emit_def prompt_events_def)
qed

theorem boot_reaches_prompt_witness:
  "\<exists>m' s. kernel_main sample_boot_env (sample_machine (hybrid_drive [])) = Some m'
    \<and> current_task_id (scheduler_of (m_sys m')) = 0 \<and> rip (cpu (scheduler_of (m_sys m'))) = 0x101000
    \<and> kernel_run sample_boot_env [] (sample_machine (hybrid_drive [])) = Some s \<and> pit_frequency (sys_kernel s) = 100"
proof -
  note f = sample_machine_facts(1,2) sample_machine_facts(3-7) [where d = "hybrid_drive []"]
  from boots_with_volume [OF f(1-3), unfolded f(4), OF hybrid_ready hybrid_formatted f(5)]
  have "disk_usable sample_boot_env (sample_machine (hybrid_drive []))" by (auto simp: mount_defined)
  from boot_reaches_prompt [OF f(7) this] show ?thesis by (fastforce simp: fresh_context_def sample_boot_env_def)
qed

end
