(* ===== verification/Key_Delivery.thy ===== *)
theory Key_Delivery
  imports Boot_Props
begin

text \<open>
  Keys from the controller to the reader: scancodes raise keyboard interrupts, the dispatcher
  calls the driver, and \<open>keyboard_getchar\<close> hands the characters out, with key presses, releases
  and reads in any order. The controller is the output buffer of an 8042; the serial line is
  idle.
\<close>

record ps2 =
  ps2_codes :: "u8 list"

definition ps2_inb :: "u16 \<Rightarrow> ps2 \<Rightarrow> u8 \<times> ps2" where
  "ps2_inb p w =
     (if p = 0x64 then (if ps2_codes w = [] then 0 else 1, w)
      else if p = 0x60 \<and> ps2_codes w \<noteq> [] then (hd (ps2_codes w), w\<lparr>ps2_codes := tl (ps2_codes w)\<rparr>)
      else if p = 0x3FD then (0x20, w)
      else (0, w))"

definition ps2_ports :: "ps2 ports" where
  "ps2_ports = \<lparr>inb = ps2_inb, outb = (\<lambda>p v w. w), inw = (\<lambda>p w. (0, w)), outw = (\<lambda>p v w. w)\<rparr>"

text \<open>A scancode arrives in the buffer and raises the interrupt with vector 33.\<close>

fun key_interrupts :: "registers \<Rightarrow> u8 list \<Rightarrow> kernel \<times> ps2 \<Rightarrow> kernel \<times> ps2" where
  "key_interrupts regs [] s = s"
| "key_interrupts regs (sc # scs) (k, w) =
     (case interrupt_handler ps2_ports (regs\<lparr>int_no := 33\<rparr>) k (w\<lparr>ps2_codes := ps2_codes w @ [sc]\<rparr>) of
        (r, regs', k, w) \<Rightarrow> key_interrupts regs scs (k, w))"

text \<open>
  What happens: shift or ctrl is pressed or released, a character key is pressed or released,
  an extended key is struck, a character is read. Modifiers may stay down over any number of
  the others.
\<close>

datatype key_op = Shift bool | Ctrl bool | Down u8 | Up u8 | Cursor u8 | Read

fun op_codes :: "key_op \<Rightarrow> u8 list" where
  "op_codes (Shift b) = [if b then 0x2A else 0xAA]"
| "op_codes (Ctrl b) = [if b then 0x1D else 0x9D]"
| "op_codes (Down sc) = [sc]"
| "op_codes (Up sc) = [sc OR 0x80]"
| "op_codes (Cursor sc) = [0xE0, sc, 0xE0, sc OR 0x80]"
| "op_codes Read = []"

fun op_ok :: "key_op \<Rightarrow> bool" where
  "op_ok (Down sc) \<longleftrightarrow> stroke_ok (Key False False sc)"
| "op_ok (Up sc) \<longleftrightarrow> stroke_ok (Key False False sc)"
| "op_ok (Cursor sc) \<longleftrightarrow> stroke_ok (Arrow sc)"
| "op_ok _ \<longleftrightarrow> True"

text \<open>The characters read; a read that would wait gives none.\<close>

fun key_run :: "registers \<Rightarrow> key_op list \<Rightarrow> kernel \<times> ps2 \<Rightarrow> bytes \<times> kernel \<times> ps2" where
  "key_run regs [] s = ([], s)"
| "key_run regs (Read # ops) (k, w) =
     (case keyboard_getchar ps2_ports (\<lambda>_. True) [False] (k_kbd k) w of
        (c, kb, w) \<Rightarrow> (case key_run regs ops (k\<lparr>k_kbd := kb\<rparr>, w) of
           (cs, s) \<Rightarrow> ((case c of None \<Rightarrow> [] | Some c \<Rightarrow> [c]) @ cs, s)))"
| "key_run regs (x # ops) s = key_run regs ops (key_interrupts regs (op_codes x) s)"

text \<open>
  What is promised: a queue of at most 63 characters, and whether shift and ctrl are down.
  Pressing a key adds the character it has under the modifiers, unless the queue is full;
  reading takes the oldest.
\<close>

definition wait_63 :: "bytes \<Rightarrow> u8 \<Rightarrow> bytes" where
  "wait_63 q c = (if length q < 63 then q @ [c] else q)"

fun typed :: "key_op \<Rightarrow> bool \<times> bool \<times> bytes \<Rightarrow> bool \<times> bool \<times> bytes" where
  "typed (Shift b) (sh, ct, q) = (b, ct, q)"
| "typed (Ctrl b) (sh, ct, q) = (sh, b, q)"
| "typed (Down sc) (sh, ct, q) = (sh, ct, wait_63 q (stroke_char (Key sh ct sc)))"
| "typed (Cursor sc) (sh, ct, q) = (sh, ct, wait_63 q (stroke_char (Arrow sc)))"
| "typed (Up sc) s = s"
| "typed Read (sh, ct, q) = (sh, ct, tl q)"

fun typist :: "key_op list \<Rightarrow> bool \<times> bool \<times> bytes \<Rightarrow> bytes \<times> bool \<times> bool \<times> bytes" where
  "typist [] s = ([], s)"
| "typist (x # ops) (sh, ct, q) =
     (case typist ops (typed x (sh, ct, q)) of (cs, s) \<Rightarrow> ((if x = Read then take 1 q else []) @ cs, s))"

definition typing_state :: "kbd \<Rightarrow> bool \<times> bool \<times> bytes" where
  "typing_state kb = (shift_held kb, ctrl_held kb, kbd_chars kb)"

definition kbd_ready :: "kbd \<Rightarrow> bool" where
  "kbd_ready kb \<longleftrightarrow> kbd_inv kb \<and> \<not> extended kb"

lemma op_step:
  assumes "kbd_ready kb" "op_ok x" "x \<noteq> Read"
  shows "kbd_ready (fold kbd_process_scancode (op_codes x) kb)
    \<and> typing_state (fold kbd_process_scancode (op_codes x) kb) = typed x (typing_state kb)"
proof -
  have r: "kbd_inv kb" "\<not> extended kb" using assms(1) by (simp_all add: kbd_ready_def)
  have q: "kbd_inv (kbd_enqueue c k) \<and> kbd_chars (kbd_enqueue c k) = wait_63 (kbd_chars k) c" if "kbd_inv k" for c k
    using kq.push_invar [OF that] kq.push_contents [OF that] by (simp add: wait_63_def KBD_QUEUE_SIZE_def)
  show ?thesis
  proof (cases x)
    case (Down sc)
    with assms(2) have sc: "sc < 0x80" "kbdus ! unat sc \<noteq> 0" "kbdus_shift ! unat sc \<noteq> 0" by auto
    from press [OF sc r(2)] q [of "kbd_mark_interrupt_if_needed c kb" c for c] r Down show ?thesis
      by (simp add: kbd_ready_def typing_state_def Let_def del: stroke_char.simps)
  next
    case (Up sc)
    with assms(2) release [of sc kb] r show ?thesis by (simp add: kbd_ready_def)
  next
    case (Cursor sc)
    with assms(2) have sc: "sc \<in> {0x48, 0x50, 0x4B, 0x4D, 0x49, 0x51}" by simp
    let ?e = "kbd_enqueue (stroke_char (Arrow sc)) (kb\<lparr>extended := True\<rparr>\<lparr>extended := False\<rparr>)"
    have "fold kbd_process_scancode (op_codes x) kb = ?e\<lparr>extended := True\<rparr>\<lparr>extended := False\<rparr>"
      using arrow_codes [OF sc] by (simp add: Cursor modifier_codes del: stroke_char.simps)
    with q [of "kb\<lparr>extended := False\<rparr>" "stroke_char (Arrow sc)"] r Cursor show ?thesis
      by (simp add: kbd_ready_def typing_state_def del: stroke_char.simps)
  qed (use r assms(3) modifier_codes in \<open>simp_all add: kbd_ready_def typing_state_def\<close>)
qed

lemma key_dispatch:
  assumes "interrupt_handlers k ! 33 = Some Keyboard_Callback" "ps2_codes w = []"
  shows "interrupt_handler ps2_ports (regs\<lparr>int_no := 33\<rparr>) k (w\<lparr>ps2_codes := [sc]\<rparr>)
    = (Returned, regs\<lparr>int_no := 33\<rparr>, k\<lparr>k_kbd := kbd_process_scancode sc (k_kbd k)\<rparr>, w)"
  using assms by (cases w) (simp add: interrupt_handler_def run_handler_def keyboard_callback_def ps2_ports_def ps2_inb_def
      send_eoi_def Let_def)

lemma key_interrupts_scancodes:
  assumes "interrupt_handlers k ! 33 = Some Keyboard_Callback" "ps2_codes w = []"
  shows "key_interrupts regs scs (k, w) = (k\<lparr>k_kbd := fold kbd_process_scancode scs (k_kbd k)\<rparr>, w)"
  using assms
proof (induction scs arbitrary: k)
  case (Cons sc scs)
  then show ?case by (simp add: key_dispatch)
qed simp

lemma idle_getchar:
  assumes "kbd_inv kb" "kbd_chars kb = []" "ps2_codes w = []"
  shows "keyboard_getchar ps2_ports (\<lambda>_. True) [False] kb w = (None, kb, w)"
  using kq.pop_empty [OF assms(1)] assms(2) by (simp add: getchar_poll_def serial_poll_def ps2_ports_def ps2_inb_def)

lemma getchar_front:
  assumes "kbd_ready kb" "kbd_chars kb = c # cs"
  shows "\<exists>kb'. keyboard_getchar io iflag [False] kb w = (Some c, kb', w) \<and> kbd_ready kb'
    \<and> typing_state kb' = typed Read (typing_state kb)"
proof -
  from assms have "kbd_inv kb" by (simp add: kbd_ready_def)
  from kq.pop_first [OF this assms(2)] obtain kb' where d: "kbd_dequeue kb = Some (c, kb')" "kbd_chars kb' = cs" "kbd_inv kb'"
    by blast
  then have "shift_held kb' = shift_held kb" "ctrl_held kb' = ctrl_held kb" "extended kb' = extended kb"
    by (auto simp: kbd_dequeue_def split: if_splits)
  with d assms show ?thesis by (simp add: getchar_poll_def kbd_ready_def typing_state_def)
qed

lemma typed_read: "kbd_chars kb = [] \<Longrightarrow> typed Read (typing_state kb) = typing_state kb"
  by (simp add: typing_state_def)

lemma key_run_other:
  "x \<noteq> Read \<Longrightarrow> key_run regs (x # ops) s = key_run regs ops (key_interrupts regs (op_codes x) s)"
  by (cases x) (simp_all del: op_codes.simps key_interrupts.simps)

lemma key_run_typist:
  assumes "interrupt_handlers k ! 33 = Some Keyboard_Callback" "kbd_ready (k_kbd k)" "ps2_codes w = []" "list_all op_ok ops"
  shows "\<exists>kb. key_run regs ops (k, w) = (fst (typist ops (typing_state (k_kbd k))), k\<lparr>k_kbd := kb\<rparr>, w)
    \<and> typing_state kb = snd (typist ops (typing_state (k_kbd k))) \<and> kbd_ready kb"
  using assms
proof (induction ops arbitrary: k)
  case Nil
  then show ?case by (intro exI [of _ "k_kbd k"]) simp
next
  case (Cons x ops)
  let ?s = "typing_state (k_kbd k)"
  have t: "typist (x # ops) ?s = (case typist ops (typed x ?s) of
      (cs, s) \<Rightarrow> ((if x = Read then take 1 (kbd_chars (k_kbd k)) else []) @ cs, s))"
    by (simp add: typing_state_def)
  have ih: "\<exists>kb'. key_run regs ops (k\<lparr>k_kbd := kb\<rparr>, w) = (fst (typist ops (typing_state kb)), k\<lparr>k_kbd := kb'\<rparr>, w)
      \<and> typing_state kb' = snd (typist ops (typing_state kb)) \<and> kbd_ready kb'" if "kbd_ready kb" for kb
    using Cons.IH [of "k\<lparr>k_kbd := kb\<rparr>"] Cons.prems that by simp
  show ?case
  proof (cases "x = Read")
    case False
    let ?kb = "fold kbd_process_scancode (op_codes x) (k_kbd k)"
    have st: "kbd_ready ?kb" "typing_state ?kb = typed x ?s" using op_step [OF Cons.prems(2) _ False] Cons.prems(4) by simp_all
    have "key_run regs (x # ops) (k, w) = key_run regs ops (k\<lparr>k_kbd := ?kb\<rparr>, w)"
      unfolding key_run_other [OF False] using Cons.prems(1,3) by (simp only: key_interrupts_scancodes)
    with ih [OF st(1)] False show ?thesis unfolding t st(2) by (simp add: split_beta)
  next
    case True
    show ?thesis
    proof (cases "kbd_chars (k_kbd k)")
      case Nil
      from Cons.prems(2) have "kbd_inv (k_kbd k)" by (simp add: kbd_ready_def)
      from idle_getchar [OF this Nil Cons.prems(3)] ih [OF Cons.prems(2)] True typed_read [OF Nil] Nil
      show ?thesis unfolding t by (auto simp: split_beta)
    next
      case (Cons c cs)
      from getchar_front [where io = ps2_ports and iflag = "\<lambda>_. True" and w = w, OF Cons.prems(2) Cons] obtain kb where
        g: "keyboard_getchar ps2_ports (\<lambda>_. True) [False] (k_kbd k) w = (Some c, kb, w)" "kbd_ready kb"
          "typing_state kb = typed Read ?s" by blast
      from ih [OF g(2)] obtain kb' where
        r: "key_run regs ops (k\<lparr>k_kbd := kb\<rparr>, w) = (fst (typist ops (typed Read ?s)), k\<lparr>k_kbd := kb'\<rparr>, w)"
          "typing_state kb' = snd (typist ops (typed Read ?s))" "kbd_ready kb'" unfolding g(3) by blast
      have "key_run regs (x # ops) (k, w) = (c # fst (typist ops (typed Read ?s)), k\<lparr>k_kbd := kb'\<rparr>, w)"
        unfolding True by (simp only: key_run.simps g(1) r(1) prod.case option.case append.simps)
      with r(2,3) show ?thesis unfolding t by (auto simp: True Cons split_beta)
    qed
  qed
qed

text \<open>C25: the interrupt path implements one queue of 63 characters. With the keyboard's handler
  registered for vector 33, as the boot sequence does, take any sequence of presses and
  releases of shift, ctrl and character keys and of strokes of the extended keys, whose
  scancodes come one interrupt each, mixed with reads by \<open>keyboard_getchar\<close>. Modifiers may be
  held over any part of it. What is read and what is left waiting is as if each press had put
  the character the key has under the modifiers then held at the end of a queue, unless 63
  characters wait, when it is dropped, and each read had taken the first; every scancode was
  taken from the controller, and of the kernel nothing but the keyboard's own state changes.\<close>

theorem keys_reach_reader:
  assumes "interrupt_handlers k ! 33 = Some Keyboard_Callback" "kbd_inv (k_kbd k)" "\<not> extended (k_kbd k)" "ps2_codes w = []"
    and "list_all op_ok ops"
    and "typist ops (shift_held (k_kbd k), ctrl_held (k_kbd k), kbd_chars (k_kbd k)) = (cs, sh, ct, q)"
  shows "\<exists>kb. key_run regs ops (k, w) = (cs, k\<lparr>k_kbd := kb\<rparr>, w)
    \<and> kbd_chars kb = q \<and> shift_held kb = sh \<and> ctrl_held kb = ct \<and> kbd_inv kb \<and> \<not> extended kb"
proof -
  have "kbd_ready (k_kbd k)" using assms(2,3) by (simp add: kbd_ready_def)
  from key_run_typist [OF assms(1) this assms(4,5)] assms(6) show ?thesis
    by (auto simp: typing_state_def kbd_ready_def)
qed

text \<open>Shift is held over two keys, the second with ctrl, and a read; then 70 presses.\<close>

theorem keys_reach_reader_witness:
  "\<exists>kb. key_run (sample_regs 0 0)
      ([Shift True, Down 0x1E, Up 0x1E, Read, Ctrl True, Down 0x1E, Shift False, Cursor 0x48, Ctrl False] @ replicate 70 (Down 0x1F) @ [Read])
      (sample_kernel\<lparr>interrupt_handlers := boot_handlers\<rparr>, \<lparr>ps2_codes = []\<rparr>)
    = ([65, 1], sample_kernel\<lparr>interrupt_handlers := boot_handlers, k_kbd := kb\<rparr>, \<lparr>ps2_codes = []\<rparr>)
    \<and> kbd_chars kb = KEY_UP # replicate 61 115"
proof -
  let ?ops = "[Shift True, Down 0x1E, Up 0x1E, Read, Ctrl True, Down 0x1E, Shift False, Cursor 0x48, Ctrl False]
    @ replicate 70 (Down 0x1F) @ [Read]"
  let ?k = "sample_kernel\<lparr>interrupt_handlers := boot_handlers\<rparr>"
  have kb: "k_kbd ?k = kbd_boot" "kbd_chars kbd_boot = []" "kbd_inv kbd_boot" "\<not> shift_held kbd_boot" "\<not> ctrl_held kbd_boot"
    "\<not> extended kbd_boot"
    by (simp_all add: sample_kernel_def kbd_boot_def kbd_inv_def KBD_QUEUE_SIZE_def kbd_chars_def ring_list_def ring_count_def)
  have h: "interrupt_handlers ?k ! 33 = Some Keyboard_Callback" by (simp add: boot_handlers_def)
  have c: "stroke_char (Key True False 0x1E) = 65" "stroke_char (Key True True 0x1E) = 1" "stroke_char (Key False False 0x1F) = 115"
    "stroke_char (Arrow 0x48) = KEY_UP"
    by (simp_all add: kbdus_def kbdus_shift_def ascii_def ctrl_code_def word_less_nat_alt)
  have ok: "list_all op_ok ?ops"
    by (simp add: kbdus_def kbdus_shift_def ascii_def list_all_iff)
  have t: "typist ?ops (False, False, []) = ([65, 1], False, False, KEY_UP # replicate 61 115)"
    by (simp add: c wait_63_def numeral_eq_Suc del: stroke_char.simps)
  have "typist ?ops (shift_held (k_kbd ?k), ctrl_held (k_kbd ?k), kbd_chars (k_kbd ?k))
      = ([65, 1], False, False, KEY_UP # replicate 61 115)"
    unfolding kb(1,2) using t by (simp only: kb)
  from keys_reach_reader [OF h _ _ _ ok this, where w = "\<lparr>ps2_codes = []\<rparr>" and regs = "sample_regs 0 0", unfolded kb(1)] kb(3,6)
  have "\<exists>kb. key_run (sample_regs 0 0) ?ops (?k, \<lparr>ps2_codes = []\<rparr>) = ([65, 1], ?k\<lparr>k_kbd := kb\<rparr>, \<lparr>ps2_codes = []\<rparr>)
    \<and> kbd_chars kb = KEY_UP # replicate 61 115" by (metis ps2.select_convs(1))
  then show ?thesis by (simp only: kernel.update_convs kernel.simps)
qed

end
