(* ===== verification/Shell_Ls.thy ===== *)
theory Shell_Ls
  imports Shell_Files
begin

text \<open>
  What \<open>ls\<close> prints: the entries in use of the working directory's first cluster, which is all
  the code loads, one line each, with names that the commands on files take.
\<close>

text \<open>
  The first \<open>n\<close> entries, up to the first empty one, that are neither deleted nor part of a long
  name. A listing takes them from one cluster; the entries of further clusters of a directory
  are not shown.
\<close>

definition listed_entries :: "bytes \<Rightarrow> nat \<Rightarrow> bytes list" where
  "listed_entries buf n = filter (\<lambda>e. \<not> de_free e) (takeWhile (\<lambda>e. e ! 0 \<noteq> 0) (map (dir_entry buf) [0..<n]))"

definition entry_line :: "bytes \<Rightarrow> bool \<times> bytes \<times> u32" where
  "entry_line e = (de_attributes e AND ATTR_DIRECTORY \<noteq> 0, fat32_format_name (de_name e) 32, de_file_size e)"

lemma list_loop_entries:
  "(i + n) * 32 \<le> length buf \<Longrightarrow> list_loop buf i n
    = Some (map entry_line (filter (\<lambda>e. \<not> de_free e) (takeWhile (\<lambda>e. e ! 0 \<noteq> 0) (map (dir_entry buf) [i..<i + n]))))"
proof (induction n arbitrary: i)
  case (Suc n)
  have u: "[i..<i + Suc n] = i # [Suc i..<Suc i + n]" by (simp add: upt_conv_Cons del: upt_Suc)
  from Suc.IH [of "Suc i"] Suc.prems show ?case
    by (subst u) (simp add: Let_def entry_line_def del: upt_Suc)
qed simp

text \<open>A name of the directory as it is printed is taken back.\<close>

lemma put_limited_upto: "length out + length cs < m \<Longrightarrow> length out + length cs < m' \<Longrightarrow> put_limited m cs out = put_limited m' cs out"
  by (simp add: put_limited_fits)

lemma format_width:
  assumes "length n = 11"
  shows "fat32_format_name n 32 = fat32_format_name n 13"
proof -
  let ?b = "takeWhile (\<lambda>c. c \<noteq> 32) (take 8 n)" let ?e = "takeWhile (\<lambda>c. c \<noteq> 32) (take 3 (drop 8 n))"
  have l: "length ?b \<le> 8" "length ?e \<le> 3"
    using length_takeWhile_le [of "\<lambda>c. c \<noteq> 32" "take 8 n"] length_takeWhile_le [of "\<lambda>c. c \<noteq> 32" "take 3 (drop 8 n)"] by simp_all
  have "put_limited 32 ?b [] = ?b" "put_limited 13 ?b [] = ?b" using l(1) by (simp_all add: put_limited_fits)
  moreover have "put_limited 32 ?e (?b @ [46]) = put_limited 13 ?e (?b @ [46])"
    using l by (intro put_limited_upto) simp_all
  ultimately show ?thesis using l(1) by (simp add: fat32_format_name_def Let_def)
qed

lemma shown_name_accepted:
  assumes "plain_name s" "fat32_make_name83 s = Some (de_name e)"
  shows "fat32_format_name (de_name e) 32 = map upper s" "fat32_make_name83 (map upper s) = Some (de_name e)"
  using format_make_name83 [OF assms] name83_upper [OF assms] format_width by simp_all

text \<open>The directory a listing without a path shows.\<close>

definition working_dir :: "fat_fs \<Rightarrow> u32" where
  "working_dir v = (if current_dir_cluster v = 0 then root_dir_cluster v else current_dir_cluster v)"

lemma list_directory_ok:
  assumes f: "fat_on_disk f d" and c: "data_cluster (current_fs f) (working_dir (current_fs f))"
  shows "\<exists>d'. fat32_list_directory (ata_dev pio_ports) None f d
      = Some (0, map entry_line (listed_entries (cluster_data (current_fs f) (pio_disk d) (working_dir (current_fs f))) (max_entries f)), d')
    \<and> pio_disk d' = pio_disk d \<and> fat_on_disk f d'"
proof -
  let ?buf = "cluster_data (current_fs f) (pio_disk d) (working_dir (current_fs f))"
  note g = fat_diskD [OF f]
  from vol.load_dir [OF g(1) c] obtain d' where
    l: "fat32_load_directory_cluster (ata_dev pio_ports) (working_dir (current_fs f)) 16384 f d = (0, ?buf, d')"
      "vol.good (fat_drive f) (ata_dev pio_ports) f d'" "pio_disk d' = pio_disk d" by blast
  have "length ?buf = unat (sectors_per_cluster (current_fs f)) * 512" using g(5) by (simp add: cluster_data_def)
  then have "(0 + max_entries f) * 32 \<le> length ?buf" by (simp add: max_entries_def)
  note e = list_loop_entries [OF this]
  have "fat_on_disk f d'" using f l(3) vol.goodD(1) [OF l(2)] by (simp add: fat_on_disk_def)
  with l(1,3) g(2) e show ?thesis
    by (simp add: fat32_list_directory_def Let_def working_dir_def [symmetric] listed_entries_def)
qed


lemma sample_listing:
  assumes "length c \<le> 512"
  shows "listed_entries (cluster_data sample_fs (pio_disk (sample_holding c)) 2) 16 = [file_entry sample_name83 3 (length c)]"
proof -
  let ?e = "file_entry sample_name83 3 (length c)" let ?buf = "dir_put 0 ?e (replicate 512 0)"
  have n: "length sample_name83 = 11" "hd sample_name83 \<noteq> 0" "hd sample_name83 \<noteq> 0xE5" by (simp_all add: sample_name83_def)
  have u: "[0..<16] = 0 # 1 # [2..<16 :: nat]" by (simp add: upt_conv_Cons)
  have le: "length ?e = 32" using n(1) by (simp add: file_entry_def)
  then have "dir_entry ?buf 0 = ?e" "dir_entry ?buf 1 ! 0 = 0"
    by (simp_all add: dir_entry_put_other sample_entry)
  then show ?thesis using file_entry_live [OF n]
    by (simp add: listed_entries_def sample_holding_data(2) [OF assms] u)
qed


end
