(* ===== verification/Spec2Isabelle.thy ===== *)
theory Spec2Isabelle
  imports Heap Scheduler_Guarantees Serial Keyboard Vga Debuglog Printf Ata_Pio Fat_Props Fat_Mount Interrupt_Props Elf_Props
    Gdt Nic_Init Shell_Parsing Shell_History Shell_Screen Shell_Exec Boot_Volume Key_Delivery Shell_Ls
begin

text \<open>
  The XOS kernel: a 64-bit single-processor kernel in C (\<open>src/src/kernel\<close>) with a page allocator,
  a round-robin scheduler, drivers for screen, keyboard, serial port, timer, PIO disks and one
  network card, a FAT32 file system, an ELF loader and an interactive shell. This library models
  every C file of it and proves what its parts promise. Names are those of the source, with a
  suffix where HOL has the name already; file names below are relative to \<open>src/src/kernel\<close>.

  \<^bold>\<open>Conventions.\<close> The C integer types are words (\<open>u8\<close> to \<open>u64\<close>), so arithmetic wraps as in
  C; an \<open>int\<close> that only counts is an \<open>int\<close> or \<open>nat\<close>, and where an overflow of one is reachable
  it is an undefined result. Strings are the bytes before their NUL, buffers are byte lists with
  their length in the invariant. Static variables are the fields of one record per file. An error
  return is the returned number, NULL is 0 or \<open>None\<close>; the outer \<open>None\<close> of an \<open>option\<close> result
  stands for undefined behaviour or for a call that does not come back. The processor's port and
  memory-mapped accesses are a record of functions over a type of worlds (\<open>Ports\<close>, \<open>Bus\<close>), a
  parameter of every driver: the answers of a device are arbitrary unless a theorem says
  otherwise. Where a theorem needs a device that works, the device is a model from its data
  sheet that is an instance of that record: a PIO drive (\<open>Ata_Pio\<close>), two cascaded interrupt
  controllers (\<open>Interrupt_Props\<close>), a keyboard controller (\<open>Key_Delivery\<close>), a UART (\<open>Serial\<close>), a board with a host bridge and a network
  card (\<open>Nic_Props\<close>). Console output is a list of calls (\<open>Console_Events\<close>) that
  \<open>perform\<close> carries out on the models of \<open>printf\<close> and the screen.

  \<^bold>\<open>The theories and the code.\<close>
  \<^item> \<open>Kernel_Prelude\<close>: types, byte buffers, little-endian fields, the shared rewrite rules.
    \<open>C_Memory\<close>: the byte-copy loops of \<open>fs/\<close> and the list operations they are.
  \<^item> \<open>Page_Allocator\<close> (interface), \<open>Pmm\<close> (\<open>mm/pmm.c\<close>), \<open>Heap\<close> (\<open>mm/heap.c\<close>): the bitmap hands
    out the lowest free page; heap blocks and pages never overlap.
  \<^item> \<open>Scheduler\<close> (\<open>sched/scheduler.c\<close> and the context switch), \<open>Scheduler_Runs\<close>,
    \<open>Scheduler_Props\<close>, \<open>Scheduler_Guarantees\<close>: the states reachable by creations, ticks, yields
    and register changes; one running task, round-robin order, bounded waiting, exact
    resumption, disjoint stacks.
  \<^item> \<open>Ring_Queue\<close> (interface), \<open>Serial\<close>, \<open>Keyboard\<close> (\<open>drivers/serial\<close>, \<open>drivers/input\<close>): the two
    bounded queues, what is sent, and the characters a sequence of key strokes gives.
  \<^item> \<open>Vga\<close>, \<open>Debuglog\<close>, \<open>Printf\<close>, \<open>Console_Events\<close> (\<open>drivers/display\<close>, \<open>lib/\<close>): the screen
    with its history, the log, formatted output.
  \<^item> \<open>Block_Device\<close> (interface), \<open>Ata\<close>, \<open>Ata_Pio\<close> (\<open>drivers/storage\<close>), \<open>Partition\<close>
    (\<open>fs/partition.c\<close>): sector transfers and the master boot record.
  \<^item> \<open>Fat_State\<close>, \<open>Fat_Names\<close>, \<open>Fat_Table\<close>, \<open>Fat_Dir\<close>, \<open>Fat_File\<close> (\<open>fs/fat32.c\<close>): the operations.
    \<open>Fat_Chains\<close>, \<open>Fat_Clusters\<close>, \<open>Fat_Read\<close>, \<open>Fat_Files\<close>, \<open>Fat_Delete\<close>: lemmas over any working
    disk, in the locale \<open>fat_disk\<close>. \<open>Fat_Props\<close>, \<open>Fat_Mount\<close>: the properties on the PIO drive.
  \<^item> \<open>Interrupts\<close>, \<open>Interrupt_Props\<close> (\<open>idt.c\<close>, \<open>drivers/timer/pit.c\<close>, \<open>arch/syscall.c\<close>): gates,
    dispatch, the tick, system calls. \<open>Gdt\<close> (\<open>arch/gdt.c\<close>): descriptors and the task segment.
  \<^item> \<open>Elf\<close>, \<open>Elf_Props\<close> (\<open>arch/elf.c\<close>): loading a program from a file, over the interface
    \<open>readable_file\<close> that the file system provides.
  \<^item> \<open>Pci\<close>, \<open>Rtl8139\<close>, \<open>Net\<close>, \<open>Net_Props\<close>, \<open>Nic_Props\<close>, \<open>Nic_Init\<close> (\<open>drivers/bus\<close>,
    \<open>drivers/network\<close>): the inventory of the bus, the card's set-up and transmit ring, frames.
  \<^item> \<open>Shell_Text\<close>, \<open>Shell_Line\<close>, \<open>Shell\<close> (\<open>shell/shell.c\<close>): text helpers, line editor, commands
    and main loop. \<open>Shell_Parsing\<close>, \<open>Shell_History\<close>, \<open>Shell_Screen\<close>, \<open>Shell_Files\<close>, \<open>Shell_Ls\<close>,
    \<open>Shell_Exec\<close>: what is read, remembered, shown, stored, listed and run.
  \<^item> \<open>Key_Delivery\<close>: a key stroke from the keyboard controller through interrupt, dispatch and
    driver to the reader, over a model of the controller.
  \<^item> \<open>Boot\<close>, \<open>Boot_Props\<close>, \<open>Boot_Volume\<close> (\<open>kernel.c\<close>): the boot sequence over all of the above.

  \<^bold>\<open>How the parts meet.\<close> The state of the shell extends that of the network layer, which extends
  that of the card: one page bitmap, one memory, one console and one world, with the kernel
  record (interrupt table, handlers, scheduler, queues) and the file system beside them. A
  component that relies on another does so through a locale: pages (\<open>page_allocator\<close>,
  \<open>first_fit_allocator\<close>), queues (\<open>bounded_queue\<close>), sectors (\<open>block_device\<close>, extended by
  \<open>fat_disk\<close>), files (\<open>readable_file\<close>), the bus (\<open>pci_host\<close>) and a card (\<open>tx_card\<close>). Each is
  interpreted on the code's model, or on the device that plays the part. The properties that
  span components are those of \<open>Shell_Files\<close>, \<open>Shell_Ls\<close>, \<open>Shell_Exec\<close>, \<open>Key_Delivery\<close> and
  \<open>Boot_Volume\<close>: what \<open>echo\<close> stores \<open>cat\<close> prints, \<open>ls\<close> shows the entries in use, what is typed
  arrives through interrupts in order, \<open>exec\<close> makes a ready user task of a file, and from power-on a typed command
  prints a file of the disk.

  \<^bold>\<open>Abstract contracts.\<close> A page allocator owns a growing set of pages; a queue is a list of
  bounded length; a disk is a map from sector numbers to 512 bytes; the allocation table is a
  successor function and a file the bytes of its chain (\<open>holds_file\<close>), read by
  \<open>fat_reads_content\<close> in any series of reads; memory after loading is given by the program
  headers; the text on the screen is the line being edited.

  \<^bold>\<open>Bounds and fuel.\<close> Loops over a fixed range recurse over the list of indices. The drain loop
  of the serial port has the ring's size as fuel, more than it can hold; the two wait loops of
  the disk driver keep the bound of 100000 tries of the source, and the reset of the card that
  of 1000000, so these are no fuel but the code. Reading and writing recurse over what is still to
  be moved. Where the source bounds nothing (freeing a chain, \<open>cat\<close>, the wait for the keyboard
  controller) the function is a \<open>partial_function\<close>, and that it returns is proved:
  \<open>fat_free_returns\<close> also for a cyclic chain, \<open>cat_prints_file\<close> for every file. Loops that wait for an interrupt
  or a key are functions of the list of what arrives; they end with the list, and a theorem that
  the code returns gives the list that is enough. Theorems on the file system hold for volumes
  of at most 8 sectors per cluster and 2 to the power of 28 sectors, the sizes the driver's
  buffer and 28-bit addresses allow.

  \<^bold>\<open>Not modelled.\<close> The assembly (\<open>boot/\<close>, \<open>arch/*.asm\<close>, \<open>sched/task_bootstrap.asm\<close>, \<open>user/\<close>)
  except for the context switch, whose effect on registers and stack is part of \<open>Scheduler\<close>:
  it is not C and its effect (the saved registers, the loaded tables) is a parameter or a
  field. Interrupts between two statements of a driver: the handlers run where the code waits
  or yields, and the interrupt flag is tracked so that the places where one could come are
  visible. The debugging messages of the scheduler, the file system, the partition code and the
  loader, which change no state but the console. Timing of devices beyond the busy periods of
  the drive. The build files and the image script.
\<close>

end
